(* ===== verification/Prelude.thy ===== *)
theory Prelude
  imports Main
begin

text \<open>
  What the components share: Rust strings as lists of Unicode scalar values with the
  \<^verbatim>\<open>str\<close> operations the sources call, \<^verbatim>\<open>Result\<close> values as sums
  (\<open>Inl\<close> the error), and the generic list and map lemmas of the proofs.
\<close>

named_theorems result_simps \<open>equations that run a computation on \<open>Result\<close> values\<close>
named_theorems str_simps \<open>equations that evaluate string operations\<close>

subsection \<open>Result values\<close>

text \<open>The operator \<open>?\<close> of Rust: stop at the first error, else continue with the value.\<close>

definition rbind :: "'e + 'a \<Rightarrow> ('a \<Rightarrow> 'e + 'b) \<Rightarrow> 'e + 'b" where
  "rbind r f = (case r of Inl e \<Rightarrow> Inl e | Inr a \<Rightarrow> f a)"

lemma rbind_Inl [simp, result_simps]: "rbind (Inl e) f = Inl e"
  by (simp add: rbind_def)

lemma rbind_Inr [simp, result_simps]: "rbind (Inr a) f = f a"
  by (simp add: rbind_def)

lemma rbind_eq_Inr_iff: "rbind r f = Inr b \<longleftrightarrow> (\<exists>a. r = Inr a \<and> f a = Inr b)"
  by (cases r) auto

lemma rbind_eq_Inl_iff: "rbind r f = Inl e \<longleftrightarrow> r = Inl e \<or> (\<exists>a. r = Inr a \<and> f a = Inl e)"
  by (cases r) auto

lemma rbind_InrE:
  assumes "rbind r f = Inr b"
  obtains a where "r = Inr a" and "f a = Inr b"
  using assms by (auto simp: rbind_eq_Inr_iff)

text \<open>\<^verbatim>\<open>ok_or_else\<close>: an option as a result.\<close>

definition ok_or :: "'e \<Rightarrow> 'a option \<Rightarrow> 'e + 'a" where
  "ok_or e x = (case x of None \<Rightarrow> Inl e | Some a \<Rightarrow> Inr a)"

lemma ok_or_simps [simp, result_simps]: "ok_or e None = Inl e" "ok_or e (Some a) = Inr a"
  by (simp_all add: ok_or_def)

text \<open>A loop over a list whose body may fail, threading a state.\<close>

fun rfold :: "('a \<Rightarrow> 's \<Rightarrow> 'e + 's) \<Rightarrow> 'a list \<Rightarrow> 's \<Rightarrow> 'e + 's" where
  "rfold f [] s = Inr s"
| "rfold f (x # xs) s = rbind (f x s) (rfold f xs)"

lemma rfold_append: "rfold f (xs @ ys) s = rbind (rfold f xs s) (rfold f ys)"
proof (induction xs arbitrary: s)
  case Nil
  then show ?case by simp
next
  case (Cons x xs)
  then show ?case by (cases "f x s") simp_all
qed

text \<open>An invariant of the body is an invariant of the loop.\<close>

lemma rfold_inv:
  assumes "rfold f xs s = Inr s'" and "I s"
    and "\<And>x s s'. x \<in> set xs \<Longrightarrow> I s \<Longrightarrow> f x s = Inr s' \<Longrightarrow> I s'"
  shows "I s'"
  using assms
proof (induction xs arbitrary: s)
  case Nil
  then show ?case by simp
next
  case (Cons x xs)
  from Cons.prems(1) obtain t where t: "f x s = Inr t" and rest: "rfold f xs t = Inr s'"
    by (auto elim: rbind_InrE)
  have "I t" by (rule Cons.prems(3)[OF _ Cons.prems(2) t]) simp
  with rest show ?case by (rule Cons.IH) (use Cons.prems(3) in auto)
qed

text \<open>An invariant of the body that also excludes an error excludes it for the loop.\<close>

lemma rfold_no_error:
  assumes "I s"
    and "\<And>x s. x \<in> set xs \<Longrightarrow> I s \<Longrightarrow> f x s \<noteq> Inl e \<and> (\<forall>s'. f x s = Inr s' \<longrightarrow> I s')"
  shows "rfold f xs s \<noteq> Inl e \<and> (\<forall>s'. rfold f xs s = Inr s' \<longrightarrow> I s')"
  using assms
proof (induction xs arbitrary: s)
  case Nil
  then show ?case by simp
next
  case (Cons x xs)
  from Cons.prems(2) [of x s] Cons.prems(1)
  have step: "f x s \<noteq> Inl e" "\<And>s'. f x s = Inr s' \<Longrightarrow> I s'" by auto
  show ?case
  proof (cases "f x s")
    case (Inl e')
    with step(1) show ?thesis by simp
  next
    case (Inr s')
    have "rfold f xs s' \<noteq> Inl e \<and> (\<forall>s''. rfold f xs s' = Inr s'' \<longrightarrow> I s'')"
      using step(2) [OF Inr] Cons.prems(2) by (intro Cons.IH) auto
    with Inr show ?thesis by simp
  qed
qed

subsection \<open>Characters and strings\<close>

text \<open>
  A Rust \<^verbatim>\<open>char\<close> is its Unicode scalar value, a \<^verbatim>\<open>String\<close> a sequence of them;
  \<^verbatim>\<open>len()\<close> counts the bytes of its UTF-8 form (\<open>byte_len\<close>). String constants of
  the sources are ASCII and written \<open>lit ''...''\<close>.
\<close>

type_synonym rchar = int
type_synonym rstr = "rchar list"

definition lit :: "string \<Rightarrow> rstr" where
  "lit s = map of_char s"

lemma lit_simps [simp, str_simps]:
  "lit [] = []"
  "lit (c # s) = of_char c # lit s"
  by (simp_all add: lit_def)

text \<open>\<^verbatim>\<open>char::is_whitespace\<close>: the Unicode property White\_Space.\<close>

definition is_whitespace :: "rchar \<Rightarrow> bool" where
  "is_whitespace c \<longleftrightarrow>
     (9 \<le> c \<and> c \<le> 13) \<or> c = 32 \<or> c = 133 \<or> c = 160 \<or> c = 5760
     \<or> (8192 \<le> c \<and> c \<le> 8202) \<or> c = 8232 \<or> c = 8233 \<or> c = 8239 \<or> c = 8287 \<or> c = 12288"

text \<open>\<^verbatim>\<open>char::is_control\<close>: the Unicode category Cc.\<close>

definition is_control :: "rchar \<Rightarrow> bool" where
  "is_control c \<longleftrightarrow> c < 32 \<or> (127 \<le> c \<and> c < 160)"

definition is_ascii_alphanumeric :: "rchar \<Rightarrow> bool" where
  "is_ascii_alphanumeric c \<longleftrightarrow>
     (48 \<le> c \<and> c \<le> 57) \<or> (65 \<le> c \<and> c \<le> 90) \<or> (97 \<le> c \<and> c \<le> 122)"

definition char_utf8_len :: "rchar \<Rightarrow> nat" where
  "char_utf8_len c = (if c < 128 then 1 else if c < 2048 then 2 else if c < 65536 then 3 else 4)"

definition byte_len :: "rstr \<Rightarrow> nat" where
  "byte_len s = sum_list (map char_utf8_len s)"

lemma byte_len_simps [simp, str_simps]:
  "byte_len [] = 0"
  "byte_len (c # s) = char_utf8_len c + byte_len s"
  "byte_len (s @ t) = byte_len s + byte_len t"
  by (simp_all add: byte_len_def)

lemma length_le_byte_len: "length s \<le> byte_len s"
  by (induction s) (auto simp: char_utf8_len_def)

definition trim_start :: "rstr \<Rightarrow> rstr" where
  "trim_start s = dropWhile is_whitespace s"

definition trim_end :: "rstr \<Rightarrow> rstr" where
  "trim_end s = rev (dropWhile is_whitespace (rev s))"

definition trim :: "rstr \<Rightarrow> rstr" where
  "trim s = trim_start (trim_end s)"

fun strip_prefix :: "'a list \<Rightarrow> 'a list \<Rightarrow> 'a list option" where
  "strip_prefix [] s = Some s"
| "strip_prefix (p # ps) [] = None"
| "strip_prefix (p # ps) (c # s) = (if p = c then strip_prefix ps s else None)"

definition starts_with :: "'a list \<Rightarrow> 'a list \<Rightarrow> bool" where
  "starts_with p s \<longleftrightarrow> strip_prefix p s \<noteq> None"

definition strip_suffix :: "'a list \<Rightarrow> 'a list \<Rightarrow> 'a list option" where
  "strip_suffix p s = map_option rev (strip_prefix (rev p) (rev s))"

definition ends_with :: "'a list \<Rightarrow> 'a list \<Rightarrow> bool" where
  "ends_with p s \<longleftrightarrow> strip_suffix p s \<noteq> None"

lemma strip_prefix_Some_iff: "strip_prefix p s = Some r \<longleftrightarrow> s = p @ r"
  by (induction p s rule: strip_prefix.induct) auto

lemma strip_prefix_append [simp]: "strip_prefix p (p @ r) = Some r"
  by (simp add: strip_prefix_Some_iff)

lemma starts_with_iff: "starts_with p s \<longleftrightarrow> (\<exists>r. s = p @ r)"
  by (auto simp: starts_with_def strip_prefix_Some_iff)

lemma strip_suffix_Some_iff: "strip_suffix p s = Some r \<longleftrightarrow> s = r @ p"
proof -
  have "rev s = rev p @ rev r \<longleftrightarrow> s = r @ p"
    by (metis rev_append rev_rev_ident)
  then show ?thesis
    by (auto simp: strip_suffix_def strip_prefix_Some_iff)
qed

lemma ends_with_iff: "ends_with p s \<longleftrightarrow> (\<exists>r. s = r @ p)"
  by (auto simp: ends_with_def strip_suffix_Some_iff)

text \<open>A string with no white space at its ends is its own \<^verbatim>\<open>trim\<close>.\<close>

lemma trim_end_id: "s = [] \<or> \<not> is_whitespace (last s) \<Longrightarrow> trim_end s = s"
  by (cases s rule: rev_cases) (auto simp: trim_end_def)

lemma trim_start_id: "s = [] \<or> \<not> is_whitespace (hd s) \<Longrightarrow> trim_start s = s"
  by (cases s) (auto simp: trim_start_def)

lemma trim_id:
  "s = [] \<or> (\<not> is_whitespace (hd s) \<and> \<not> is_whitespace (last s)) \<Longrightarrow> trim s = s"
  by (auto simp: trim_def trim_end_id trim_start_id)

lemma trim_end_idem [simp]: "trim_end (trim_end s) = trim_end s"
  by (simp add: trim_end_def)

subsection \<open>Vectors and byte ranges\<close>

text \<open>\<^verbatim>\<open>last()\<close> and an update through \<^verbatim>\<open>last_mut()\<close>.\<close>

definition last_opt :: "'a list \<Rightarrow> 'a option" where
  "last_opt xs = (if xs = [] then None else Some (last xs))"

definition update_last :: "('a \<Rightarrow> 'a) \<Rightarrow> 'a list \<Rightarrow> 'a list" where
  "update_last f xs = (if xs = [] then [] else butlast xs @ [f (last xs)])"

lemma last_opt_simps [simp]: "last_opt [] = None" "last_opt (xs @ [x]) = Some x" "last_opt [x] = Some x"
  by (simp_all add: last_opt_def)

lemma update_last_simps [simp]:
  "update_last f [] = []" "update_last f (xs @ [x]) = xs @ [f x]" "update_last f [x] = [f x]"
  by (simp_all add: update_last_def)

text \<open>
  \<^verbatim>\<open>str::get(a..b)\<close> cuts at byte offsets, which have to be at the border of a
  character; \<open>unwrap_or_default\<close> makes a failed cut the empty string.
\<close>

fun split_bytes :: "nat \<Rightarrow> rstr \<Rightarrow> (rstr \<times> rstr) option" where
  "split_bytes n [] = (if n = 0 then Some ([], []) else None)"
| "split_bytes n (c # s) =
     (if n = 0 then Some ([], c # s)
      else if char_utf8_len c \<le> n
      then map_option (\<lambda>(a, b). (c # a, b)) (split_bytes (n - char_utf8_len c) s)
      else None)"

definition str_get :: "nat \<Rightarrow> nat \<Rightarrow> rstr \<Rightarrow> rstr option" where
  "str_get a b s =
     (if b < a then None
      else case split_bytes a s of None \<Rightarrow> None
        | Some (_, rest) \<Rightarrow> map_option fst (split_bytes (b - a) rest))"

definition str_get_or_default :: "nat \<Rightarrow> nat \<Rightarrow> rstr \<Rightarrow> rstr" where
  "str_get_or_default a b s = (case str_get a b s of None \<Rightarrow> [] | Some t \<Rightarrow> t)"

lemma split_bytes_SomeD: "split_bytes n s = Some (a, b) \<Longrightarrow> s = a @ b \<and> byte_len a = n"
proof (induction n s arbitrary: a b rule: split_bytes.induct)
  case (1 n)
  then show ?case by (auto split: if_splits)
next
  case (2 n c s)
  then show ?case by (fastforce split: if_splits)
qed

lemma split_bytes_append: "split_bytes (byte_len a) (a @ b) = Some (a, b)"
proof (induction a)
  case Nil
  then show ?case by (cases b) simp_all
next
  case (Cons c a)
  then show ?case by (auto simp: char_utf8_len_def)
qed

subsection \<open>Splitting and joining\<close>

text \<open>\<^verbatim>\<open>split(c)\<close>: the fields between the separators, always at least one.\<close>

fun split_on :: "'a \<Rightarrow> 'a list \<Rightarrow> 'a list list" where
  "split_on c [] = [[]]"
| "split_on c (x # xs) =
     (if x = c then [] # split_on c xs
      else (case split_on c xs of [] \<Rightarrow> [[x]] | l # ls \<Rightarrow> (x # l) # ls))"

fun join :: "'a list \<Rightarrow> 'a list list \<Rightarrow> 'a list" where
  "join sep [] = []"
| "join sep [x] = x"
| "join sep (x # y # ys) = x @ sep @ join sep (y # ys)"

lemma split_on_nonempty [simp]: "split_on c s \<noteq> []"
  by (induction s) (auto split: list.splits)

lemma join_split_on [simp]: "join [c] (split_on c s) = s"
proof (induction s)
  case Nil
  then show ?case by simp
next
  case (Cons x s)
  then show ?case
    by (cases "split_on c s"; cases "tl (split_on c s)") auto
qed

lemma split_on_append: "split_on c (a @ c # b) = split_on c a @ split_on c b"
  by (induction a) (auto split: list.splits)

lemma split_on_notin: "c \<notin> set s \<Longrightarrow> split_on c s = [s]"
  by (induction s) auto

lemma split_on_join:
  "ls \<noteq> [] \<Longrightarrow> \<forall>l \<in> set ls. c \<notin> set l \<Longrightarrow> split_on c (join [c] ls) = ls"
  by (induction "[c]" ls rule: join.induct) (auto simp: split_on_notin split_on_append)

lemma split_on_no_sep: "l \<in> set (split_on c s) \<Longrightarrow> c \<notin> set l"
proof (induction s arbitrary: l)
  case Nil
  then show ?case by simp
next
  case (Cons x s)
  then show ?case by (auto split: list.splits if_splits)
qed

text \<open>
  A stable sort of a list in which the keys below \<open>k\<close> are in order and the others are \<open>k\<close>
  moves the others to the end.
\<close>

lemma sort_key_partition:
  assumes "sorted (map f (filter P xs))"
    and "\<forall>x \<in> set xs. if P x then f x < k else f x = k"
  shows "sort_key f xs = filter P xs @ filter (\<lambda>x. \<not> P x) xs"
  using assms
proof (induction xs)
  case Nil
  then show ?case by simp
next
  case (Cons x xs)
  have IH: "sort_key f xs = filter P xs @ filter (\<lambda>x. \<not> P x) xs"
    using Cons.prems by (intro Cons.IH) (auto split: if_splits)
  have skip: "insort_key f x (ys @ zs) = ys @ x # zs"
    if "\<forall>y \<in> set ys. f y < f x" and "\<forall>z \<in> set zs. f x \<le> f z" for ys zs
    using that
  proof (induction ys)
    case Nil
    then show ?case by (cases zs) auto
  qed auto
  show ?case
  proof (cases "P x")
    case True
    have "insort_key f x ([] @ (filter P xs @ filter (\<lambda>x. \<not> P x) xs)) =
      [] @ x # filter P xs @ filter (\<lambda>x. \<not> P x) xs"
      using Cons.prems True by (intro skip) (auto split: if_splits)
    with True show ?thesis by (simp add: IH)
  next
    case False
    have "insort_key f x (filter P xs @ filter (\<lambda>x. \<not> P x) xs) =
      filter P xs @ x # filter (\<lambda>x. \<not> P x) xs"
      using Cons.prems(2) False by (intro skip) (auto split: if_splits)
    with False show ?thesis by (simp add: IH)
  qed
qed

text \<open>
  \<^verbatim>\<open>str::lines\<close>: lines end at a line feed, which goes together with one carriage
  return before it; text after the last line feed is a line of its own unless it is empty.
\<close>

definition strip_cr :: "rstr \<Rightarrow> rstr" where
  "strip_cr l = (case strip_suffix [13] l of Some r \<Rightarrow> r | None \<Rightarrow> l)"

definition str_lines :: "rstr \<Rightarrow> rstr list" where
  "str_lines s =
     (let fields = split_on 10 s
      in map strip_cr (butlast fields) @ (if last fields = [] then [] else [last fields]))"

lemma str_lines_join:
  assumes "ls \<noteq> []" and "\<forall>l \<in> set ls. 10 \<notin> set l \<and> strip_cr l = l" and "last ls \<noteq> []"
  shows "str_lines (join [10] ls) = ls"
proof -
  have "split_on 10 (join [10] ls) = ls"
    using assms(1,2) by (intro split_on_join) auto
  moreover have "map strip_cr (butlast ls) = butlast ls"
    using assms(2) by (intro map_idI) (auto dest: in_set_butlastD)
  ultimately show ?thesis
    using assms(1,3) by (simp add: str_lines_def Let_def)
qed

subsection \<open>Searching a list\<close>

lemma find_map:
  "(\<And>x. x \<in> set xs \<Longrightarrow> P (f x) = P x) \<Longrightarrow> List.find P (map f xs) = map_option f (List.find P xs)"
  by (induction xs) auto

lemma find_comp: "List.find P (map f xs) = map_option f (List.find (P \<circ> f) xs)"
  by (induction xs) auto

lemma find_append: "List.find P (xs @ ys) = (case List.find P xs of None \<Rightarrow> List.find P ys | Some x \<Rightarrow> Some x)"
  by (induction xs) auto

lemma find_rev_None_iff: "List.find P (rev xs) = None \<longleftrightarrow> (\<forall>x \<in> set xs. \<not> P x)"
  by (auto simp: find_None_iff)

lemma find_rev_Some:
  assumes "List.find P (rev xs) = Some x"
  shows "\<exists>pre post. xs = pre @ [x] @ post \<and> P x \<and> (\<forall>y \<in> set post. \<not> P y)"
  using assms
proof (induction xs rule: rev_induct)
  case (snoc y ys)
  show ?case
  proof (cases "P y")
    case True
    with snoc.prems show ?thesis by (intro exI [of _ ys] exI [of _ "[]"]) auto
  next
    case False
    with snoc obtain pre post where "ys = pre @ [x] @ post" "P x" "\<forall>y \<in> set post. \<not> P y" by auto
    with False have "ys @ [y] = pre @ [x] @ (post @ [y]) \<and> P x \<and> (\<forall>z \<in> set (post @ [y]). \<not> P z)" by auto
    then show ?thesis by blast
  qed
qed simp

end
