(* ===== verification/Patch_Types.thy ===== *)
theory Patch_Types
  imports Prelude
begin

text \<open>
  The data of the patch engine (\<^verbatim>\<open>crates/agentic-apply-patch/src/lib.rs\<close> and
  \<^verbatim>\<open>parser.rs\<close>): update modes, hunks, the chunks of an update hunk, and the two
  error types. A path is the string it is built from. The error messages that the code
  formats are constructors that carry the formatted values.
\<close>

datatype update_file_mode = NormalizeToLf | PreserveLineEndings

record update_file_chunk =
  change_context :: "rstr option"
  old_lines :: "rstr list"
  new_lines :: "rstr list"
  context_line_indices :: "(nat \<times> nat) list"
  is_end_of_file :: bool

definition default_chunk :: update_file_chunk where
  "default_chunk = \<lparr>change_context = None, old_lines = [], new_lines = [],
     context_line_indices = [], is_end_of_file = False\<rparr>"

definition push_context_line :: "rstr \<Rightarrow> update_file_chunk \<Rightarrow> update_file_chunk" where
  "push_context_line line c =
     c\<lparr>context_line_indices := context_line_indices c @ [(length (old_lines c), length (new_lines c))],
       old_lines := old_lines c @ [line],
       new_lines := new_lines c @ [line]\<rparr>"

datatype hunk =
  is_AddFile: AddFile (hunk_source: rstr) (hunk_contents: rstr)
| is_DeleteFile: DeleteFile (hunk_source: rstr)
| is_UpdateFile: UpdateFile (hunk_source: rstr) (hunk_move: "rstr option") (hunk_chunks: "update_file_chunk list")

text \<open>The path a hunk affects: the destination of a rename, else its own path.\<close>

fun hunk_path :: "hunk \<Rightarrow> rstr" where
  "hunk_path (AddFile path _) = path"
| "hunk_path (DeleteFile path) = path"
| "hunk_path (UpdateFile _ (Some path) _) = path"
| "hunk_path (UpdateFile path None _) = path"

datatype hunk_message =
  UpdateHunkEmpty rstr            \<comment> \<open>Update file hunk for path '...' is empty\<close>
| UpdateHunkNoLines               \<comment> \<open>Update hunk does not contain any lines\<close>
| UnexpectedUpdateLine rstr       \<comment> \<open>Unexpected line found in update hunk: '...'\<close>
| ExpectedContextMarker rstr      \<comment> \<open>Expected update hunk to start with a @@ context marker, got: '...'\<close>
| InvalidHunkHeader rstr          \<comment> \<open>'...' is not a valid hunk header\<close>

datatype patch_message =
  FirstLineNotBegin               \<comment> \<open>The first line of the patch must be '*** Begin Patch'\<close>
| LastLineNotEnd                  \<comment> \<open>The last line of the patch must be '*** End Patch'\<close>
| EnvironmentIdRepeated           \<comment> \<open>environment\_id cannot be specified more than once\<close>
| EnvironmentIdEmpty              \<comment> \<open>environment\_id cannot be empty\<close>

datatype parse_error =
  InvalidPatchError patch_message
| InvalidHunkError hunk_message nat

text \<open>
  \<^verbatim>\<open>ApplyPatchError::ComputeReplacements\<close> has two messages. \<open>Panicked\<close> stands for
  a run-time panic of the code (a slice out of range, an insertion past the end, an index
  subtraction below zero), so that the absence of panics is a theorem about the model.
\<close>

datatype apply_patch_error =
  ContextNotFound rstr rstr              \<comment> \<open>Failed to find context '...' in path\<close>
| ExpectedLinesNotFound rstr "rstr list" \<comment> \<open>Failed to find expected lines in path\<close>
| Panicked

record apply_patch_args =
  args_patch :: rstr
  args_hunks :: "hunk list"
  args_workdir :: "rstr option"
  args_environment_id :: "rstr option"

text \<open>
  What the parser guarantees of the context pairs of a chunk, and what the updater needs:
  the pairs increase in both components, point into the two line lists, and join equal lines.
  \<open>context_ok os ns ps old new\<close> reads the pairs from the positions \<open>os\<close> and \<open>ns\<close> on.
\<close>

fun context_ok :: "nat \<Rightarrow> nat \<Rightarrow> (nat \<times> nat) list \<Rightarrow> rstr list \<Rightarrow> rstr list \<Rightarrow> bool" where
  "context_ok os ns [] olds news \<longleftrightarrow> True"
| "context_ok os ns ((oc, nc) # ps) olds news \<longleftrightarrow>
     os \<le> oc \<and> ns \<le> nc \<and> oc < length olds \<and> nc < length news \<and> olds ! oc = news ! nc
     \<and> context_ok (Suc oc) (Suc nc) ps olds news"

definition chunk_ok :: "update_file_chunk \<Rightarrow> bool" where
  "chunk_ok c \<longleftrightarrow> context_ok 0 0 (context_line_indices c) (old_lines c) (new_lines c)"

definition chunk_has_lines :: "update_file_chunk \<Rightarrow> bool" where
  "chunk_has_lines c \<longleftrightarrow> old_lines c \<noteq> [] \<or> new_lines c \<noteq> []"

lemma context_ok_append_lines:
  "context_ok os ns ps olds news \<Longrightarrow> context_ok os ns ps (olds @ xs) (news @ ys)"
  by (induction os ns ps olds news rule: context_ok.induct) (auto simp: nth_append)

lemma context_ok_snoc:
  assumes "context_ok os ns ps olds news" and "os \<le> length olds" and "ns \<le> length news"
  shows "context_ok os ns (ps @ [(length olds, length news)]) (olds @ [x]) (news @ [x])"
  using assms
  by (induction os ns ps olds news rule: context_ok.induct)
    (auto simp: nth_append)

lemma chunk_ok_default [simp]: "chunk_ok default_chunk"
  by (simp add: chunk_ok_def default_chunk_def)

lemma chunk_ok_push_context_line:
  "chunk_ok c \<Longrightarrow> chunk_ok (push_context_line line c)"
  by (simp add: chunk_ok_def push_context_line_def context_ok_snoc)

lemma chunk_ok_push_new:
  "chunk_ok c \<Longrightarrow> chunk_ok (c\<lparr>new_lines := new_lines c @ [x]\<rparr>)"
  using context_ok_append_lines [of 0 0 "context_line_indices c" "old_lines c" "new_lines c" "[]" "[x]"]
  by (simp add: chunk_ok_def)

lemma chunk_ok_push_old:
  "chunk_ok c \<Longrightarrow> chunk_ok (c\<lparr>old_lines := old_lines c @ [x]\<rparr>)"
  using context_ok_append_lines [of 0 0 "context_line_indices c" "old_lines c" "new_lines c" "[x]" "[]"]
  by (simp add: chunk_ok_def)

end
