(* ===== verification/Patch_Parser.thy ===== *)
theory Patch_Parser
  imports Patch_Types
begin

text \<open>
  The patch parser: \<^verbatim>\<open>crates/agentic-apply-patch/src/streaming_parser.rs\<close> (the line
  automaton that is fed the text in pieces of any size) and the boundary checks of
  \<^verbatim>\<open>parser.rs\<close>. The state of the automaton is the record \<open>patch_parser\<close>; a step
  returns the error of the code or the next state (a caller drops the parser at an error).
  Line numbers are natural numbers: a patch of \<^verbatim>\<open>usize::MAX\<close> lines does not fit in memory.
\<close>

subsection \<open>Markers\<close>

definition begin_patch_marker :: rstr where
  "begin_patch_marker = lit ''*** Begin Patch''"

definition end_patch_marker :: rstr where
  "end_patch_marker = lit ''*** End Patch''"

definition add_file_marker :: rstr where
  "add_file_marker = lit ''*** Add File: ''"

definition delete_file_marker :: rstr where
  "delete_file_marker = lit ''*** Delete File: ''"

definition update_file_marker :: rstr where
  "update_file_marker = lit ''*** Update File: ''"

definition move_to_marker :: rstr where
  "move_to_marker = lit ''*** Move to: ''"

definition eof_marker :: rstr where
  "eof_marker = lit ''*** End of File''"

definition change_context_marker :: rstr where
  "change_context_marker = lit ''@@ ''"

definition empty_change_context_marker :: rstr where
  "empty_change_context_marker = lit ''@@''"

definition environment_id_marker :: rstr where
  "environment_id_marker = lit ''*** Environment ID:''"

lemmas marker_defs = begin_patch_marker_def end_patch_marker_def add_file_marker_def
  delete_file_marker_def update_file_marker_def move_to_marker_def eof_marker_def
  change_context_marker_def empty_change_context_marker_def environment_id_marker_def

subsection \<open>The state of the automaton\<close>

datatype parser_mode =
  NotStarted
| StartedPatch
| ModeAddFile
| ModeDeleteFile
| ModeUpdateFile (hunk_line_number: nat)
| EndedPatch

record patch_parser =
  line_buffer :: rstr
  parser_mode :: parser_mode
  parser_hunks :: "hunk list"
  parser_environment_id :: "rstr option"
  line_number :: nat

definition default_parser :: patch_parser where
  "default_parser = \<lparr>line_buffer = [], parser_mode = NotStarted, parser_hunks = [],
     parser_environment_id = None, line_number = 0\<rparr>"

text \<open>\<^verbatim>\<open>chunks.last().is_some_and(|chunk| both line lists are empty)\<close>.\<close>

definition last_chunk_without_lines :: "update_file_chunk list \<Rightarrow> bool" where
  "last_chunk_without_lines chunks \<longleftrightarrow>
     (case last_opt chunks of None \<Rightarrow> False | Some c \<Rightarrow> old_lines c = [] \<and> new_lines c = [])"

definition last_chunk_is_end_of_file :: "update_file_chunk list \<Rightarrow> bool" where
  "last_chunk_is_end_of_file chunks \<longleftrightarrow>
     (case last_opt chunks of None \<Rightarrow> False | Some c \<Rightarrow> is_end_of_file c)"

definition last_chunk_has_lines :: "update_file_chunk list \<Rightarrow> bool" where
  "last_chunk_has_lines chunks \<longleftrightarrow>
     (case last_opt chunks of None \<Rightarrow> False | Some c \<Rightarrow> old_lines c \<noteq> [] \<or> new_lines c \<noteq> [])"

subsection \<open>Headers and the end of the patch\<close>

definition ensure_update_hunk_is_not_empty :: "rstr \<Rightarrow> patch_parser \<Rightarrow> parse_error + unit" where
  "ensure_update_hunk_is_not_empty line p =
     (case last_opt (parser_hunks p) of
        Some (UpdateFile path _ chunks) \<Rightarrow>
          (case (chunks, parser_mode p) of
             ([], ModeUpdateFile n) \<Rightarrow> Inl (InvalidHunkError (UpdateHunkEmpty path) n)
           | _ \<Rightarrow>
               if last_chunk_without_lines chunks then
                 if line = end_patch_marker
                 then Inl (InvalidHunkError UpdateHunkNoLines (line_number p))
                 else Inl (InvalidHunkError (UnexpectedUpdateLine line) (line_number p))
               else Inr ())
      | _ \<Rightarrow> Inr ())"

text \<open>The three file headers push a hunk and change the mode, after the check above.\<close>

definition push_hunk :: "rstr \<Rightarrow> hunk \<Rightarrow> parser_mode \<Rightarrow> patch_parser \<Rightarrow> parse_error + bool \<times> patch_parser" where
  "push_hunk trimmed h m p =
     rbind (ensure_update_hunk_is_not_empty trimmed p)
       (\<lambda>_. Inr (True, p\<lparr>parser_hunks := parser_hunks p @ [h], parser_mode := m\<rparr>))"

definition handle_file_header :: "rstr \<Rightarrow> patch_parser \<Rightarrow> parse_error + bool \<times> patch_parser" where
  "handle_file_header trimmed p =
     (case strip_prefix add_file_marker trimmed of
        Some path \<Rightarrow> push_hunk trimmed (AddFile path []) ModeAddFile p
      | None \<Rightarrow>
     (case strip_prefix delete_file_marker trimmed of
        Some path \<Rightarrow> push_hunk trimmed (DeleteFile path) ModeDeleteFile p
      | None \<Rightarrow>
     (case strip_prefix update_file_marker trimmed of
        Some path \<Rightarrow>
          push_hunk trimmed (UpdateFile path None []) (ModeUpdateFile (line_number p)) p
      | None \<Rightarrow> Inr (False, p))))"

definition handle_end_and_headers :: "rstr \<Rightarrow> patch_parser \<Rightarrow> parse_error + bool \<times> patch_parser" where
  "handle_end_and_headers trimmed p =
     (if trimmed = end_patch_marker then
        rbind (ensure_update_hunk_is_not_empty trimmed p)
          (\<lambda>_. Inr (True, p\<lparr>parser_mode := EndedPatch\<rparr>))
      else handle_file_header trimmed p)"

definition handle_hunk_headers_and_end_patch ::
    "rstr \<Rightarrow> patch_parser \<Rightarrow> parse_error + bool \<times> patch_parser" where
  "handle_hunk_headers_and_end_patch trimmed p =
     (case (parser_mode p, strip_prefix environment_id_marker trimmed) of
        (StartedPatch, Some environment_id) \<Rightarrow>
          if parser_environment_id p \<noteq> None then Inl (InvalidPatchError EnvironmentIdRepeated)
          else if trim environment_id = [] then Inl (InvalidPatchError EnvironmentIdEmpty)
          else Inr (True, p\<lparr>parser_environment_id := Some (trim environment_id)\<rparr>)
      | _ \<Rightarrow> handle_end_and_headers trimmed p)"

subsection \<open>One line\<close>

definition process_not_started :: "rstr \<Rightarrow> patch_parser \<Rightarrow> parse_error + patch_parser" where
  "process_not_started trimmed p =
     (if trimmed = begin_patch_marker then Inr (p\<lparr>parser_mode := StartedPatch\<rparr>)
      else Inl (InvalidPatchError FirstLineNotBegin))"

definition process_started_patch :: "rstr \<Rightarrow> patch_parser \<Rightarrow> parse_error + patch_parser" where
  "process_started_patch trimmed p =
     rbind (handle_hunk_headers_and_end_patch trimmed p) (\<lambda>(handled, p').
       if handled then Inr p'
       else Inl (InvalidHunkError (InvalidHunkHeader trimmed) (line_number p')))"

definition process_add_file :: "rstr \<Rightarrow> rstr \<Rightarrow> patch_parser \<Rightarrow> parse_error + patch_parser" where
  "process_add_file line trimmed p =
     rbind (handle_hunk_headers_and_end_patch trimmed p) (\<lambda>(handled, p').
       if handled then Inr p'
       else (case (strip_prefix [43] line, last_opt (parser_hunks p')) of
           (Some line_to_add, Some (AddFile path contents)) \<Rightarrow>
             Inr (p'\<lparr>parser_hunks :=
               update_last (\<lambda>_. AddFile path (contents @ line_to_add @ [10])) (parser_hunks p')\<rparr>)
         | _ \<Rightarrow> Inl (InvalidHunkError (InvalidHunkHeader trimmed) (line_number p'))))"

definition process_delete_file :: "rstr \<Rightarrow> patch_parser \<Rightarrow> parse_error + patch_parser" where
  "process_delete_file trimmed p =
     rbind (handle_hunk_headers_and_end_patch trimmed p) (\<lambda>(handled, p').
       if handled then Inr p'
       else Inl (InvalidHunkError (InvalidHunkHeader trimmed) (line_number p')))"

text \<open>
  The body of an update hunk: \<open>update_diff_line\<close> handles the lines that belong to a chunk
  (a chunk is opened when there is none), \<open>update_chunk_start\<close> the context markers and the
  end-of-file marker before them, \<open>update_hunk_line\<close> the line after an end-of-file chunk and
  the rename line. They work on the fields of the hunk and return its new fields.
\<close>

definition on_last_chunk ::
    "(update_file_chunk \<Rightarrow> update_file_chunk) \<Rightarrow> update_file_chunk list \<Rightarrow> update_file_chunk list" where
  "on_last_chunk f chunks = update_last f (if chunks = [] then [default_chunk] else chunks)"

definition update_diff_line ::
    "rstr \<Rightarrow> nat \<Rightarrow> update_file_chunk list \<Rightarrow> parse_error + update_file_chunk list" where
  "update_diff_line line n chunks =
     (if line = [] then Inr (on_last_chunk (push_context_line []) chunks)
      else case strip_prefix [32] line of
        Some l \<Rightarrow> Inr (on_last_chunk (push_context_line l) chunks)
      | None \<Rightarrow>
     (case strip_prefix [43] line of
        Some l \<Rightarrow> Inr (on_last_chunk (\<lambda>c. c\<lparr>new_lines := new_lines c @ [l]\<rparr>) chunks)
      | None \<Rightarrow>
     (case strip_prefix [45] line of
        Some l \<Rightarrow> Inr (on_last_chunk (\<lambda>c. c\<lparr>old_lines := old_lines c @ [l]\<rparr>) chunks)
      | None \<Rightarrow>
          if last_chunk_has_lines chunks
          then Inl (InvalidHunkError (ExpectedContextMarker line) n)
          else Inl (InvalidHunkError (UnexpectedUpdateLine line) n))))"

definition update_chunk_start ::
    "rstr \<Rightarrow> rstr \<Rightarrow> nat \<Rightarrow> update_file_chunk list \<Rightarrow> parse_error + update_file_chunk list" where
  "update_chunk_start line update_line n chunks =
     (if (update_line = empty_change_context_marker
            \<or> starts_with change_context_marker update_line)
          \<and> last_chunk_without_lines chunks
      then Inl (InvalidHunkError (UnexpectedUpdateLine line) n)
      else if update_line = empty_change_context_marker then Inr (chunks @ [default_chunk])
      else case strip_prefix change_context_marker update_line of
        Some ctx \<Rightarrow> Inr (chunks @ [default_chunk\<lparr>change_context := Some ctx\<rparr>])
      | None \<Rightarrow>
          if update_line = eof_marker then
            if last_chunk_without_lines chunks
            then Inl (InvalidHunkError UpdateHunkNoLines n)
            else Inr (update_last (\<lambda>c. c\<lparr>is_end_of_file := True\<rparr>) chunks)
          else update_diff_line line n chunks)"

definition update_hunk_line ::
    "rstr \<Rightarrow> rstr \<Rightarrow> nat \<Rightarrow> rstr option \<Rightarrow> update_file_chunk list \<Rightarrow>
     parse_error + rstr option \<times> update_file_chunk list" where
  "update_hunk_line line update_line n move_path chunks =
     (if last_chunk_is_end_of_file chunks \<and> update_line = [] then Inr (move_path, chunks)
      else if last_chunk_is_end_of_file chunks \<and> update_line \<noteq> empty_change_context_marker
          \<and> \<not> starts_with change_context_marker update_line
      then Inl (InvalidHunkError (ExpectedContextMarker line) n)
      else case (chunks, move_path, strip_prefix move_to_marker update_line) of
        ([], None, Some dest) \<Rightarrow> Inr (Some dest, chunks)
      | _ \<Rightarrow> rbind (update_chunk_start line update_line n chunks) (\<lambda>cs. Inr (move_path, cs)))"

definition process_update_file :: "rstr \<Rightarrow> patch_parser \<Rightarrow> parse_error + patch_parser" where
  "process_update_file line p =
     (let update_line = trim_end line in
      rbind (handle_hunk_headers_and_end_patch update_line p) (\<lambda>(handled, p').
        if handled then Inr p'
        else (case last_opt (parser_hunks p') of
            Some (UpdateFile path move_path chunks) \<Rightarrow>
              rbind (update_hunk_line line update_line (line_number p') move_path chunks)
                (\<lambda>(move_path', chunks').
                  Inr (p'\<lparr>parser_hunks :=
                    update_last (\<lambda>_. UpdateFile path move_path' chunks') (parser_hunks p')\<rparr>))
          | _ \<Rightarrow> Inl (InvalidHunkError (UnexpectedUpdateLine line) (line_number p')))))"

definition process_ended_patch :: "rstr \<Rightarrow> patch_parser \<Rightarrow> parse_error + patch_parser" where
  "process_ended_patch trimmed p =
     (if trimmed = [] then Inr p else Inl (InvalidPatchError LastLineNotEnd))"

definition process_line :: "rstr \<Rightarrow> patch_parser \<Rightarrow> parse_error + patch_parser" where
  "process_line line p =
     (case parser_mode p of
        NotStarted \<Rightarrow> process_not_started (trim line) p
      | StartedPatch \<Rightarrow> process_started_patch (trim line) p
      | ModeAddFile \<Rightarrow> process_add_file line (trim line) p
      | ModeDeleteFile \<Rightarrow> process_delete_file (trim line) p
      | ModeUpdateFile _ \<Rightarrow> process_update_file line p
      | EndedPatch \<Rightarrow> process_ended_patch (trim line) p)"

subsection \<open>Text in pieces\<close>

definition push_char :: "rchar \<Rightarrow> patch_parser \<Rightarrow> parse_error + patch_parser" where
  "push_char ch p =
     (if ch = 10 then
        process_line (strip_cr (line_buffer p))
          (p\<lparr>line_buffer := [], line_number := line_number p + 1\<rparr>)
      else Inr (p\<lparr>line_buffer := line_buffer p @ [ch]\<rparr>))"

definition push_delta :: "rstr \<Rightarrow> patch_parser \<Rightarrow> parse_error + hunk list \<times> patch_parser" where
  "push_delta delta p = rbind (rfold push_char delta p) (\<lambda>p'. Inr (parser_hunks p', p'))"

definition finish_line :: "patch_parser \<Rightarrow> parse_error + patch_parser" where
  "finish_line p =
     (if line_buffer p = [] then Inr p
      else
        let line = line_buffer p; p' = p\<lparr>line_buffer := [], line_number := line_number p + 1\<rparr> in
        if trim line = end_patch_marker then
          rbind (ensure_update_hunk_is_not_empty (trim line) p')
            (\<lambda>_. Inr (p'\<lparr>parser_mode := EndedPatch\<rparr>))
        else process_line line p')"

definition finish :: "patch_parser \<Rightarrow> parse_error + hunk list \<times> patch_parser" where
  "finish p =
     rbind (finish_line p) (\<lambda>p'.
       if parser_mode p' = EndedPatch then Inr (parser_hunks p', p')
       else Inl (InvalidPatchError LastLineNotEnd))"

subsection \<open>The boundaries of the patch text\<close>

datatype parse_mode = Strict | Lenient

definition check_start_and_end_lines_strict :: "rstr option \<Rightarrow> rstr option \<Rightarrow> parse_error + unit" where
  "check_start_and_end_lines_strict first_line last_line =
     (case (map_option trim first_line, map_option trim last_line) of
        (Some f, Some l) \<Rightarrow>
          if f = begin_patch_marker \<and> l = end_patch_marker then Inr ()
          else if f \<noteq> begin_patch_marker then Inl (InvalidPatchError FirstLineNotBegin)
          else Inl (InvalidPatchError LastLineNotEnd)
      | (Some f, None) \<Rightarrow>
          if f \<noteq> begin_patch_marker then Inl (InvalidPatchError FirstLineNotBegin)
          else Inl (InvalidPatchError LastLineNotEnd)
      | _ \<Rightarrow> Inl (InvalidPatchError LastLineNotEnd))"

definition check_patch_boundaries_strict :: "rstr list \<Rightarrow> parse_error + rstr list" where
  "check_patch_boundaries_strict ls =
     rbind (if ls = [] then check_start_and_end_lines_strict None None
            else check_start_and_end_lines_strict (Some (hd ls)) (Some (last ls)))
       (\<lambda>_. Inr ls)"

definition is_heredoc_start :: "rstr \<Rightarrow> bool" where
  "is_heredoc_start l \<longleftrightarrow>
     l = lit ''<<EOF'' \<or> l = lit ''<<'' @ [39] @ lit ''EOF'' @ [39] \<or> l = lit ''<<'' @ [34] @ lit ''EOF'' @ [34]"

definition check_patch_boundaries_lenient :: "rstr list \<Rightarrow> parse_error + rstr list" where
  "check_patch_boundaries_lenient original_lines =
     (case check_patch_boundaries_strict original_lines of
        Inr ls \<Rightarrow> Inr ls
      | Inl original_parse_error \<Rightarrow>
          if 2 \<le> length original_lines \<and> is_heredoc_start (hd original_lines)
             \<and> ends_with (lit ''EOF'') (last original_lines) \<and> 4 \<le> length original_lines
          then check_patch_boundaries_strict (butlast (tl original_lines))
          else Inl original_parse_error)"

definition parse_patch_text :: "rstr \<Rightarrow> parse_mode \<Rightarrow> parse_error + apply_patch_args" where
  "parse_patch_text text mode =
     (let ls = str_lines (trim text) in
      rbind (case mode of Strict \<Rightarrow> check_patch_boundaries_strict ls
                        | Lenient \<Rightarrow> check_patch_boundaries_lenient ls) (\<lambda>patch_lines.
      let patch = join [10] patch_lines in
      rbind (push_delta patch default_parser) (\<lambda>(_, p).
      rbind (finish p) (\<lambda>(hunks, p').
      Inr \<lparr>args_patch = patch, args_hunks = hunks, args_workdir = None,
           args_environment_id = parser_environment_id p'\<rparr>))))"

definition parse_in_strict_mode :: bool where
  "parse_in_strict_mode = False"

definition parse_patch :: "rstr \<Rightarrow> parse_error + apply_patch_args" where
  "parse_patch patch = parse_patch_text patch (if parse_in_strict_mode then Strict else Lenient)"


subsection \<open>Splitting the text does not matter\<close>

text \<open>A caller that streams a patch calls \<open>push_delta\<close> once per piece.\<close>

definition push_deltas :: "rstr list \<Rightarrow> patch_parser \<Rightarrow> parse_error + patch_parser" where
  "push_deltas deltas = rfold (\<lambda>d p. rbind (push_delta d p) (\<lambda>(_, p'). Inr p')) deltas"

lemma push_delta_state: "rbind (push_delta d p) (\<lambda>(_, p'). Inr p') = rfold push_char d p"
  by (cases "rfold push_char d p") (simp_all add: push_delta_def)

lemma push_deltas_chars: "push_deltas deltas p = rfold push_char (concat deltas) p"
proof (induction deltas arbitrary: p)
  case Nil
  then show ?case by (simp add: push_deltas_def)
next
  case (Cons d ds)
  then have "rfold (\<lambda>d p. rbind (push_delta d p) (\<lambda>(_, p'). Inr p')) ds = rfold push_char (concat ds)"
    by (intro ext) (simp add: push_deltas_def)
  then show ?case
    by (simp add: push_deltas_def push_delta_state rfold_append)
qed

subsection \<open>The invariant of the automaton\<close>

text \<open>
  A hunk that the parser has finished: an update has chunks and each has lines and
  consistent context pairs; the contents of a new file are whole lines. While an update
  hunk is being read only its last chunk may still be without lines.
\<close>

fun hunk_complete :: "hunk \<Rightarrow> bool" where
  "hunk_complete (AddFile _ contents) \<longleftrightarrow> contents = [] \<or> last contents = 10"
| "hunk_complete (DeleteFile _) \<longleftrightarrow> True"
| "hunk_complete (UpdateFile _ _ chunks) \<longleftrightarrow>
     chunks \<noteq> [] \<and> list_all (\<lambda>c. chunk_ok c \<and> chunk_has_lines c) chunks"

definition chunks_partial :: "update_file_chunk list \<Rightarrow> bool" where
  "chunks_partial chunks \<longleftrightarrow>
     list_all chunk_ok chunks \<and> list_all chunk_has_lines (butlast chunks)"

fun hunk_partial :: "hunk \<Rightarrow> bool" where
  "hunk_partial (UpdateFile _ _ chunks) \<longleftrightarrow> chunks_partial chunks"
| "hunk_partial h \<longleftrightarrow> hunk_complete h"

text \<open>The mode tells which kind of hunk is the last one, and where an update began.\<close>

fun mode_fits :: "nat \<Rightarrow> parser_mode \<Rightarrow> hunk list \<Rightarrow> bool" where
  "mode_fits _ NotStarted hs \<longleftrightarrow> hs = []"
| "mode_fits _ StartedPatch hs \<longleftrightarrow> hs = []"
| "mode_fits _ ModeAddFile hs \<longleftrightarrow> hs \<noteq> [] \<and> is_AddFile (last hs)"
| "mode_fits _ ModeDeleteFile hs \<longleftrightarrow> hs \<noteq> [] \<and> is_DeleteFile (last hs)"
| "mode_fits n (ModeUpdateFile k) hs \<longleftrightarrow> hs \<noteq> [] \<and> is_UpdateFile (last hs) \<and> 1 \<le> k \<and> k \<le> n"
| "mode_fits _ EndedPatch hs \<longleftrightarrow> list_all hunk_complete hs"

definition hunks_inv :: "hunk list \<Rightarrow> bool" where
  "hunks_inv hs \<longleftrightarrow> list_all hunk_complete (butlast hs) \<and> (hs \<noteq> [] \<longrightarrow> hunk_partial (last hs))"

definition parser_inv :: "patch_parser \<Rightarrow> bool" where
  "parser_inv p \<longleftrightarrow>
     hunks_inv (parser_hunks p) \<and> mode_fits (line_number p) (parser_mode p) (parser_hunks p)"

lemma chunk_flags:
  "last_chunk_without_lines chunks \<longleftrightarrow> chunks \<noteq> [] \<and> \<not> chunk_has_lines (last chunks)"
  "last_chunk_has_lines chunks \<longleftrightarrow> chunks \<noteq> [] \<and> chunk_has_lines (last chunks)"
  "last_chunk_is_end_of_file chunks \<longleftrightarrow> chunks \<noteq> [] \<and> is_end_of_file (last chunks)"
  by (auto simp: last_chunk_without_lines_def last_chunk_has_lines_def last_chunk_is_end_of_file_def
    last_opt_def chunk_has_lines_def)

lemma hunk_partial_complete: "hunk_complete h \<Longrightarrow> hunk_partial h"
  by (cases h) (auto simp: chunks_partial_def list_all_iff dest: in_set_butlastD)

lemma chunks_partial_complete:
  assumes "chunks_partial chunks" and "\<not> last_chunk_without_lines chunks"
  shows "list_all (\<lambda>c. chunk_ok c \<and> chunk_has_lines c) chunks"
  using assms by (cases chunks rule: rev_cases) (auto simp: chunks_partial_def chunk_flags list_all_iff)

lemma ensure_complete:
  assumes "ensure_update_hunk_is_not_empty line p = Inr ()" and "hunks_inv (parser_hunks p)"
    and "parser_mode p \<noteq> EndedPatch" and "mode_fits n (parser_mode p) (parser_hunks p)"
  shows "list_all hunk_complete (parser_hunks p)"
proof (cases "parser_hunks p" rule: rev_cases)
  case Nil
  then show ?thesis by simp
next
  case (snoc hs h)
  have init: "list_all hunk_complete hs" and part: "hunk_partial h"
    using assms(2) snoc by (auto simp: hunks_inv_def)
  have "hunk_complete h"
  proof (cases h)
    case (UpdateFile path mv cs)
    then obtain k where m: "parser_mode p = ModeUpdateFile k"
      using assms(3,4) snoc by (cases "parser_mode p") auto
    have "cs \<noteq> [] \<and> \<not> last_chunk_without_lines cs"
      using assms(1) UpdateFile m snoc
      by (auto simp: ensure_update_hunk_is_not_empty_def split: list.splits if_splits)
    then show ?thesis
      using chunks_partial_complete [of cs] part UpdateFile by simp
  qed (use part in auto)
  with init snoc show ?thesis by simp
qed

lemma ensure_error_line:
  assumes "ensure_update_hunk_is_not_empty line p = Inl (InvalidHunkError msg k)"
    and "mode_fits (line_number p) (parser_mode p) (parser_hunks p)" and "1 \<le> line_number p"
  shows "1 \<le> k \<and> k \<le> line_number p"
  using assms
  by (auto simp: ensure_update_hunk_is_not_empty_def split: option.splits hunk.splits list.splits
      parser_mode.splits if_splits)

lemma push_hunk_inv:
  assumes "push_hunk t h m p = Inr (b, p')" and "hunks_inv (parser_hunks p)"
    and "parser_mode p \<noteq> EndedPatch" and "mode_fits n (parser_mode p) (parser_hunks p)"
    and "hunk_partial h"
  shows "b \<and> line_number p' = line_number p \<and> parser_mode p' = m
    \<and> parser_hunks p' = parser_hunks p @ [h] \<and> hunks_inv (parser_hunks p')"
  using assms ensure_complete [of t p n]
  by (auto simp: push_hunk_def hunks_inv_def rbind_eq_Inr_iff)

lemma handle_file_header_inv:
  assumes "handle_file_header t p = Inr (b, p')" and "parser_inv p"
    and "parser_mode p \<noteq> EndedPatch" and "1 \<le> line_number p"
  shows "parser_inv p' \<and> line_number p' = line_number p \<and> (\<not> b \<longrightarrow> p' = p)"
proof -
  have handled: "push_hunk t h m p = Inr (b, p') \<Longrightarrow> b" for h m
    by (auto simp: push_hunk_def rbind_eq_Inr_iff)
  have pushed: "parser_inv p' \<and> line_number p' = line_number p"
    if "push_hunk t h m p = Inr (b, p')" and "hunk_partial h" and "mode_fits (line_number p) m [h]"
      and "m \<noteq> EndedPatch" and "m \<noteq> NotStarted" and "m \<noteq> StartedPatch" for h m
    using push_hunk_inv [OF that(1), of "line_number p"] that(2-) assms(2,3)
    by (cases m) (auto simp: parser_inv_def)
  show ?thesis
    using assms pushed handled
    by (auto simp: handle_file_header_def chunks_partial_def split: option.splits)
qed

lemma handle_headers_inv:
  assumes "handle_hunk_headers_and_end_patch t p = Inr (b, p')" and "parser_inv p"
    and "parser_mode p \<noteq> EndedPatch" and "1 \<le> line_number p"
  shows "parser_inv p' \<and> line_number p' = line_number p \<and> (\<not> b \<longrightarrow> p' = p)"
proof -
  have ended: "parser_inv p' \<and> line_number p' = line_number p \<and> (\<not> b \<longrightarrow> p' = p)"
    if "handle_end_and_headers t p = Inr (b, p')"
  proof (cases "t = end_patch_marker")
    case True
    with that assms ensure_complete [of t p "line_number p"] show ?thesis
      by (auto simp: handle_end_and_headers_def rbind_eq_Inr_iff parser_inv_def)
  next
    case False
    with that have "handle_file_header t p = Inr (b, p')" by (simp add: handle_end_and_headers_def)
    then show ?thesis using assms(2-4) by (rule handle_file_header_inv)
  qed
  show ?thesis
    using assms ended
    by (auto simp: handle_hunk_headers_and_end_patch_def parser_inv_def
        split: parser_mode.splits option.splits if_splits)
qed

lemma handle_headers_error_line:
  assumes "handle_hunk_headers_and_end_patch t p = Inl (InvalidHunkError msg k)" and "parser_inv p"
    and "1 \<le> line_number p"
  shows "1 \<le> k \<and> k \<le> line_number p"
  using assms ensure_error_line [of t p msg k]
  by (auto simp: handle_hunk_headers_and_end_patch_def handle_end_and_headers_def handle_file_header_def
      push_hunk_def rbind_eq_Inl_iff parser_inv_def
      split: parser_mode.splits option.splits if_splits)

lemma chunks_partial_last:
  assumes "chunks_partial chunks" and "\<And>c. chunk_ok c \<Longrightarrow> chunk_ok (f c)"
  shows "chunks_partial (update_last f chunks)" and "chunks_partial (on_last_chunk f chunks)"
  using assms by (cases chunks rule: rev_cases; auto simp: chunks_partial_def on_last_chunk_def)+

lemma chunks_partial_new:
  assumes "chunks_partial chunks" and "\<not> last_chunk_without_lines chunks" and "chunk_ok c"
  shows "chunks_partial (chunks @ [c])"
  using assms by (cases chunks rule: rev_cases) (auto simp: chunks_partial_def chunk_flags butlast_append)

lemma chunk_ok_flags:
  "chunk_ok (c\<lparr>is_end_of_file := b\<rparr>) = chunk_ok c" "chunk_ok (c\<lparr>change_context := x\<rparr>) = chunk_ok c"
  by (simp_all add: chunk_ok_def)

lemma update_chunk_start_inv:
  assumes "update_chunk_start line ul n chunks = Inr chunks'" and "chunks_partial chunks"
  shows "chunks_partial chunks'"
  using assms
  by (auto simp: update_chunk_start_def update_diff_line_def starts_with_def chunk_ok_flags
      chunk_ok_push_context_line chunk_ok_push_new chunk_ok_push_old
      intro!: chunks_partial_new chunks_partial_last
      split: if_splits option.splits)

lemma update_hunk_line_inv:
  assumes "update_hunk_line line ul n mv chunks = Inr (mv', chunks')" and "chunks_partial chunks"
  shows "chunks_partial chunks'"
  using assms update_chunk_start_inv [of line ul n chunks chunks']
  by (auto simp: update_hunk_line_def rbind_eq_Inr_iff split: if_splits option.splits list.splits)

lemma update_hunk_line_error:
  assumes "update_hunk_line line ul n mv chunks = Inl (InvalidHunkError msg k)"
  shows "k = n"
  using assms
  by (auto simp: update_hunk_line_def update_chunk_start_def update_diff_line_def rbind_eq_Inl_iff
      split: if_splits option.splits list.splits)


lemma hunks_inv_update_last:
  assumes "hunks_inv hs" and "hs \<noteq> []" and "hunk_partial h"
  shows "hunks_inv (update_last (\<lambda>_. h) hs)" and "last (update_last (\<lambda>_. h) hs) = h"
    and "update_last (\<lambda>_. h) hs \<noteq> []"
  using assms by (cases hs rule: rev_cases; auto simp: hunks_inv_def)+

lemma process_add_file_inv:
  assumes "process_add_file line t p = Inr p'" and "parser_inv p" and "parser_mode p = ModeAddFile"
    and "1 \<le> line_number p"
  shows "parser_inv p' \<and> line_number p' = line_number p"
proof -
  from assms(1) obtain b q where q: "handle_hunk_headers_and_end_patch t p = Inr (b, q)"
    by (auto simp: process_add_file_def rbind_eq_Inr_iff)
  have inv: "parser_inv q \<and> line_number q = line_number p \<and> (\<not> b \<longrightarrow> q = p)"
    using handle_headers_inv [OF q assms(2) _ assms(4)] assms(3) by simp
  show ?thesis
    using assms(1-3) q inv hunks_inv_update_last
    by (auto simp: process_add_file_def parser_inv_def last_opt_def split: if_splits option.splits hunk.splits)
qed

lemma process_update_file_inv:
  assumes "process_update_file line p = Inr p'" and "parser_inv p" and "parser_mode p = ModeUpdateFile k"
    and "1 \<le> line_number p"
  shows "parser_inv p' \<and> line_number p' = line_number p"
proof -
  from assms(1) obtain b q where q: "handle_hunk_headers_and_end_patch (trim_end line) p = Inr (b, q)"
    by (auto simp: process_update_file_def Let_def rbind_eq_Inr_iff)
  have inv: "parser_inv q \<and> line_number q = line_number p \<and> (\<not> b \<longrightarrow> q = p)"
    using handle_headers_inv [OF q assms(2) _ assms(4)] assms(3) by simp
  show ?thesis
  proof (cases b)
    case True
    with assms(1) q inv show ?thesis by (auto simp: process_update_file_def Let_def)
  next
    case False
    with inv assms(2,3) obtain path mv cs where h: "last (parser_hunks p) = UpdateFile path mv cs"
      "parser_hunks p \<noteq> []" and p: "hunks_inv (parser_hunks p)" "1 \<le> k" "k \<le> line_number p"
      by (cases "last (parser_hunks p)") (auto simp: parser_inv_def)
    then have "chunks_partial cs" by (auto simp: hunks_inv_def)
    with False assms(1,3) q inv h p hunks_inv_update_last [of "parser_hunks p"] update_hunk_line_inv
    show ?thesis
      by (fastforce simp: process_update_file_def Let_def parser_inv_def last_opt_def rbind_eq_Inr_iff)
  qed
qed

lemma process_line_inv:
  assumes "process_line line p = Inr p'" and "parser_inv p" and "1 \<le> line_number p"
  shows "parser_inv p' \<and> line_number p' = line_number p"
proof (cases "parser_mode p")
  case NotStarted
  with assms show ?thesis
    by (auto simp: process_line_def process_not_started_def parser_inv_def split: if_splits)
next
  case StartedPatch
  with assms handle_headers_inv [of "trim line" p _ p'] show ?thesis
    by (auto simp: process_line_def process_started_patch_def rbind_eq_Inr_iff split: if_splits)
next
  case ModeAddFile
  with assms process_add_file_inv show ?thesis by (auto simp: process_line_def)
next
  case ModeDeleteFile
  with assms handle_headers_inv [of "trim line" p _ p'] show ?thesis
    by (auto simp: process_line_def process_delete_file_def rbind_eq_Inr_iff split: if_splits)
next
  case (ModeUpdateFile k)
  with assms process_update_file_inv show ?thesis by (auto simp: process_line_def)
next
  case EndedPatch
  with assms show ?thesis by (auto simp: process_line_def process_ended_patch_def split: if_splits)
qed

lemma process_line_error_line:
  assumes "process_line line p = Inl (InvalidHunkError msg k)" and "parser_inv p" and "1 \<le> line_number p"
  shows "1 \<le> k \<and> k \<le> line_number p"
proof -
  have hdr: "handle_hunk_headers_and_end_patch t p = Inl (InvalidHunkError msg k)
    \<Longrightarrow> 1 \<le> k \<and> k \<le> line_number p" for t
    using handle_headers_error_line assms(2,3) by blast
  have same: "handle_hunk_headers_and_end_patch t p = Inr (False, q) \<Longrightarrow> parser_mode p \<noteq> EndedPatch
    \<Longrightarrow> q = p" for t q
    using handle_headers_inv assms(2,3) by blast
  show ?thesis
    using assms(1,3)
    by (auto simp: process_line_def process_not_started_def process_started_patch_def process_add_file_def
        process_delete_file_def process_update_file_def process_ended_patch_def rbind_eq_Inl_iff Let_def
        dest!: hdr same update_hunk_line_error
        split: parser_mode.splits if_splits option.splits hunk.splits)
qed

lemma parser_inv_default: "parser_inv default_parser"
  by (simp add: parser_inv_def default_parser_def hunks_inv_def)

lemma parser_inv_line_buffer [simp]: "parser_inv (p\<lparr>line_buffer := b\<rparr>) = parser_inv p"
  by (simp add: parser_inv_def)

lemma mode_fits_mono: "mode_fits n m hs \<Longrightarrow> n \<le> n' \<Longrightarrow> mode_fits n' m hs"
  by (cases m) auto

lemma parser_inv_next_line:
  "parser_inv p \<Longrightarrow> parser_inv (p\<lparr>line_buffer := b, line_number := Suc (line_number p)\<rparr>)"
  using mode_fits_mono [of "line_number p" "parser_mode p" "parser_hunks p" "Suc (line_number p)"]
  by (simp add: parser_inv_def)

lemma push_char_inv:
  assumes "push_char ch p = Inr p'" and "parser_inv p"
  shows "parser_inv p' \<and> line_number p' = line_number p + (if ch = 10 then 1 else 0)"
  using assms process_line_inv [OF _ parser_inv_next_line [OF assms(2)]]
  by (auto simp: push_char_def split: if_splits)

lemma push_char_error_line:
  assumes "push_char ch p = Inl (InvalidHunkError msg k)" and "parser_inv p"
  shows "1 \<le> k \<and> k \<le> line_number p + (if ch = 10 then 1 else 0)"
  using assms process_line_error_line [OF _ parser_inv_next_line [OF assms(2)]]
  by (auto simp: push_char_def split: if_splits)

lemma push_chars_inv:
  assumes "rfold push_char cs p = Inr p'" and "parser_inv p"
  shows "parser_inv p' \<and> line_number p' = line_number p + count_list cs 10"
  using assms
proof (induction cs arbitrary: p)
  case Nil
  then show ?case by simp
next
  case (Cons c cs)
  from Cons.prems(1) obtain q where q: "push_char c p = Inr q" "rfold push_char cs q = Inr p'"
    by (auto elim: rbind_InrE)
  with Cons.IH [OF q(2)] push_char_inv [OF q(1) Cons.prems(2)] show ?case by auto
qed

lemma push_chars_error_line:
  assumes "rfold push_char cs p = Inl (InvalidHunkError msg k)" and "parser_inv p"
  shows "1 \<le> k \<and> k \<le> line_number p + count_list cs 10"
  using assms
proof (induction cs arbitrary: p)
  case Nil
  then show ?case by simp
next
  case (Cons c cs)
  then consider "push_char c p = Inl (InvalidHunkError msg k)"
    | q where "push_char c p = Inr q" "rfold push_char cs q = Inl (InvalidHunkError msg k)"
    by (auto simp: rbind_eq_Inl_iff)
  then show ?case
  proof cases
    case 1
    with push_char_error_line Cons.prems(2) show ?thesis by fastforce
  next
    case 2
    with Cons.IH [OF 2(2)] push_char_inv [OF 2(1) Cons.prems(2)] show ?thesis by auto
  qed
qed

lemma finish_inv:
  assumes "finish p = Inr (hs, p')" and "parser_inv p"
  shows "list_all hunk_complete hs"
proof -
  from assms(1) have line: "finish_line p = Inr p'" and p': "parser_mode p' = EndedPatch" "hs = parser_hunks p'"
    by (auto simp: finish_def rbind_eq_Inr_iff split: if_splits)
  let ?q = "p\<lparr>line_buffer := [], line_number := Suc (line_number p)\<rparr>"
  have q: "parser_inv ?q" by (rule parser_inv_next_line [OF assms(2)])
  consider "line_buffer p = []" "p' = p" | "process_line (line_buffer p) ?q = Inr p'"
    | "ensure_update_hunk_is_not_empty (trim (line_buffer p)) ?q = Inr ()"
      "p' = ?q\<lparr>parser_mode := EndedPatch\<rparr>"
  proof (cases "line_buffer p = []")
    case True
    then have "finish_line p = Inr p" by (simp add: finish_line_def)
    with True line show ?thesis by (intro that(1)) simp_all
  next
    case nonempty: False
    show ?thesis
    proof (cases "trim (line_buffer p) = end_patch_marker")
      case True
      with nonempty have "finish_line p = rbind (ensure_update_hunk_is_not_empty (trim (line_buffer p)) ?q)
          (\<lambda>_. Inr (?q\<lparr>parser_mode := EndedPatch\<rparr>))"
        by (simp only: finish_line_def Let_def if_False if_True simp_thms Suc_eq_plus1)
      with line obtain u where "ensure_update_hunk_is_not_empty (trim (line_buffer p)) ?q = Inr u"
        and "p' = ?q\<lparr>parser_mode := EndedPatch\<rparr>"
        by (auto elim: rbind_InrE)
      then show ?thesis by (intro that(3)) simp_all
    next
      case False
      with nonempty have "finish_line p = process_line (line_buffer p) ?q"
        by (simp add: finish_line_def Let_def)
      with line show ?thesis by (intro that(2)) simp
    qed
  qed
  then show ?thesis
  proof cases
    case 1
    with assms(2) p' show ?thesis by (simp add: parser_inv_def)
  next
    case 2
    with process_line_inv [OF 2 q] p' show ?thesis by (simp add: parser_inv_def)
  next
    case 3
    have "list_all hunk_complete (parser_hunks ?q)"
    proof (cases "parser_mode p = EndedPatch")
      case True
      with q show ?thesis by (simp add: parser_inv_def)
    next
      case False
      with q show ?thesis
        by (intro ensure_complete [OF 3(1), of "Suc (line_number p)"]) (auto simp: parser_inv_def)
    qed
    with 3 p' show ?thesis by simp
  qed
qed

lemma finish_error_line:
  assumes "finish p = Inl (InvalidHunkError msg k)" and "parser_inv p"
  shows "1 \<le> k \<and> k \<le> Suc (line_number p)"
  using assms(1) process_line_error_line [OF _ parser_inv_next_line [OF assms(2), of "[]"]]
    ensure_error_line [of _ "p\<lparr>line_buffer := [], line_number := Suc (line_number p)\<rparr>" msg k]
    parser_inv_next_line [OF assms(2), of "[]"]
  by (auto simp: finish_def finish_line_def Let_def rbind_eq_Inl_iff parser_inv_def split: if_splits)

lemma parse_patch_textE:
  assumes "parse_patch_text text mode = Inr args"
  obtains p p' where "parser_inv p" and "finish p = Inr (args_hunks args, p')"
    and "rfold push_char (args_patch args) default_parser = Inr p"
  using assms push_chars_inv [OF _ parser_inv_default]
  by (fastforce simp: parse_patch_text_def Let_def rbind_eq_Inr_iff push_delta_def)

lemma str_lines_no_newline: "l \<in> set (str_lines s) \<Longrightarrow> 10 \<notin> set l"
proof -
  have cr: "set (strip_cr l) \<subseteq> set l" for l
    by (auto simp: strip_cr_def strip_suffix_Some_iff split: option.splits)
  assume "l \<in> set (str_lines s)"
  then show ?thesis
    using split_on_no_sep [of _ 10 s] cr
    by (auto simp: str_lines_def Let_def split: if_splits dest!: in_set_butlastD)
qed

lemma count_join_lines:
  fixes ls :: "rstr list"
  shows "\<forall>l \<in> set ls. 10 \<notin> set l \<Longrightarrow> count_list (join [10] ls) 10 = length ls - 1"
  by (induction "[10::int]" ls rule: join.induct) auto

lemma boundaries_subset:
  assumes "check_patch_boundaries_strict ls = Inr ls' \<or> check_patch_boundaries_lenient ls = Inr ls'"
  shows "set ls' \<subseteq> set ls \<and> length ls' \<le> length ls \<and> ls' \<noteq> []"
  using assms
  by (auto simp: check_patch_boundaries_lenient_def check_patch_boundaries_strict_def rbind_eq_Inr_iff
      check_start_and_end_lines_strict_def
      split: sum.splits if_splits dest!: in_set_butlastD intro: list.set_sel(2))


text \<open>
  A patch fed to the streaming parser in any pieces leaves it in the same state, or stops it
  with the same error, as the whole text fed at once.
\<close>

theorem push_deltas_split: "push_deltas deltas p = push_deltas [concat deltas] p"
  by (simp add: push_deltas_chars)

lemma parse_patch_text_hunks:
  assumes "parse_patch_text text mode = Inr args"
  shows "list_all hunk_complete (args_hunks args)"
  using assms by (auto elim: parse_patch_textE intro: finish_inv)

text \<open>C20.
  Every hunk of a patch that parses is complete: an update hunk has at least one chunk, every
  chunk has lines, and its context pairs increase, lie within both sides and join equal lines;
  the contents of a new file are empty or end with a line feed.
\<close>

theorem parse_patch_complete:
  assumes "parse_patch_text text mode = Inr args"
  shows "list_all hunk_complete (args_hunks args)"
  using assms by (rule parse_patch_text_hunks)

lemma parse_patch_complete_witness:
  "list_all hunk_complete
     [UpdateFile (lit ''a'') None
       [\<lparr>change_context = Some (lit ''f''), old_lines = [lit ''x''], new_lines = [lit ''y''],
         context_line_indices = [], is_end_of_file = False\<rparr>]]"
proof -
  let ?text = "join [10] [lit ''*** Begin Patch'', lit ''*** Update File: a'', lit ''@@ f'',
    lit ''-x'', lit ''+y'', lit ''*** End Patch'']"
  let ?args = "\<lparr>args_patch = ?text, args_hunks = [UpdateFile (lit ''a'') None
       [\<lparr>change_context = Some (lit ''f''), old_lines = [lit ''x''], new_lines = [lit ''y''],
         context_line_indices = [], is_end_of_file = False\<rparr>]],
    args_workdir = None, args_environment_id = None\<rparr>"
  have "parse_patch_text ?text Lenient = Inr ?args" by code_simp
  from parse_patch_complete [OF this] show ?thesis by simp
qed

text \<open>
  The line number in an invalid-hunk error is one of the lines of the patch text.
\<close>

theorem parse_patch_error_line:
  assumes "parse_patch_text text mode = Inl (InvalidHunkError msg k)"
  shows "1 \<le> k \<and> k \<le> length (str_lines (trim text))"
proof -
  let ?ls = "str_lines (trim text)"
  let ?bounds = "case mode of Strict \<Rightarrow> check_patch_boundaries_strict ?ls
    | Lenient \<Rightarrow> check_patch_boundaries_lenient ?ls"
  have not_bounds: "?bounds \<noteq> Inl (InvalidHunkError msg k)"
    by (auto simp: check_patch_boundaries_lenient_def check_patch_boundaries_strict_def
        check_start_and_end_lines_strict_def rbind_eq_Inl_iff rbind_eq_Inr_iff
        split: parse_mode.splits sum.splits if_splits)
  with assms obtain pl where pl: "?bounds = Inr pl"
    and err: "rfold push_char (join [10] pl) default_parser = Inl (InvalidHunkError msg k)
      \<or> (\<exists>p. rfold push_char (join [10] pl) default_parser = Inr p \<and> finish p = Inl (InvalidHunkError msg k))"
    by (auto simp: parse_patch_text_def Let_def rbind_eq_Inl_iff push_delta_def rbind_eq_Inr_iff)
  have sub: "set pl \<subseteq> set ?ls \<and> length pl \<le> length ?ls \<and> pl \<noteq> []"
    using pl by (intro boundaries_subset) (auto split: parse_mode.splits)
  then have count: "count_list (join [10] pl) 10 = length pl - 1"
    by (intro count_join_lines) (use str_lines_no_newline in blast)
  have zero: "line_number default_parser = 0" by (simp add: default_parser_def)
  have "1 \<le> k \<and> k \<le> length pl"
    using err
  proof
    assume "rfold push_char (join [10] pl) default_parser = Inl (InvalidHunkError msg k)"
    then show ?thesis
      using push_chars_error_line [OF _ parser_inv_default] count zero by fastforce
  next
    assume "\<exists>p. rfold push_char (join [10] pl) default_parser = Inr p \<and> finish p = Inl (InvalidHunkError msg k)"
    then obtain p where p: "rfold push_char (join [10] pl) default_parser = Inr p"
      "finish p = Inl (InvalidHunkError msg k)" by blast
    have "parser_inv p" and "line_number p = length pl - 1"
      using push_chars_inv [OF p(1) parser_inv_default] count zero by simp_all
    then show ?thesis using finish_error_line [OF p(2)] sub by (cases pl) auto
  qed
  with sub show ?thesis by linarith
qed

lemma parse_patch_error_line_witness:
  "1 \<le> (2::nat) \<and> 2 \<le> length (str_lines (trim (join [10]
     [lit ''*** Begin Patch'', lit ''*** Update File: a'', lit ''*** End Patch''])))"
proof -
  have "parse_patch_text (join [10]
     [lit ''*** Begin Patch'', lit ''*** Update File: a'', lit ''*** End Patch'']) Strict =
       Inl (InvalidHunkError (UpdateHunkEmpty (lit ''a'')) 2)"
    by code_simp
  from parse_patch_error_line [OF this] show ?thesis .
qed

end
