(* ===== verification/Patch_Document.thy ===== *)
theory Patch_Document
  imports Patch_Parser
begin

text \<open>
  The language of patches, as an abstract specification of the parser: a document is a list
  of file operations, an update is a list of sections, a section a list of diff lines.
  \<open>render\<close> writes a document in the syntax of the tool's instructions, \<open>denote\<close> says which
  hunks it stands for, and the parser is shown to return exactly these.
\<close>

datatype diff_line = Context rstr | Added rstr | Removed rstr

record patch_section =
  section_context :: "rstr option"
  section_lines :: "diff_line list"
  section_at_end :: bool

datatype file_op =
  Add_Op rstr "rstr list"
| Delete_Op rstr
| Update_Op rstr "rstr option" "patch_section list"

subsection \<open>Rendering\<close>

fun render_diff :: "diff_line \<Rightarrow> rstr" where
  "render_diff (Context l) = 32 # l"
| "render_diff (Added l) = 43 # l"
| "render_diff (Removed l) = 45 # l"

definition render_section :: "patch_section \<Rightarrow> rstr list" where
  "render_section s =
     (case section_context s of None \<Rightarrow> empty_change_context_marker
      | Some ctx \<Rightarrow> change_context_marker @ ctx)
     # map render_diff (section_lines s) @ (if section_at_end s then [eof_marker] else [])"

fun render_op :: "file_op \<Rightarrow> rstr list" where
  "render_op (Add_Op path ls) = (add_file_marker @ path) # map ((#) 43) ls"
| "render_op (Delete_Op path) = [delete_file_marker @ path]"
| "render_op (Update_Op path dest ss) =
     (update_file_marker @ path)
     # (case dest of None \<Rightarrow> [] | Some d \<Rightarrow> [move_to_marker @ d]) @ concat (map render_section ss)"

definition render_body :: "file_op list \<Rightarrow> rstr list" where
  "render_body ops = begin_patch_marker # concat (map render_op ops)"

definition render :: "file_op list \<Rightarrow> rstr" where
  "render ops = join [10] (render_body ops @ [end_patch_marker])"

subsection \<open>Meaning\<close>

fun denote_diff :: "diff_line \<Rightarrow> update_file_chunk \<Rightarrow> update_file_chunk" where
  "denote_diff (Context l) c = push_context_line l c"
| "denote_diff (Added l) c = c\<lparr>new_lines := new_lines c @ [l]\<rparr>"
| "denote_diff (Removed l) c = c\<lparr>old_lines := old_lines c @ [l]\<rparr>"

definition denote_section :: "patch_section \<Rightarrow> update_file_chunk" where
  "denote_section s =
     (fold denote_diff (section_lines s) (default_chunk\<lparr>change_context := section_context s\<rparr>))
       \<lparr>is_end_of_file := section_at_end s\<rparr>"

fun denote_op :: "file_op \<Rightarrow> hunk" where
  "denote_op (Add_Op path ls) = AddFile path (concat (map (\<lambda>l. l @ [10]) ls))"
| "denote_op (Delete_Op path) = DeleteFile path"
| "denote_op (Update_Op path dest ss) = UpdateFile path dest (map denote_section ss)"

subsection \<open>Documents that can be written\<close>

text \<open>
  A path or a context is written at the end of its line, which is trimmed: it is not empty,
  does not end with white space and has no line feed. A diff line has no line feed and does
  not end with a carriage return, which would be taken for the end of the line.
\<close>

definition clean_tail :: "rstr \<Rightarrow> bool" where
  "clean_tail s \<longleftrightarrow> s \<noteq> [] \<and> \<not> is_whitespace (last s) \<and> 10 \<notin> set s"

definition clean_line :: "rstr \<Rightarrow> bool" where
  "clean_line s \<longleftrightarrow> 10 \<notin> set s \<and> (s \<noteq> [] \<longrightarrow> last s \<noteq> 13)"

fun diff_text :: "diff_line \<Rightarrow> rstr" where
  "diff_text (Context l) = l" | "diff_text (Added l) = l" | "diff_text (Removed l) = l"

definition section_wf :: "patch_section \<Rightarrow> bool" where
  "section_wf s \<longleftrightarrow> pred_option clean_tail (section_context s) \<and> section_lines s \<noteq> []
     \<and> list_all (\<lambda>d. clean_line (diff_text d)) (section_lines s)"

fun op_wf :: "file_op \<Rightarrow> bool" where
  "op_wf (Add_Op path ls) \<longleftrightarrow> clean_tail path \<and> list_all clean_line ls"
| "op_wf (Delete_Op path) \<longleftrightarrow> clean_tail path"
| "op_wf (Update_Op path dest ss) \<longleftrightarrow>
     clean_tail path \<and> pred_option clean_tail dest \<and> ss \<noteq> [] \<and> list_all section_wf ss"

subsection \<open>Lines\<close>

definition line_step :: "rstr \<Rightarrow> patch_parser \<Rightarrow> parse_error + patch_parser" where
  "line_step l p = process_line l (p\<lparr>line_buffer := [], line_number := line_number p + 1\<rparr>)"

lemma push_plain_chars:
  "10 \<notin> set l \<Longrightarrow> rfold push_char l p = Inr (p\<lparr>line_buffer := line_buffer p @ l\<rparr>)"
  by (induction l arbitrary: p) (auto simp: push_char_def)

lemma push_line:
  assumes "clean_line l" and "line_buffer p = []"
  shows "rfold push_char (l @ [10]) p = line_step l p"
proof -
  have "strip_cr l = l"
    using assms(1) by (auto simp: strip_cr_def clean_line_def strip_suffix_Some_iff split: option.splits)
  with assms show ?thesis
    by (cases "line_step l p") (simp_all add: rfold_append push_plain_chars clean_line_def,
      simp_all add: push_char_def line_step_def)
qed

lemma process_line_line_buffer: "process_line l p = Inr p' \<Longrightarrow> line_buffer p' = line_buffer p"
  by (auto simp: process_line_def process_not_started_def process_started_patch_def process_add_file_def
      process_delete_file_def process_update_file_def process_ended_patch_def
      handle_hunk_headers_and_end_patch_def handle_end_and_headers_def handle_file_header_def push_hunk_def
      rbind_eq_Inr_iff Let_def
      split: parser_mode.splits if_splits option.splits hunk.splits)

lemma push_lines:
  assumes "list_all clean_line ls" and "10 \<notin> set l" and "line_buffer p = []"
  shows "rfold push_char (join [10] (ls @ [l])) p =
    rbind (rfold line_step ls p) (\<lambda>p'. Inr (p'\<lparr>line_buffer := l\<rparr>))"
  using assms
proof (induction ls arbitrary: p)
  case Nil
  then show ?case by (simp add: push_plain_chars)
next
  case (Cons x ls)
  obtain y ys where y: "ls @ [l] = y # ys" by (cases "ls @ [l]") auto
  have "join [10] ((x # ls) @ [l]) = (x @ [10]) @ join [10] (ls @ [l])"
    by (simp add: y)
  then have "rfold push_char (join [10] ((x # ls) @ [l])) p =
    rbind (line_step x p) (rfold push_char (join [10] (ls @ [l])))"
    using Cons.prems push_line [of x p] by (simp only: rfold_append list.pred_inject(2))
  also have "\<dots> = rbind (line_step x p) (\<lambda>q. rbind (rfold line_step ls q) (\<lambda>p'. Inr (p'\<lparr>line_buffer := l\<rparr>)))"
  proof (cases "line_step x p")
    case (Inr q)
    then have "line_buffer q = []"
      using process_line_line_buffer by (fastforce simp: line_step_def)
    with Inr Cons.IH Cons.prems show ?thesis by simp
  qed simp
  also have "\<dots> = rbind (rfold line_step (x # ls) p) (\<lambda>p'. Inr (p'\<lparr>line_buffer := l\<rparr>))"
    by (cases "line_step x p") simp_all
  finally show ?case .
qed


subsection \<open>Headers\<close>

text \<open>A parser between two file operations: any header is accepted.\<close>

definition ready :: "patch_parser \<Rightarrow> bool" where
  "ready p \<longleftrightarrow> parser_mode p \<noteq> NotStarted \<and> parser_mode p \<noteq> EndedPatch
     \<and> (\<forall>line. ensure_update_hunk_is_not_empty line p = Inr ())"

lemma ready_next_line [simp]:
  "ready (p\<lparr>line_buffer := b, line_number := n\<rparr>) = ready p" "ready (p\<lparr>line_buffer := b\<rparr>) = ready p"
  by (auto simp: ready_def ensure_update_hunk_is_not_empty_def
      split: option.splits hunk.splits list.splits parser_mode.splits)

lemma trim_prefix:
  assumes "clean_tail s" and "m \<noteq> []" and "\<not> is_whitespace (hd m)"
  shows "trim (m @ s) = m @ s" and "trim_end (m @ s) = m @ s"
  using assms by (auto simp: clean_tail_def intro!: trim_id trim_end_id)

lemma marker_heads:
  "hd begin_patch_marker = 42" "hd end_patch_marker = 42" "hd add_file_marker = 42"
  "hd delete_file_marker = 42" "hd update_file_marker = 42" "hd move_to_marker = 42"
  "hd eof_marker = 42" "hd change_context_marker = 64" "hd empty_change_context_marker = 64"
  "begin_patch_marker \<noteq> []" "end_patch_marker \<noteq> []" "add_file_marker \<noteq> []"
  "delete_file_marker \<noteq> []" "update_file_marker \<noteq> []" "move_to_marker \<noteq> []"
  "eof_marker \<noteq> []" "change_context_marker \<noteq> []" "empty_change_context_marker \<noteq> []"
  by (simp_all add: marker_defs)

lemma headers_handled:
  assumes "ready p"
  shows "handle_hunk_headers_and_end_patch (add_file_marker @ path) p =
      Inr (True, p\<lparr>parser_hunks := parser_hunks p @ [AddFile path []], parser_mode := ModeAddFile\<rparr>)"
    and "handle_hunk_headers_and_end_patch (delete_file_marker @ path) p =
      Inr (True, p\<lparr>parser_hunks := parser_hunks p @ [DeleteFile path], parser_mode := ModeDeleteFile\<rparr>)"
    and "handle_hunk_headers_and_end_patch (update_file_marker @ path) p =
      Inr (True, p\<lparr>parser_hunks := parser_hunks p @ [UpdateFile path None []],
        parser_mode := ModeUpdateFile (line_number p)\<rparr>)"
  using assms
  by (auto simp: handle_hunk_headers_and_end_patch_def handle_end_and_headers_def handle_file_header_def
      push_hunk_def marker_defs ready_def split: parser_mode.splits)

lemma process_header:
  assumes "ready p" and "trim line = line" and "trim_end line = line"
    and "handle_hunk_headers_and_end_patch line p = Inr (True, q)"
  shows "process_line line p = Inr q"
  using assms by (cases "parser_mode p")
    (auto simp: ready_def process_line_def process_started_patch_def process_add_file_def
      process_delete_file_def process_update_file_def)

subsection \<open>Operations\<close>

abbreviation next_line :: "patch_parser \<Rightarrow> patch_parser" where
  "next_line p \<equiv> p\<lparr>line_buffer := [], line_number := Suc (line_number p)\<rparr>"

text \<open>The parser after \<open>n\<close> more lines, with new hunks, in a given mode.\<close>

definition after :: "nat \<Rightarrow> hunk list \<Rightarrow> parser_mode \<Rightarrow> patch_parser \<Rightarrow> patch_parser" where
  "after n hs m p =
     p\<lparr>line_buffer := [], line_number := line_number p + n, parser_hunks := hs, parser_mode := m\<rparr>"

lemma after_after [simp]: "after n hs m (after k hs' m' p) = after (k + n) hs m p"
  by (simp add: after_def)

lemma after_sel [simp]:
  "parser_hunks (after n hs m p) = hs" "parser_mode (after n hs m p) = m"
  "line_number (after n hs m p) = line_number p + n" "line_buffer (after n hs m p) = []"
  "parser_environment_id (after n hs m p) = parser_environment_id p"
  by (simp_all add: after_def)

lemma header_steps:
  assumes "ready p" and "clean_tail path"
  shows "line_step (add_file_marker @ path) p =
      Inr (after 1 (parser_hunks p @ [AddFile path []]) ModeAddFile p)"
    and "line_step (delete_file_marker @ path) p =
      Inr (after 1 (parser_hunks p @ [DeleteFile path]) ModeDeleteFile p)"
    and "line_step (update_file_marker @ path) p =
      Inr (after 1 (parser_hunks p @ [UpdateFile path None []]) (ModeUpdateFile (Suc (line_number p))) p)"
proof -
  have r: "ready (next_line p)" using assms(1) by simp
  have step: "line_step (m @ path) p = Inr q"
    if "m \<noteq> []" and "hd m = 42" and "handle_hunk_headers_and_end_patch (m @ path) (next_line p) = Inr (True, q)"
    for m q
    unfolding line_step_def Suc_eq_plus1 [symmetric]
    using that by (intro process_header r trim_prefix assms(2)) (auto simp: is_whitespace_def)
  show "line_step (add_file_marker @ path) p =
      Inr (after 1 (parser_hunks p @ [AddFile path []]) ModeAddFile p)"
    by (rule step) (simp_all add: marker_heads headers_handled(1) [OF r] after_def)
  show "line_step (delete_file_marker @ path) p =
      Inr (after 1 (parser_hunks p @ [DeleteFile path]) ModeDeleteFile p)"
    by (rule step) (simp_all add: marker_heads headers_handled(2) [OF r] after_def)
  show "line_step (update_file_marker @ path) p =
      Inr (after 1 (parser_hunks p @ [UpdateFile path None []]) (ModeUpdateFile (Suc (line_number p))) p)"
    by (rule step) (simp_all add: marker_heads headers_handled(3) [OF r] after_def)
qed

text \<open>No line of a body is taken for a header.\<close>

lemma trim_end_Cons: "trim_end (c # s) = [] \<or> (\<exists>t. trim_end (c # s) = c # t)"
proof -
  have "dropWhile is_whitespace (rev s @ [c]) = [] \<or> (\<exists>t. dropWhile is_whitespace (rev s @ [c]) = t @ [c])"
    by (induction "rev s" arbitrary: s) (auto simp: dropWhile_append)
  then show ?thesis
  proof
    assume "\<exists>t. dropWhile is_whitespace (rev s @ [c]) = t @ [c]"
    then obtain t where "dropWhile is_whitespace (rev s @ [c]) = t @ [c]" ..
    then have "trim_end (c # s) = c # rev t" by (simp add: trim_end_def)
    then show ?thesis by blast
  qed (simp add: trim_end_def)
qed

lemma trim_Cons:
  assumes "\<not> is_whitespace c"
  shows "\<exists>t. trim (c # s) = c # t"
proof -
  have "trim_end (c # s) \<noteq> []"
    using assms by (auto simp: trim_end_def)
  then show ?thesis
    using trim_end_Cons [of c s] assms by (auto simp: trim_def trim_start_def)
qed

lemma not_header:
  assumes "l = [] \<or> (\<exists>c t. l = c # t \<and> c \<noteq> 42)"
  shows "handle_hunk_headers_and_end_patch l p = Inr (False, p)"
  using assms
  by (auto simp: handle_hunk_headers_and_end_patch_def handle_end_and_headers_def handle_file_header_def
      marker_defs split: parser_mode.splits)

lemma add_line_step:
  assumes "parser_mode p = ModeAddFile" and "parser_hunks p = hs @ [AddFile path contents]"
  shows "line_step (43 # l) p = Inr (after 1 (hs @ [AddFile path (contents @ l @ [10])]) ModeAddFile p)"
proof -
  obtain t where "trim (43 # l) = 43 # t" using trim_Cons [of 43 l] by (auto simp: is_whitespace_def)
  then show ?thesis
    using assms by (simp add: line_step_def process_line_def process_add_file_def not_header after_def)
qed

lemma add_lines_steps:
  assumes "parser_mode p = ModeAddFile" and "parser_hunks p = hs @ [AddFile path contents]"
    and "line_buffer p = []"
  shows "rfold line_step (map ((#) 43) ls) p =
    Inr (after (length ls) (hs @ [AddFile path (contents @ concat (map (\<lambda>l. l @ [10]) ls))]) ModeAddFile p)"
  using assms
proof (induction ls arbitrary: p contents)
  case Nil
  then show ?case by (simp add: after_def)
next
  case (Cons l ls)
  then show ?case by (simp add: add_line_step)
qed


lemma update_line_step:
  assumes "parser_mode p = ModeUpdateFile k" and "parser_hunks p = hs @ [UpdateFile path mv cs]"
    and "handle_hunk_headers_and_end_patch (trim_end l) (next_line p) = Inr (False, next_line p)"
    and "update_hunk_line l (trim_end l) (Suc (line_number p)) mv cs = Inr (mv', cs')"
  shows "line_step l p = Inr (after 1 (hs @ [UpdateFile path mv' cs']) (ModeUpdateFile k) p)"
  using assms by (simp add: line_step_def process_line_def process_update_file_def after_def)

lemma update_hunk_line_start:
  assumes "\<not> last_chunk_is_end_of_file cs \<or>
      (ul \<noteq> [] \<and> (ul = empty_change_context_marker \<or> starts_with change_context_marker ul))"
    and "cs \<noteq> [] \<or> mv \<noteq> None \<or> strip_prefix move_to_marker ul = None"
    and "update_chunk_start l ul n cs = Inr cs'"
  shows "update_hunk_line l ul n mv cs = Inr (mv, cs')"
proof -
  have "(case (cs, mv, strip_prefix move_to_marker ul) of ([], None, Some dest) \<Rightarrow> Inr (Some dest, cs)
      | _ \<Rightarrow> rbind (update_chunk_start l ul n cs) (\<lambda>cs. Inr (mv, cs))) = Inr (mv, cs')"
    using assms(2,3) by (auto split: list.splits option.splits)
  with assms(1) show ?thesis by (auto simp: update_hunk_line_def)
qed

lemma render_diff_trim:
  "trim_end (render_diff d) = [] \<or> (\<exists>c t. trim_end (render_diff d) = c # t \<and> c \<noteq> 42 \<and> c \<noteq> 64)"
  by (cases d) (use trim_end_Cons in fastforce)+

lemma diff_step:
  assumes "parser_mode p = ModeUpdateFile k"
    and "parser_hunks p = hs @ [UpdateFile path mv (cs @ [c])]" and "\<not> is_end_of_file c"
  shows "line_step (render_diff d) p =
    Inr (after 1 (hs @ [UpdateFile path mv (cs @ [denote_diff d c])]) (ModeUpdateFile k) p)"
proof (rule update_line_step [OF assms(1,2)])
  show "handle_hunk_headers_and_end_patch (trim_end (render_diff d)) (next_line p) = Inr (False, next_line p)"
    using render_diff_trim [of d] by (intro not_header) auto
  let ?ul = "trim_end (render_diff d)"
  have "?ul \<noteq> empty_change_context_marker" "\<not> starts_with change_context_marker ?ul"
    "?ul \<noteq> eof_marker" "strip_prefix change_context_marker ?ul = None"
    using render_diff_trim [of d] by (auto simp: marker_defs starts_with_iff)
  moreover have "update_diff_line (render_diff d) n (cs @ [c]) = Inr (cs @ [denote_diff d c])" for n
    by (cases d) (simp_all add: update_diff_line_def on_last_chunk_def)
  ultimately show "update_hunk_line (render_diff d) ?ul (Suc (line_number p)) mv (cs @ [c]) =
      Inr (mv, cs @ [denote_diff d c])"
    using assms(3) by (intro update_hunk_line_start) (simp_all add: chunk_flags update_chunk_start_def)
qed

lemma denote_diff_sel [simp]:
  "is_end_of_file (denote_diff d c) = is_end_of_file c"
  "change_context (denote_diff d c) = change_context c"
  by (cases d; simp add: push_context_line_def)+

lemma denote_diff_has_lines: "chunk_has_lines (denote_diff d c)"
  by (cases d) (auto simp: push_context_line_def chunk_has_lines_def)

lemma fold_denote_has_lines: "chunk_has_lines c \<or> ds \<noteq> [] \<Longrightarrow> chunk_has_lines (fold denote_diff ds c)"
  by (induction ds arbitrary: c) (auto simp: denote_diff_has_lines)

lemma fold_denote_not_eof [simp]: "is_end_of_file (fold denote_diff ds c) = is_end_of_file c"
  by (induction ds arbitrary: c) simp_all

lemma diff_steps:
  assumes "parser_mode p = ModeUpdateFile k" and "line_buffer p = []"
    and "parser_hunks p = hs @ [UpdateFile path mv (cs @ [c])]" and "\<not> is_end_of_file c"
  shows "rfold line_step (map render_diff ds) p =
    Inr (after (length ds) (hs @ [UpdateFile path mv (cs @ [fold denote_diff ds c])]) (ModeUpdateFile k) p)"
  using assms
proof (induction ds arbitrary: p c)
  case Nil
  then show ?case by (simp add: after_def)
next
  case (Cons d ds)
  then show ?case by (simp add: diff_step)
qed

lemma not_header_context:
  assumes "l = eof_marker \<or> (\<exists>s. l = move_to_marker @ s)" and "parser_mode p = ModeUpdateFile k"
  shows "handle_hunk_headers_and_end_patch l p = Inr (False, p)"
  using assms
  by (auto simp: handle_hunk_headers_and_end_patch_def handle_end_and_headers_def handle_file_header_def
      marker_defs)

definition section_head :: "patch_section \<Rightarrow> rstr" where
  "section_head s = (case section_context s of None \<Rightarrow> empty_change_context_marker
      | Some ctx \<Rightarrow> change_context_marker @ ctx)"

lemma section_head_step:
  assumes "parser_mode p = ModeUpdateFile k" and "parser_hunks p = hs @ [UpdateFile path mv cs]"
    and "list_all chunk_has_lines cs" and "section_wf s"
  shows "line_step (section_head s) p =
    Inr (after 1 (hs @ [UpdateFile path mv (cs @ [default_chunk\<lparr>change_context := section_context s\<rparr>])])
      (ModeUpdateFile k) p)"
proof -
  have ul: "trim_end (section_head s) = section_head s"
    using assms(4) trim_prefix(2) [of _ change_context_marker] trim_end_id [of empty_change_context_marker]
    by (auto simp: section_head_def section_wf_def marker_heads is_whitespace_def split: option.splits)
      (simp_all add: marker_defs)
  have full: "\<not> last_chunk_without_lines cs"
    using assms(3) by (cases cs rule: rev_cases) (auto simp: chunk_flags)
  have head: "\<exists>t. section_head s = 64 # t"
    by (auto simp: section_head_def marker_defs split: option.splits)
  have at: "section_head s = empty_change_context_marker \<or> starts_with change_context_marker (section_head s)"
    by (auto simp: section_head_def starts_with_iff split: option.splits)
  have start: "update_chunk_start (section_head s) (section_head s) n cs =
      Inr (cs @ [default_chunk\<lparr>change_context := section_context s\<rparr>])" for n
    using full by (cases "section_context s")
      (auto simp: update_chunk_start_def section_head_def default_chunk_def marker_defs)
  have "strip_prefix move_to_marker (section_head s) = None"
    using head by (auto simp: marker_defs)
  then have "update_hunk_line (section_head s) (section_head s) (Suc (line_number p)) mv cs =
      Inr (mv, cs @ [default_chunk\<lparr>change_context := section_context s\<rparr>])"
    using at start head by (intro update_hunk_line_start) auto
  moreover have "handle_hunk_headers_and_end_patch (section_head s) (next_line p) = Inr (False, next_line p)"
    using head by (intro not_header) auto
  ultimately show ?thesis by (intro update_line_step [OF assms(1,2)]) (simp_all add: ul)
qed

lemma eof_step:
  assumes "parser_mode p = ModeUpdateFile k" and "parser_hunks p = hs @ [UpdateFile path mv (cs @ [c])]"
    and "chunk_has_lines c" and "\<not> is_end_of_file c"
  shows "line_step eof_marker p =
    Inr (after 1 (hs @ [UpdateFile path mv (cs @ [c\<lparr>is_end_of_file := True\<rparr>])]) (ModeUpdateFile k) p)"
proof -
  have ul: "trim_end eof_marker = eof_marker"
    by (rule trim_end_id) (simp add: marker_defs is_whitespace_def)
  have "update_chunk_start eof_marker eof_marker n (cs @ [c]) = Inr (cs @ [c\<lparr>is_end_of_file := True\<rparr>])" for n
    using assms(3) by (simp add: update_chunk_start_def chunk_flags) (simp add: marker_defs starts_with_def)
  then have "update_hunk_line eof_marker eof_marker (Suc (line_number p)) mv (cs @ [c]) =
      Inr (mv, cs @ [c\<lparr>is_end_of_file := True\<rparr>])"
    using assms(4) by (intro update_hunk_line_start) (simp_all add: chunk_flags)
  with not_header_context [of eof_marker "next_line p" k] assms(1) show ?thesis
    by (intro update_line_step [OF assms(1,2)]) (simp_all add: ul)
qed

lemma section_steps:
  assumes "parser_mode p = ModeUpdateFile k" and "parser_hunks p = hs @ [UpdateFile path mv cs]"
    and "list_all chunk_has_lines cs" and "section_wf s" and "line_buffer p = []"
  shows "rfold line_step (render_section s) p =
    Inr (after (length (render_section s)) (hs @ [UpdateFile path mv (cs @ [denote_section s])])
      (ModeUpdateFile k) p)"
proof -
  let ?c0 = "default_chunk\<lparr>change_context := section_context s\<rparr>"
  let ?c = "fold denote_diff (section_lines s) ?c0"
  have c: "chunk_has_lines ?c" "\<not> is_end_of_file ?c0"
    using assms(4) by (auto intro!: fold_denote_has_lines simp: section_wf_def default_chunk_def)
  have same: "?c\<lparr>is_end_of_file := False\<rparr> = ?c" using c(2) by (intro update_file_chunk.equality) simp_all
  show ?thesis
    using section_head_step [OF assms(1-4)] c same
    by (auto simp: render_section_def section_head_def [symmetric] rfold_append diff_steps eof_step
        denote_section_def)
qed

lemma denote_section_has_lines: "section_wf s \<Longrightarrow> chunk_has_lines (denote_section s)"
  using fold_denote_has_lines [of _ "section_lines s"]
  by (fastforce simp: denote_section_def section_wf_def chunk_has_lines_def)

lemma sections_steps:
  assumes "parser_mode p = ModeUpdateFile k" and "parser_hunks p = hs @ [UpdateFile path mv cs]"
    and "list_all chunk_has_lines cs" and "list_all section_wf ss" and "line_buffer p = []"
  shows "rfold line_step (concat (map render_section ss)) p =
    Inr (after (length (concat (map render_section ss)))
      (hs @ [UpdateFile path mv (cs @ map denote_section ss)]) (ModeUpdateFile k) p)"
  using assms
proof (induction ss arbitrary: p cs)
  case Nil
  then show ?case by (simp add: after_def)
next
  case (Cons s ss)
  then show ?case by (simp add: rfold_append section_steps denote_section_has_lines)
qed

lemma move_step:
  assumes "parser_mode p = ModeUpdateFile k" and "parser_hunks p = hs @ [UpdateFile path None []]"
    and "clean_tail d"
  shows "line_step (move_to_marker @ d) p =
    Inr (after 1 (hs @ [UpdateFile path (Some d) []]) (ModeUpdateFile k) p)"
proof -
  have "trim_end (move_to_marker @ d) = move_to_marker @ d"
    using assms(3) by (intro trim_prefix) (simp_all add: marker_heads is_whitespace_def)
  moreover have "handle_hunk_headers_and_end_patch (move_to_marker @ d) (next_line p) =
      Inr (False, next_line p)"
    by (rule not_header_context [of _ _ k]) (use assms(1) in auto)
  ultimately show ?thesis
    by (intro update_line_step [OF assms(1,2)])
      (simp_all add: update_hunk_line_def last_chunk_is_end_of_file_def)
qed


lemma ready_after:
  assumes "m \<noteq> NotStarted" and "m \<noteq> EndedPatch"
    and "hs = [] \<or> (\<forall>path mv cs. last hs = UpdateFile path mv cs \<longrightarrow> cs \<noteq> [] \<and> chunk_has_lines (last cs))"
  shows "ready (after n hs m p)"
  using assms
  by (auto simp: ready_def ensure_update_hunk_is_not_empty_def last_opt_def chunk_flags
      split: hunk.splits list.splits parser_mode.splits)

lemma op_steps:
  assumes "ready p" and "op_wf op" and "line_buffer p = []"
  obtains m where "rfold line_step (render_op op) p =
      Inr (after (length (render_op op)) (parser_hunks p @ [denote_op op]) m p)"
    and "ready (after (length (render_op op)) (parser_hunks p @ [denote_op op]) m p)"
proof (cases op)
  case (Add_Op path ls)
  with assms show ?thesis
    by (intro that [of ModeAddFile])
      (auto simp: header_steps add_lines_steps [where hs = "parser_hunks p"] intro!: ready_after)
next
  case (Delete_Op path)
  with assms show ?thesis
    by (intro that [of ModeDeleteFile]) (auto simp: header_steps intro!: ready_after)
next
  case (Update_Op path dest ss)
  let ?k = "Suc (line_number p)" and ?hs = "parser_hunks p"
  have wf: "clean_tail path" "pred_option clean_tail dest" "ss \<noteq> []" "list_all section_wf ss"
    using assms(2) Update_Op by simp_all
  have head: "rfold line_step ((update_file_marker @ path) #
      (case dest of None \<Rightarrow> [] | Some d \<Rightarrow> [move_to_marker @ d])) p =
    Inr (after (if dest = None then 1 else 2) (?hs @ [UpdateFile path dest []]) (ModeUpdateFile ?k) p)"
    using wf assms(1)
    by (cases dest) (auto simp: header_steps(3) move_step [where hs = ?hs and path = path] numeral_2_eq_2)
  have split: "render_op op = ((update_file_marker @ path) #
      (case dest of None \<Rightarrow> [] | Some d \<Rightarrow> [move_to_marker @ d])) @ concat (map render_section ss)"
    using Update_Op by simp
  have "rfold line_step (render_op op) p =
      Inr (after (length (render_op op)) (?hs @ [denote_op op]) (ModeUpdateFile ?k) p)"
    unfolding split rfold_append head rbind_Inr using Update_Op wf
      sections_steps [where p = "after (if dest = None then 1 else 2) (?hs @ [UpdateFile path dest []])
        (ModeUpdateFile ?k) p" and k = ?k and hs = ?hs and path = path and mv = dest and cs = "[]" and ss = ss]
    by (cases dest) simp_all
  moreover have "chunk_has_lines (denote_section (last ss))"
    using wf by (intro denote_section_has_lines) (auto simp: list_all_iff)
  ultimately show ?thesis
    using Update_Op wf by (intro that [of "ModeUpdateFile ?k"]) (auto simp: last_map intro!: ready_after)
qed

lemma ops_steps:
  assumes "ready p" and "list_all op_wf ops" and "line_buffer p = []"
  obtains n m where "rfold line_step (concat (map render_op ops)) p =
      Inr (after n (parser_hunks p @ map denote_op ops) m p)"
    and "ready (after n (parser_hunks p @ map denote_op ops) m p)"
  using assms
proof (induction ops arbitrary: p thesis)
  case Nil
  have "after 0 (parser_hunks p) (parser_mode p) p = p"
    using Nil.prems(4) by (simp add: after_def)
  with Nil.prems(2) show ?case by (intro Nil.prems(1) [of 0 "parser_mode p"]) simp_all
next
  case (Cons op ops)
  obtain m where m: "rfold line_step (render_op op) p =
      Inr (after (length (render_op op)) (parser_hunks p @ [denote_op op]) m p)"
    and r: "ready (after (length (render_op op)) (parser_hunks p @ [denote_op op]) m p)" (is "ready ?q")
    using op_steps [of p op] Cons.prems(2-4) by auto
  obtain n' m' where "rfold line_step (concat (map render_op ops)) ?q =
      Inr (after n' (parser_hunks ?q @ map denote_op ops) m' ?q)"
    and "ready (after n' (parser_hunks ?q @ map denote_op ops) m' ?q)"
    using Cons.IH [of ?q] r Cons.prems(3) by auto
  with m show ?case
    by (intro Cons.prems(1) [of "length (render_op op) + n'" m']) (simp_all add: rfold_append)
qed

subsection \<open>The text of a document\<close>

lemma clean_line_append: "clean_tail s \<Longrightarrow> 10 \<notin> set m \<Longrightarrow> clean_line (m @ s)"
  by (auto simp: clean_tail_def clean_line_def is_whitespace_def)

lemma render_section_clean: "section_wf s \<Longrightarrow> list_all clean_line (render_section s)"
proof -
  assume wf: "section_wf s"
  have "clean_line (render_diff d)" if "clean_line (diff_text d)" for d
    using that by (cases d) (auto simp: clean_line_def)
  then have "list_all clean_line (map render_diff (section_lines s))"
    using wf by (auto simp: section_wf_def list_all_iff)
  moreover have "clean_line empty_change_context_marker" "clean_line eof_marker"
    by (simp_all add: marker_defs clean_line_def)
  moreover have "clean_line (change_context_marker @ ctx)" if "section_context s = Some ctx" for ctx
    using wf that by (intro clean_line_append) (simp_all add: section_wf_def marker_defs)
  ultimately show ?thesis
    by (auto simp: render_section_def split: option.splits)
qed

lemma render_op_clean: "op_wf op \<Longrightarrow> list_all clean_line (render_op op)"
proof (cases op)
  case (Add_Op path ls)
  assume "op_wf op"
  with Add_Op clean_line_append [of path add_file_marker] show ?thesis
    by (auto simp: list_all_iff clean_line_def marker_defs)
next
  case (Delete_Op path)
  assume "op_wf op"
  with Delete_Op clean_line_append [of path delete_file_marker] show ?thesis
    by (simp add: marker_defs)
next
  case (Update_Op path dest ss)
  assume "op_wf op"
  with Update_Op clean_line_append [of _ update_file_marker] clean_line_append [of _ move_to_marker]
    render_section_clean show ?thesis
    by (auto simp: list_all_iff marker_defs split: option.splits)
qed

lemma render_body_clean: "list_all op_wf ops \<Longrightarrow> list_all clean_line (render_body ops)"
  using render_op_clean by (fastforce simp: render_body_def list_all_iff clean_line_def marker_defs)

lemma clean_line_strip_cr: "clean_line l \<Longrightarrow> strip_cr l = l"
  by (auto simp: strip_cr_def clean_line_def strip_suffix_Some_iff split: option.splits)

lemma hd_join: "x \<noteq> [] \<Longrightarrow> hd (join sep (x # ls)) = hd x"
  by (cases ls) simp_all

lemma join_snoc: "\<exists>pre. join sep (ls @ [x]) = pre @ x"
proof (induction ls)
  case (Cons l ls)
  obtain y ys where "ls @ [x] = y # ys" by (cases "ls @ [x]") auto
  with Cons show ?case by (auto simp flip: append_assoc)
qed simp

lemma last_join: "x \<noteq> [] \<Longrightarrow> last (join sep (ls @ [x])) = last x"
  using join_snoc [of sep ls x] by auto

lemma render_lines:
  assumes "list_all op_wf ops"
  shows "str_lines (trim (render ops)) = render_body ops @ [end_patch_marker]"
proof -
  have clean: "list_all clean_line (render_body ops @ [end_patch_marker])"
    using render_body_clean [OF assms] by (simp add: clean_line_def marker_defs)
  have "hd (render ops) = 42"
    using hd_join [of begin_patch_marker "[10]"] by (simp add: render_def render_body_def marker_heads)
  moreover have "last (render ops) = 104"
    using last_join [of end_patch_marker "[10]" "render_body ops"] unfolding render_def
    by (simp add: marker_heads) (simp add: marker_defs)
  ultimately have "trim (render ops) = render ops" by (intro trim_id) (simp add: is_whitespace_def)
  moreover have "str_lines (render ops) = render_body ops @ [end_patch_marker]"
    unfolding render_def using clean
    by (intro str_lines_join) (auto simp: list_all_iff clean_line_strip_cr clean_line_def marker_heads)
  ultimately show ?thesis by simp
qed

lemma marker_trims [simp]: "trim begin_patch_marker = begin_patch_marker" "trim end_patch_marker = end_patch_marker"
  by (intro trim_id; simp add: marker_defs is_whitespace_def)+

lemma render_boundaries:
  "check_patch_boundaries_strict (render_body ops @ [end_patch_marker]) =
    Inr (render_body ops @ [end_patch_marker])"
  by (simp add: check_patch_boundaries_strict_def check_start_and_end_lines_strict_def render_body_def)

lemma finish_end_marker:
  assumes "ready p"
  shows "finish (p\<lparr>line_buffer := end_patch_marker\<rparr>) =
    Inr (parser_hunks p, next_line p\<lparr>parser_mode := EndedPatch\<rparr>)"
proof -
  have "ready (next_line p)" using assms by simp
  then show ?thesis
    by (simp add: finish_def finish_line_def Let_def marker_heads ready_def)
qed

text \<open>C1.
  Any well-formed document, written in the patch syntax, is parsed (with strict and with
  lenient boundaries) to exactly the hunks it denotes, with no environment id.
\<close>

theorem parse_render:
  assumes "list_all op_wf ops"
  shows "parse_patch_text (render ops) mode =
    Inr \<lparr>args_patch = render ops, args_hunks = map denote_op ops, args_workdir = None,
         args_environment_id = None\<rparr>"
proof -
  let ?ls = "render_body ops @ [end_patch_marker]"
  let ?p0 = "after 1 [] StartedPatch default_parser"
  have bounds: "(case mode of Strict \<Rightarrow> check_patch_boundaries_strict ?ls
      | Lenient \<Rightarrow> check_patch_boundaries_lenient ?ls) = Inr ?ls"
    by (simp add: render_boundaries check_patch_boundaries_lenient_def split: parse_mode.split)
  have begin_step: "line_step begin_patch_marker default_parser = Inr ?p0"
    by (simp add: line_step_def process_line_def default_parser_def process_not_started_def after_def)
  have "ready ?p0" by (intro ready_after) simp_all
  then obtain n m where steps: "rfold line_step (concat (map render_op ops)) ?p0 =
      Inr (after n (map denote_op ops) m ?p0)" and r: "ready (after n (map denote_op ops) m ?p0)"
    using assms by (auto elim: ops_steps)
  have "10 \<notin> set end_patch_marker" by (simp add: marker_defs)
  then have "rfold push_char (render ops) default_parser =
      Inr (after n (map denote_op ops) m ?p0\<lparr>line_buffer := end_patch_marker\<rparr>)"
    unfolding render_def using push_lines [OF render_body_clean [OF assms], of end_patch_marker default_parser]
      begin_step steps
    by (simp add: render_body_def default_parser_def)
  with finish_end_marker [OF r] show ?thesis
    unfolding parse_patch_text_def Let_def render_lines [OF assms] bounds
    by (simp add: render_def [symmetric] push_delta_def default_parser_def)
qed

lemma parse_render_witness:
  "parse_patch_text
     (render [Add_Op (lit ''n'') [lit ''one''],
       Update_Op (lit ''a b'') (Some (lit ''c''))
         [\<lparr>section_context = Some (lit ''f''),
           section_lines = [Context [], Removed (lit ''x''), Added (lit ''y'')], section_at_end = True\<rparr>]])
     Lenient =
   Inr \<lparr>args_patch = render [Add_Op (lit ''n'') [lit ''one''],
       Update_Op (lit ''a b'') (Some (lit ''c''))
         [\<lparr>section_context = Some (lit ''f''),
           section_lines = [Context [], Removed (lit ''x''), Added (lit ''y'')], section_at_end = True\<rparr>]],
     args_hunks =
      [AddFile (lit ''n'') (lit ''one'' @ [10]),
       UpdateFile (lit ''a b'') (Some (lit ''c''))
         [\<lparr>change_context = Some (lit ''f''), old_lines = [[], lit ''x''], new_lines = [[], lit ''y''],
           context_line_indices = [(0, 0)], is_end_of_file = True\<rparr>]],
     args_workdir = None, args_environment_id = None\<rparr>"
  by (subst parse_render)
    (simp_all add: section_wf_def clean_tail_def clean_line_def is_whitespace_def denote_section_def
      default_chunk_def push_context_line_def)

end
