(* ===== verification/Seek_Sequence.thy ===== *)
theory Seek_Sequence
  imports Patch_Types
begin

text \<open>
  \<^verbatim>\<open>crates/agentic-apply-patch/src/seek_sequence.rs\<close>: finding the lines of a chunk in a
  file, in four passes of decreasing strictness. A pass compares lines through a key
  (the line itself, the line without trailing white space, trimmed, or with typographic
  characters normalised); the interface \<open>coarsening\<close> says that a later pass accepts what
  an earlier one does.
\<close>

subsection \<open>The search\<close>

definition normalise_char :: "rchar \<Rightarrow> rchar" where
  "normalise_char c =
     (if (0x2010 \<le> c \<and> c \<le> 0x2015) \<or> c = 0x2212 then 45
      else if 0x2018 \<le> c \<and> c \<le> 0x201B then 39
      else if 0x201C \<le> c \<and> c \<le> 0x201F then 34
      else if c = 0xA0 \<or> (0x2002 \<le> c \<and> c \<le> 0x200A) \<or> c = 0x202F \<or> c = 0x205F \<or> c = 0x3000
        then 32
      else c)"

definition normalise :: "rstr \<Rightarrow> rstr" where
  "normalise s = map normalise_char (trim s)"

text \<open>The lines of the file at \<open>i\<close> equal the pattern under \<open>key\<close>.\<close>

definition matches_at :: "(rstr \<Rightarrow> rstr) \<Rightarrow> rstr list \<Rightarrow> rstr list \<Rightarrow> nat \<Rightarrow> bool" where
  "matches_at key lines pattern i \<longleftrightarrow>
     map key (take (length pattern) (drop i lines)) = map key pattern"

text \<open>One pass: \<^verbatim>\<open>for i in search_start..=lines.len().saturating_sub(pattern.len())\<close>.\<close>

definition search_pass ::
  "(rstr \<Rightarrow> rstr) \<Rightarrow> rstr list \<Rightarrow> rstr list \<Rightarrow> nat \<Rightarrow> nat option" where
  "search_pass key lines pattern search_start =
     List.find (matches_at key lines pattern)
       [search_start ..< Suc (length lines - length pattern)]"

definition search_start_of ::
  "rstr list \<Rightarrow> rstr list \<Rightarrow> nat \<Rightarrow> bool \<Rightarrow> update_file_mode \<Rightarrow> nat" where
  "search_start_of lines pattern start eof mode =
     (if eof \<and> length pattern \<le> length lines
      then let eof_start = length lines - length pattern
           in case mode of
                NormalizeToLf \<Rightarrow> eof_start
              | PreserveLineEndings \<Rightarrow> max eof_start start
      else start)"

definition seek_sequence ::
  "rstr list \<Rightarrow> rstr list \<Rightarrow> nat \<Rightarrow> bool \<Rightarrow> update_file_mode \<Rightarrow> nat option" where
  "seek_sequence lines pattern start eof mode =
     (if pattern = [] then Some start
      else if length lines < length pattern then None
      else
        let search_start = search_start_of lines pattern start eof mode
        in case search_pass id lines pattern search_start of
             Some i \<Rightarrow> Some i
           | None \<Rightarrow>
               (case search_pass trim_end lines pattern search_start of
                  Some i \<Rightarrow> Some i
                | None \<Rightarrow>
                    (case search_pass trim lines pattern search_start of
                       Some i \<Rightarrow> Some i
                     | None \<Rightarrow> search_pass normalise lines pattern search_start)))"

subsection \<open>One pass\<close>

lemma find_upt_None_iff: "List.find P [a..<b] = None \<longleftrightarrow> (\<forall>i. a \<le> i \<and> i < b \<longrightarrow> \<not> P i)"
  by (auto simp: find_None_iff)

lemma find_upt_SomeD:
  assumes "List.find P [a..<b] = Some i"
  shows "a \<le> i" and "i < b" and "P i" and "\<And>j. a \<le> j \<Longrightarrow> j < i \<Longrightarrow> \<not> P j"
proof -
  have "a \<le> i \<and> i < b \<and> P i \<and> (\<forall>j. a \<le> j \<and> j < i \<longrightarrow> \<not> P j)"
    using assms
  proof (induction "b - a" arbitrary: a)
    case 0
    then show ?case by simp
  next
    case (Suc n)
    then have upt: "[a..<b] = a # [Suc a..<b]" by (simp add: upt_conv_Cons)
    show ?case
    proof (cases "P a")
      case True
      with Suc.prems Suc.hyps(2) upt show ?thesis by auto
    next
      case False
      from Suc.hyps(2) have "n = b - Suc a" by simp
      moreover from Suc.prems upt False have "List.find P [Suc a..<b] = Some i" by simp
      ultimately have "Suc a \<le> i \<and> i < b \<and> P i \<and> (\<forall>j. Suc a \<le> j \<and> j < i \<longrightarrow> \<not> P j)"
        by (rule Suc.hyps(1))
      with False show ?thesis by (metis Suc_leD Suc_leI order_le_imp_less_or_eq)
    qed
  qed
  then show "a \<le> i" and "i < b" and "P i" and "\<And>j. a \<le> j \<Longrightarrow> j < i \<Longrightarrow> \<not> P j" by auto
qed

lemma search_pass_SomeD:
  assumes "search_pass key lines pattern s = Some i" and "length pattern \<le> length lines"
  shows "s \<le> i" and "i + length pattern \<le> length lines" and "matches_at key lines pattern i"
    and "\<And>j. s \<le> j \<Longrightarrow> j < i \<Longrightarrow> \<not> matches_at key lines pattern j"
  using find_upt_SomeD [OF assms(1) [unfolded search_pass_def]] assms(2)
  by (auto simp del: upt_Suc)

lemma search_pass_None_iff:
  "length pattern \<le> length lines \<Longrightarrow>
   search_pass key lines pattern s = None \<longleftrightarrow>
     (\<forall>i. s \<le> i \<and> i + length pattern \<le> length lines \<longrightarrow> \<not> matches_at key lines pattern i)"
  by (auto simp: search_pass_def find_upt_None_iff simp del: upt_Suc)

subsection \<open>The passes coarsen\<close>

locale coarsening =
  fixes key coarser :: "rstr \<Rightarrow> rstr"
  assumes coarsens: "key a = key b \<Longrightarrow> coarser a = coarser b"
begin

lemma map_coarsens:
  assumes "map key xs = map key ys"
  shows "map coarser xs = map coarser ys"
proof (rule nth_equalityI)
  have len: "length xs = length ys" by (rule map_eq_imp_length_eq [OF assms])
  then show "length (map coarser xs) = length (map coarser ys)" by simp
  fix i
  assume i: "i < length (map coarser xs)"
  have "map key xs ! i = map key ys ! i" by (simp only: assms)
  with i len have "key (xs ! i) = key (ys ! i)" by simp
  then have "coarser (xs ! i) = coarser (ys ! i)" by (rule coarsens)
  with i len show "map coarser xs ! i = map coarser ys ! i" by simp
qed

lemma matches_coarser: "matches_at key lines pattern i \<Longrightarrow> matches_at coarser lines pattern i"
  unfolding matches_at_def by (rule map_coarsens)

lemma pass_None:
  "length pattern \<le> length lines \<Longrightarrow> search_pass coarser lines pattern s = None \<Longrightarrow>
   search_pass key lines pattern s = None"
  by (meson matches_coarser search_pass_None_iff)

end

interpretation exact_rstrip: coarsening id trim_end
  by unfold_locales simp

interpretation rstrip_trim: coarsening trim_end trim
  by unfold_locales (simp add: trim_def)

interpretation trim_normalise: coarsening trim normalise
  by unfold_locales (simp add: normalise_def)

lemma matches_at_normalise:
  "matches_at id lines pattern i \<Longrightarrow> matches_at normalise lines pattern i"
  "matches_at trim_end lines pattern i \<Longrightarrow> matches_at normalise lines pattern i"
  "matches_at trim lines pattern i \<Longrightarrow> matches_at normalise lines pattern i"
  by (blast intro: exact_rstrip.matches_coarser rstrip_trim.matches_coarser
      trim_normalise.matches_coarser)+

subsection \<open>The search as a whole\<close>

lemma seek_sequence_Nil [simp]: "seek_sequence lines [] start eof mode = Some start"
  by (simp add: seek_sequence_def)

text \<open>Some pass found the result, with no match for the stricter passes.\<close>

lemma seek_sequence_SomeE:
  assumes "seek_sequence lines pattern start eof mode = Some i" and "pattern \<noteq> []"
  obtains key where "key \<in> {id, trim_end, trim, normalise}"
    and "search_pass key lines pattern (search_start_of lines pattern start eof mode) = Some i"
    and "length pattern \<le> length lines"
  using assms
  by (auto simp: seek_sequence_def Let_def split: if_splits option.splits)

lemma seek_sequence_bounds:
  assumes "seek_sequence lines pattern start eof mode = Some i" and "pattern \<noteq> []"
  shows "search_start_of lines pattern start eof mode \<le> i" and "i + length pattern \<le> length lines"
  using assms by (auto elim!: seek_sequence_SomeE dest: search_pass_SomeD)

lemma seek_sequence_start_le:
  assumes "seek_sequence lines pattern start eof mode = Some i"
    and "mode = PreserveLineEndings \<or> \<not> eof"
  shows "start \<le> i"
proof (cases "pattern = []")
  case True
  with assms show ?thesis by simp
next
  case False
  from seek_sequence_bounds(1) [OF assms(1) this] assms(2) show ?thesis
    by (auto simp: search_start_of_def Let_def split: if_splits)
qed

lemma seek_sequence_end_le:
  assumes "seek_sequence lines pattern start eof mode = Some i" and "start \<le> length lines"
  shows "i + length pattern \<le> length lines"
  using assms by (cases "pattern = []") (auto dest: seek_sequence_bounds)

text \<open>
  C15. The search fails exactly when no position at or after the search start matches even
  under the most lenient comparison, and a result is such a position.
\<close>

theorem seek_sequence_complete:
  assumes "pattern \<noteq> []" and "length pattern \<le> length lines"
    and "s = search_start_of lines pattern start eof mode"
  shows "(seek_sequence lines pattern start eof mode = None \<longleftrightarrow>
      (\<forall>i. s \<le> i \<and> i + length pattern \<le> length lines \<longrightarrow> \<not> matches_at normalise lines pattern i))
    \<and> (\<forall>i. seek_sequence lines pattern start eof mode = Some i \<longrightarrow>
      s \<le> i \<and> i + length pattern \<le> length lines \<and> matches_at normalise lines pattern i)"
proof
  let ?none = "\<lambda>key. search_pass key lines pattern s = None"
  have "?none normalise \<Longrightarrow> ?none trim" "?none trim \<Longrightarrow> ?none trim_end" "?none trim_end \<Longrightarrow> ?none id"
    using assms(2) trim_normalise.pass_None rstrip_trim.pass_None exact_rstrip.pass_None by blast+
  then have chain: "?none normalise \<Longrightarrow> ?none id \<and> ?none trim_end \<and> ?none trim" by blast
  have "seek_sequence lines pattern start eof mode = None \<longleftrightarrow> ?none normalise"
  proof (cases "?none normalise")
    case True
    with chain [OF True] assms(1,2) show ?thesis
      by (simp add: seek_sequence_def assms(3) Let_def)
  next
    case False
    then obtain i where "search_pass normalise lines pattern s = Some i" by blast
    with assms(1,2) show ?thesis
      by (simp add: seek_sequence_def assms(3) Let_def split: option.splits)
  qed
  then show "seek_sequence lines pattern start eof mode = None \<longleftrightarrow>
      (\<forall>i. s \<le> i \<and> i + length pattern \<le> length lines \<longrightarrow> \<not> matches_at normalise lines pattern i)"
    using assms(2) by (simp add: search_pass_None_iff)
next
  show "\<forall>i. seek_sequence lines pattern start eof mode = Some i \<longrightarrow>
      s \<le> i \<and> i + length pattern \<le> length lines \<and> matches_at normalise lines pattern i"
  proof (intro allI impI)
    fix i
    assume found: "seek_sequence lines pattern start eof mode = Some i"
    obtain key where key: "key \<in> {id, trim_end, trim, normalise}"
      and pass: "search_pass key lines pattern s = Some i"
      using found assms(1) unfolding assms(3) by (rule seek_sequence_SomeE)
    from search_pass_SomeD(3) [OF pass assms(2)] key matches_at_normalise
    have "matches_at normalise lines pattern i" by blast
    with search_pass_SomeD(1,2) [OF pass assms(2)]
    show "s \<le> i \<and> i + length pattern \<le> length lines \<and> matches_at normalise lines pattern i"
      by simp
  qed
qed

lemma seek_sequence_complete_witness:
  "seek_sequence [lit ''a '', lit ''b''] [lit '' a'', lit ''b''] 0 False NormalizeToLf \<noteq> None"
  (is "seek_sequence ?ls ?p 0 False _ \<noteq> None")
proof
  assume n: "seek_sequence ?ls ?p 0 False NormalizeToLf = None"
  have p: "?p \<noteq> []" by simp
  have len: "length ?p \<le> length ?ls" by simp
  have s: "0 = search_start_of ?ls ?p 0 False NormalizeToLf" by (simp add: search_start_of_def)
  from conjunct1 [OF seek_sequence_complete [OF p len s]] n
  have "\<forall>i. 0 \<le> i \<and> i + length ?p \<le> length ?ls \<longrightarrow> \<not> matches_at normalise ?ls ?p i" by blast
  then have "\<not> matches_at normalise ?ls ?p 0" using len by (metis add_0 le_refl)
  moreover have "matches_at normalise ?ls ?p 0" by code_simp
  ultimately show False by blast
qed

text \<open>
  C16. An exact match wins over every lenient one: when the pattern occurs literally at some
  position the search may look at, the result is the first such position.
\<close>

theorem seek_sequence_exact_first:
  assumes "pattern \<noteq> []" and "j + length pattern \<le> length lines"
    and "search_start_of lines pattern start eof mode \<le> j"
    and "take (length pattern) (drop j lines) = pattern"
  shows "\<exists>i \<le> j. seek_sequence lines pattern start eof mode = Some i
    \<and> take (length pattern) (drop i lines) = pattern
    \<and> (\<forall>k. search_start_of lines pattern start eof mode \<le> k \<and> k < i \<longrightarrow>
         take (length pattern) (drop k lines) \<noteq> pattern)"
proof -
  let ?s = "search_start_of lines pattern start eof mode"
  have len: "length pattern \<le> length lines" using assms(2) by simp
  have "search_pass id lines pattern ?s \<noteq> None"
    using assms search_pass_None_iff [OF len, of id ?s] by (auto simp: matches_at_def)
  then obtain i where i: "search_pass id lines pattern ?s = Some i" by auto
  note D = search_pass_SomeD [OF i len]
  have "i \<le> j"
    using D(4) [of j] assms(3,4) by (auto simp: matches_at_def not_less [symmetric])
  moreover have "seek_sequence lines pattern start eof mode = Some i"
    using i len assms(1) by (simp add: seek_sequence_def Let_def)
  ultimately show ?thesis
    using D(3,4) by (auto simp: matches_at_def)
qed

lemma seek_sequence_exact_first_witness:
  "\<exists>i \<le> 2. seek_sequence [lit '' x'', lit ''y'', lit ''x''] [lit ''x''] 0 False NormalizeToLf = Some i"
  using seek_sequence_exact_first
    [of "[lit ''x'']" 2 "[lit '' x'', lit ''y'', lit ''x'']" 0 False NormalizeToLf]
  by (auto simp: search_start_of_def)

text \<open>
  C27. With \<^verbatim>\<open>eof\<close> set, a pattern is only ever found at the very end of the file: there is
  no fall-back to a search from \<^verbatim>\<open>start\<close>.
\<close>

theorem seek_sequence_eof_at_end:
  assumes "seek_sequence lines pattern start True mode = Some i" and "pattern \<noteq> []"
  shows "i + length pattern = length lines"
proof -
  note b = seek_sequence_bounds [OF assms]
  then have "length lines - length pattern \<le> i"
    by (auto simp: search_start_of_def Let_def split: update_file_mode.splits if_splits)
  with b(2) show ?thesis by simp
qed

lemma seek_sequence_eof_at_end_witness:
  "(1::nat) + length [lit ''x''] = length [lit ''x'', lit ''x '']"
  by (rule seek_sequence_eof_at_end [of "[lit ''x'', lit ''x '']" "[lit ''x'']" 0 NormalizeToLf])
    code_simp+

end
