(* ===== verification/Text_File.thy ===== *)
theory Text_File
  imports Patch_Types
begin

text \<open>
  \<^verbatim>\<open>crates/agentic-apply-patch/src/text_file.rs\<close>: a file as lines that keep their own
  endings, and the rebuilding of a file from source-ordered replacements. The abstract
  counterpart of a rebuilding is \<open>splice\<close>, on plain lists.
\<close>

type_synonym replacement = "nat \<times> nat \<times> rstr list"

datatype line_ending = Lf | CrLf | Cr

definition ending_str :: "line_ending \<Rightarrow> rstr" where
  "ending_str e = (case e of Lf \<Rightarrow> [10] | CrLf \<Rightarrow> [13, 10] | Cr \<Rightarrow> [13])"

record source_line =
  line_text :: rstr
  line_end :: "line_ending option"

record source_file =
  file_lines :: "source_line list"
  preferred_ending :: line_ending

abbreviation source_line_of :: "rstr \<Rightarrow> line_ending option \<Rightarrow> source_line" where
  "source_line_of t e \<equiv> \<lparr>line_text = t, line_end = e\<rparr>"

text \<open>\<^verbatim>\<open>Option::get_or_insert\<close>.\<close>

definition get_or_insert :: "'a \<Rightarrow> 'a option \<Rightarrow> 'a option" where
  "get_or_insert a x = (case x of None \<Rightarrow> Some a | Some b \<Rightarrow> Some b)"

text \<open>
  The scanning loop: \<open>cur\<close> is the text from \<^verbatim>\<open>line_start\<close> to \<^verbatim>\<open>cursor\<close>, the last
  argument the text from \<^verbatim>\<open>cursor\<close> on.
\<close>

fun parse_loop ::
  "source_line list \<Rightarrow> line_ending option \<Rightarrow> rstr \<Rightarrow> rstr \<Rightarrow>
   source_line list \<times> line_ending option" where
  "parse_loop acc pref cur [] =
     (if cur = [] then acc else acc @ [source_line_of cur None], pref)"
| "parse_loop acc pref cur [c] =
     (if c = 13 then (acc @ [source_line_of cur (Some Cr)], get_or_insert Cr pref)
      else if c = 10 then (acc @ [source_line_of cur (Some Lf)], get_or_insert Lf pref)
      else (acc @ [source_line_of (cur @ [c]) None], pref))"
| "parse_loop acc pref cur (c # d # cs) =
     (if c = 13 \<and> d = 10
        then parse_loop (acc @ [source_line_of cur (Some CrLf)]) (get_or_insert CrLf pref) [] cs
      else if c = 13
        then parse_loop (acc @ [source_line_of cur (Some Cr)]) (get_or_insert Cr pref) [] (d # cs)
      else if c = 10
        then parse_loop (acc @ [source_line_of cur (Some Lf)]) (get_or_insert Lf pref) [] (d # cs)
      else parse_loop acc pref (cur @ [c]) (d # cs))"

definition parse_source_file :: "rstr \<Rightarrow> source_file" where
  "parse_source_file contents =
     (case parse_loop [] None [] contents of (ls, pref) \<Rightarrow>
        \<lparr>file_lines = ls,
         preferred_ending = (case pref of Some e \<Rightarrow> e | None \<Rightarrow> Lf)\<rparr>)"

definition line_texts :: "source_file \<Rightarrow> rstr list" where
  "line_texts f = map line_text (file_lines f)"

definition line_contents :: "source_line \<Rightarrow> rstr" where
  "line_contents l = line_text l @ (case line_end l of Some e \<Rightarrow> ending_str e | None \<Rightarrow> [])"

definition into_contents :: "source_file \<Rightarrow> rstr" where
  "into_contents f = concat (map line_contents (file_lines f))"

text \<open>
  The rebuilding loop: the lines still to be read, the position of the first of them in the
  source, and the lines written so far. The subtraction \<^verbatim>\<open>start_idx - source_index\<close>
  panics below zero (so does the \<^verbatim>\<open>debug_assert!\<close> before it).
\<close>

fun replace_loop ::
  "line_ending \<Rightarrow> source_line list \<Rightarrow> nat \<Rightarrow> source_line list \<Rightarrow> replacement list \<Rightarrow>
   apply_patch_error + source_line list" where
  "replace_loop pref source index new_ls [] = Inr (new_ls @ source)"
| "replace_loop pref source index new_ls ((start, old_len, seg) # rs) =
     (if start < index then Inl Panicked
      else
        let kept = take (start - index) source;
            rest = drop old_len (drop (start - index) source);
            added = map (\<lambda>t. source_line_of t (Some pref)) seg
        in replace_loop pref rest (start + old_len) (new_ls @ kept @ added) rs)"

definition apply_source_replacements ::
  "source_file \<Rightarrow> replacement list \<Rightarrow> apply_patch_error + source_file" where
  "apply_source_replacements f rs =
     rbind (replace_loop (preferred_ending f) (file_lines f) 0 [] rs)
       (\<lambda>ls. Inr (f\<lparr>file_lines :=
          map (\<lambda>l. l\<lparr>line_end := get_or_insert (preferred_ending f) (line_end l)\<rparr>) ls\<rparr>))"

subsection \<open>Parsing keeps every character\<close>

lemma parse_loop_contents:
  assumes "parse_loop acc pref cur rest = (ls, pref')"
  shows "concat (map line_contents ls) = concat (map line_contents acc) @ cur @ rest"
  using assms
proof (induction acc pref cur rest arbitrary: ls rule: parse_loop.induct)
  case (3 acc pref cur c d cs)
  consider "c = 13 \<and> d = 10" | "c = 13" "d \<noteq> 10" | "c = 10" | "c \<noteq> 13" "c \<noteq> 10" by blast
  then show ?case
  proof cases
    case 1
    with "3.prems" "3.IH"(1) show ?thesis by (auto simp: line_contents_def ending_str_def)
  next
    case 2
    with "3.prems" "3.IH"(2) show ?thesis by (auto simp: line_contents_def ending_str_def)
  next
    case 3
    with "3.prems" "3.IH"(3) show ?thesis by (auto simp: line_contents_def ending_str_def)
  next
    case 4
    with "3.prems" "3.IH"(4) show ?thesis by auto
  qed
qed (auto simp: line_contents_def ending_str_def split: if_splits)

text \<open>
  Every line the parser makes is free of line feeds and carriage returns, and only the last
  can lack an ending.
\<close>

definition line_wf :: "source_line \<Rightarrow> bool" where
  "line_wf l \<longleftrightarrow> 10 \<notin> set (line_text l) \<and> 13 \<notin> set (line_text l)"

definition lines_wf :: "source_line list \<Rightarrow> bool" where
  "lines_wf ls \<longleftrightarrow> (\<forall>l \<in> set ls. line_wf l) \<and> (\<forall>l \<in> set (butlast ls). line_end l \<noteq> None)"

lemma parse_loop_wf:
  assumes "parse_loop acc pref cur rest = (ls, pref')"
    and "\<forall>l \<in> set acc. line_wf l \<and> line_end l \<noteq> None" and "10 \<notin> set cur" and "13 \<notin> set cur"
  shows "lines_wf ls"
  using assms
proof (induction acc pref cur rest arbitrary: ls rule: parse_loop.induct)
  case (3 acc pref cur c d cs)
  consider "c = 13 \<and> d = 10" | "c = 13" "d \<noteq> 10" | "c = 10" | "c \<noteq> 13" "c \<noteq> 10" by blast
  then show ?case
  proof cases
    case 1
    with "3.prems" "3.IH"(1) show ?thesis by (auto simp: line_wf_def)
  next
    case 2
    with "3.prems" "3.IH"(2) show ?thesis by (auto simp: line_wf_def)
  next
    case 3
    with "3.prems" "3.IH"(3) show ?thesis by (auto simp: line_wf_def)
  next
    case 4
    with "3.prems" "3.IH"(4) show ?thesis by auto
  qed
qed (auto simp: lines_wf_def line_wf_def split: if_splits dest: in_set_butlastD)

lemma parse_source_file_wf: "lines_wf (file_lines (parse_source_file contents))"
  by (auto simp: parse_source_file_def split: prod.splits intro: parse_loop_wf)

subsection \<open>Replacements as splicing\<close>

text \<open>
  Replacements are in source order and do not overlap: each starts where the one before it
  ends or later, and ends within \<open>n\<close> lines.
\<close>

fun replacements_ok :: "nat \<Rightarrow> nat \<Rightarrow> replacement list \<Rightarrow> bool" where
  "replacements_ok n index [] \<longleftrightarrow> index \<le> n"
| "replacements_ok n index ((start, old_len, seg) # rs) \<longleftrightarrow>
     index \<le> start \<and> replacements_ok n (start + old_len) rs"

text \<open>The lines from position \<open>index\<close> on after the replacements.\<close>

fun splice :: "'a list \<Rightarrow> nat \<Rightarrow> (nat \<times> nat \<times> 'a list) list \<Rightarrow> 'a list" where
  "splice ls index [] = drop index ls"
| "splice ls index ((start, old_len, seg) # rs) =
     drop index (take start ls) @ seg @ splice ls (start + old_len) rs"

lemma replacements_ok_bound: "replacements_ok n index rs \<Longrightarrow> index \<le> n"
  by (induction rs arbitrary: index) fastforce+

lemma map_splice:
  "map f (splice ls index rs) =
   splice (map f ls) index (map (\<lambda>(s, n, seg). (s, n, map f seg)) rs)"
  by (induction ls index rs rule: splice.induct) (auto simp: take_map drop_map)

definition lift_replacement ::
  "line_ending \<Rightarrow> replacement \<Rightarrow> nat \<times> nat \<times> source_line list" where
  "lift_replacement pref r =
     (case r of (s, n, seg) \<Rightarrow> (s, n, map (\<lambda>t. source_line_of t (Some pref)) seg))"

lemma replace_loop_splice:
  assumes "replacements_ok n index rs"
  shows "replace_loop pref (drop index ls) index acc rs =
    Inr (acc @ splice ls index (map (lift_replacement pref) rs))"
  using assms
proof (induction rs arbitrary: index acc)
  case Nil
  then show ?case by simp
next
  case (Cons r rs)
  obtain start old_len seg where r: "r = (start, old_len, seg)" by (cases r)
  with Cons.prems have le: "index \<le> start" and ok: "replacements_ok n (start + old_len) rs" by auto
  have "drop old_len (drop (start - index) (drop index ls)) = drop (start + old_len) ls"
    using le by (simp add: add.commute)
  moreover have "take (start - index) (drop index ls) = drop index (take start ls)"
    using le by (simp add: drop_take)
  ultimately show ?case
    using le Cons.IH [OF ok] by (simp add: r lift_replacement_def Let_def)
qed

lemma apply_source_replacements_splice:
  assumes "replacements_ok n 0 rs"
  shows "\<exists>f'. apply_source_replacements f rs = Inr f'
    \<and> line_texts f' = splice (line_texts f) 0 rs
    \<and> preferred_ending f' = preferred_ending f
    \<and> file_lines f' =
        map (\<lambda>l. l\<lparr>line_end := get_or_insert (preferred_ending f) (line_end l)\<rparr>)
          (splice (file_lines f) 0 (map (lift_replacement (preferred_ending f)) rs))"
proof -
  let ?p = "preferred_ending f"
  let ?ls = "splice (file_lines f) 0 (map (lift_replacement ?p) rs)"
  have loop: "replace_loop ?p (file_lines f) 0 [] rs = Inr ?ls"
    using replace_loop_splice [OF assms, of ?p "file_lines f" "[]"] by simp
  have texts: "map (\<lambda>(s, n, seg). (s, n, map line_text seg)) (map (lift_replacement ?p) rs) = rs"
    by (induction rs) (auto simp: lift_replacement_def comp_def)
  have "map line_text ?ls = splice (line_texts f) 0 rs"
    by (simp only: map_splice texts line_texts_def)
  then show ?thesis
    using loop by (simp add: apply_source_replacements_def line_texts_def comp_def)
qed

text \<open>C17. Reading a file into lines and writing them back gives the file, character for character.\<close>

theorem source_file_roundtrip: "into_contents (parse_source_file contents) = contents"
  using parse_loop_contents [of "[]" None "[]" contents]
  by (auto simp: into_contents_def parse_source_file_def split: prod.splits)

end
