(* ===== verification/File_Update.thy ===== *)
theory File_Update
  imports Seek_Sequence Text_File
begin

text \<open>
  \<^verbatim>\<open>crates/agentic-apply-patch/src/file_update.rs\<close>: from the chunks of an update hunk to
  replacements, and from the replacements to the new contents, in the two update modes.
\<close>

subsection \<open>From chunks to replacements\<close>

text \<open>
  The loop over the context pairs of a chunk. It breaks at a pair outside the pattern or the new
  lines. \<open>old_context - old_start\<close> and the slice \<open>new_slice[new_start..new_context]\<close> panic when
  they are negative.
\<close>

fun context_loop ::
  "nat \<Rightarrow> rstr list \<Rightarrow> nat \<Rightarrow> nat \<Rightarrow> nat \<Rightarrow> replacement list \<Rightarrow> (nat \<times> nat) list \<Rightarrow>
   apply_patch_error + (replacement list \<times> nat \<times> nat)" where
  "context_loop pattern_len new_slice start_idx old_start new_start reps [] =
     Inr (reps, old_start, new_start)"
| "context_loop pattern_len new_slice start_idx old_start new_start reps ((old_context, new_context) # ps) =
     (if pattern_len \<le> old_context \<or> length new_slice \<le> new_context
        then Inr (reps, old_start, new_start)
      else if old_start \<noteq> old_context \<or> new_start \<noteq> new_context
        then (if old_context < old_start \<or> new_context < new_start then Inl Panicked
              else context_loop pattern_len new_slice start_idx (Suc old_context) (Suc new_context)
                (reps @ [(start_idx + old_start, old_context - old_start,
                          drop new_start (take new_context new_slice))]) ps)
      else context_loop pattern_len new_slice start_idx (Suc old_context) (Suc new_context) reps ps)"

text \<open>The replacements of one chunk whose pattern was found at \<open>start_idx\<close>.\<close>

definition chunk_replacements ::
  "update_file_mode \<Rightarrow> (nat \<times> nat) list \<Rightarrow> nat \<Rightarrow> rstr list \<Rightarrow> nat \<Rightarrow> replacement list \<Rightarrow>
   apply_patch_error + replacement list" where
  "chunk_replacements mode pairs pattern_len new_slice start_idx reps =
     (case mode of
        NormalizeToLf \<Rightarrow> Inr (reps @ [(start_idx, pattern_len, new_slice)])
      | PreserveLineEndings \<Rightarrow>
          rbind (context_loop pattern_len new_slice start_idx 0 0 reps pairs)
            (\<lambda>(reps, old_start, new_start).
               if old_start \<noteq> pattern_len \<or> new_start \<noteq> length new_slice
               then (if pattern_len < old_start \<or> length new_slice < new_start then Inl Panicked
                     else Inr (reps @ [(start_idx + old_start, pattern_len - old_start,
                                        drop new_start new_slice)]))
               else Inr reps))"

text \<open>\<^verbatim>\<open>last().is_some_and(String::is_empty)\<close>.\<close>

definition ends_empty :: "rstr list \<Rightarrow> bool" where
  "ends_empty ls \<longleftrightarrow> ls \<noteq> [] \<and> last ls = []"

definition insertion_idx :: "update_file_mode \<Rightarrow> rstr list \<Rightarrow> nat" where
  "insertion_idx mode original_lines =
     (case mode of
        NormalizeToLf \<Rightarrow>
          (if ends_empty original_lines then length original_lines - 1
           else length original_lines)
      | PreserveLineEndings \<Rightarrow> length original_lines)"

text \<open>
  Where the old lines of a chunk are, and the pattern and new lines that apply: a search that
  fails for a pattern ending in an empty line is retried without that line.
\<close>

definition locate_chunk ::
  "rstr list \<Rightarrow> update_file_mode \<Rightarrow> update_file_chunk \<Rightarrow> nat \<Rightarrow>
   nat option \<times> rstr list \<times> rstr list" where
  "locate_chunk original_lines mode chunk line_index =
     (let pattern = old_lines chunk;
          new_slice = new_lines chunk;
          found = seek_sequence original_lines pattern line_index (is_end_of_file chunk) mode
      in if found = None \<and> ends_empty pattern
         then let pattern = butlast pattern;
                  new_slice = (if ends_empty new_slice then butlast new_slice else new_slice)
              in (seek_sequence original_lines pattern line_index (is_end_of_file chunk) mode,
                  pattern, new_slice)
         else (found, pattern, new_slice))"

text \<open>The change context of a chunk moves the search on to the line after it.\<close>

definition context_index ::
  "rstr list \<Rightarrow> rstr \<Rightarrow> update_file_mode \<Rightarrow> update_file_chunk \<Rightarrow> nat \<Rightarrow> apply_patch_error + nat" where
  "context_index original_lines path mode chunk line_index =
     (case change_context chunk of
        None \<Rightarrow> Inr line_index
      | Some ctx_line \<Rightarrow>
          (case seek_sequence original_lines [ctx_line] line_index False mode of
             Some idx \<Rightarrow> Inr (idx + 1)
           | None \<Rightarrow> Inl (ContextNotFound ctx_line path)))"

definition chunk_step ::
  "rstr list \<Rightarrow> rstr \<Rightarrow> update_file_mode \<Rightarrow> update_file_chunk \<Rightarrow> replacement list \<times> nat \<Rightarrow>
   apply_patch_error + (replacement list \<times> nat)" where
  "chunk_step original_lines path mode chunk state =
     (case state of (reps, line_index) \<Rightarrow>
        rbind (context_index original_lines path mode chunk line_index)
          (\<lambda>line_index.
             if old_lines chunk = []
             then Inr (reps @ [(insertion_idx mode original_lines, 0, new_lines chunk)], line_index)
             else
               (case locate_chunk original_lines mode chunk line_index of
                  (None, _, _) \<Rightarrow> Inl (ExpectedLinesNotFound path (old_lines chunk))
                | (Some start_idx, pattern, new_slice) \<Rightarrow>
                    rbind (chunk_replacements mode (context_line_indices chunk) (length pattern)
                             new_slice start_idx reps)
                      (\<lambda>reps. Inr (reps, start_idx + length pattern)))))"

definition compute_replacements ::
  "rstr list \<Rightarrow> rstr \<Rightarrow> update_file_chunk list \<Rightarrow> update_file_mode \<Rightarrow>
   apply_patch_error + replacement list" where
  "compute_replacements original_lines path chunks mode =
     rbind (rfold (chunk_step original_lines path mode) chunks ([], 0))
       (\<lambda>(reps, _). Inr (sort_key fst reps))"

subsection \<open>From replacements to contents\<close>

text \<open>\<^verbatim>\<open>apply_replacements\<close> edits the vector of lines in place, the last replacement first.\<close>

fun remove_lines :: "nat \<Rightarrow> nat \<Rightarrow> 'a list \<Rightarrow> 'a list" where
  "remove_lines 0 start ls = ls"
| "remove_lines (Suc n) start ls =
     remove_lines n start (if start < length ls then take start ls @ drop (Suc start) ls else ls)"

fun insert_lines :: "nat \<Rightarrow> 'a list \<Rightarrow> 'a list \<Rightarrow> apply_patch_error + 'a list" where
  "insert_lines pos [] ls = Inr ls"
| "insert_lines pos (x # xs) ls =
     (if length ls < pos then Inl Panicked
      else insert_lines (Suc pos) xs (take pos ls @ x # drop pos ls))"

definition replace_in_place ::
  "nat \<times> nat \<times> 'a list \<Rightarrow> 'a list \<Rightarrow> apply_patch_error + 'a list" where
  "replace_in_place r ls =
     (case r of (start_idx, old_len, seg) \<Rightarrow> insert_lines start_idx seg (remove_lines old_len start_idx ls))"

definition apply_replacements ::
  "'a list \<Rightarrow> (nat \<times> nat \<times> 'a list) list \<Rightarrow> apply_patch_error + 'a list" where
  "apply_replacements ls reps = rfold replace_in_place (rev reps) ls"

definition split_lf_lines :: "rstr \<Rightarrow> rstr list" where
  "split_lf_lines contents =
     (let ls = split_on 10 contents in if ends_empty ls then butlast ls else ls)"

definition apply_update ::
  "rstr \<Rightarrow> rstr \<Rightarrow> update_file_chunk list \<Rightarrow> update_file_mode \<Rightarrow> apply_patch_error + rstr" where
  "apply_update original_contents path chunks mode =
     (case mode of
        NormalizeToLf \<Rightarrow>
          (let original_lines = split_lf_lines original_contents
           in rbind (compute_replacements original_lines path chunks mode)
                (\<lambda>reps. rbind (apply_replacements original_lines reps)
                   (\<lambda>ls. Inr (join [10] (if ends_empty ls then ls else ls @ [[]])))))
      | PreserveLineEndings \<Rightarrow>
          (let source_file = parse_source_file original_contents
           in rbind (compute_replacements (line_texts source_file) path chunks mode)
                (\<lambda>reps. rbind (apply_source_replacements source_file reps)
                   (\<lambda>f. Inr (into_contents f)))))"

subsection \<open>Editing in place is splicing\<close>

lemma remove_lines_eq:
  "start \<le> length ls \<Longrightarrow> remove_lines n start ls = take start ls @ drop (start + n) ls"
proof (induction n arbitrary: ls)
  case 0
  then show ?case by simp
next
  case (Suc n)
  show ?case
  proof (cases "start < length ls")
    case True
    then show ?thesis using Suc.IH [of "take start ls @ drop (Suc start) ls"]
      by (simp add: min_def add.commute)
  next
    case False
    with Suc.prems have "start = length ls" by simp
    with Suc.IH [of ls] show ?thesis by simp
  qed
qed

lemma insert_lines_eq:
  "pos \<le> length ls \<Longrightarrow> insert_lines pos xs ls = Inr (take pos ls @ xs @ drop pos ls)"
proof (induction pos xs ls rule: insert_lines.induct)
  case (1 pos ls)
  then show ?case by simp
next
  case (2 pos x xs ls)
  let ?ls = "take pos ls @ x # drop pos ls"
  have "insert_lines (Suc pos) xs ?ls = Inr (take (Suc pos) ?ls @ xs @ drop (Suc pos) ?ls)"
    using "2.prems" by (intro "2.IH") auto
  with "2.prems" show ?case by (simp add: min_def)
qed

lemma replace_in_place_eq:
  "start \<le> length ls \<Longrightarrow>
   replace_in_place (start, n, seg) ls = Inr (take start ls @ seg @ drop (start + n) ls)"
  by (simp add: replace_in_place_def remove_lines_eq insert_lines_eq min_def)

lemma apply_replacements_from:
  assumes "replacements_ok (length ls) index reps"
  shows "rfold replace_in_place (rev reps) ls = Inr (take index ls @ splice ls index reps)"
  using assms
proof (induction reps arbitrary: index)
  case Nil
  then show ?case by simp
next
  case (Cons r reps)
  obtain start n seg where r: "r = (start, n, seg)" by (cases r)
  with Cons.prems have le: "index \<le> start" and ok: "replacements_ok (length ls) (start + n) reps"
    by auto
  let ?ls = "take (start + n) ls @ splice ls (start + n) reps"
  have bound: "start + n \<le> length ls" using replacements_ok_bound [OF ok] .
  then have "replace_in_place r ?ls = Inr (take start ls @ seg @ splice ls (start + n) reps)"
    by (simp add: r replace_in_place_eq)
  moreover have "take start ls = take index ls @ drop index (take start ls)"
    using le by (metis append_take_drop_id min.absorb1 take_take)
  ultimately show ?case
    using Cons.IH [OF ok] by (simp add: rfold_append r)
qed

text \<open>
  C14. The two ways the code applies replacements agree: editing the vector of lines in
  place, last replacement first, gives the same lines as copying the source once from the
  front, for replacements in source order that do not overlap.
\<close>

theorem apply_replacements_eq_splice:
  assumes "replacements_ok (length ls) 0 reps"
  shows "apply_replacements ls reps = Inr (splice ls 0 reps)"
  using apply_replacements_from [OF assms] by (simp add: apply_replacements_def)

lemma apply_replacements_eq_splice_witness:
  "apply_replacements [lit ''a'', lit ''b'', lit ''c''] [(0, 1, [lit ''x'']), (2, 1, [])]
   = Inr [lit ''x'', lit ''b'']"
  using apply_replacements_eq_splice
    [of "[lit ''a'', lit ''b'', lit ''c'']" "[(0, 1, [lit ''x'']), (2, 1, [])]"]
  by simp

text \<open>In place editing needs only that the replacements are sorted and start within the file.\<close>

lemma replace_in_place_no_panic:
  assumes "sorted (map fst (rev reps))" and "\<forall>r \<in> set reps. fst r \<le> length ls"
  shows "\<exists>ls'. rfold replace_in_place reps ls = Inr ls'"
  using assms
proof (induction reps arbitrary: ls)
  case Nil
  then show ?case by simp
next
  case (Cons r reps)
  obtain start n seg where r: "r = (start, n, seg)" by (cases r)
  from Cons.prems(2) r have start: "start \<le> length ls" by simp
  let ?ls = "take start ls @ seg @ drop (start + n) ls"
  from Cons.prems(1) have "\<forall>q \<in> set reps. fst q \<le> start"
    by (auto simp: r sorted_append)
  then have "\<forall>q \<in> set reps. fst q \<le> length ?ls" using start by force
  moreover from Cons.prems(1) have "sorted (map fst (rev reps))" by (simp add: sorted_append)
  ultimately obtain ls' where "rfold replace_in_place reps ?ls = Inr ls'"
    using Cons.IH by blast
  then show ?case by (simp add: r replace_in_place_eq [OF start])
qed

subsection \<open>The replacements of one chunk\<close>

text \<open>
  What the loop over context pairs and the replacement after it yield when nothing panics, as
  one recursion.
\<close>

fun region_reps ::
  "nat \<Rightarrow> rstr list \<Rightarrow> nat \<Rightarrow> nat \<Rightarrow> nat \<Rightarrow> (nat \<times> nat) list \<Rightarrow> replacement list" where
  "region_reps plen news start os ns [] =
     (if os \<noteq> plen \<or> ns \<noteq> length news then [(start + os, plen - os, drop ns news)] else [])"
| "region_reps plen news start os ns ((oc, nc) # ps) =
     (if plen \<le> oc \<or> length news \<le> nc
        then (if os \<noteq> plen \<or> ns \<noteq> length news then [(start + os, plen - os, drop ns news)] else [])
      else if os \<noteq> oc \<or> ns \<noteq> nc
        then (start + os, oc - os, drop ns (take nc news))
          # region_reps plen news start (Suc oc) (Suc nc) ps
      else region_reps plen news start (Suc oc) (Suc nc) ps)"

lemma context_loop_region:
  assumes "context_ok os ns ps olds news'" and "os \<le> plen" and "ns \<le> length news"
  shows "\<exists>extra os' ns'. context_loop plen news start os ns reps ps = Inr (reps @ extra, os', ns')
    \<and> os' \<le> plen \<and> ns' \<le> length news
    \<and> region_reps plen news start os ns ps = extra @
        (if os' \<noteq> plen \<or> ns' \<noteq> length news then [(start + os', plen - os', drop ns' news)] else [])"
  using assms
proof (induction plen news start os ns reps ps rule: context_loop.induct)
  case (1 plen news start os ns reps)
  then show ?case by simp
next
  case (2 plen news start os ns reps oc nc ps)
  have ok: "context_ok (Suc oc) (Suc nc) ps olds news'" and le: "os \<le> oc" "ns \<le> nc"
    using "2.prems"(1) by auto
  consider (stop) "plen \<le> oc \<or> length news \<le> nc"
    | (emit) "oc < plen" "nc < length news" "os \<noteq> oc \<or> ns \<noteq> nc"
    | (skip) "oc < plen" "nc < length news" "os = oc" "ns = nc"
    by linarith
  then show ?case
  proof cases
    case stop
    with "2.prems" show ?thesis by simp
  next
    case emit
    let ?r = "(start + os, oc - os, drop ns (take nc news))"
    from "2.IH"(1) [OF _ _ _ ok] emit le obtain extra os' ns' where
      "context_loop plen news start (Suc oc) (Suc nc) (reps @ [?r]) ps = Inr ((reps @ [?r]) @ extra, os', ns')"
      and "os' \<le> plen" "ns' \<le> length news"
      and "region_reps plen news start (Suc oc) (Suc nc) ps = extra @
        (if os' \<noteq> plen \<or> ns' \<noteq> length news then [(start + os', plen - os', drop ns' news)] else [])"
      by (auto simp: not_le not_less)
    with emit le show ?thesis
      by (intro exI [of _ "?r # extra"] exI [of _ os'] exI [of _ ns']) simp
  next
    case skip
    from "2.IH"(2) [OF _ _ ok] skip obtain extra os' ns' where
      "context_loop plen news start (Suc oc) (Suc nc) reps ps = Inr (reps @ extra, os', ns')"
      and "os' \<le> plen" "ns' \<le> length news"
      and "region_reps plen news start (Suc oc) (Suc nc) ps = extra @
        (if os' \<noteq> plen \<or> ns' \<noteq> length news then [(start + os', plen - os', drop ns' news)] else [])"
      by (auto simp: not_le)
    with skip show ?thesis
      by (intro exI [of _ extra] exI [of _ os'] exI [of _ ns']) simp
  qed
qed

lemma chunk_replacements_region:
  assumes "context_ok 0 0 ps olds news'"
  shows "chunk_replacements PreserveLineEndings ps plen news start reps =
    Inr (reps @ region_reps plen news start 0 0 ps)"
  using context_loop_region [OF assms, of plen news start reps]
  by (auto simp: chunk_replacements_def)

lemma replacements_ok_weaken:
  "replacements_ok n j rs \<Longrightarrow> i \<le> j \<Longrightarrow> replacements_ok n i rs"
  by (cases rs) auto

lemma region_reps_ok:
  assumes "context_ok os ns ps olds news'" and "os \<le> plen"
  shows "replacements_ok (start + plen) (start + os) (region_reps plen news start os ns ps)"
  using assms
proof (induction plen news start os ns ps rule: region_reps.induct)
  case (1 plen news start os ns)
  then show ?case by simp
next
  case (2 plen news start os ns oc nc ps)
  show ?case
  proof (cases "plen \<le> oc \<or> length news \<le> nc")
    case True
    with "2.prems" show ?thesis by simp
  next
    case False
    with "2.prems" "2.IH" have
      "replacements_ok (start + plen) (start + Suc oc) (region_reps plen news start (Suc oc) (Suc nc) ps)"
      by (cases "os \<noteq> oc \<or> ns \<noteq> nc") auto
    then have "replacements_ok (start + plen) i (region_reps plen news start (Suc oc) (Suc nc) ps)"
      if "i \<le> start + oc" for i
      by (rule replacements_ok_weaken) (use that in simp)
    with False "2.prems" show ?thesis by simp
  qed
qed

lemma splice_skip:
  assumes "replacements_ok (length ls) j rest" and "i \<le> j"
  shows "splice ls i rest = drop i (take j ls) @ splice ls j rest"
proof (cases rest)
  case Nil
  have "drop i ls = drop i (take j ls @ drop j ls)" by simp
  with Nil assms show ?thesis by (simp only: drop_append splice.simps) (simp add: min_def)
next
  case (Cons r rs)
  obtain start n seg where r: "r = (start, n, seg)" by (cases r)
  with assms Cons have "j \<le> start" by simp
  then have "take start ls = take j ls @ drop j (take start ls)"
    by (metis append_take_drop_id min.absorb1 take_take)
  moreover have "i \<le> length (take j ls)"
    using assms replacements_ok_bound [OF assms(1)] by simp
  ultimately have "drop i (take start ls) = drop i (take j ls) @ drop j (take start ls)"
    by (metis append_Nil2 diff_is_0_eq drop0 drop_append)
  with Cons r show ?thesis by simp
qed

text \<open>
  Where the file holds the old lines of the chunk literally, its replacements put the new
  lines in their place: the context lines they leave alone are the same on both sides.
\<close>

lemma region_reps_splice:
  assumes "context_ok os ns ps olds news'" and "os \<le> plen" and "ns \<le> length news"
    and "plen \<le> length olds" and "news = take k news'"
    and "start + plen \<le> length ls" and "take plen (drop start ls) = take plen olds"
    and "replacements_ok (length ls) (start + plen) rest" and "i \<le> start + os"
  shows "splice ls i (region_reps plen news start os ns ps @ rest) =
    drop i (take (start + os) ls) @ drop ns news @ splice ls (start + plen) rest"
  using assms
proof (induction plen news start os ns ps arbitrary: i rule: region_reps.induct)
  case (1 plen news start os ns)
  then show ?case using splice_skip [of ls "start + plen" rest i] by auto
next
  case (2 plen news start os ns oc nc ps)
  show ?case
  proof (cases "plen \<le> oc \<or> length news \<le> nc")
    case True
    with "2.prems" show ?thesis using splice_skip [of ls "start + plen" rest i] by auto
  next
    case False
    then have oc: "oc < plen" and nc: "nc < length news" by auto
    have same: "ls ! (start + oc) = news ! nc"
    proof -
      have "take plen (drop start ls) ! oc = take plen olds ! oc" by (simp only: "2.prems"(7))
      with oc "2.prems"(6) have "ls ! (start + oc) = olds ! oc" by simp
      also have "\<dots> = news' ! nc" using "2.prems"(1) by simp
      also have "\<dots> = news ! nc" using nc "2.prems"(5) by simp
      finally show ?thesis .
    qed
    have kept: "drop (start + oc) (take (start + Suc oc) ls) = [news ! nc]"
      using oc "2.prems"(6) same by (simp add: take_Suc_conv_app_nth)
    have news: "drop ns (take nc news) @ [news ! nc] @ drop (Suc nc) news = drop ns news"
      if "ns \<le> nc"
    proof -
      have "drop ns news = drop ns (take nc news @ drop nc news)" by simp
      also have "\<dots> = drop ns (take nc news) @ drop nc news"
        using that nc by (simp only: drop_append) (simp add: min_def)
      finally show ?thesis using nc by (simp add: Cons_nth_drop_Suc)
    qed
    have le: "os \<le> oc" "ns \<le> nc" using "2.prems"(1) by auto
    show ?thesis
    proof (cases "os \<noteq> oc \<or> ns \<noteq> nc")
      case True
      have "splice ls (start + oc) (region_reps plen news start (Suc oc) (Suc nc) ps @ rest) =
        drop (start + oc) (take (start + Suc oc) ls) @ drop (Suc nc) news @ splice ls (start + plen) rest"
        using False True "2.prems" by (intro "2.IH"(1)) auto
      with True False le kept news show ?thesis by simp
    next
      case eq: False
      have "splice ls i (region_reps plen news start (Suc oc) (Suc nc) ps @ rest) =
        drop i (take (start + Suc oc) ls) @ drop (Suc nc) news @ splice ls (start + plen) rest"
        using False eq "2.prems" by (intro "2.IH"(2)) auto
      moreover have "drop i (take (start + Suc oc) ls) = drop i (take (start + oc) ls) @ [news ! nc]"
        using oc "2.prems"(6,9) eq same by (simp add: take_Suc_conv_app_nth)
      moreover have "drop ns news = news ! nc # drop (Suc nc) news"
        using nc eq by (simp add: Cons_nth_drop_Suc)
      ultimately show ?thesis using False eq by simp
    qed
  qed
qed

subsection \<open>The loop over the chunks\<close>

lemma locate_chunk_SomeE:
  assumes "locate_chunk lines mode chunk li = (Some start, pattern, new_slice)"
  obtains k where "seek_sequence lines pattern li (is_end_of_file chunk) mode = Some start"
    and "pattern = take (length pattern) (old_lines chunk)"
    and "length pattern \<le> length (old_lines chunk)" and "new_slice = take k (new_lines chunk)"
proof -
  have "\<exists>k. seek_sequence lines pattern li (is_end_of_file chunk) mode = Some start
    \<and> pattern = take (length pattern) (old_lines chunk)
    \<and> length pattern \<le> length (old_lines chunk) \<and> new_slice = take k (new_lines chunk)"
    using assms
    by (auto simp: locate_chunk_def Let_def butlast_conv_take split: if_splits
        intro: exI [of _ "length (new_lines chunk)"])
  then show thesis using that by blast
qed

lemma context_index_bound:
  assumes "context_index lines path mode chunk li = Inr li'" and "li \<le> length lines"
  shows "li \<le> li'" and "li' \<le> length lines"
  using assms seek_sequence_start_le seek_sequence_bounds
  by (fastforce simp: context_index_def split: option.splits)+

lemma chunk_step_cases:
  assumes "li \<le> length lines"
  obtains (error) e where "chunk_step lines path mode chunk (reps, li) = Inl e" and "e \<noteq> Panicked"
  | (insertion) li' where "old_lines chunk = []" and "li \<le> li'" and "li' \<le> length lines"
      and "chunk_step lines path mode chunk (reps, li) = Inr (reps @ [(insertion_idx mode lines, 0, new_lines chunk)], li')"
  | (region) li' start pattern new_slice where "li \<le> li'" and "li' \<le> length lines"
      and "old_lines chunk \<noteq> []"
      and "locate_chunk lines mode chunk li' = (Some start, pattern, new_slice)"
      and "start + length pattern \<le> length lines"
      and "chunk_step lines path mode chunk (reps, li) = rbind (chunk_replacements mode (context_line_indices chunk) (length pattern)
             new_slice start reps) (\<lambda>reps. Inr (reps, start + length pattern))"
proof (cases "context_index lines path mode chunk li")
  case (Inl e)
  then have "e \<noteq> Panicked" by (auto simp: context_index_def split: option.splits)
  moreover have "chunk_step lines path mode chunk (reps, li) = Inl e" using Inl by (simp add: chunk_step_def)
  ultimately show thesis using error by blast
next
  case (Inr li')
  note bound = context_index_bound [OF Inr assms]
  show thesis
  proof (cases "old_lines chunk = []")
    case True
    with Inr bound insertion show thesis by (auto simp: chunk_step_def)
  next
    case False
    obtain found pattern new_slice where loc:
      "locate_chunk lines mode chunk li' = (found, pattern, new_slice)" by (metis prod_cases3)
    show thesis
    proof (cases found)
      case None
      with Inr False loc error show thesis by (auto simp: chunk_step_def)
    next
      case (Some start)
      with loc have "locate_chunk lines mode chunk li' = (Some start, pattern, new_slice)" by simp
      then have "start + length pattern \<le> length lines"
        by (rule locate_chunk_SomeE) (use seek_sequence_end_le bound(2) in blast)
      with Inr False loc Some bound region show thesis by (auto simp: chunk_step_def)
    qed
  qed
qed

text \<open>In the mode that preserves line endings, the chunks add replacements in source order,
  but for insertions at the end of the file, which the final stable sort moves there.\<close>

definition at_end :: "nat \<Rightarrow> replacement \<Rightarrow> bool" where
  "at_end n r \<longleftrightarrow> fst r = n \<and> fst (snd r) = 0"

definition loop_inv :: "nat \<Rightarrow> replacement list \<times> nat \<Rightarrow> bool" where
  "loop_inv n st \<longleftrightarrow>
     (case st of (reps, li) \<Rightarrow>
        li \<le> n \<and> replacements_ok li 0 (filter (\<lambda>r. \<not> at_end n r) reps))"

lemma replacements_ok_filter: "replacements_ok n i rs \<Longrightarrow> replacements_ok n i (filter P rs)"
proof (induction rs arbitrary: i)
  case Nil
  then show ?case by simp
next
  case (Cons r rs)
  obtain start m seg where r: "r = (start, m, seg)" by (cases r)
  with Cons.prems Cons.IH have ok: "replacements_ok n (start + m) (filter P rs)" by simp
  then have "replacements_ok n i (filter P rs)"
    by (rule replacements_ok_weaken) (use Cons.prems r in simp)
  with ok Cons.prems show ?case by (simp add: r)
qed

lemma replacements_ok_append:
  "replacements_ok m i xs \<Longrightarrow> replacements_ok n m ys \<Longrightarrow> replacements_ok n i (xs @ ys)"
proof (induction xs arbitrary: i)
  case Nil
  then show ?case by (auto intro: replacements_ok_weaken)
next
  case (Cons r xs)
  then show ?case by (cases r) auto
qed

lemma chunk_step_preserve:
  assumes "chunk_ok chunk" and "loop_inv (length lines) st"
  shows "chunk_step lines path PreserveLineEndings chunk st \<noteq> Inl Panicked
    \<and> (\<forall>st'. chunk_step lines path PreserveLineEndings chunk st = Inr st' \<longrightarrow>
         loop_inv (length lines) st')"
proof -
  obtain reps li where st: "st = (reps, li)" by (cases st)
  let ?n = "length lines"
  let ?F = "filter (\<lambda>r. \<not> at_end ?n r)"
  from assms(2) st have li: "li \<le> ?n" and ok: "replacements_ok li 0 (?F reps)"
    by (auto simp: loop_inv_def)
  from li show ?thesis
  proof (cases rule: chunk_step_cases [where path = path and mode = PreserveLineEndings
        and chunk = chunk and reps = reps])
    case (error e)
    then show ?thesis by (simp add: st)
  next
    case (insertion li')
    have "replacements_ok li' 0 (?F reps @ [])"
      by (rule replacements_ok_append [OF ok]) (use insertion in simp)
    with insertion show ?thesis
      by (simp add: st loop_inv_def at_end_def insertion_idx_def)
  next
    case (region li' start pattern new_slice)
    let ?ps = "context_line_indices chunk"
    let ?extra = "region_reps (length pattern) new_slice start 0 0 ?ps"
    have ctx: "context_ok 0 0 ?ps (old_lines chunk) (new_lines chunk)"
      using assms(1) by (simp add: chunk_ok_def)
    obtain k where seek: "seek_sequence lines pattern li' (is_end_of_file chunk) PreserveLineEndings
        = Some start"
      by (rule locate_chunk_SomeE [OF region(4)])
    have "li' \<le> start" by (rule seek_sequence_start_le [OF seek]) simp
    with region(1) have "li \<le> start" by simp
    then have "replacements_ok (start + length pattern) li (?F ?extra)"
      using region_reps_ok [OF ctx, of "length pattern" start new_slice]
      by (auto intro: replacements_ok_filter replacements_ok_weaken)
    from replacements_ok_append [OF ok this]
    have "loop_inv ?n (reps @ ?extra, start + length pattern)"
      using region(5) by (simp add: loop_inv_def)
    with region(6) show ?thesis by (simp add: st chunk_replacements_region [OF ctx])
  qed
qed

lemma replacements_ok_sorted:
  "replacements_ok n i rs \<Longrightarrow> sorted (map fst rs) \<and> (\<forall>r \<in> set rs. i \<le> fst r \<and> fst r + fst (snd r) \<le> n)"
proof (induction rs arbitrary: i)
  case Nil
  then show ?case by simp
next
  case (Cons r rs)
  obtain start m seg where r: "r = (start, m, seg)" by (cases r)
  with Cons.prems have ok: "replacements_ok n (start + m) rs" and "i \<le> start" by auto
  with Cons.IH [OF ok] replacements_ok_bound [OF ok] show ?case
    by (auto simp: r dest: add_leD1)
qed

lemma sort_loop_inv:
  assumes "loop_inv n (reps, li)"
  shows "replacements_ok n 0 (sort_key fst reps)"
proof -
  let ?A = "filter (\<lambda>r. \<not> at_end n r) reps"
  from assms have li: "li \<le> n" and ok: "replacements_ok li 0 ?A"
    by (auto simp: loop_inv_def)
  note A = replacements_ok_sorted [OF ok]
  have "\<forall>r \<in> set reps. if \<not> at_end n r then fst r < n else fst r = n"
  proof
    fix r
    assume r: "r \<in> set reps"
    show "if \<not> at_end n r then fst r < n else fst r = n"
    proof (cases "at_end n r")
      case True
      then show ?thesis by (simp add: at_end_def)
    next
      case False
      with r have "r \<in> set ?A" by simp
      with A have "fst r + fst (snd r) \<le> li" by blast
      with False li show ?thesis by (auto simp: at_end_def)
    qed
  qed
  then have "sort_key fst reps = ?A @ filter (\<lambda>r. \<not> \<not> at_end n r) reps"
    using A by (intro sort_key_partition) auto
  moreover have "replacements_ok n li (filter (\<lambda>r. \<not> \<not> at_end n r) reps)"
  proof -
    have tail: "replacements_ok n i ts" if "\<forall>t \<in> set ts. at_end n t" and "i \<le> n" for ts i
      using that by (induction ts arbitrary: i) (auto simp: at_end_def)
    show ?thesis by (rule tail) (use li in auto)
  qed
  ultimately show ?thesis using replacements_ok_append [OF ok] by simp
qed

lemma compute_replacements_preserve:
  assumes "\<forall>c \<in> set chunks. chunk_ok c"
  shows "compute_replacements lines path chunks PreserveLineEndings \<noteq> Inl Panicked
    \<and> (\<forall>reps. compute_replacements lines path chunks PreserveLineEndings = Inr reps \<longrightarrow>
         replacements_ok (length lines) 0 reps)"
proof -
  let ?loop = "rfold (chunk_step lines path PreserveLineEndings) chunks ([], 0)"
  have "?loop \<noteq> Inl Panicked \<and> (\<forall>st. ?loop = Inr st \<longrightarrow> loop_inv (length lines) st)"
  proof (rule rfold_no_error)
    show "loop_inv (length lines) ([], 0)" by (simp add: loop_inv_def)
  qed (use assms chunk_step_preserve in blast)
  then show ?thesis
    by (auto simp: compute_replacements_def rbind_eq_Inr_iff rbind_eq_Inl_iff
        dest: sort_loop_inv split: prod.splits)
qed

text \<open>In the other mode the replacements start within the file.\<close>

definition starts_within :: "nat \<Rightarrow> replacement list \<times> nat \<Rightarrow> bool" where
  "starts_within n st \<longleftrightarrow> snd st \<le> n \<and> (\<forall>r \<in> set (fst st). fst r \<le> n)"

lemma chunk_step_normalize:
  assumes "starts_within (length lines) st"
  shows "chunk_step lines path NormalizeToLf chunk st \<noteq> Inl Panicked
    \<and> (\<forall>st'. chunk_step lines path NormalizeToLf chunk st = Inr st' \<longrightarrow>
         starts_within (length lines) st')"
proof -
  obtain reps li where st: "st = (reps, li)" by (cases st)
  with assms have li: "li \<le> length lines" by (simp add: starts_within_def)
  then show ?thesis
  proof (cases rule: chunk_step_cases [where path = path and mode = NormalizeToLf
        and chunk = chunk and reps = reps])
    case (error e)
    then show ?thesis by (simp add: st)
  next
    case (insertion li')
    with assms show ?thesis by (auto simp: st starts_within_def insertion_idx_def)
  next
    case (region li' start pattern new_slice)
    with assms show ?thesis by (auto simp: st starts_within_def chunk_replacements_def)
  qed
qed

lemma compute_replacements_normalize:
  shows "compute_replacements lines path chunks NormalizeToLf \<noteq> Inl Panicked
    \<and> (\<forall>reps. compute_replacements lines path chunks NormalizeToLf = Inr reps \<longrightarrow>
         sorted (map fst reps) \<and> (\<forall>r \<in> set reps. fst r \<le> length lines))"
proof -
  let ?loop = "rfold (chunk_step lines path NormalizeToLf) chunks ([], 0)"
  have "?loop \<noteq> Inl Panicked \<and> (\<forall>st. ?loop = Inr st \<longrightarrow> starts_within (length lines) st)"
  proof (rule rfold_no_error)
    show "starts_within (length lines) ([], 0)" by (simp add: starts_within_def)
  qed (use chunk_step_normalize in blast)
  then show ?thesis
    by (fastforce simp: compute_replacements_def rbind_eq_Inr_iff rbind_eq_Inl_iff
        starts_within_def split: prod.splits)
qed

subsection \<open>Updating a file\<close>

lemma apply_update_total:
  assumes "\<forall>c \<in> set chunks. chunk_ok c"
  shows "apply_update contents path chunks mode \<noteq> Inl Panicked"
proof (cases mode)
  case NormalizeToLf
  let ?lines = "split_lf_lines contents"
  have "\<exists>ls. apply_replacements ?lines reps = Inr ls"
    if "compute_replacements ?lines path chunks NormalizeToLf = Inr reps" for reps
    using that compute_replacements_normalize [of ?lines path chunks]
      replace_in_place_no_panic [of "rev reps" ?lines]
    by (simp add: apply_replacements_def)
  with NormalizeToLf show ?thesis
    using compute_replacements_normalize [of ?lines path chunks]
    by (fastforce simp: apply_update_def Let_def rbind_eq_Inl_iff)
next
  case PreserveLineEndings
  let ?f = "parse_source_file contents"
  have "\<exists>f'. apply_source_replacements ?f reps = Inr f'"
    if "compute_replacements (line_texts ?f) path chunks PreserveLineEndings = Inr reps" for reps
    using that compute_replacements_preserve [OF assms, of "line_texts ?f" path]
      apply_source_replacements_splice by blast
  with PreserveLineEndings show ?thesis
    using compute_replacements_preserve [OF assms, of "line_texts ?f" path]
    by (fastforce simp: apply_update_def Let_def rbind_eq_Inl_iff)
qed

text \<open>
  C13. No update panics: for chunks as the parser makes them, no slice, insertion or index
  subtraction of the updater goes out of range, in either mode.
\<close>

theorem apply_update_no_panic:
  assumes "\<forall>c \<in> set chunks. chunk_ok c"
  shows "apply_update contents path chunks mode \<noteq> Inl Panicked"
  using assms by (rule apply_update_total)

lemma apply_update_no_panic_witness:
  "apply_update (lit ''a'') (lit ''f'')
     [push_context_line (lit ''a'') default_chunk] PreserveLineEndings \<noteq> Inl Panicked"
  by (rule apply_update_no_panic) (simp add: chunk_ok_push_context_line)

text \<open>The file a source file becomes: every line gets an ending, its own or the preferred one.\<close>

definition terminate_line :: "line_ending \<Rightarrow> source_line \<Rightarrow> source_line" where
  "terminate_line pref l = l\<lparr>line_end := get_or_insert pref (line_end l)\<rparr>"

text \<open>C2.
  C2. The mode that preserves line endings is a splice of the source lines: the
  replacements of the chunks are in source order, disjoint and within the file, every line
  outside them keeps its text and its own ending, and inserted lines take the preferred ending.
\<close>

theorem apply_update_preserve_splice:
  assumes "\<forall>c \<in> set chunks. chunk_ok c"
    and "f = parse_source_file contents"
    and "compute_replacements (line_texts f) path chunks PreserveLineEndings = Inr reps"
  shows "replacements_ok (length (file_lines f)) 0 reps
    \<and> apply_update contents path chunks PreserveLineEndings =
        Inr (concat (map (line_contents \<circ> terminate_line (preferred_ending f))
          (splice (file_lines f) 0 (map (lift_replacement (preferred_ending f)) reps))))"
proof -
  have ok: "replacements_ok (length (line_texts f)) 0 reps"
    using compute_replacements_preserve [OF assms(1), of "line_texts f" path] assms(3) by blast
  from apply_source_replacements_splice [OF this, of f] obtain f' where
    f': "apply_source_replacements f reps = Inr f'"
    and lines: "file_lines f' = map (terminate_line (preferred_ending f))
          (splice (file_lines f) 0 (map (lift_replacement (preferred_ending f)) reps))"
    by (auto simp: terminate_line_def)
  have "apply_update contents path chunks PreserveLineEndings = Inr (into_contents f')"
    using assms(2,3) f' by (simp add: apply_update_def Let_def)
  with ok show ?thesis
    by (simp add: into_contents_def lines line_texts_def)
qed

lemma apply_update_preserve_splice_witness:
  "\<exists>out. apply_update (lit ''a'' @ [13, 10] @ lit ''b'') (lit ''f'')
     [\<lparr>change_context = None, old_lines = [lit ''b''], new_lines = [lit ''c''],
       context_line_indices = [], is_end_of_file = False\<rparr>] PreserveLineEndings = Inr out
   \<and> out = lit ''a'' @ [13, 10] @ lit ''c'' @ [13, 10]"
proof -
  let ?c = "\<lparr>change_context = None, old_lines = [lit ''b''], new_lines = [lit ''c''],
       context_line_indices = [], is_end_of_file = False\<rparr>"
  let ?f = "parse_source_file (lit ''a'' @ [13, 10] @ lit ''b'')"
  have ok: "\<forall>c \<in> set [?c]. chunk_ok c" by (simp add: chunk_ok_def)
  have reps: "compute_replacements (line_texts ?f) (lit ''f'') [?c] PreserveLineEndings
      = Inr [(1, 1, [lit ''c''])]" by code_simp
  have out: "concat (map (line_contents \<circ> terminate_line (preferred_ending ?f))
      (splice (file_lines ?f) 0 (map (lift_replacement (preferred_ending ?f)) [(1, 1, [lit ''c''])])))
      = lit ''a'' @ [13, 10] @ lit ''c'' @ [13, 10]" by code_simp
  from apply_update_preserve_splice [OF ok refl reps] out show ?thesis by simp
qed

lemma sort_key_replacements: "replacements_ok n i reps \<Longrightarrow> sort_key fst reps = reps"
  by (intro sort_key_id_if_sorted) (simp add: replacements_ok_sorted)

text \<open>C16.
  What a chunk means, in the mode that preserves line endings: a chunk with old lines, without a
  context line and not marked as the end of the file, whose old lines the file contains
  literally, replaces their first occurrence by the new lines, and every other line is left
  alone. (A chunk marked as the end of the file is searched for from the end on instead.)
\<close>

theorem apply_update_single_chunk:
  assumes "chunk_ok c" and "change_context c = None" and "\<not> is_end_of_file c"
    and "old_lines c \<noteq> []" and "f = parse_source_file contents"
    and "j + length (old_lines c) \<le> length (line_texts f)"
    and "take (length (old_lines c)) (drop j (line_texts f)) = old_lines c"
  shows "\<exists>i f'. i \<le> j
    \<and> (\<forall>k < i. take (length (old_lines c)) (drop k (line_texts f)) \<noteq> old_lines c)
    \<and> take (length (old_lines c)) (drop i (line_texts f)) = old_lines c
    \<and> apply_update contents path [c] PreserveLineEndings = Inr (into_contents f')
    \<and> line_texts f' =
        take i (line_texts f) @ new_lines c @ drop (i + length (old_lines c)) (line_texts f)"
proof -
  let ?ls = "line_texts f" and ?olds = "old_lines c" and ?news = "new_lines c"
  have "search_start_of ?ls ?olds 0 False PreserveLineEndings \<le> j" by (simp add: search_start_of_def)
  from seek_sequence_exact_first [OF assms(4,6) this assms(7)]
  obtain i where i: "i \<le> j" "take (length ?olds) (drop i ?ls) = ?olds"
    and seek: "seek_sequence ?ls ?olds 0 False PreserveLineEndings = Some i"
    and first: "\<forall>k < i. take (length ?olds) (drop k ?ls) \<noteq> ?olds"
    by (auto simp: search_start_of_def)
  let ?reps = "region_reps (length ?olds) ?news i 0 0 (context_line_indices c)"
  have ctx: "context_ok 0 0 (context_line_indices c) ?olds ?news"
    using assms(1) by (simp add: chunk_ok_def)
  have bound: "i + length ?olds \<le> length ?ls" using i(1) assms(6) by simp
  have region: "replacements_ok (i + length ?olds) 0 ?reps"
    using region_reps_ok [OF ctx, of "length ?olds" i ?news] by (auto intro: replacements_ok_weaken)
  have "locate_chunk ?ls PreserveLineEndings c 0 = (Some i, ?olds, ?news)"
    using seek assms(3) by (simp add: locate_chunk_def Let_def)
  then have reps: "compute_replacements ?ls path [c] PreserveLineEndings = Inr ?reps"
    using assms(2,4) chunk_replacements_region [OF ctx, of "length ?olds" ?news i "[]"]
    by (simp add: compute_replacements_def chunk_step_def context_index_def
        sort_key_replacements [OF region])
  have "replacements_ok (length ?ls) 0 ?reps"
    using replacements_ok_append [OF region, of "length ?ls" "[]"] bound by simp
  from apply_source_replacements_splice [OF this, of f] obtain f' where
    f': "apply_source_replacements f ?reps = Inr f'" and texts: "line_texts f' = splice ?ls 0 ?reps"
    by blast
  have "splice ?ls 0 (?reps @ []) = drop 0 (take (i + 0) ?ls) @ drop 0 ?news @
      splice ?ls (i + length ?olds) []"
    by (rule region_reps_splice [OF ctx, where k = "length ?news"]) (use bound i(2) in simp_all)
  with texts have "line_texts f' = take i ?ls @ ?news @ drop (i + length ?olds) ?ls" by simp
  moreover have "apply_update contents path [c] PreserveLineEndings = Inr (into_contents f')"
    using reps f' assms(5) by (simp add: apply_update_def Let_def)
  ultimately show ?thesis using i first by blast
qed

lemma apply_update_single_chunk_witness:
  "\<exists>f'. apply_update (lit ''a'' @ [10] @ lit ''b'' @ [10]) (lit ''f'')
      [push_context_line (lit ''b'') (default_chunk\<lparr>old_lines := [lit ''a''], new_lines := [lit ''x'']\<rparr>)]
      PreserveLineEndings = Inr (into_contents f')
    \<and> line_texts f' = [lit ''x'', lit ''b'']"
proof -
  let ?c = "push_context_line (lit ''b'') (default_chunk\<lparr>old_lines := [lit ''a''], new_lines := [lit ''x'']\<rparr>)"
  let ?t = "lit ''a'' @ [10] @ lit ''b'' @ [10]"
  have c: "chunk_ok ?c" "change_context ?c = None" "\<not> is_end_of_file ?c" "old_lines ?c \<noteq> []"
    by (simp_all add: chunk_ok_def push_context_line_def default_chunk_def)
  have t: "line_texts (parse_source_file ?t) = [lit ''a'', lit ''b'']" by code_simp
  have "old_lines ?c = [lit ''a'', lit ''b'']" "new_lines ?c = [lit ''x'', lit ''b'']"
    by (simp_all add: push_context_line_def default_chunk_def)
  then show ?thesis
    using apply_update_single_chunk [OF c refl, of 0 ?t "lit ''f''"] by (auto simp only: t) simp
qed

end
