(* ===== verification/Policy_Patterns.thy ===== *)
theory Policy_Patterns
  imports Prelude
begin

text \<open>
  The patterns of the command policy
  (\<^verbatim>\<open>crates/agentic-gpt/src/operations/policy_patterns.rs\<close>): how a pattern is cut
  into tokens of literal characters and stars, with the quoting of a shell word, and how the
  tokens are matched against the argument vector of a command.
\<close>

datatype atom = Literal rchar | Star

datatype pattern_error =
  PatternEmpty                  \<comment> \<open>command\_policy\_pattern\_empty\<close>
| PatternEscapeIncomplete       \<comment> \<open>command\_policy\_pattern\_escape\_incomplete\<close>
| PatternQuoteIncomplete        \<comment> \<open>command\_policy\_pattern\_quote\_incomplete\<close>
| RecursiveWildcardMustBeFinal  \<comment> \<open>command\_policy\_recursive\_wildcard\_must\_be\_final\<close>
| RecursiveWildcardMustBeWhole  \<comment> \<open>command\_policy\_recursive\_wildcard\_must\_be\_whole\_token\<close>

subsection \<open>Tokens\<close>

text \<open>
  The variables of the loop: the open quote, the tokens so far, the token being read and
  whether there is one. 39, 34, 92, 36 and 96 are the single quote, the double quote, the
  backslash, the dollar sign and the back quote; 42 is the star.
\<close>

record token_state =
  open_quote :: "rchar option"
  done_tokens :: "atom list list"
  cur_token :: "atom list"
  token_active :: bool

definition initial_token_state :: token_state where
  "initial_token_state = \<lparr>open_quote = None, done_tokens = [], cur_token = [], token_active = False\<rparr>"

definition push_atom :: "atom \<Rightarrow> token_state \<Rightarrow> token_state" where
  "push_atom a st = st\<lparr>cur_token := cur_token st @ [a]\<rparr>"

text \<open>The branch of a backslash, with the character after it.\<close>

definition push_escaped :: "rchar \<Rightarrow> token_state \<Rightarrow> token_state" where
  "push_escaped escaped st =
     (let st1 = (if open_quote st = Some 34 \<and> escaped \<notin> {34, 92, 36, 96, 10}
                 then push_atom (Literal 92) st else st);
          st2 = (if escaped \<noteq> 10 then push_atom (Literal escaped) st1 else st1)
      in st2\<lparr>token_active := True\<rparr>)"

text \<open>The branches that look at one character.\<close>

definition push_pattern_char :: "rchar \<Rightarrow> token_state \<Rightarrow> token_state" where
  "push_pattern_char ch st =
     (case open_quote st of
        Some q \<Rightarrow> if (q = 39 \<or> q = 34) \<and> ch = q then st\<lparr>open_quote := None\<rparr>
                  else push_atom (Literal ch) st
      | None \<Rightarrow>
          if ch = 39 \<or> ch = 34 then st\<lparr>open_quote := Some ch, token_active := True\<rparr>
          else if is_whitespace ch then
            (if token_active st
             then st\<lparr>done_tokens := done_tokens st @ [cur_token st], cur_token := [], token_active := False\<rparr>
             else st)
          else if ch = 42 then (push_atom Star st)\<lparr>token_active := True\<rparr>
          else (push_atom (Literal ch) st)\<lparr>token_active := True\<rparr>)"

fun tokens_loop :: "rstr \<Rightarrow> token_state \<Rightarrow> pattern_error + token_state" where
  "tokens_loop [] st = Inr st"
| "tokens_loop (ch # rest) st =
     (if ch = 92 \<and> open_quote st \<noteq> Some 39 then
        (case rest of [] \<Rightarrow> Inl PatternEscapeIncomplete
         | escaped # rest' \<Rightarrow> tokens_loop rest' (push_escaped escaped st))
      else tokens_loop rest (push_pattern_char ch st))"

definition is_recursive :: "atom list \<Rightarrow> bool" where
  "is_recursive token \<longleftrightarrow> token = [Star, Star]"

fun has_double_star :: "atom list \<Rightarrow> bool" where
  "has_double_star (a # b # rest) \<longleftrightarrow> (a = Star \<and> b = Star) \<or> has_double_star (b # rest)"
| "has_double_star _ \<longleftrightarrow> False"

fun check_tokens :: "atom list list \<Rightarrow> pattern_error + unit" where
  "check_tokens [] = Inr ()"
| "check_tokens (token # rest) =
     (if is_recursive token \<and> rest \<noteq> [] then Inl RecursiveWildcardMustBeFinal
      else if has_double_star token \<and> \<not> is_recursive token then Inl RecursiveWildcardMustBeWhole
      else check_tokens rest)"

definition command_tokens :: "rstr \<Rightarrow> pattern_error + atom list list" where
  "command_tokens pattern =
     (if trim pattern = [] then Inl PatternEmpty
      else rbind (tokens_loop pattern initial_token_state) (\<lambda>st.
        if open_quote st \<noteq> None then Inl PatternQuoteIncomplete
        else
          let tokens = (if token_active st then done_tokens st @ [cur_token st] else done_tokens st)
          in rbind (check_tokens tokens) (\<lambda>_. Inr tokens)))"

subsection \<open>Matching a token\<close>

definition is_literal :: "atom \<Rightarrow> bool" where
  "is_literal a \<longleftrightarrow> a \<noteq> Star"

fun literal_chars :: "atom list \<Rightarrow> rstr" where
  "literal_chars [] = []"
| "literal_chars (Literal c # p) = c # literal_chars p"
| "literal_chars (Star # p) = literal_chars p"

definition literal_row :: "rchar \<Rightarrow> bool list \<Rightarrow> rstr \<Rightarrow> bool list" where
  "literal_row expected previous chars =
     False # map (\<lambda>index. previous ! (index - 1) \<and> chars ! (index - 1) = expected) [1..<length chars + 1]"

text \<open>\<^verbatim>\<open>next[index] = previous[index] || next[index - 1]\<close>, the first one without a left neighbour.\<close>

fun star_row :: "bool \<Rightarrow> bool list \<Rightarrow> bool list" where
  "star_row left [] = []"
| "star_row left (p # previous) = (p \<or> left) # star_row (p \<or> left) previous"

fun atom_row :: "atom \<Rightarrow> bool list \<Rightarrow> rstr \<Rightarrow> bool list" where
  "atom_row (Literal expected) previous chars = literal_row expected previous chars"
| "atom_row Star previous chars = star_row False previous"

definition glob_matches :: "atom list \<Rightarrow> rstr \<Rightarrow> bool" where
  "glob_matches pattern chars =
     (if list_all is_literal pattern then literal_chars pattern = chars
      else
        fold (\<lambda>a previous. atom_row a previous chars) pattern (True # replicate (length chars) False)
          ! length chars)"

subsection \<open>Matching a command\<close>

definition command_matches :: "rstr \<Rightarrow> rstr \<Rightarrow> rstr list \<Rightarrow> bool" where
  "command_matches pattern program args =
     (if trim pattern = [42] then True
      else case command_tokens pattern of
        Inl _ \<Rightarrow> False
      | Inr tokens \<Rightarrow>
          let recursive = tokens \<noteq> [] \<and> is_recursive (last tokens);
              count = length tokens - (if recursive then 1 else 0);
              argv = program # args
          in if (recursive \<and> length argv < count) \<or> (\<not> recursive \<and> length argv \<noteq> count) then False
             else list_all (\<lambda>(token, value). glob_matches token value) (zip (take count tokens) argv))"

subsection \<open>The table is the language of the pattern\<close>

text \<open>What a token means: a literal is itself, a star any string.\<close>

fun glob :: "atom list \<Rightarrow> rstr \<Rightarrow> bool" where
  "glob [] s \<longleftrightarrow> s = []"
| "glob (Literal c # p) s \<longleftrightarrow> (case s of [] \<Rightarrow> False | x # t \<Rightarrow> x = c \<and> glob p t)"
| "glob (Star # p) s \<longleftrightarrow> (\<exists>k\<le>length s. glob p (drop k s))"

lemma glob_append: "glob (p @ q) s \<longleftrightarrow> (\<exists>k\<le>length s. glob p (take k s) \<and> glob q (drop k s))"
proof (induction p s rule: glob.induct)
  case (1 s)
  then show ?case by auto
next
  case (2 c p s)
  show ?case
  proof (cases s)
    case Nil
    then show ?thesis by simp
  next
    case (Cons x t)
    have "glob ((Literal c # p) @ q) s \<longleftrightarrow> x = c \<and> (\<exists>k\<le>length t. glob p (take k t) \<and> glob q (drop k t))"
      using 2 Cons by auto
    also have "\<dots> \<longleftrightarrow> (\<exists>k\<le>length s. glob (Literal c # p) (take k s) \<and> glob q (drop k s))"
    proof
      assume "x = c \<and> (\<exists>k\<le>length t. glob p (take k t) \<and> glob q (drop k t))"
      then obtain k where "x = c" "k \<le> length t" "glob p (take k t)" "glob q (drop k t)" by blast
      then show "\<exists>k\<le>length s. glob (Literal c # p) (take k s) \<and> glob q (drop k s)"
        using Cons by (intro exI [of _ "Suc k"]) simp
    next
      assume "\<exists>k\<le>length s. glob (Literal c # p) (take k s) \<and> glob q (drop k s)"
      then obtain k where k: "k \<le> length s" "glob (Literal c # p) (take k s)" "glob q (drop k s)" by blast
      then obtain j where "k = Suc j" by (cases k) auto
      with k Cons show "x = c \<and> (\<exists>k\<le>length t. glob p (take k t) \<and> glob q (drop k t))" by auto
    qed
    finally show ?thesis .
  qed
next
  case (3 p s)
  have "glob ((Star # p) @ q) s \<longleftrightarrow>
      (\<exists>i\<le>length s. \<exists>j\<le>length s - i. glob p (take j (drop i s)) \<and> glob q (drop j (drop i s)))"
    using 3 by simp
  also have "\<dots> \<longleftrightarrow> (\<exists>k\<le>length s. \<exists>i\<le>k. glob p (drop i (take k s)) \<and> glob q (drop k s))"
  proof
    assume "\<exists>i\<le>length s. \<exists>j\<le>length s - i. glob p (take j (drop i s)) \<and> glob q (drop j (drop i s))"
    then obtain i j where "i \<le> length s" "j \<le> length s - i" "glob p (take j (drop i s))"
      "glob q (drop j (drop i s))" by blast
    then show "\<exists>k\<le>length s. \<exists>i\<le>k. glob p (drop i (take k s)) \<and> glob q (drop k s)"
      by (intro exI [of _ "i + j"] conjI exI [of _ i]) (auto simp: drop_take add.commute)
  next
    assume "\<exists>k\<le>length s. \<exists>i\<le>k. glob p (drop i (take k s)) \<and> glob q (drop k s)"
    then obtain k i where "k \<le> length s" "i \<le> k" "glob p (drop i (take k s))" "glob q (drop k s)" by blast
    then show "\<exists>i\<le>length s. \<exists>j\<le>length s - i. glob p (take j (drop i s)) \<and> glob q (drop j (drop i s))"
      by (intro exI [of _ i] conjI exI [of _ "k - i"]) (auto simp: drop_take)
  qed
  also have "\<dots> \<longleftrightarrow> (\<exists>k\<le>length s. glob (Star # p) (take k s) \<and> glob q (drop k s))"
    by (intro ex_cong1 conj_cong refl) (auto simp add: min_absorb2)
  finally show ?case .
qed

text \<open>A row of the table says which prefixes of the text the part of the pattern matches.\<close>

definition glob_row :: "atom list \<Rightarrow> rstr \<Rightarrow> bool list" where
  "glob_row p chars = map (\<lambda>i. glob p (take i chars)) [0..<Suc (length chars)]"

lemma length_glob_row [simp]: "length (glob_row p chars) = Suc (length chars)"
  by (simp add: glob_row_def)

lemma nth_glob_row [simp]: "i \<le> length chars \<Longrightarrow> glob_row p chars ! i \<longleftrightarrow> glob p (take i chars)"
  by (simp add: glob_row_def del: upt_Suc)

lemma length_star_row [simp]: "length (star_row b ps) = length ps"
  by (induction b ps rule: star_row.induct) simp_all

lemma ex_le_Suc: "(\<exists>j\<le>Suc k. P j) \<longleftrightarrow> P 0 \<or> (\<exists>j\<le>k. P (Suc j))"
  by (metis Suc_le_mono not0_implies_Suc zero_le)

lemma nth_star_row: "i < length ps \<Longrightarrow> star_row b ps ! i \<longleftrightarrow> b \<or> (\<exists>j\<le>i. ps ! j)"
proof (induction b ps arbitrary: i rule: star_row.induct)
  case (2 left p previous)
  show ?case
  proof (cases i)
    case (Suc k)
    with 2 show ?thesis by (auto simp: ex_le_Suc)
  qed auto
qed simp

lemma glob_snoc_literal:
  "glob (p @ [Literal c]) s \<longleftrightarrow> s \<noteq> [] \<and> last s = c \<and> glob p (butlast s)"
proof -
  have one: "glob [Literal c] t \<longleftrightarrow> t = [c]" for t by (cases t) auto
  show ?thesis
  proof (cases s rule: rev_cases)
    case (snoc u x)
    have "glob (p @ [Literal c]) s \<longleftrightarrow> (\<exists>k\<le>length s. glob p (take k s) \<and> drop k s = [c])"
      unfolding glob_append one ..
    also have "\<dots> \<longleftrightarrow> x = c \<and> glob p u"
    proof
      assume "\<exists>k\<le>length s. glob p (take k s) \<and> drop k s = [c]"
      then obtain k where k: "k \<le> length s" "glob p (take k s)" "drop k s = [c]" by blast
      from k(3) have "length (drop k s) = 1" by simp
      then have "k = length u" using snoc by simp
      with k snoc show "x = c \<and> glob p u" by simp
    next
      assume "x = c \<and> glob p u"
      with snoc show "\<exists>k\<le>length s. glob p (take k s) \<and> drop k s = [c]"
        by (intro exI [of _ "length u"]) simp
    qed
    finally show ?thesis using snoc by simp
  qed (simp add: glob_append one)
qed

lemma atom_row_step: "atom_row a (glob_row p chars) chars = glob_row (p @ [a]) chars"
proof (rule nth_equalityI)
  show "length (atom_row a (glob_row p chars) chars) = length (glob_row (p @ [a]) chars)"
    by (cases a) (simp_all add: literal_row_def del: upt_Suc)
  fix i
  assume "i < length (atom_row a (glob_row p chars) chars)"
  then have i: "i \<le> length chars"
    by (cases a) (simp_all add: literal_row_def del: upt_Suc)
  show "atom_row a (glob_row p chars) chars ! i = glob_row (p @ [a]) chars ! i"
  proof (cases a)
    case (Literal c)
    show ?thesis
    proof (cases i)
      case (Suc k)
      then have "k < length chars" using i by simp
      then have "take (Suc k) chars = take k chars @ [chars ! k]" by (rule take_Suc_conv_app_nth)
      with Suc Literal i show ?thesis
        by (auto simp: literal_row_def glob_snoc_literal nth_append simp del: upt_Suc)
    qed (simp add: Literal literal_row_def glob_snoc_literal)
  next
    case Star
    have tail: "glob [Star] t" for t by (auto intro: exI [of _ "length t"])
    have "glob (p @ [Star]) (take i chars) \<longleftrightarrow> (\<exists>j\<le>i. glob p (take j (take i chars)))"
      using i by (simp only: glob_append tail length_take min_absorb2 simp_thms)
    also have "\<dots> \<longleftrightarrow> (\<exists>j\<le>i. glob p (take j chars))"
      by (intro ex_cong1 conj_cong refl) (simp add: min_absorb1)
    finally have "glob (p @ [Star]) (take i chars) \<longleftrightarrow> (\<exists>j\<le>i. glob p (take j chars))" .
    with Star i show ?thesis
      by (auto simp: nth_star_row simp del: star_row.simps)
  qed
qed

lemma glob_table:
  "fold (\<lambda>a previous. atom_row a previous chars) q (glob_row p chars) = glob_row (p @ q) chars"
  by (induction q arbitrary: p) (simp_all add: atom_row_step)

lemma glob_literals: "list_all is_literal p \<Longrightarrow> glob p s \<longleftrightarrow> literal_chars p = s"
  by (induction p s rule: glob.induct) (auto simp: is_literal_def split: list.splits)

lemma glob_matches_iff: "glob_matches pattern s \<longleftrightarrow> glob pattern s"
proof -
  have "True # replicate (length s) False = glob_row [] s"
    by (rule nth_equalityI) (auto simp: nth_Cons')
  then show ?thesis
    using glob_table [of s pattern "[]"] by (simp add: glob_matches_def glob_literals)
qed

text \<open>C40.
  The quadratic table, and the direct comparison of a literal token, decide the language of
  the token: literals stand for themselves and a star for any string.
\<close>

theorem glob_matches_language: "glob_matches pattern s \<longleftrightarrow> glob pattern s"
  by (rule glob_matches_iff)


subsection \<open>Quoted patterns\<close>

text \<open>
  A word in single quotes, a single quote written as a quote, an escaped quote and a quote:
  the form a shell or a careful user writes an arbitrary word in.
\<close>

definition quote_word :: "rstr \<Rightarrow> rstr" where
  "quote_word w = 39 # concat (map (\<lambda>c. if c = 39 then [39, 92, 39, 39] else [c]) w) @ [39]"

abbreviation lits :: "rstr \<Rightarrow> atom list" where
  "lits w \<equiv> map Literal w"

lemma tokens_loop_quoted_body:
  "tokens_loop (concat (map (\<lambda>c. if c = 39 then [39, 92, 39, 39] else [c]) w) @ 39 # rest)
     \<lparr>open_quote = Some 39, done_tokens = ts, cur_token = t, token_active = True\<rparr> =
   tokens_loop rest \<lparr>open_quote = None, done_tokens = ts, cur_token = t @ lits w, token_active = True\<rparr>"
  by (induction w arbitrary: t)
    (auto simp: push_pattern_char_def push_escaped_def push_atom_def Let_def)

lemma tokens_loop_quote_word:
  "tokens_loop (quote_word w @ rest)
     \<lparr>open_quote = None, done_tokens = ts, cur_token = [], token_active = False\<rparr> =
   tokens_loop rest \<lparr>open_quote = None, done_tokens = ts, cur_token = lits w, token_active = True\<rparr>"
proof -
  let ?body = "concat (map (\<lambda>c. if c = 39 then [39, 92, 39, 39] else [c]) w)"
  have "tokens_loop (39 # ?body @ 39 # rest)
      \<lparr>open_quote = None, done_tokens = ts, cur_token = [], token_active = False\<rparr> =
    tokens_loop (?body @ 39 # rest)
      \<lparr>open_quote = Some 39, done_tokens = ts, cur_token = [], token_active = True\<rparr>"
    by (simp add: push_pattern_char_def)
  then show ?thesis by (simp add: quote_word_def tokens_loop_quoted_body)
qed

lemma tokens_loop_space:
  "tokens_loop (32 # rest)
     \<lparr>open_quote = None, done_tokens = ts, cur_token = t, token_active = True\<rparr> =
   tokens_loop rest \<lparr>open_quote = None, done_tokens = ts @ [t], cur_token = [], token_active = False\<rparr>"
  by (simp add: push_pattern_char_def is_whitespace_def)

lemma tokens_loop_words:
  "tokens_loop (join [32] (map quote_word (w # ws)) @ rest)
     \<lparr>open_quote = None, done_tokens = ts, cur_token = [], token_active = False\<rparr> =
   tokens_loop rest
     \<lparr>open_quote = None, done_tokens = ts @ butlast (map lits (w # ws)),
       cur_token = lits (last (w # ws)), token_active = True\<rparr>"
proof (induction ws arbitrary: w ts)
  case Nil
  then show ?case by (simp add: tokens_loop_quote_word)
next
  case (Cons a ws)
  have "join [32] (map quote_word (w # a # ws)) @ rest =
      quote_word w @ 32 # (join [32] (map quote_word (a # ws)) @ rest)"
    by simp
  then have "tokens_loop (join [32] (map quote_word (w # a # ws)) @ rest)
     \<lparr>open_quote = None, done_tokens = ts, cur_token = [], token_active = False\<rparr> =
    tokens_loop (join [32] (map quote_word (a # ws)) @ rest)
     \<lparr>open_quote = None, done_tokens = ts @ [lits w], cur_token = [], token_active = False\<rparr>"
    by (simp only: tokens_loop_quote_word tokens_loop_space)
  then show ?case unfolding Cons.IH by simp
qed

lemma no_double_star_lits [simp]: "\<not> has_double_star (lits w)" "\<not> is_recursive (lits w)"
proof -
  show "\<not> has_double_star (lits w)"
  proof (induction w)
    case (Cons c w)
    then show ?case by (cases w) simp_all
  qed simp
  show "\<not> is_recursive (lits w)" by (cases w) (simp_all add: is_recursive_def)
qed

lemma check_tokens_lits:
  "check_tokens (map lits ws) = Inr ()" "check_tokens (map lits ws @ [[Star, Star]]) = Inr ()"
  by (induction ws) (auto simp: is_recursive_def)

lemma quote_word_head: "\<exists>t. quote_word w = 39 # t"
  by (simp add: quote_word_def)

lemma join_quote_head: "\<exists>t. join [32] (map quote_word (w # ws)) @ rest = 39 # t"
  using quote_word_head [of w] by (cases ws) auto

lemma trim_quoted:
  assumes "s = 39 # t"
  shows "trim s \<noteq> []" and "trim s \<noteq> [42]"
proof -
  have "trim_end s \<noteq> []" using assms by (auto simp: trim_end_def is_whitespace_def)
  moreover have "\<exists>pre. s = trim_end s @ pre"
    by (metis append.simps(1) rev_append rev_rev_ident takeWhile_dropWhile_id trim_end_def)
  ultimately obtain u where "trim_end s = 39 # u"
    using assms by (cases "trim_end s") auto
  then show "trim s \<noteq> []" and "trim s \<noteq> [42]"
    by (auto simp: trim_def trim_start_def is_whitespace_def)
qed

lemma command_tokens_quoted:
  "command_tokens (join [32] (map quote_word (w # ws))) = Inr (map lits (w # ws))"
  "command_tokens (join [32] (map quote_word (w # ws)) @ [32, 42, 42]) =
    Inr (map lits (w # ws) @ [[Star, Star]])"
proof -
  have snoc: "butlast (map lits (w # ws)) @ [lits (last (w # ws))] = map lits (w # ws)"
    by (metis append_butlast_last_id last_map list.simps(3) map_is_Nil_conv)
  obtain t where t: "join [32] (map quote_word (w # ws)) = 39 # t"
    using join_quote_head [of w ws "[]"] by auto
  have first: "tokens_loop (join [32] (map quote_word (w # ws))) initial_token_state =
      Inr \<lparr>open_quote = None, done_tokens = butlast (map lits (w # ws)),
        cur_token = lits (last (w # ws)), token_active = True\<rparr>"
    using tokens_loop_words [of w ws "[]" "[]"] by (simp only: initial_token_state_def append.simps append_Nil2 tokens_loop.simps)
  have second: "tokens_loop (join [32] (map quote_word (w # ws)) @ [32, 42, 42]) initial_token_state =
      Inr \<lparr>open_quote = None, done_tokens = map lits (w # ws),
        cur_token = [Star, Star], token_active = True\<rparr>"
    unfolding initial_token_state_def tokens_loop_words tokens_loop_space append.simps(1) snoc
    by (simp add: push_pattern_char_def is_whitespace_def push_atom_def)
  show "command_tokens (join [32] (map quote_word (w # ws))) = Inr (map lits (w # ws))"
    unfolding command_tokens_def first using trim_quoted(1) [OF t] check_tokens_lits(1) [of "w # ws"]
    by (simp only: rbind_Inr snoc Let_def if_False if_True simp_thms token_state.simps)
  have "trim (join [32] (map quote_word (w # ws)) @ [32, 42, 42]) \<noteq> []"
    by (rule trim_quoted(1) [of _ "t @ [32, 42, 42]"]) (simp only: t append.simps)
  then show "command_tokens (join [32] (map quote_word (w # ws)) @ [32, 42, 42]) =
      Inr (map lits (w # ws) @ [[Star, Star]])"
    unfolding command_tokens_def second using check_tokens_lits(2) [of "w # ws"]
    by (simp only: rbind_Inr Let_def if_False if_True simp_thms token_state.simps)
qed

lemma glob_lits [simp]: "glob (lits w) s \<longleftrightarrow> s = w"
  by (induction w arbitrary: s) (auto split: list.splits)

lemma zip_lits_match:
  "length ws = length vs \<Longrightarrow>
    list_all (\<lambda>(token, value). glob_matches token value) (zip (map lits ws) vs) \<longleftrightarrow> vs = ws"
  by (induction ws vs rule: list_induct2) (auto simp: glob_matches_iff)

lemma zip_take_right: "zip xs ys = zip xs (take (length xs) ys)"
  by (induction xs arbitrary: ys) (auto simp: zip_Cons1 split: list.splits)

text \<open>
  A pattern that quotes every word of a command matches that command and no other.
\<close>

theorem quoted_pattern_exact:
  "command_matches (join [32] (map quote_word (w # ws))) program args \<longleftrightarrow> program = w \<and> args = ws"
proof -
  obtain t where t: "join [32] (map quote_word (w # ws)) = 39 # t"
    using join_quote_head [of w ws "[]"] by auto
  have "last (map lits (w # ws)) \<noteq> [Star, Star]"
    by (metis is_recursive_def last_map list.discI no_double_star_lits(2))
  then show ?thesis
    unfolding command_matches_def command_tokens_quoted using trim_quoted(2) [OF t]
      zip_lits_match [of "w # ws" "program # args"]
    by (auto simp: Let_def is_recursive_def)
qed

text \<open>
  The same pattern with a final \<^verbatim>\<open>**\<close> matches the commands that begin with these words.
\<close>

theorem quoted_pattern_prefix:
  "command_matches (join [32] (map quote_word (w # ws)) @ [32, 42, 42]) program args \<longleftrightarrow>
    program = w \<and> take (length ws) args = ws"
proof -
  obtain t where t: "join [32] (map quote_word (w # ws)) = 39 # t"
    using join_quote_head [of w ws "[]"] by auto
  let ?p = "join [32] (map quote_word (w # ws)) @ [32, 42, 42]"
  let ?n = "length (w # ws)" and ?argv = "program # args"
  have "trim ?p \<noteq> [42]"
    by (rule trim_quoted(2) [of _ "t @ [32, 42, 42]"]) (simp only: t append.simps)
  then have "command_matches ?p program args \<longleftrightarrow>
      ?n \<le> length ?argv \<and>
      list_all (\<lambda>(token, value). glob_matches token value) (zip (map lits (w # ws)) ?argv)"
    unfolding command_matches_def command_tokens_quoted by (auto simp: Let_def is_recursive_def)
  also have "\<dots> \<longleftrightarrow> ?n \<le> length ?argv \<and> take ?n ?argv = w # ws"
    using zip_lits_match [of "w # ws" "take ?n ?argv"] zip_take_right [of "map lits (w # ws)" ?argv]
    by (auto simp: min_absorb2)
  also have "\<dots> \<longleftrightarrow> program = w \<and> take (length ws) args = ws"
    by (auto dest: arg_cong [of _ ws length])
  finally show ?thesis .
qed

end
