(* ===== verification/Shell_Parser.thy ===== *)
theory Shell_Parser
  imports Prelude
begin

text \<open>
  The static analysis of a shell script
  (\<^verbatim>\<open>crates/agentic-gpt/src/operations/shell_parser.rs\<close>). The syntax tree is made by
  tree-sitter, a library the code calls: the parser is an argument of
  \<open>extract_literal_commands\<close> (\<open>None\<close> when the language cannot be set or parsing gives no
  tree), and a tree is a value of \<open>ts_node\<close> with what the code asks of a node: its kind,
  whether it is named, its field in the parent, whether it contains an error, its byte range
  and its children. \<^verbatim>\<open>node.child(i)\<close> exists for every \<^verbatim>\<open>i < child_count()\<close>.
\<close>

datatype ts_node = Ts_Node
  (node_kind: string) (node_named: bool) (node_field: "string option") (node_error: bool)
  (node_start: nat) (node_end: nat) (node_children: "ts_node list")

record literal_command =
  program :: rstr
  args :: "rstr list"
  start_byte :: nat
  end_byte :: nat
  complete :: bool

record extraction =
  commands :: "literal_command list"
  extraction_complete :: bool

definition node_text :: "rstr \<Rightarrow> ts_node \<Rightarrow> rstr option" where
  "node_text source n = str_get (node_start n) (node_end n) source"

subsection \<open>Words\<close>

text \<open>42, 63, 91, 93, 123, 125 and 126 are the characters of glob and brace patterns and the tilde.\<close>

fun decode_unquoted :: "rstr \<Rightarrow> rstr option" where
  "decode_unquoted [] = Some []"
| "decode_unquoted (c # rest) =
     (if c = 92 then
        (case rest of [] \<Rightarrow> None
         | e # rest' \<Rightarrow> if e = 10 then decode_unquoted rest' else map_option ((#) e) (decode_unquoted rest'))
      else if c \<in> {42, 63, 91, 93, 123, 125, 126} then None
      else if c = 13 \<or> c = 10 then None
      else map_option ((#) c) (decode_unquoted rest))"

text \<open>A dollar sign, perhaps after line continuations, before a name, a digit or a special parameter.\<close>

fun starts_double_quoted_expansion :: "rstr \<Rightarrow> bool" where
  "starts_double_quoted_expansion [] \<longleftrightarrow> False"
| "starts_double_quoted_expansion [c] \<longleftrightarrow>
     is_ascii_alphanumeric c \<or> c \<in> {95, 42, 64, 35, 63, 45, 36, 33, 123, 40, 91}"
| "starts_double_quoted_expansion (c # d # rest) \<longleftrightarrow>
     (if c = 92 \<and> d = 10 then starts_double_quoted_expansion rest
      else is_ascii_alphanumeric c \<or> c \<in> {95, 42, 64, 35, 63, 45, 36, 33, 123, 40, 91})"

fun decode_double_quoted :: "rstr \<Rightarrow> rstr option" where
  "decode_double_quoted [] = Some []"
| "decode_double_quoted (c # rest) =
     (if c = 92 then
        (case rest of [] \<Rightarrow> None
         | e # rest' \<Rightarrow>
             if e = 10 then decode_double_quoted rest'
             else if e \<in> {92, 34, 36, 96} then map_option ((#) e) (decode_double_quoted rest')
             else map_option (\<lambda>out. 92 # e # out) (decode_double_quoted rest'))
      else if c = 36 \<and> starts_double_quoted_expansion rest then None
      else if c = 96 then None
      else map_option ((#) c) (decode_double_quoted rest))"

definition strip_quotes :: "rchar \<Rightarrow> rstr \<Rightarrow> rstr option" where
  "strip_quotes q text =
     (case strip_prefix [q] text of None \<Rightarrow> None | Some r \<Rightarrow> strip_suffix [q] r)"

definition decode_double_quoted_word :: "rstr \<Rightarrow> rstr option" where
  "decode_double_quoted_word text = Option.bind (strip_quotes 34 text) decode_double_quoted"

text \<open>The first named child when it is the only one.\<close>

definition only_named_child :: "ts_node list \<Rightarrow> ts_node option" where
  "only_named_child cs = (case filter node_named cs of [c] \<Rightarrow> Some c | _ \<Rightarrow> None)"

lemma only_named_child_size: "only_named_child cs = Some c \<Longrightarrow> size c < Suc (size_list size cs)"
proof -
  assume "only_named_child cs = Some c"
  then have "filter node_named cs = [c]"
    by (auto simp: only_named_child_def split: list.splits)
  then have "c \<in> set (filter node_named cs)" by simp
  then have "c \<in> set cs" by simp
  then show ?thesis by (induction cs) auto
qed

function (sequential) literal_word :: "rstr \<Rightarrow> ts_node \<Rightarrow> rstr option"
  and literal_words :: "rstr \<Rightarrow> ts_node list \<Rightarrow> rstr option" where
  "literal_word source (Ts_Node k nm f e s t cs) =
     (let n = Ts_Node k nm f e s t cs in
      if e \<and> k \<noteq> ''string'' then None
      else if k = ''command_name'' then
        (case only_named_child cs of Some c \<Rightarrow> literal_word source c | None \<Rightarrow> None)
      else if k = ''word'' then Option.bind (node_text source n) decode_unquoted
      else if k = ''raw_string'' then Option.bind (node_text source n) (strip_quotes 39)
      else if k = ''string'' then Option.bind (node_text source n) decode_double_quoted_word
      else if k = ''number'' \<and> cs = [] then node_text source n
      else if k = ''concatenation'' then literal_words source cs
      else None)"
| "literal_words source [] = Some []"
| "literal_words source (c # cs) =
     (if \<not> node_named c then None
      else Option.bind (literal_word source c) (\<lambda>v. map_option ((@) v) (literal_words source cs)))"
  by pat_completeness auto
termination
  by (relation "measure (\<lambda>x. case x of Inl (_, n) \<Rightarrow> size n | Inr (_, cs) \<Rightarrow> size_list size cs)")
    (auto dest: only_named_child_size)

subsection \<open>Gaps\<close>

text \<open>
  \<open>Some separated\<close> for a gap of blanks and line continuations, with whether there is a blank;
  \<open>None\<close> for anything else.
\<close>

fun word_gap_loop :: "bool \<Rightarrow> rstr \<Rightarrow> bool option" where
  "word_gap_loop separated [] = Some separated"
| "word_gap_loop separated (c # rest) =
     (if c = 32 \<or> c = 9 then word_gap_loop True rest
      else if c = 92 then
        (case rest of [] \<Rightarrow> None
         | d # rest' \<Rightarrow> if d = 10 then word_gap_loop separated rest' else None)
      else None)"

definition literal_word_gap :: "rstr \<Rightarrow> bool option" where
  "literal_word_gap gap = word_gap_loop False gap"

definition is_sequence_separator :: "rstr \<Rightarrow> bool" where
  "is_sequence_separator gap \<longleftrightarrow>
     list_all (\<lambda>c. c = 32 \<or> c = 9 \<or> c = 10) gap \<or> literal_word_gap gap \<noteq> None"

fun has_escaped_whitespace :: "rstr \<Rightarrow> bool" where
  "has_escaped_whitespace (a # b # rest) \<longleftrightarrow>
     (a = 92 \<and> b \<in> {32, 9, 13, 11, 12}) \<or> has_escaped_whitespace (b # rest)"
| "has_escaped_whitespace _ \<longleftrightarrow> False"

subsection \<open>One command\<close>

record command_state =
  cs_program :: "rstr option"
  cs_reliable :: bool
  cs_args :: "rstr list"
  cs_prefix :: bool
  cs_complete :: bool
  cs_previous_end :: nat

text \<open>A gap that is not a word gap: the words around it may not be what they seem.\<close>

definition odd_gap :: "string option \<Rightarrow> rstr \<Rightarrow> command_state \<Rightarrow> command_state" where
  "odd_gap field gap st =
     (let st = st\<lparr>cs_complete := False\<rparr> in
      if field = Some ''name'' then st\<lparr>cs_reliable := False\<rparr>
      else if field = Some ''argument'' then
        (let begins_with_separator = (gap \<noteq> [] \<and> (hd gap = 32 \<or> hd gap = 9));
             st1 = (if begins_with_separator then st
                    else if cs_args st = []
                    then st\<lparr>cs_args := [], cs_reliable := False, cs_program := None\<rparr>
                    else st\<lparr>cs_args := []\<rparr>)
         in st1\<lparr>cs_prefix := False\<rparr>)
      else st)"

definition name_child :: "rstr option \<Rightarrow> command_state \<Rightarrow> command_state" where
  "name_child word st =
     (case word of
        Some value \<Rightarrow> if cs_reliable st then st\<lparr>cs_program := Some value\<rparr> else st
      | None \<Rightarrow> st\<lparr>cs_complete := False\<rparr>)"

definition argument_child :: "bool option \<Rightarrow> rstr \<Rightarrow> rstr option \<Rightarrow> command_state \<Rightarrow> command_state" where
  "argument_child word_gap gap word st =
     (let joined = (word_gap = Some False \<and> gap \<noteq> []) in
      case word of
        Some value \<Rightarrow>
          if cs_prefix st then
            if joined then
              if cs_args st \<noteq> [] then st\<lparr>cs_args := update_last (\<lambda>a. a @ value) (cs_args st)\<rparr>
              else st\<lparr>cs_program := map_option (\<lambda>p. p @ value) (cs_program st)\<rparr>
            else st\<lparr>cs_args := cs_args st @ [value]\<rparr>
          else st
      | None \<Rightarrow>
          (let st1 = (if joined \<and> cs_prefix st then
                        if cs_args st = [] then st\<lparr>cs_program := None\<rparr>
                        else st\<lparr>cs_args := butlast (cs_args st)\<rparr>
                      else st)
           in st1\<lparr>cs_prefix := False, cs_complete := False\<rparr>))"

definition command_child :: "rstr \<Rightarrow> ts_node \<Rightarrow> command_state \<Rightarrow> command_state" where
  "command_child source child st =
     (let field = node_field child;
          gap = str_get_or_default (cs_previous_end st) (node_start child) source;
          word_gap = literal_word_gap gap;
          st1 = (if word_gap = None then odd_gap field gap st else st);
          st2 = (if field = Some ''name'' then name_child (literal_word source child) st1
                 else if field = Some ''argument''
                 then argument_child word_gap gap (literal_word source child) st1
                 else st1\<lparr>cs_complete := False\<rparr>)
      in st2\<lparr>cs_previous_end := node_end child\<rparr>)"

definition extract_command :: "rstr \<Rightarrow> ts_node \<Rightarrow> literal_command option \<times> bool" where
  "extract_command source n =
     (let st = fold (command_child source) (node_children n)
                 \<lparr>cs_program = None, cs_reliable = True, cs_args = [], cs_prefix = True,
                  cs_complete = \<not> node_error n, cs_previous_end = node_start n\<rparr>;
          trailing = str_get_or_default (cs_previous_end st) (node_end n) source;
          ok = (cs_complete st \<and> literal_word_gap trailing \<noteq> None)
      in case cs_program st of
           None \<Rightarrow> (None, False)
         | Some p \<Rightarrow>
             (Some \<lparr>program = p, args = cs_args st, start_byte = node_start n, end_byte = node_end n,
                    complete = ok\<rparr>, ok))"

subsection \<open>Builtins with their own syntax\<close>

definition builtin_keywords :: "rstr list" where
  "builtin_keywords = [lit ''declare'', lit ''typeset'', lit ''export'', lit ''readonly'',
     lit ''local'', lit ''unset'', lit ''unsetenv'']"

text \<open>The loop over the children after the keyword; \<open>None\<close> is the early return.\<close>

fun builtin_loop :: "rstr \<Rightarrow> ts_node list \<Rightarrow> nat \<Rightarrow> rstr \<Rightarrow> rstr list \<Rightarrow> (rstr \<times> rstr list) option" where
  "builtin_loop source [] previous_end prog as = Some (prog, as)"
| "builtin_loop source (child # cs) previous_end prog as =
     (case str_get previous_end (node_start child) source of
        None \<Rightarrow> None
      | Some gap \<Rightarrow>
     (case literal_word_gap gap of
        None \<Rightarrow>
          if \<not> (gap \<noteq> [] \<and> (hd gap = 32 \<or> hd gap = 9))
          then (if as = [] then None else Some (prog, butlast as))
          else Some (prog, as)
      | Some separated \<Rightarrow>
     (if node_kind child = ''variable_name'' \<and> node_text source child = None then None
      else
     (case (if node_kind child = ''variable_name'' then node_text source child
            else literal_word source child) of
        None \<Rightarrow>
          if \<not> separated \<and> gap \<noteq> []
          then (if as = [] then None else Some (prog, butlast as))
          else Some (prog, as)
      | Some value \<Rightarrow>
          if \<not> separated \<and> gap \<noteq> [] then
            if as \<noteq> []
            then builtin_loop source cs (node_end child) prog (update_last (\<lambda>a. a @ value) as)
            else builtin_loop source cs (node_end child) (prog @ value) as
          else builtin_loop source cs (node_end child) prog (as @ [value])))))"

definition extract_builtin_command :: "rstr \<Rightarrow> ts_node \<Rightarrow> literal_command option" where
  "extract_builtin_command source n =
     (case node_children n of [] \<Rightarrow> None
      | keyword # rest \<Rightarrow>
     (case node_text source keyword of None \<Rightarrow> None
      | Some keyword_text \<Rightarrow>
          if keyword_text \<notin> set builtin_keywords then None
          else map_option (\<lambda>(p, as). \<lparr>program = p, args = as, start_byte = node_start n,
                 end_byte = node_end n, complete = False\<rparr>)
               (builtin_loop source rest (node_end keyword) keyword_text [])))"

subsection \<open>The script\<close>

definition incomplete :: "literal_command \<Rightarrow> literal_command" where
  "incomplete c = c\<lparr>complete := False\<rparr>"

text \<open>The separators a sequence node allows between its parts, \<open>None\<close> for other kinds of nodes.\<close>

definition sequence_separators :: "string \<Rightarrow> rstr list option" where
  "sequence_separators k =
     (if k = ''program'' then Some [lit '';'', [10], [13, 10]]
      else if k = ''list'' then Some [lit ''&&'', lit ''||'']
      else if k = ''pipeline'' then Some [lit ''|'']
      else None)"

definition joins_comment :: "rstr \<Rightarrow> ts_node \<Rightarrow> bool" where
  "joins_comment gap child \<longleftrightarrow>
     node_kind child = ''comment'' \<and> gap \<noteq> [] \<and> literal_word_gap gap = Some False"

definition gap_is_plain :: "rstr \<Rightarrow> ts_node \<Rightarrow> bool" where
  "gap_is_plain gap child \<longleftrightarrow> is_sequence_separator gap \<and> \<not> joins_comment gap child"

definition separator_allowed :: "rstr \<Rightarrow> rstr list \<Rightarrow> ts_node \<Rightarrow> bool" where
  "separator_allowed source allowed child \<longleftrightarrow>
     (case node_text source child of None \<Rightarrow> False | Some t \<Rightarrow> t \<in> set allowed)"

text \<open>After a named child: the commands from index \<open>first\<close> on came from it.\<close>

definition after_named ::
    "rstr \<Rightarrow> bool \<Rightarrow> nat \<Rightarrow> literal_command list \<Rightarrow> literal_command list" where
  "after_named gap plain first cmds =
     (let cmds1 = (if plain then cmds else take first cmds @ map incomplete (drop first cmds))
      in if has_escaped_whitespace gap \<and> first < length cmds1
         then take first cmds1 @ drop (Suc first) cmds1 else cmds1)"

definition mark_last :: "nat \<Rightarrow> literal_command list \<Rightarrow> literal_command list" where
  "mark_last start cmds = (if start < length cmds then update_last incomplete cmds else cmds)"

text \<open>After the last child of a sequence.\<close>

definition sequence_end ::
    "rstr \<Rightarrow> nat \<Rightarrow> nat \<Rightarrow> bool \<times> nat \<times> literal_command list \<Rightarrow> bool \<times> literal_command list" where
  "sequence_end source end_pos start st =
     (case st of (ok, previous_end, cmds) \<Rightarrow>
        if is_sequence_separator (str_get_or_default previous_end end_pos source) then (ok, cmds)
        else (False, mark_last start cmds))"

function (sequential) visit_node ::
    "rstr \<Rightarrow> ts_node \<Rightarrow> literal_command list \<Rightarrow> bool \<times> literal_command list"
  and visit_children ::
    "rstr \<Rightarrow> rstr list \<Rightarrow> nat \<Rightarrow> ts_node list \<Rightarrow> bool \<times> nat \<times> literal_command list \<Rightarrow>
     bool \<times> nat \<times> literal_command list"
  and collect_nested_commands ::
    "rstr \<Rightarrow> ts_node list \<Rightarrow> literal_command list \<Rightarrow> literal_command list" where
  "visit_node source (Ts_Node k nm f e s t cs) cmds =
     (let n = Ts_Node k nm f e s t cs in
      case sequence_separators k of
        Some allowed \<Rightarrow>
          sequence_end source t (length cmds)
            (visit_children source allowed (length cmds) cs (\<not> e, s, cmds))
      | None \<Rightarrow>
          if k = ''comment'' then (True, cmds)
          else if k = ''command'' then
            (case extract_command source n of (command, ok) \<Rightarrow>
              (ok, collect_nested_commands source cs
                     (case command of None \<Rightarrow> cmds | Some c \<Rightarrow> cmds @ [c])))
          else if k = ''declaration_command'' \<or> k = ''unset_command'' then
            (False, collect_nested_commands source cs
                      (case extract_builtin_command source n of None \<Rightarrow> cmds | Some c \<Rightarrow> cmds @ [c]))
          else (False, collect_nested_commands source cs cmds))"
| "visit_children source allowed start [] st = st"
| "visit_children source allowed start (child # cs) (ok, previous_end, cmds) =
     (let gap = str_get_or_default previous_end (node_start child) source;
          plain = gap_is_plain gap child;
          ok1 = (ok \<and> plain);
          cmds1 = (if \<not> plain \<and> joins_comment gap child then update_last incomplete cmds else cmds)
      in if node_named child then
           (case visit_node source child cmds1 of (child_ok, cmds2) \<Rightarrow>
              visit_children source allowed start cs
                (ok1 \<and> child_ok, node_end child, after_named gap plain (length cmds1) cmds2))
         else
           visit_children source allowed start cs
             (ok1 \<and> separator_allowed source allowed child, node_end child,
              if plain then cmds1 else mark_last start cmds1))"
| "collect_nested_commands source [] cmds = cmds"
| "collect_nested_commands source (Ts_Node k nm f e s t ns # cs) cmds =
     (if \<not> nm then collect_nested_commands source cs cmds
      else if k = ''command'' \<or> k = ''declaration_command'' \<or> k = ''unset_command''
      then collect_nested_commands source cs (snd (visit_node source (Ts_Node k nm f e s t ns) cmds))
      else collect_nested_commands source cs (collect_nested_commands source ns cmds))"
  by pat_completeness auto
termination
  by (relation "measure (\<lambda>x. case x of Inl (_, n, _) \<Rightarrow> size n
      | Inr (Inl (_, _, _, cs, _)) \<Rightarrow> size_list size cs
      | Inr (Inr (_, cs, _)) \<Rightarrow> size_list size cs)") simp_all


subsection \<open>Carriage returns\<close>

text \<open>
  A backslash before a carriage return and a line feed is not a line continuation for bash,
  but is one for the parser. The positions of these sequences outside literal text:
\<close>

function collect_literal_ranges :: "ts_node \<Rightarrow> (nat \<times> nat) list" where
  "collect_literal_ranges (Ts_Node k nm f e s t cs) =
     (if k \<in> {''raw_string'', ''ansi_c_string'', ''string_content'', ''comment'', ''heredoc_body''}
      then [(s, t)]
      else concat (map collect_literal_ranges (filter node_named cs)))"
  by pat_completeness auto
termination
proof (relation "measure size")
  fix k :: string and nm :: bool and f :: "string option" and e :: bool and s t :: nat
    and cs :: "ts_node list" and c :: ts_node
  assume "c \<in> set (filter node_named cs)"
  then have "c \<in> set cs" by simp
  then have "size c \<le> size_list size cs" by (induction cs) auto
  then show "(c, Ts_Node k nm f e s t cs) \<in> measure size" by simp
qed simp

definition in_literal_range :: "(nat \<times> nat) list \<Rightarrow> nat \<Rightarrow> bool" where
  "in_literal_range ranges index =
     (case dropWhile (\<lambda>(_, range_end). range_end \<le> index) ranges of
        [] \<Rightarrow> False | (range_start, range_end) # _ \<Rightarrow> range_start \<le> index \<and> index < range_end)"

fun crlf_scan :: "(nat \<times> nat) list \<Rightarrow> nat \<Rightarrow> rstr \<Rightarrow> nat list" where
  "crlf_scan ranges index (a # b # c # rest) =
     (if a = 92 \<and> b = 13 \<and> c = 10
      then (if in_literal_range ranges index then [] else [index]) @ crlf_scan ranges (index + 3) rest
      else crlf_scan ranges (index + char_utf8_len a) (b # c # rest))"
| "crlf_scan ranges index _ = []"

definition crlf_line_break_offsets :: "rstr \<Rightarrow> ts_node \<Rightarrow> nat list" where
  "crlf_line_break_offsets script root = crlf_scan (collect_literal_ranges root) 0 script"

fun bash_crlf_analysis_view :: "rstr \<Rightarrow> nat list \<Rightarrow> rstr option" where
  "bash_crlf_analysis_view script [] = Some script"
| "bash_crlf_analysis_view script (offset # offsets) =
     (case split_bytes offset script of None \<Rightarrow> None
      | Some (before, rest) \<Rightarrow>
     (case split_bytes 3 rest of None \<Rightarrow> None
      | Some (_, rest') \<Rightarrow> bash_crlf_analysis_view (before @ [32, 10, 32] @ rest') offsets))"

definition touches_crlf :: "nat list \<Rightarrow> literal_command \<Rightarrow> bool" where
  "touches_crlf offsets c \<longleftrightarrow>
     list_ex (\<lambda>offset. offset < end_byte c \<and> start_byte c < offset + 3) offsets"

fun merge_normalized ::
    "nat list \<Rightarrow> literal_command list \<Rightarrow> literal_command list \<Rightarrow> literal_command list" where
  "merge_normalized offsets [] cmds = cmds"
| "merge_normalized offsets (c # cs) cmds =
     merge_normalized offsets cs
       (if list_ex (\<lambda>offset. offset + 3 \<le> start_byte c) offsets
           \<and> \<not> list_ex (\<lambda>existing. start_byte existing = start_byte c) cmds
        then cmds @ [incomplete c] else cmds)"

definition normalized_commands ::
    "(rstr \<Rightarrow> ts_node option) \<Rightarrow> rstr \<Rightarrow> nat list \<Rightarrow> literal_command list \<Rightarrow> literal_command list" where
  "normalized_commands parse script offsets cmds =
     (case bash_crlf_analysis_view script offsets of None \<Rightarrow> cmds
      | Some normalized \<Rightarrow>
     (case parse normalized of None \<Rightarrow> cmds
      | Some root \<Rightarrow> merge_normalized offsets (snd (visit_node normalized root [])) cmds))"

definition extract_literal_commands :: "(rstr \<Rightarrow> ts_node option) \<Rightarrow> rstr \<Rightarrow> extraction" where
  "extract_literal_commands parse script =
     (case parse script of
        None \<Rightarrow> \<lparr>commands = [], extraction_complete = False\<rparr>
      | Some root \<Rightarrow>
          let offsets = crlf_line_break_offsets script root;
              (visited, cmds) = visit_node script root [];
              cmds' = (if offsets = [] then cmds
                       else normalized_commands parse script offsets
                              (map (\<lambda>c. if touches_crlf offsets c then incomplete c else c) cmds))
          in \<lparr>commands = cmds',
              extraction_complete =
                (\<not> node_error root \<and> offsets = [] \<and> visited \<and> cmds' \<noteq> [])\<rparr>)"

subsection \<open>Quoting and decoding\<close>

text \<open>A word with every character escaped, and a word in double quotes.\<close>

definition escape_word :: "rstr \<Rightarrow> rstr" where
  "escape_word w = concat (map (\<lambda>c. [92, c]) w)"

definition double_quote_body :: "rstr \<Rightarrow> rstr" where
  "double_quote_body w = concat (map (\<lambda>c. if c \<in> {92, 34, 36, 96} then [92, c] else [c]) w)"

text \<open>
  The decoder of double-quoted words inverts quoting: any word, with its backslashes, quotes,
  dollar signs and back quotes escaped, is decoded to itself.
\<close>

theorem decode_double_quoted_quote:
  "decode_double_quoted_word (34 # double_quote_body w @ [34]) = Some w"
proof -
  have "decode_double_quoted (double_quote_body w) = Some w"
    by (induction w) (auto simp: double_quote_body_def)
  then show ?thesis
    by (simp add: decode_double_quoted_word_def strip_quotes_def strip_suffix_Some_iff [THEN iffD2])
qed

text \<open>
  The decoder of unquoted words inverts escaping, for words without a line feed (an escaped
  line feed is a line continuation).
\<close>

theorem decode_unquoted_escape:
  assumes "10 \<notin> set w"
  shows "decode_unquoted (escape_word w) = Some w"
  using assms by (induction w) (auto simp: escape_word_def)

lemma decode_unquoted_escape_witness: "decode_unquoted (escape_word (lit ''a*b'')) = Some (lit ''a*b'')"
  by (rule decode_unquoted_escape) simp

subsection \<open>What a complete extraction contains\<close>

text \<open>The statements of a script: the named nodes below programs, lists and pipelines.\<close>

function statements :: "ts_node \<Rightarrow> ts_node list" where
  "statements (Ts_Node k nm f e s t cs) =
     (if sequence_separators k = None then [Ts_Node k nm f e s t cs]
      else concat (map statements (filter node_named cs)))"
  by pat_completeness auto
termination
proof (relation "measure size")
  fix k :: string and nm :: bool and f :: "string option" and e :: bool and s t :: nat
    and cs :: "ts_node list" and c :: ts_node
  assume "c \<in> set (filter node_named cs)"
  then have "c \<in> set cs" by simp
  then have "size c \<le> size_list size cs" by (induction cs) auto
  then show "(c, Ts_Node k nm f e s t cs) \<in> measure size" by simp
qed simp

lemma word_gap_no_escape: "word_gap_loop b gap \<noteq> None \<Longrightarrow> \<not> has_escaped_whitespace gap"
proof (induction b gap rule: word_gap_loop.induct)
  case (2 separated c rest)
  show ?case
  proof (cases rest)
    case (Cons d rest')
    with 2 show ?thesis by (cases rest') (auto split: if_splits)
  qed simp
qed simp

lemma blank_no_escape:
  "list_all (\<lambda>c. c = 32 \<or> c = 9 \<or> c = 10) gap \<Longrightarrow> \<not> has_escaped_whitespace gap"
  by (induction gap rule: has_escaped_whitespace.induct) auto

lemma plain_no_escape: "gap_is_plain gap child \<Longrightarrow> \<not> has_escaped_whitespace gap"
  using word_gap_no_escape [of False gap] blank_no_escape [of gap]
  by (auto simp: gap_is_plain_def is_sequence_separator_def literal_word_gap_def)

text \<open>A statement that the commands account for: a comment, or a command with a literal argv.\<close>

definition accounted :: "rstr \<Rightarrow> literal_command list \<Rightarrow> ts_node \<Rightarrow> bool" where
  "accounted source cmds m \<longleftrightarrow>
     node_kind m = ''comment'' \<or>
     node_kind m = ''command'' \<and> (\<exists>c \<in> set cmds. extract_command source m = (Some c, True))"

lemma accounted_append:
  "accounted source (cmds @ new) m \<Longrightarrow> accounted source (cmds @ new @ new2) m"
  by (auto simp: accounted_def)

lemma sequence_end_ok:
  "sequence_end source t start (ok, prev, cmds) = (True, cmds') \<Longrightarrow> ok \<and> cmds' = cmds"
  by (auto simp: sequence_end_def split: if_splits)

lemma extract_command_ok: "extract_command source n = (c, True) \<Longrightarrow> \<exists>c'. c = Some c' \<and> complete c'"
  by (auto simp: extract_command_def Let_def split: option.splits)

lemma visit_facts:
  "(sequence_separators (node_kind n) = None \<longrightarrow> (\<exists>new. snd (visit_node source n cmds) = cmds @ new))
    \<and> (fst (visit_node source n cmds) \<longrightarrow>
        (\<exists>new. snd (visit_node source n cmds) = cmds @ new)
        \<and> list_all (accounted source (snd (visit_node source n cmds))) (statements n))"
  "fst (visit_children source allowed start cs st) \<longrightarrow>
     fst st \<and> (\<exists>new. snd (snd (visit_children source allowed start cs st)) = snd (snd st) @ new)
     \<and> list_all (\<lambda>m. accounted source (snd (snd (visit_children source allowed start cs st))) m)
         (concat (map statements (filter node_named cs)))"
  "\<exists>new. collect_nested_commands source cs' cmds = cmds @ new"
proof (induction source n cmds and source allowed start cs st and source cs' cmds
    rule: visit_node_visit_children_collect_nested_commands.induct)
  case (1 source k nm f e s t cs cmds)
  let ?n = "Ts_Node k nm f e s t cs"
  show ?case
  proof (cases "sequence_separators k")
    case (Some allowed)
    obtain ok prev cmds' where r: "visit_children source allowed (length cmds) cs (\<not> e, s, cmds) = (ok, prev, cmds')"
      by (cases "visit_children source allowed (length cmds) cs (\<not> e, s, cmds)")
    have v: "visit_node source ?n cmds = sequence_end source t (length cmds) (ok, prev, cmds')"
      using Some r by simp
    show ?thesis
    proof (cases "fst (visit_node source ?n cmds)")
      case True
      then obtain c2 where "sequence_end source t (length cmds) (ok, prev, cmds') = (True, c2)"
        unfolding v by (metis (full_types) eq_fst_iff)
      with sequence_end_ok have "ok" and v': "visit_node source ?n cmds = (True, cmds')"
        unfolding v by blast+
      with "1.IH"(4) [OF refl Some] r Some show ?thesis by simp
    qed (use Some in simp)
  next
    case None
    obtain c ok where ec: "extract_command source ?n = (c, ok)" by (cases "extract_command source ?n")
    show ?thesis
    proof (cases "k = ''command''")
      case True
      let ?cmds = "case c of None \<Rightarrow> cmds | Some c \<Rightarrow> cmds @ [c]"
      have "\<exists>new. collect_nested_commands source cs ?cmds = ?cmds @ new"
        using "1.IH"(1) [OF refl None] True ec by simp
      then obtain new where new: "collect_nested_commands source cs ?cmds = ?cmds @ new" ..
      then have v: "visit_node source ?n cmds = (ok, ?cmds @ new)"
        using None True ec by simp
      show ?thesis
        using None True ec unfolding v
        by (auto simp: accounted_def dest: extract_command_ok split: option.splits)
    next
      case False
      let ?b = "case extract_builtin_command source ?n of None \<Rightarrow> cmds | Some c \<Rightarrow> cmds @ [c]"
      have *: "\<exists>new. (case extract_builtin_command source ?n of None \<Rightarrow> cmds | Some c \<Rightarrow> cmds @ [c]) = cmds @ new"
        by (cases "extract_builtin_command source ?n") auto
      have "k \<noteq> ''comment'' \<Longrightarrow> k = ''declaration_command'' \<or> k = ''unset_command'' \<Longrightarrow>
          \<exists>new. collect_nested_commands source cs ?b = ?b @ new"
        using "1.IH"(2) [OF refl None] False by simp
      moreover have "k \<noteq> ''comment'' \<Longrightarrow> \<not> (k = ''declaration_command'' \<or> k = ''unset_command'') \<Longrightarrow>
          \<exists>new. collect_nested_commands source cs cmds = cmds @ new"
        using "1.IH"(3) [OF refl None] False by simp
      ultimately have other: "k \<noteq> ''comment'' \<Longrightarrow> \<not> fst (visit_node source ?n cmds)
          \<and> (\<exists>new. snd (visit_node source ?n cmds) = cmds @ new)"
        using None False *
        by (cases "k = ''declaration_command'' \<or> k = ''unset_command''") (auto split: option.splits)
      show ?thesis
      proof (cases "k = ''comment''")
        case True
        with None show ?thesis by (simp add: accounted_def)
      next
        case False
        with other show ?thesis by blast
      qed
    qed
  qed
next
  case (2 source allowed start st)
  then show ?case by simp
next
  case (3 source allowed start child cs ok previous_end cmds)
  define gap where "gap = str_get_or_default previous_end (node_start child) source"
  define plain where "plain = gap_is_plain gap child"
  define cmds1 where "cmds1 = (if \<not> plain \<and> joins_comment gap child then update_last incomplete cmds else cmds)"
  obtain child_ok cmds2 where v: "visit_node source child cmds1 = (child_ok, cmds2)"
    by (cases "visit_node source child cmds1")
  define st where "st = (if node_named child
    then ((ok \<and> plain) \<and> child_ok, node_end child, after_named gap plain (length cmds1) cmds2)
    else ((ok \<and> plain) \<and> separator_allowed source allowed child, node_end child,
      if plain then cmds1 else mark_last start cmds1))"
  have r: "visit_children source allowed start (child # cs) (ok, previous_end, cmds) =
      visit_children source allowed start cs st"
    unfolding visit_children.simps(2) Let_def gap_def [symmetric] plain_def [symmetric]
      cmds1_def [symmetric] v st_def
    by simp
  have IH: "fst (visit_children source allowed start cs st) \<longrightarrow>
     fst st \<and> (\<exists>new. snd (snd (visit_children source allowed start cs st)) = snd (snd st) @ new)
     \<and> list_all (\<lambda>m. accounted source (snd (snd (visit_children source allowed start cs st))) m)
         (concat (map statements (filter node_named cs)))"
  proof (cases "node_named child")
    case True
    show ?thesis
      using "3.IH"(2) [OF gap_def plain_def refl cmds1_def True v [symmetric]] True
      unfolding st_def if_P [OF True] fst_conv snd_conv by blast
  next
    case False
    show ?thesis
      using "3.IH"(3) [OF gap_def plain_def refl cmds1_def False] False
      unfolding st_def if_not_P [OF False] fst_conv snd_conv by blast
  qed
  have IHn: "node_named child \<Longrightarrow> child_ok \<Longrightarrow>
      (\<exists>new. cmds2 = cmds1 @ new) \<and> list_all (accounted source cmds2) (statements child)"
    using "3.IH"(1) [OF gap_def plain_def refl cmds1_def] v by simp
  show ?case
    unfolding r
  proof (intro impI)
    assume ok': "fst (visit_children source allowed start cs st)"
    with IH have "fst st" by blast
    then have plain: plain and ok: ok by (auto simp: st_def split: if_splits)
    then have c1: "cmds1 = cmds" by (simp add: cmds1_def)
    show "fst (ok, previous_end, cmds) \<and>
      (\<exists>new. snd (snd (visit_children source allowed start cs st)) = snd (snd (ok, previous_end, cmds)) @ new) \<and>
      list_all (\<lambda>m. accounted source (snd (snd (visit_children source allowed start cs st))) m)
        (concat (map statements (filter node_named (child # cs))))"
    proof (cases "node_named child")
      case True
      have "after_named gap plain (length cmds1) cmds2 = cmds2"
        using plain plain_no_escape [of gap child] by (simp add: after_named_def plain_def)
      with \<open>fst st\<close> True IHn IH ok' c1 ok show ?thesis
        by (auto simp: st_def list_all_iff) (blast intro: accounted_append)
    next
      case False
      with IH ok' c1 ok plain show ?thesis by (auto simp: st_def)
    qed
  qed
next
  case (4 source cmds)
  then show ?case by simp
next
  case (5 source k nm f e s t ns cs cmds)
  show ?case
  proof (cases nm)
    case True
    show ?thesis
    proof (cases "k = ''command'' \<or> k = ''declaration_command'' \<or> k = ''unset_command''")
      case kind: True
      then have none: "sequence_separators k = None" by (auto simp: sequence_separators_def)
      obtain new where new: "snd (visit_node source (Ts_Node k nm f e s t ns) cmds) = cmds @ new"
        using "5.IH"(2) True kind none by auto
      obtain new2 where "collect_nested_commands source cs (cmds @ new) = (cmds @ new) @ new2"
        using "5.IH"(3) True kind unfolding new by auto
      then have "collect_nested_commands source (Ts_Node k nm f e s t ns # cs) cmds = cmds @ new @ new2"
        using True kind new by (simp only: collect_nested_commands.simps if_True if_False simp_thms append_assoc)
      then show ?thesis by blast
    next
      case kind: False
      obtain new where new: "collect_nested_commands source ns cmds = cmds @ new"
        using "5.IH"(4) True kind by auto
      obtain new2 where "collect_nested_commands source cs (cmds @ new) = (cmds @ new) @ new2"
        using "5.IH"(5) True kind unfolding new by auto
      then have "collect_nested_commands source (Ts_Node k nm f e s t ns # cs) cmds = cmds @ new @ new2"
        using True kind new by (simp only: collect_nested_commands.simps if_True if_False simp_thms append_assoc)
      then show ?thesis by blast
    qed
  next
    case False
    with "5.IH"(1) show ?thesis by simp
  qed
qed

lemma extract_complete_accounted:
  assumes "extraction_complete (extract_literal_commands parse script)" and "parse script = Some root"
  shows "list_all (accounted script (commands (extract_literal_commands parse script))) (statements root)"
  using assms visit_facts(1) [of root script "[]"]
  by (auto simp: extract_literal_commands_def Let_def split: prod.splits)

end
