(* ===== verification/Shell_Literal.thy ===== *)
theory Shell_Literal
  imports Shell_Parser
begin

text \<open>
  What a literal command is, as a specification beside the analyser: relations give the value
  a shell word has without any expansion, by the kinds of the syntax tree and the text of its
  leaves, and \<open>literal_argv\<close> gives the argument vector of a command. The analyser calls a
  command complete only when it is literal in this sense, with the argument vector it extracts.
\<close>

subsection \<open>The value of a word\<close>

text \<open>
  Outside of quotes a backslash makes the next character literal and a backslash before a line
  feed is nothing; patterns, braces, the tilde and line breaks are not literal.
\<close>

inductive unquoted_reads :: "rstr \<Rightarrow> rstr \<Rightarrow> bool" where
  unquoted_end: "unquoted_reads [] []"
| unquoted_escape: "e \<noteq> 10 \<Longrightarrow> unquoted_reads t w \<Longrightarrow> unquoted_reads (92 # e # t) (e # w)"
| unquoted_continue: "unquoted_reads t w \<Longrightarrow> unquoted_reads (92 # 10 # t) w"
| unquoted_plain:
    "c \<notin> {92, 42, 63, 91, 93, 123, 125, 126, 13, 10} \<Longrightarrow> unquoted_reads t w \<Longrightarrow> unquoted_reads (c # t) (c # w)"

text \<open>
  In double quotes a dollar sign begins an expansion when a name, a digit or a special parameter
  follows it, line continuations aside; a back quote begins a command.
\<close>

definition expansion_follows :: "rstr \<Rightarrow> bool" where
  "expansion_follows t \<longleftrightarrow> (\<exists>n c rest. t = concat (replicate n [92, 10]) @ c # rest \<and>
     (is_ascii_alphanumeric c \<or> c \<in> {95, 42, 64, 35, 63, 45, 36, 33, 123, 40, 91}))"

inductive quoted_reads :: "rstr \<Rightarrow> rstr \<Rightarrow> bool" where
  quoted_end: "quoted_reads [] []"
| quoted_continue: "quoted_reads t w \<Longrightarrow> quoted_reads (92 # 10 # t) w"
| quoted_escape: "e \<in> {92, 34, 36, 96} \<Longrightarrow> quoted_reads t w \<Longrightarrow> quoted_reads (92 # e # t) (e # w)"
| quoted_backslash: "e \<notin> {10, 92, 34, 36, 96} \<Longrightarrow> quoted_reads t w \<Longrightarrow> quoted_reads (92 # e # t) (92 # e # w)"
| quoted_dollar: "\<not> expansion_follows t \<Longrightarrow> quoted_reads t w \<Longrightarrow> quoted_reads (36 # t) (36 # w)"
| quoted_plain: "c \<notin> {92, 36, 96} \<Longrightarrow> quoted_reads t w \<Longrightarrow> quoted_reads (c # t) (c # w)"

text \<open>
  A word is a leaf whose text reads as its value, a name around one word, or a concatenation of
  words. There is no rule for substitutions and expansions: they have no literal value.
\<close>

inductive word_reads :: "rstr \<Rightarrow> ts_node \<Rightarrow> rstr \<Rightarrow> bool"
  and words_read :: "rstr \<Rightarrow> ts_node list \<Rightarrow> rstr \<Rightarrow> bool" for source where
  read_word:
    "node_kind n = ''word'' \<Longrightarrow> \<not> node_error n \<Longrightarrow> node_text source n = Some t \<Longrightarrow> unquoted_reads t w \<Longrightarrow> word_reads source n w"
| read_raw_string:
    "node_kind n = ''raw_string'' \<Longrightarrow> \<not> node_error n \<Longrightarrow> node_text source n = Some (39 # w @ [39]) \<Longrightarrow> word_reads source n w"
| read_string:
    "node_kind n = ''string'' \<Longrightarrow> node_text source n = Some (34 # t @ [34]) \<Longrightarrow> quoted_reads t w \<Longrightarrow> word_reads source n w"
| read_number:
    "node_kind n = ''number'' \<Longrightarrow> \<not> node_error n \<Longrightarrow> node_children n = [] \<Longrightarrow> node_text source n = Some w \<Longrightarrow> word_reads source n w"
| read_name:
    "node_kind n = ''command_name'' \<Longrightarrow> \<not> node_error n \<Longrightarrow> filter node_named (node_children n) = [c] \<Longrightarrow> word_reads source c w \<Longrightarrow>
     word_reads source n w"
| read_concatenation:
    "node_kind n = ''concatenation'' \<Longrightarrow> \<not> node_error n \<Longrightarrow> words_read source (node_children n) w \<Longrightarrow> word_reads source n w"
| read_none: "words_read source [] []"
| read_some: "node_named c \<Longrightarrow> word_reads source c v \<Longrightarrow> words_read source cs w \<Longrightarrow> words_read source (c # cs) (v @ w)"

subsection \<open>The argument vector of a command\<close>

text \<open>Between words there are blanks and line continuations only; a blank separates.\<close>

definition blank_gap :: "rstr \<Rightarrow> bool" where
  "blank_gap g \<longleftrightarrow> (\<exists>parts. g = concat parts \<and> set parts \<subseteq> {[32], [9], [92, 10]})"

definition joins :: "rstr \<Rightarrow> bool" where
  "joins g \<longleftrightarrow> g \<noteq> [] \<and> 32 \<notin> set g \<and> 9 \<notin> set g"

text \<open>
  The children of a command from a position on, with their gaps and values: every one is the
  name or an argument, and literal.
\<close>

fun literal_children :: "rstr \<Rightarrow> nat \<Rightarrow> nat \<Rightarrow> ts_node list \<Rightarrow> (rstr \<times> rstr) list \<Rightarrow> bool" where
  "literal_children source pos stop [] ws \<longleftrightarrow> ws = [] \<and> blank_gap (str_get_or_default pos stop source)"
| "literal_children source pos stop (c # cs) ws \<longleftrightarrow>
     (\<exists>w ws'. ws = (str_get_or_default pos (node_start c) source, w) # ws' \<and>
        blank_gap (str_get_or_default pos (node_start c) source) \<and> word_reads source c w \<and>
        (node_field c = Some ''name'' \<or> node_field c = Some ''argument'') \<and>
        literal_children source (node_end c) stop cs ws')"

text \<open>A word that only a line continuation separates from the one before belongs to it.\<close>

fun add_words :: "rstr list \<Rightarrow> (rstr \<times> rstr) list \<Rightarrow> rstr list" where
  "add_words argv [] = argv"
| "add_words argv ((g, w) # ws) = add_words (if joins g then butlast argv @ [last argv @ w] else argv @ [w]) ws"

definition name_first :: "ts_node list \<Rightarrow> bool" where
  "name_first cs \<longleftrightarrow> (\<exists>c rest. cs = c # rest \<and> node_field c = Some ''name'' \<and> (\<forall>x \<in> set rest. node_field x \<noteq> Some ''name''))"

text \<open>
  A literal command, and its argument vector when its name is where a shell grammar has it:
  first, and once.
\<close>

definition literal_argv :: "rstr \<Rightarrow> ts_node \<Rightarrow> rstr list \<Rightarrow> bool" where
  "literal_argv source n argv \<longleftrightarrow> \<not> node_error n \<and>
     (\<exists>ws. literal_children source (node_start n) (node_end n) (node_children n) ws \<and>
        (name_first (node_children n) \<longrightarrow> argv = add_words [snd (hd ws)] (tl ws)))"

subsection \<open>The decoders read what the relations allow\<close>

lemma decode_unquoted_sound: "decode_unquoted t = Some w \<Longrightarrow> unquoted_reads t w"
proof (induction t arbitrary: w rule: decode_unquoted.induct)
  case (2 c rest)
  show ?case
  proof (cases "c = 92")
    case True
    with 2 show ?thesis
      by (auto split: list.splits if_splits intro: unquoted_reads.intros)
  next
    case False
    with "2.prems" obtain v where v: "decode_unquoted rest = Some v" "w = c # v" and c: "c \<notin> {42, 63, 91, 93, 123, 125, 126}" "c \<noteq> 13" "c \<noteq> 10"
      by (auto split: if_splits)
    from "2.IH"(3) [OF False _ _ v(1)] c have "unquoted_reads rest v" by simp
    with v(2) c False show ?thesis by (auto intro: unquoted_plain)
  qed
qed (auto intro: unquoted_end)

lemma expansion_follows_starts: "expansion_follows t \<Longrightarrow> starts_double_quoted_expansion t"
proof -
  have "starts_double_quoted_expansion (concat (replicate n [92, 10]) @ c # rest)"
    if "is_ascii_alphanumeric c \<or> c \<in> {95, 42, 64, 35, 63, 45, 36, 33, 123, 40, 91}" for n c rest
  proof (induction n)
    case 0
    have "c \<noteq> 92" using that by (auto simp: is_ascii_alphanumeric_def)
    with that show ?case by (cases rest) auto
  qed simp
  then show "expansion_follows t \<Longrightarrow> starts_double_quoted_expansion t" by (auto simp: expansion_follows_def)
qed

lemma decode_double_quoted_sound: "decode_double_quoted t = Some w \<Longrightarrow> quoted_reads t w"
proof (induction t arbitrary: w rule: decode_double_quoted.induct)
  case (2 c rest)
  consider "c = 92" | "c = 36" | "c \<noteq> 92" "c \<noteq> 36" by blast
  then show ?case
  proof cases
    case 1
    with 2 show ?thesis
      by (auto split: list.splits if_splits intro: quoted_reads.intros)
  next
    case 2
    then have "\<not> starts_double_quoted_expansion rest" "\<exists>v. decode_double_quoted rest = Some v \<and> w = c # v"
      using "2.prems" by (auto split: if_splits)
    with 2 "2.IH" expansion_follows_starts show ?thesis by (auto intro!: quoted_dollar)
  next
    case 3
    then obtain v where v: "decode_double_quoted rest = Some v" "w = c # v" "c \<noteq> 96"
      using "2.prems" by (auto split: if_splits)
    with 3 "2.IH" show ?thesis by (auto intro!: quoted_plain)
  qed
qed (auto intro: quoted_end)

subsection \<open>A complete command is literal\<close>

lemma strip_quotes_Some: "strip_quotes q t = Some w \<Longrightarrow> t = q # w @ [q]"
  by (auto simp: strip_quotes_def strip_suffix_Some_iff split: option.splits) (auto simp: strip_prefix_Some_iff)

lemma literal_word_reads:
  "literal_word source n = Some w \<Longrightarrow> word_reads source n w"
  "literal_words source cs = Some w \<Longrightarrow> words_read source cs w"
proof (induction source n and source cs arbitrary: w and w rule: literal_word_literal_words.induct)
  case (1 source k nm f e s t cs)
  let ?n = "Ts_Node k nm f e s t cs"
  consider "k = ''command_name''" | "k = ''word''" | "k = ''raw_string''" | "k = ''string''" | "k = ''number''"
    | "k = ''concatenation''"
    using "1.prems" by (auto simp: Let_def split: if_splits)
  then show ?case
  proof cases
    case 1
    with "1.prems" obtain c where c: "only_named_child cs = Some c" "literal_word source c = Some w" "\<not> e"
      by (auto simp: Let_def split: if_splits option.splits)
    then have "filter node_named cs = [c]" by (auto simp: only_named_child_def split: list.splits)
    moreover have "word_reads source c w" using "1.IH"(1) [OF refl _ 1 c(1,2)] c(3) by simp
    ultimately show ?thesis using 1 c(3) by - (rule read_name [where c = c], simp_all)
  next
    case 2
    with "1.prems" show ?thesis
      by (auto simp: Let_def Option.bind_eq_Some_conv split: if_splits intro!: read_word dest: decode_unquoted_sound)
  next
    case 3
    with "1.prems" show ?thesis
      by (auto simp: Let_def Option.bind_eq_Some_conv split: if_splits intro!: read_raw_string dest: strip_quotes_Some)
  next
    case 4
    with "1.prems" obtain x y where "node_text source ?n = Some x" "strip_quotes 34 x = Some y" "decode_double_quoted y = Some w"
      by (auto simp: Let_def Option.bind_eq_Some_conv decode_double_quoted_word_def split: if_splits)
    with 4 show ?thesis
      by (intro read_string [where t = y]) (auto dest: strip_quotes_Some decode_double_quoted_sound)
  next
    case 5
    with "1.prems" show ?thesis by (auto simp: Let_def split: if_splits intro!: read_number)
  next
    case 6
    with "1.prems" have "literal_words source cs = Some w" "\<not> e" by (auto simp: Let_def split: if_splits)
    with 6 "1.IH"(2) show ?thesis by (intro read_concatenation) auto
  qed
next
  case (3 source c cs)
  then obtain v u where "node_named c" "literal_word source c = Some v" "literal_words source cs = Some u" "w = v @ u"
    by (auto simp: Option.bind_eq_Some_conv split: if_splits)
  with "3.IH" show ?case by (auto intro: read_some)
qed (auto intro: read_none)

lemma blank_gap_Cons: "x \<in> {[32], [9], [92, 10]} \<Longrightarrow> blank_gap g \<Longrightarrow> blank_gap (x @ g)"
proof -
  assume x: "x \<in> {[32], [9], [92, 10]}" and "blank_gap g"
  then obtain parts where "g = concat parts" "set parts \<subseteq> {[32], [9], [92, 10]}" by (auto simp: blank_gap_def)
  with x have "x @ g = concat (x # parts) \<and> set (x # parts) \<subseteq> {[32], [9], [92, 10]}" by auto
  then show ?thesis unfolding blank_gap_def by blast
qed

lemma word_gap_blank:
  "word_gap_loop b g = Some d \<Longrightarrow> blank_gap g \<and> (d \<longleftrightarrow> b \<or> 32 \<in> set g \<or> 9 \<in> set g)"
proof (induction b g rule: word_gap_loop.induct)
  case (1 b)
  have "blank_gap []" unfolding blank_gap_def by (intro exI [of _ "[]"]) simp
  with 1 show ?case by auto
next
  case (2 b c rest)
  show ?case
  proof (cases "c = 32 \<or> c = 9")
    case True
    with 2 have "blank_gap rest" "d" by auto
    with True blank_gap_Cons [of "[c]" rest] show ?thesis by auto
  next
    case False
    with "2.prems" obtain rest' where r: "c = 92" "rest = 10 # rest'" "word_gap_loop b rest' = Some d"
      by (auto split: if_splits list.splits)
    with "2.IH"(2) [OF False r(1,2)] have "blank_gap rest'" "d \<longleftrightarrow> b \<or> 32 \<in> set rest' \<or> 9 \<in> set rest'" by auto
    with r blank_gap_Cons [of "[92, 10]" rest'] show ?thesis by auto
  qed
qed

lemma literal_word_gap_blank:
  "literal_word_gap g = Some d \<Longrightarrow> blank_gap g \<and> (d = False \<and> g \<noteq> [] \<longleftrightarrow> joins g)"
  using word_gap_blank [of False g d] by (auto simp: literal_word_gap_def joins_def)

text \<open>
  A child that leaves the command complete is its name or an argument, literal, after a gap of
  blanks; \<open>complete_step\<close> is what it then does.
\<close>

definition complete_step :: "rstr \<Rightarrow> rstr \<Rightarrow> ts_node \<Rightarrow> command_state \<Rightarrow> command_state" where
  "complete_step g w c st =
     (let st1 = (if node_field c = Some ''name'' then (if cs_reliable st then st\<lparr>cs_program := Some w\<rparr> else st)
        else if \<not> cs_prefix st then st
        else if \<not> joins g then st\<lparr>cs_args := cs_args st @ [w]\<rparr>
        else if cs_args st \<noteq> [] then st\<lparr>cs_args := update_last (\<lambda>a. a @ w) (cs_args st)\<rparr>
        else st\<lparr>cs_program := map_option (\<lambda>p. p @ w) (cs_program st)\<rparr>)
      in st1\<lparr>cs_previous_end := node_end c\<rparr>)"

lemma complete_child:
  assumes "cs_complete (command_child source c st)"
  defines "g \<equiv> str_get_or_default (cs_previous_end st) (node_start c) source"
  shows "\<exists>w. cs_complete st \<and> blank_gap g \<and> word_reads source c w \<and>
    (node_field c = Some ''name'' \<or> node_field c = Some ''argument'') \<and> command_child source c st = complete_step g w c st"
proof -
  have odd: "\<not> cs_complete (odd_gap f g' st)" for f g' by (simp add: odd_gap_def Let_def)
  have kept: "cs_complete (name_child x s) \<Longrightarrow> cs_complete s" "cs_complete (argument_child y g' x s) \<Longrightarrow> cs_complete s" for x y g' s
    by (auto simp: name_child_def argument_child_def Let_def split: option.splits if_splits)
  have "literal_word_gap g \<noteq> None"
  proof
    assume "literal_word_gap g = None"
    with assms(1) have "cs_complete (name_child (literal_word source c) (odd_gap (node_field c) g st)) \<or>
        cs_complete (argument_child None g (literal_word source c) (odd_gap (node_field c) g st))"
      unfolding command_child_def Let_def g_def [symmetric] by (simp split: if_splits)
    with kept odd show False by blast
  qed
  then obtain d where d: "literal_word_gap g = Some d" by blast
  note gap = literal_word_gap_blank [OF d]
  have field: "node_field c = Some ''name'' \<or> node_field c = Some ''argument''"
    using assms(1) by (auto simp: command_child_def Let_def split: if_splits)
  then show ?thesis
  proof
    assume f: "node_field c = Some ''name''"
    with assms(1) d obtain w where w: "literal_word source c = Some w" "cs_complete st"
      unfolding command_child_def Let_def g_def [symmetric] by (auto simp: name_child_def split: option.splits if_splits)
    then have "command_child source c st = complete_step g w c st"
      using f d unfolding command_child_def Let_def g_def [symmetric] by (simp add: name_child_def complete_step_def)
    with w gap f literal_word_reads(1) show ?thesis by blast
  next
    assume f: "node_field c = Some ''argument''"
    with assms(1) d obtain w where w: "literal_word source c = Some w" "cs_complete st"
      unfolding command_child_def Let_def g_def [symmetric]
      by (auto simp: argument_child_def Let_def split: option.splits if_splits)
    then have "command_child source c st = complete_step g w c st"
      using f d gap unfolding command_child_def Let_def g_def [symmetric]
      by (auto simp: argument_child_def complete_step_def Let_def)
    with w gap f literal_word_reads(1) show ?thesis by blast
  qed
qed

fun complete_steps :: "(rstr \<times> rstr) list \<Rightarrow> ts_node list \<Rightarrow> command_state \<Rightarrow> command_state" where
  "complete_steps ((g, w) # ws) (c # cs) st = complete_steps ws cs (complete_step g w c st)"
| "complete_steps _ _ st = st"

lemma complete_children:
  assumes "cs_complete (fold (command_child source) cs st)"
    and "literal_word_gap (str_get_or_default (cs_previous_end (fold (command_child source) cs st)) stop source) \<noteq> None"
  shows "cs_complete st \<and> (\<exists>ws. literal_children source (cs_previous_end st) stop cs ws \<and>
    fold (command_child source) cs st = complete_steps ws cs st)"
  using assms
proof (induction cs arbitrary: st)
  case Nil
  then show ?case using literal_word_gap_blank by auto
next
  case (Cons c cs)
  from Cons.IH [of "command_child source c st"] Cons.prems obtain ws where
    complete: "cs_complete (command_child source c st)"
    and ws: "literal_children source (cs_previous_end (command_child source c st)) stop cs ws"
    and eq: "fold (command_child source) cs (command_child source c st) = complete_steps ws cs (command_child source c st)"
    by auto
  from complete_child [OF complete] obtain w where
    w: "cs_complete st" "blank_gap (str_get_or_default (cs_previous_end st) (node_start c) source)" "word_reads source c w"
      "node_field c = Some ''name'' \<or> node_field c = Some ''argument''"
      "command_child source c st = complete_step (str_get_or_default (cs_previous_end st) (node_start c) source) w c st"
    by blast
  have "cs_previous_end (command_child source c st) = node_end c" by (simp add: w(5) complete_step_def Let_def)
  with w ws eq show ?case
    by (intro conjI exI [of _ "(str_get_or_default (cs_previous_end st) (node_start c) source, w) # ws"]) auto
qed

lemma complete_arguments:
  assumes "literal_children source pos stop cs ws" and "\<forall>x \<in> set cs. node_field x \<noteq> Some ''name''"
    and "cs_program st = Some p" and "cs_prefix st"
  shows "\<exists>p'. cs_program (complete_steps ws cs st) = Some p' \<and> p' # cs_args (complete_steps ws cs st) = add_words (p # cs_args st) ws"
  using assms
proof (induction cs arbitrary: pos ws st p)
  case (Cons c cs)
  then obtain g w ws' where ws: "ws = (g, w) # ws'" "literal_children source (node_end c) stop cs ws'" by auto
  let ?st = "complete_step g w c st"
  have argument: "node_field c \<noteq> Some ''name''" using Cons.prems(2) by simp
  obtain p1 where p1: "cs_program ?st = Some p1" "cs_prefix ?st"
    "p1 # cs_args ?st = (if joins g then butlast (p # cs_args st) @ [last (p # cs_args st) @ w] else (p # cs_args st) @ [w])"
  proof (cases "joins g \<and> cs_args st = []")
    case True
    with Cons.prems argument that [of "p @ w"] show ?thesis by (simp add: complete_step_def Let_def)
  next
    case False
    with Cons.prems argument that [of p] show ?thesis
      by (cases "cs_args st" rule: rev_cases) (simp_all add: complete_step_def Let_def)
  qed
  from Cons.IH [OF ws(2) _ p1(1,2)] Cons.prems(2) p1(3) show ?case by (simp add: ws(1))
qed simp

text \<open>What the analyser takes for complete is literal, and has the argument vector it extracts.\<close>

theorem extract_command_literal:
  assumes "extract_command source n = (Some c, True)"
  shows "literal_argv source n (program c # args c)"
proof -
  let ?init = "\<lparr>cs_program = None, cs_reliable = True, cs_args = [], cs_prefix = True, cs_complete = \<not> node_error n,
    cs_previous_end = node_start n\<rparr>"
  let ?cs = "node_children n"
  let ?final = "fold (command_child source) ?cs ?init"
  obtain p where p: "cs_program ?final = Some p" "program c = p" "args c = cs_args ?final"
    and complete: "cs_complete ?final" "literal_word_gap (str_get_or_default (cs_previous_end ?final) (node_end n) source) \<noteq> None"
    using assms by (auto simp: extract_command_def Let_def split: option.splits)
  from complete_children [OF complete] obtain ws where
    ws: "\<not> node_error n" "literal_children source (node_start n) (node_end n) ?cs ws" "?final = complete_steps ws ?cs ?init" by auto
  have "program c # args c = add_words [snd (hd ws)] (tl ws)" if "name_first ?cs"
  proof -
    from that obtain x rest where x: "?cs = x # rest" "node_field x = Some ''name''" "\<forall>y \<in> set rest. node_field y \<noteq> Some ''name''"
      by (auto simp: name_first_def)
    with ws(2) obtain g w ws' where w: "ws = (g, w) # ws'" "literal_children source (node_end x) (node_end n) rest ws'" by auto
    let ?st = "complete_step g w x ?init"
    have st: "cs_program ?st = Some w" "cs_prefix ?st" "cs_args ?st = []" using x(2) by (simp_all add: complete_step_def Let_def)
    have "?final = complete_steps ws' rest ?st" using ws(3) by (simp add: x(1) w(1))
    with complete_arguments [OF w(2) x(3) st(1,2)] st(3) p show ?thesis by (auto simp: w(1))
  qed
  with ws show ?thesis unfolding literal_argv_def by blast
qed

lemma extract_command_literal_witness:
  "literal_argv (lit ''ls'') (Ts_Node ''command'' True None False 0 2
     [Ts_Node ''command_name'' True (Some ''name'') False 0 2 [Ts_Node ''word'' True None False 0 2 []]]) [lit ''ls'']"
proof -
  let ?n = "Ts_Node ''command'' True None False 0 2
     [Ts_Node ''command_name'' True (Some ''name'') False 0 2 [Ts_Node ''word'' True None False 0 2 []]]"
  have "extract_command (lit ''ls'') ?n =
    (Some \<lparr>program = lit ''ls'', args = [], start_byte = 0, end_byte = 2, complete = True\<rparr>, True)" by code_simp
  from extract_command_literal [OF this] show ?thesis by simp
qed

text \<open>A substitution has no literal value, in a word of its own or in a concatenation.\<close>

lemma substitution_not_literal:
  "node_kind n \<in> {''command_substitution'', ''process_substitution'', ''simple_expansion'', ''expansion'', ''arithmetic_expansion''} \<Longrightarrow>
    \<not> word_reads source n w"
  by (auto elim: word_reads.cases)

end
