(* ===== verification/Policy.thy ===== *)
theory Policy
  imports Policy_Patterns Shell_Literal
begin

text \<open>
  The command policy (\<^verbatim>\<open>crates/agentic-gpt/src/operations/policy.rs\<close>, with the records
  of \<^verbatim>\<open>config/config.rs\<close> and the risk levels of \<^verbatim>\<open>support/utils.rs\<close>): which
  commands and scripts are allowed, need a confirmation or are denied.
\<close>

subsection \<open>Decisions\<close>

datatype policy_decision = Allow | Confirm | Deny

text \<open>The derived order of the enumeration; \<^verbatim>\<open>decision.max(other)\<close> is the maximum.\<close>

fun decision_rank :: "policy_decision \<Rightarrow> nat" where
  "decision_rank Allow = 0" | "decision_rank Confirm = 1" | "decision_rank Deny = 2"

instantiation policy_decision :: linorder
begin

definition less_eq_policy_decision :: "policy_decision \<Rightarrow> policy_decision \<Rightarrow> bool" where
  "less_eq_policy_decision a b \<longleftrightarrow> decision_rank a \<le> decision_rank b"

definition less_policy_decision :: "policy_decision \<Rightarrow> policy_decision \<Rightarrow> bool" where
  "less_policy_decision a b \<longleftrightarrow> decision_rank a < decision_rank b"

instance
proof
  fix a b :: policy_decision
  show "a \<le> b \<Longrightarrow> b \<le> a \<Longrightarrow> a = b"
    by (cases a; cases b) (simp_all add: less_eq_policy_decision_def)
qed (auto simp: less_eq_policy_decision_def less_policy_decision_def)

end

lemmas decision_order = less_eq_policy_decision_def less_policy_decision_def

lemma max_decision [simp]:
  "max Allow d = d" "max d Allow = d" "max Deny d = Deny" "max d Deny = Deny" "max Confirm Confirm = Confirm"
  by (cases d; simp add: max_def decision_order)+

lemma max_eq_Allow [simp]: "max (a :: policy_decision) b = Allow \<longleftrightarrow> a = Allow \<and> b = Allow"
  by (cases a; cases b) (simp_all add: max_def decision_order)

record policy_config =
  default_action :: policy_decision
  allow_rules :: "rstr list"
  confirm_rules :: "rstr list"
  deny_rules :: "rstr list"

definition with_default :: "policy_decision \<Rightarrow> policy_config" where
  "with_default d = \<lparr>default_action = d, allow_rules = [], confirm_rules = [], deny_rules = []\<rparr>"

definition decide :: "policy_config \<Rightarrow> (rstr \<Rightarrow> bool) \<Rightarrow> policy_decision" where
  "decide policy matches =
     (if list_ex matches (deny_rules policy) then Deny
      else if list_ex matches (confirm_rules policy) then Confirm
      else if list_ex matches (allow_rules policy) then Allow
      else default_action policy)"

subsection \<open>Rules\<close>

text \<open>
  What the policy relies on of a way to match rules: the sole wildcard matches. The order of
  the three lists is the precedence of the decisions.
\<close>

locale rule_matching =
  fixes matches :: "rstr \<Rightarrow> bool"
  assumes wildcard: "trim pattern = [42] \<Longrightarrow> matches pattern"
begin

lemma deny_first: "p \<in> set (deny_rules policy) \<Longrightarrow> matches p \<Longrightarrow> decide policy matches = Deny"
  by (auto simp: decide_def list_ex_iff)

lemma deny_wildcard: "p \<in> set (deny_rules policy) \<Longrightarrow> trim p = [42] \<Longrightarrow> decide policy matches = Deny"
  using deny_first wildcard by blast

lemma allowed_not_denied: "decide policy matches = Allow \<Longrightarrow> p \<in> set (deny_rules policy) \<Longrightarrow> \<not> matches p"
  using deny_first by force

lemma allowed_by_rule:
  "decide policy matches = Allow \<Longrightarrow>
    (\<exists>p \<in> set (allow_rules policy). matches p) \<or> default_action policy = Allow"
  by (auto simp: decide_def list_ex_iff split: if_splits)

end

interpretation command: rule_matching "\<lambda>p. command_matches p prog as"
  by unfold_locales (simp add: command_matches_def)

definition is_wildcard :: "rstr \<Rightarrow> bool" where
  "is_wildcard pattern \<longleftrightarrow> trim pattern = [42]"

interpretation global_rule: rule_matching is_wildcard
  by unfold_locales (simp add: is_wildcard_def)

subsection \<open>Commands and scripts\<close>

datatype path_default_action = PathAllow | PathDeny

record path_policy_config =
  path_default_action :: path_default_action
  read_only :: "rstr list"
  write_roots :: "rstr list"
  deny_roots :: "rstr list"
  approved_read :: "rstr list"
  approved_write :: "rstr list"

record security_policy_config =
  enabled :: bool
  bubblewrap :: bool
  command_policy :: policy_config
  path_policy :: path_policy_config

record config =
  policy :: security_policy_config
  workspace_root :: rstr

definition command_policy_decision :: "config \<Rightarrow> rstr \<Rightarrow> rstr list \<Rightarrow> policy_decision" where
  "command_policy_decision config prog as =
     (if \<not> enabled (policy config) then Allow
      else decide (command_policy (policy config)) (\<lambda>pattern. command_matches pattern prog as))"

text \<open>The loop over the extracted commands; \<open>None\<close> is the early return at a denied one.\<close>

fun commands_decision ::
    "config \<Rightarrow> literal_command list \<Rightarrow> policy_decision \<Rightarrow> policy_decision option" where
  "commands_decision config [] decision = Some decision"
| "commands_decision config (c # cs) decision =
     (let d = command_policy_decision config (program c) (args c) in
      if d = Deny then None else commands_decision config cs (max decision d))"

definition shell_policy_decision ::
    "(rstr \<Rightarrow> ts_node option) \<Rightarrow> config \<Rightarrow> rstr \<Rightarrow> policy_decision" where
  "shell_policy_decision parse config command =
     (if \<not> enabled (policy config) then Allow
      else
        let extraction = extract_literal_commands parse command;
            rules = command_policy (policy config);
            global = decide rules is_wildcard
        in if list_ex is_wildcard (deny_rules rules) then Deny
           else case commands_decision config (commands extraction) Allow of
             None \<Rightarrow> Deny
           | Some decision \<Rightarrow>
               if \<not> extraction_complete extraction \<or> commands extraction = []
                  \<or> list_ex (\<lambda>c. \<not> complete c) (commands extraction)
               then max decision
                      (if list_ex is_wildcard (allow_rules rules) then global else max global Confirm)
               else decision)"

subsection \<open>Risk\<close>

definition risky_file_mutation :: "rstr \<Rightarrow> bool" where
  "risky_file_mutation prog \<longleftrightarrow>
     prog \<in> set [lit ''rm'', lit ''mv'', lit ''chmod'', lit ''chown'', lit ''git'', lit ''python'', lit ''node'']"

datatype risk = LOW | MEDIUM | HIGH

definition risk_level :: "rstr \<Rightarrow> risk" where
  "risk_level prog =
     (if risky_file_mutation prog then HIGH
      else if prog \<in> set [lit ''curl'', lit ''wget'', lit ''docker'', lit ''systemctl'', lit ''service'']
      then MEDIUM else LOW)"

definition shell_script_risk_level :: "(rstr \<Rightarrow> ts_node option) \<Rightarrow> rstr \<Rightarrow> risk" where
  "shell_script_risk_level parse command =
     (let extraction = extract_literal_commands parse command in
      if \<not> extraction_complete extraction
         \<or> list_ex (\<lambda>c. risky_file_mutation (program c)) (commands extraction) then HIGH
      else if list_ex (\<lambda>c. risk_level (program c) \<noteq> LOW) (commands extraction) then MEDIUM
      else LOW)"

subsection \<open>Editing the rules\<close>

datatype rule_command = AddRule rstr | RemoveRule rstr

datatype rule_error = InvalidPattern pattern_error | PatternNotFound rstr

definition validate_command_pattern :: "rstr \<Rightarrow> pattern_error + unit" where
  "validate_command_pattern pattern = rbind (command_tokens pattern) (\<lambda>_. Inr ())"

definition rules_of :: "policy_decision \<Rightarrow> policy_config \<Rightarrow> rstr list" where
  "rules_of d p = (case d of Allow \<Rightarrow> allow_rules p | Confirm \<Rightarrow> confirm_rules p | Deny \<Rightarrow> deny_rules p)"

definition set_rules :: "policy_decision \<Rightarrow> rstr list \<Rightarrow> policy_config \<Rightarrow> policy_config" where
  "set_rules d rs p =
     (case d of Allow \<Rightarrow> p\<lparr>allow_rules := rs\<rparr> | Confirm \<Rightarrow> p\<lparr>confirm_rules := rs\<rparr>
      | Deny \<Rightarrow> p\<lparr>deny_rules := rs\<rparr>)"

definition mutate_patterns ::
    "policy_config \<Rightarrow> policy_decision \<Rightarrow> rule_command \<Rightarrow> rule_error + policy_config" where
  "mutate_patterns p decision command =
     (let rules = rules_of decision p in
      case command of
        AddRule pattern \<Rightarrow>
          (case validate_command_pattern pattern of
             Inl e \<Rightarrow> Inl (InvalidPattern e)
           | Inr _ \<Rightarrow> Inr (if pattern \<in> set rules then p else set_rules decision (rules @ [pattern]) p))
      | RemoveRule pattern \<Rightarrow>
          if pattern \<notin> set rules then Inl (PatternNotFound pattern)
          else Inr (set_rules decision (filter (\<lambda>e. e \<noteq> pattern) rules) p))"


subsection \<open>What a decision means\<close>

lemma commands_decision_None_iff:
  "commands_decision config cs d = None \<longleftrightarrow>
    (\<exists>c \<in> set cs. command_policy_decision config (program c) (args c) = Deny)"
  by (induction cs arbitrary: d) (auto simp: Let_def)

lemma commands_decision_Allow:
  "commands_decision config cs d = Some Allow \<Longrightarrow>
    d = Allow \<and> (\<forall>c \<in> set cs. command_policy_decision config (program c) (args c) = Allow)"
proof (induction cs arbitrary: d)
  case Nil
  then show ?case by simp
next
  case (Cons c cs)
  let ?d = "command_policy_decision config (program c) (args c)"
  have "commands_decision config cs (max d ?d) = Some Allow"
    using Cons.prems by (simp add: Let_def split: if_splits)
  from Cons.IH [OF this] show ?case by simp
qed

lemma shell_allow_facts:
  assumes "shell_policy_decision parse config script = Allow" and "enabled (policy config)"
    and "\<forall>p \<in> set (allow_rules (command_policy (policy config))). \<not> is_wildcard p"
  shows "extraction_complete (extract_literal_commands parse script)"
    and "\<forall>c \<in> set (commands (extract_literal_commands parse script)).
      complete c \<and> command_policy_decision config (program c) (args c) = Allow"
proof -
  let ?x = "extract_literal_commands parse script"
  have noglobal: "\<not> list_ex is_wildcard (allow_rules (command_policy (policy config)))"
    using assms(3) by (auto simp: list_ex_iff)
  obtain d where d: "commands_decision config (commands ?x) Allow = Some d"
    using assms(1,2) by (auto simp: shell_policy_decision_def Let_def split: if_splits option.splits)
  have full: "extraction_complete ?x \<and> list_all complete (commands ?x)" and "d = Allow"
    using assms(1,2) d noglobal
    by (auto simp: shell_policy_decision_def Let_def list_ex_iff list_all_iff split: if_splits)
  then show "extraction_complete ?x" and "\<forall>c \<in> set (commands ?x).
      complete c \<and> command_policy_decision config (program c) (args c) = Allow"
    using commands_decision_Allow d by (auto simp: list_all_iff)
qed

text \<open>A concrete script, its tree and a configuration, for the witnesses below.\<close>

definition ls_command :: ts_node where
  "ls_command = Ts_Node ''command'' True None False 0 5
     [Ts_Node ''command_name'' True (Some ''name'') False 0 2 [Ts_Node ''word'' True None False 0 2 []],
      Ts_Node ''word'' True (Some ''argument'') False 3 5 []]"

definition ls_tree :: ts_node where
  "ls_tree = Ts_Node ''program'' True None False 0 5 [ls_command]"

definition ls_config :: config where
  "ls_config = \<lparr>policy = \<lparr>enabled = True, bubblewrap = False,
      command_policy = (with_default Confirm)\<lparr>allow_rules := [lit ''ls **''], deny_rules := [lit ''rm **'']\<rparr>,
      path_policy = \<lparr>path_default_action = PathDeny, read_only = [], write_roots = [], deny_roots = [],
        approved_read = [], approved_write = []\<rparr>\<rparr>, workspace_root = lit ''/w''\<rparr>"

text \<open>C12.
  A script is allowed without confirmation (the policy is enabled and no sole wildcard is
  allowed) only if every statement of its syntax tree is a comment or a literal command: every
  child of it is its name or an argument whose value needs no expansion, with nothing but blanks
  and line continuations between them, and the policy allows the argument vector of these values.
\<close>

theorem shell_allow_sound:
  assumes "shell_policy_decision parse config script = Allow" and "enabled (policy config)"
    and "\<forall>p \<in> set (allow_rules (command_policy (policy config))). \<not> is_wildcard p"
    and "parse script = Some root" and "m \<in> set (statements root)"
  shows "node_kind m = ''comment'' \<or>
    node_kind m = ''command'' \<and>
    (\<exists>c. extract_command script m = (Some c, True) \<and> literal_argv script m (program c # args c) \<and>
         command_policy_decision config (program c) (args c) = Allow)"
proof -
  have "accounted script (commands (extract_literal_commands parse script)) m"
    using extract_complete_accounted [OF shell_allow_facts(1) [OF assms(1-3)] assms(4)] assms(5)
    by (simp add: list_all_iff)
  then show ?thesis
    using shell_allow_facts(2) [OF assms(1-3)] extract_command_literal by (fastforce simp: accounted_def)
qed

lemma shell_allow_sound_witness:
  "\<exists>c :: literal_command. literal_argv (lit ''ls -l'') ls_command (program c # args c) \<and>
     command_policy_decision ls_config (program c) (args c) = Allow"
proof -
  have allowed: "shell_policy_decision (\<lambda>_. Some ls_tree) ls_config (lit ''ls -l'') = Allow" "enabled (policy ls_config)"
    by code_simp+
  have rules: "\<forall>p \<in> set (allow_rules (command_policy (policy ls_config))). \<not> is_wildcard p" by code_simp
  have "ls_command \<in> set (statements ls_tree)"
    by (simp add: ls_tree_def ls_command_def sequence_separators_def)
  moreover have "node_kind ls_command \<noteq> ''comment''" by (simp add: ls_command_def)
  ultimately show ?thesis using shell_allow_sound [OF allowed rules refl, of ls_command] by blast
qed

text \<open>C13.
  A rule that denies an extracted command denies the script, whether or not the analysis of
  the script is complete and whatever other rules say.
\<close>

theorem shell_deny_precedence:
  assumes "enabled (policy config)" and "c \<in> set (commands (extract_literal_commands parse script))"
    and "p \<in> set (deny_rules (command_policy (policy config)))"
    and "command_matches p (program c) (args c)"
  shows "shell_policy_decision parse config script = Deny"
proof -
  have "command_policy_decision config (program c) (args c) = Deny"
    using command.deny_first [OF assms(3,4)] assms(1) by (simp add: command_policy_decision_def)
  then have "commands_decision config (commands (extract_literal_commands parse script)) d = None" for d
    using assms(2) by (auto simp: commands_decision_None_iff)
  then show ?thesis using assms(1) by (simp add: shell_policy_decision_def Let_def)
qed

lemma shell_deny_precedence_witness:
  "shell_policy_decision
     (\<lambda>_. Some (Ts_Node ''program'' True None False 0 4
        [Ts_Node ''if_statement'' True None False 0 4
          [Ts_Node ''command'' True None False 0 4
            [Ts_Node ''command_name'' True (Some ''name'') False 0 2 [Ts_Node ''word'' True None False 0 2 []],
             Ts_Node ''word'' True (Some ''argument'') False 3 4 []]]]))
     ls_config (lit ''rm x'') = Deny"
proof (rule shell_deny_precedence [where c = "\<lparr>program = lit ''rm'', args = [lit ''x''], start_byte = 0,
    end_byte = 4, complete = True\<rparr>" and p = "lit ''rm **''"])
  show "enabled (policy ls_config)" by code_simp
  show "lit ''rm **'' \<in> set (deny_rules (command_policy (policy ls_config)))" by code_simp
  show "command_matches (lit ''rm **'') (program \<lparr>program = lit ''rm'', args = [lit ''x''], start_byte = 0,
      end_byte = 4, complete = True\<rparr>) (args \<lparr>program = lit ''rm'', args = [lit ''x''], start_byte = 0,
      end_byte = 4, complete = True\<rparr>)" by code_simp
qed code_simp

text \<open>
  A script whose analysis is incomplete is never allowed, unless a rule allows everything.
\<close>

theorem shell_incomplete_not_allowed:
  assumes "enabled (policy config)"
    and "\<forall>p \<in> set (allow_rules (command_policy (policy config))). \<not> is_wildcard p"
    and "\<not> extraction_complete (extract_literal_commands parse script)"
  shows "shell_policy_decision parse config script \<noteq> Allow"
  using shell_allow_facts(1) [OF _ assms(1,2)] assms(3) by blast

lemma shell_incomplete_not_allowed_witness:
  "shell_policy_decision (\<lambda>_. None) ls_config (lit ''ls -l'') \<noteq> Allow"
proof (rule shell_incomplete_not_allowed)
  show "enabled (policy ls_config)" by code_simp
  show "\<forall>p \<in> set (allow_rules (command_policy (policy ls_config))). \<not> is_wildcard p" by code_simp
  show "\<not> extraction_complete (extract_literal_commands (\<lambda>_. None) (lit ''ls -l''))" by code_simp
qed

text \<open>
  The risk of a script is LOW only if its analysis is complete and every command it runs is of
  low risk.
\<close>

theorem low_risk_sound:
  assumes "shell_script_risk_level parse script = LOW" and "parse script = Some root"
    and "m \<in> set (statements root)"
  shows "node_kind m = ''comment'' \<or>
    (\<exists>c. extract_command script m = (Some c, True) \<and> risk_level (program c) = LOW)"
proof -
  have full: "extraction_complete (extract_literal_commands parse script)"
    and low: "\<forall>c \<in> set (commands (extract_literal_commands parse script)). risk_level (program c) = LOW"
    using assms(1) by (auto simp: shell_script_risk_level_def Let_def list_ex_iff split: if_splits)
  have "accounted script (commands (extract_literal_commands parse script)) m"
    using extract_complete_accounted [OF full assms(2)] assms(3) by (simp add: list_all_iff)
  with low show ?thesis by (auto simp: accounted_def)
qed

lemma low_risk_sound_witness:
  "node_kind ls_command = ''comment'' \<or>
    (\<exists>c. extract_command (lit ''ls -l'') ls_command = (Some c, True) \<and> risk_level (program c) = LOW)"
proof (rule low_risk_sound)
  show "shell_script_risk_level (\<lambda>_. Some ls_tree) (lit ''ls -l'') = LOW" by code_simp
  show "ls_command \<in> set (statements ls_tree)"
    by (simp add: ls_tree_def ls_command_def sequence_separators_def)
qed (rule refl)

text \<open>
  Editing the rules: adding a valid pattern to the deny list makes every command it matches
  denied, and keeps the other two lists and the default.
\<close>

theorem add_deny_rule:
  assumes "mutate_patterns rules Deny (AddRule pattern) = Inr rules'"
    and "command_matches pattern prog as"
  shows "decide rules' (\<lambda>p. command_matches p prog as) = Deny \<and>
    allow_rules rules' = allow_rules rules \<and> confirm_rules rules' = confirm_rules rules
    \<and> default_action rules' = default_action rules"
proof -
  have "pattern \<in> set (deny_rules rules')" and "allow_rules rules' = allow_rules rules \<and>
      confirm_rules rules' = confirm_rules rules \<and> default_action rules' = default_action rules"
    using assms(1) by (auto simp: mutate_patterns_def Let_def rules_of_def set_rules_def split: sum.splits if_splits)
  with command.deny_first [OF _ assms(2)] show ?thesis by simp
qed


lemma add_deny_rule_witness:
  "decide ((with_default Allow)\<lparr>deny_rules := [lit ''rm **'']\<rparr>)
     (\<lambda>p. command_matches p (lit ''rm'') [lit ''x'']) = Deny"
proof -
  have "mutate_patterns (with_default Allow) Deny (AddRule (lit ''rm **'')) =
      Inr ((with_default Allow)\<lparr>deny_rules := [lit ''rm **'']\<rparr>)" by code_simp
  moreover have "command_matches (lit ''rm **'') (lit ''rm'') [lit ''x'']" by code_simp
  ultimately show ?thesis using add_deny_rule by blast
qed

end
