(* ===== verification/Path_Policy.thy ===== *)
theory Path_Policy
  imports Policy "HOL-Library.List_Lexorder"
begin

text \<open>
  The path policy: how roots and arguments become canonical paths
  (\<^verbatim>\<open>process/exec.rs\<close>), the decision for a path
  (\<^verbatim>\<open>operations/policy.rs\<close>), and the decision for everything a command touches
  (\<^verbatim>\<open>process/path_authorization.rs\<close>), with the scopes of
  \<^verbatim>\<open>agentic-gpt-protocol/src/acquire_confirmation.rs\<close>. A path in the configuration or in
  an argument is the string it is written as, a canonical path the list of its names from
  the root. What the operating system answers is the record \<open>file_system\<close>, an argument of
  the definitions. Paths are those of Unix, without prefix components.
\<close>

subsection \<open>Paths and the file system\<close>

type_synonym abs_path = "rstr list"

datatype component = ParentDir | Normal rstr

text \<open>\<^verbatim>\<open>Path::components\<close> without the root and without \<^verbatim>\<open>.\<close> components.\<close>

definition path_components :: "rstr \<Rightarrow> component list" where
  "path_components s =
     concat (map (\<lambda>f. if f = [] \<or> f = [46] then [] else if f = [46, 46] then [ParentDir] else [Normal f])
       (split_on 47 s))"

definition is_absolute :: "rstr \<Rightarrow> bool" where
  "is_absolute s \<longleftrightarrow> starts_with [47] s"

text \<open>\<^verbatim>\<open>Path::join\<close>: an absolute path replaces the base.\<close>

definition join_path :: "rstr \<Rightarrow> rstr \<Rightarrow> rstr" where
  "join_path base path =
     (if is_absolute path then path
      else if base = [] \<or> ends_with [47] base then base @ path
      else base @ [47] @ path)"

definition path_string :: "abs_path \<Rightarrow> rstr" where
  "path_string p = 47 # join [47] p"

definition path_starts_with :: "abs_path \<Rightarrow> abs_path \<Rightarrow> bool" where
  "path_starts_with root path \<longleftrightarrow> take (length root) path = root"

datatype entry_status = Present | Absent | Unreadable

record file_system =
  home_dir :: "rstr option"                    \<comment> \<open>\<^verbatim>\<open>dirs::home_dir\<close>\<close>
  current_dir :: "rstr option"                 \<comment> \<open>\<^verbatim>\<open>std::env::current_dir\<close>\<close>
  entry :: "abs_path \<Rightarrow> entry_status"           \<comment> \<open>\<^verbatim>\<open>symlink_metadata\<close>: there, not found, another error\<close>
  is_dir :: "abs_path \<Rightarrow> bool option"           \<comment> \<open>\<^verbatim>\<open>metadata(..)?.is_dir()\<close>, through symbolic links\<close>
  realpath :: "abs_path \<Rightarrow> abs_path option"     \<comment> \<open>\<^verbatim>\<open>canonicalize\<close>\<close>
  path_exists :: "rstr \<Rightarrow> bool"                 \<comment> \<open>\<^verbatim>\<open>Path::exists\<close> of a path as it is written\<close>
  canonicalize :: "rstr \<Rightarrow> abs_path option"     \<comment> \<open>\<^verbatim>\<open>canonicalize\<close> of a path as it is written\<close>

datatype path_error =
  PathPolicyError | PathNotFound | PathConfirmationRequired | PathDenied
| RootExpansion | RootResolution
| InteractiveCredentialRequired | RequiresTtyNotSupported
| ScopePathInvalid | ScopePathNotFound | ScopesUnsupported | ScopesRequireAcquire
| WorkingDirectoryEmpty | WorkingDirectoryInvalid | WorkingDirectoryNotFound
| WorkingDirectoryNotDirectory | WorkingDirectoryDenied

definition expand_path :: "file_system \<Rightarrow> rstr \<Rightarrow> rstr option" where
  "expand_path fs value =
     (if value = lit ''~'' then home_dir fs
      else case strip_prefix (lit ''~/'') value of
        Some rest \<Rightarrow> map_option (\<lambda>home. join_path home rest) (home_dir fs)
      | None \<Rightarrow> Some value)"

subsection \<open>Canonical roots\<close>

text \<open>
  The loop over the components: the resolved part, the names below it that do not exist,
  and whether the resolved part is a directory. \<open>None\<close> is the early return with an error.
\<close>

type_synonym canon_state = "abs_path \<times> rstr list \<times> bool"

definition parent_component :: "file_system \<Rightarrow> canon_state \<Rightarrow> canon_state option" where
  "parent_component fs st =
     (case st of (resolved, missing, resolved_is_dir) \<Rightarrow>
        if missing \<noteq> [] then Some (resolved, butlast missing, resolved_is_dir)
        else if \<not> resolved_is_dir then None
        else if resolved \<noteq> []
        then map_option (\<lambda>d. (butlast resolved, [], d)) (is_dir fs (butlast resolved))
        else Some st)"

definition normal_component :: "file_system \<Rightarrow> rstr \<Rightarrow> canon_state \<Rightarrow> canon_state option" where
  "normal_component fs name st =
     (case st of (resolved, missing, resolved_is_dir) \<Rightarrow>
        if \<not> resolved_is_dir then None
        else if missing = [] then
          (let next_path = resolved @ [name] in
           case entry fs next_path of
             Present \<Rightarrow>
               (case is_dir fs next_path of None \<Rightarrow> None
                | Some d \<Rightarrow> map_option (\<lambda>r. (r, [], d)) (realpath fs next_path))
           | Absent \<Rightarrow> Some (resolved, [name], resolved_is_dir)
           | Unreadable \<Rightarrow> None)
        else Some (resolved, missing @ [name], resolved_is_dir))"

fun canon_loop :: "file_system \<Rightarrow> component list \<Rightarrow> canon_state \<Rightarrow> canon_state option" where
  "canon_loop fs [] st = Some st"
| "canon_loop fs (ParentDir # cs) st = Option.bind (parent_component fs st) (canon_loop fs cs)"
| "canon_loop fs (Normal name # cs) st = Option.bind (normal_component fs name st) (canon_loop fs cs)"

definition canonicalize_existing_or_parent :: "file_system \<Rightarrow> rstr \<Rightarrow> abs_path option" where
  "canonicalize_existing_or_parent fs path =
     Option.bind (if is_absolute path then Some path
                  else map_option (\<lambda>cwd. join_path cwd path) (current_dir fs))
       (\<lambda>absolute. map_option (\<lambda>(resolved, missing, _). resolved @ missing)
          (canon_loop fs (path_components absolute) ([], [], True)))"

fun normalize_roots_loop ::
    "file_system \<Rightarrow> rstr list \<Rightarrow> abs_path list \<Rightarrow> path_error + abs_path list" where
  "normalize_roots_loop fs [] normalized = Inr normalized"
| "normalize_roots_loop fs (root # roots) normalized =
     (case expand_path fs root of
        None \<Rightarrow> Inl RootExpansion
      | Some expanded \<Rightarrow>
     (case canonicalize_existing_or_parent fs expanded of
        None \<Rightarrow> Inl RootResolution
      | Some r \<Rightarrow>
          normalize_roots_loop fs roots (if r \<in> set normalized then normalized else normalized @ [r])))"

definition normalize_roots :: "file_system \<Rightarrow> rstr list \<Rightarrow> path_error + abs_path list" where
  "normalize_roots fs roots = normalize_roots_loop fs roots []"

subsection \<open>The decision for a path\<close>

definition in_roots :: "file_system \<Rightarrow> abs_path \<Rightarrow> rstr list \<Rightarrow> path_error + bool" where
  "in_roots fs path roots =
     rbind (normalize_roots fs roots) (\<lambda>rs. Inr (list_ex (\<lambda>r. path_starts_with r path) rs))"

definition path_policy_decision ::
    "file_system \<Rightarrow> config \<Rightarrow> abs_path \<Rightarrow> bool \<Rightarrow> path_error + policy_decision" where
  "path_policy_decision fs config path write =
     (if \<not> enabled (policy config) then Inr Allow
      else let p = path_policy (policy config) in
        rbind (in_roots fs path (approved_write p)) (\<lambda>aw.
        rbind (if aw \<or> write then Inr False else in_roots fs path (approved_read p)) (\<lambda>ar.
        if aw \<or> ar then Inr Allow
        else rbind (in_roots fs path (deny_roots p)) (\<lambda>denied.
        if denied then Inr Deny
        else rbind (in_roots fs path (write_roots p)) (\<lambda>w.
        if w then Inr Allow
        else rbind (in_roots fs path (read_only p)) (\<lambda>ro.
        if ro then Inr (if write then Deny else Allow)
        else Inr (case path_default_action p of PathAllow \<Rightarrow> Allow | PathDeny \<Rightarrow> Deny)))))))"

definition default_path_policy :: path_policy_config where
  "default_path_policy = \<lparr>path_default_action = PathDeny, read_only = [], write_roots = [],
     deny_roots = [], approved_read = [], approved_write = []\<rparr>"

definition permissive_paths :: "config \<Rightarrow> config" where
  "permissive_paths config =
     config\<lparr>policy := (policy config)\<lparr>path_policy :=
       default_path_policy\<lparr>path_default_action := PathAllow\<rparr>\<rparr>\<rparr>"

subsection \<open>Arguments\<close>

datatype path_access_kind = Read | Write

definition classify_program_access :: "rstr \<Rightarrow> path_access_kind" where
  "classify_program_access prog =
     (if prog \<in> set [lit ''cat'', lit ''head'', lit ''tail'', lit ''stat'', lit ''file'', lit ''wc'',
        lit ''ls'', lit ''find'', lit ''du'', lit ''df'', lit ''upower'', lit ''free'', lit ''uptime'',
        lit ''fastfetch'', lit ''journalctl'', lit ''btrfs'', lit ''pacman'']
      then Read else Write)"

definition looks_like_path :: "rstr \<Rightarrow> bool" where
  "looks_like_path arg \<longleftrightarrow>
     arg = lit ''~'' \<or> starts_with (lit ''~/'') arg \<or> starts_with (lit ''/'') arg
     \<or> starts_with (lit ''./'') arg \<or> starts_with (lit ''../'') arg"

text \<open>
  \<^verbatim>\<open>Path::parent\<close> and \<^verbatim>\<open>Path::file_name\<close> of an absolute path: its last component is
  cut off; a path whose last component is \<^verbatim>\<open>..\<close> has no file name; the root has no parent.
\<close>

definition component_string :: "component \<Rightarrow> rstr" where
  "component_string c = (case c of ParentDir \<Rightarrow> [46, 46] | Normal n \<Rightarrow> n)"

definition parent_path :: "rstr \<Rightarrow> rstr option" where
  "parent_path s =
     (case path_components s of [] \<Rightarrow> None
      | cs \<Rightarrow> Some (47 # join [47] (map component_string (butlast cs))))"

definition file_name :: "rstr \<Rightarrow> rstr option" where
  "file_name s =
     (case path_components s of [] \<Rightarrow> None
      | cs \<Rightarrow> (case last cs of Normal n \<Rightarrow> Some n | ParentDir \<Rightarrow> None))"

definition resolve_argument_path ::
    "file_system \<Rightarrow> rstr \<Rightarrow> rstr \<Rightarrow> path_access_kind \<Rightarrow> path_error + abs_path" where
  "resolve_argument_path fs workspace arg access =
     (case expand_path fs arg of
        None \<Rightarrow> Inl PathPolicyError
      | Some expanded \<Rightarrow>
          let candidate = (if is_absolute expanded then expanded else join_path workspace expanded) in
          if path_exists fs candidate then ok_or PathPolicyError (canonicalize fs candidate)
          else if access = Read then Inl PathNotFound
          else rbind (ok_or PathNotFound (parent_path candidate)) (\<lambda>parent.
               rbind (ok_or PathNotFound (canonicalize fs parent)) (\<lambda>parent.
               Inr (case file_name candidate of Some n \<Rightarrow> parent @ [n] | None \<Rightarrow> parent))))"

definition argument_step ::
    "file_system \<Rightarrow> config \<Rightarrow> rstr \<Rightarrow> rstr \<Rightarrow> rstr \<Rightarrow> policy_decision \<Rightarrow> path_error + policy_decision" where
  "argument_step fs config cwd prog arg decision =
     (if looks_like_path arg then
        rbind (resolve_argument_path fs cwd arg (classify_program_access prog)) (\<lambda>path.
        rbind (path_policy_decision fs config path (classify_program_access prog = Write)) (\<lambda>d.
        Inr (max decision d)))
      else Inr decision)"

definition argument_path_decision ::
    "file_system \<Rightarrow> config \<Rightarrow> rstr \<Rightarrow> rstr \<Rightarrow> rstr list \<Rightarrow> path_error + policy_decision" where
  "argument_path_decision fs config cwd prog as =
     rfold (argument_step fs config cwd prog) as Allow"

definition check_path_policy ::
    "file_system \<Rightarrow> config \<Rightarrow> rstr \<Rightarrow> rstr \<Rightarrow> rstr list \<Rightarrow> path_error + unit" where
  "check_path_policy fs config cwd prog as =
     rbind (argument_path_decision fs config cwd prog as) (\<lambda>d.
       case d of Allow \<Rightarrow> Inr () | Confirm \<Rightarrow> Inl PathConfirmationRequired | Deny \<Rightarrow> Inl PathDenied)"

definition interactive_error :: "rstr \<Rightarrow> path_error option" where
  "interactive_error prog =
     (if prog \<in> set [lit ''sudo'', lit ''passwd'', lit ''su'', lit ''login'']
      then Some InteractiveCredentialRequired
      else if prog \<in> set [lit ''vim'', lit ''vi'', lit ''nano'', lit ''less'', lit ''more'', lit ''top'', lit ''htop'']
      then Some RequiresTtyNotSupported else None)"

definition preflight ::
    "file_system \<Rightarrow> config \<Rightarrow> rstr \<Rightarrow> rstr \<Rightarrow> rstr list \<Rightarrow> path_error + unit" where
  "preflight fs config working_directory prog as =
     (case interactive_error prog of Some e \<Rightarrow> Inl e
      | None \<Rightarrow> check_path_policy fs config working_directory prog as)"

subsection \<open>Executions\<close>

datatype execution_spec = Shell rstr | Argv rstr "rstr list"

definition literal_commands :: "(rstr \<Rightarrow> ts_node option) \<Rightarrow> execution_spec \<Rightarrow> (rstr \<times> rstr list) list" where
  "literal_commands parse execution =
     (case execution of
        Argv prog as \<Rightarrow> [(prog, as)]
      | Shell command \<Rightarrow>
          map (\<lambda>c. (program c, args c))
            (filter complete (commands (extract_literal_commands parse command))))"

definition execution_step ::
    "file_system \<Rightarrow> config \<Rightarrow> rstr \<Rightarrow> rstr \<times> rstr list \<Rightarrow> policy_decision \<Rightarrow> path_error + policy_decision" where
  "execution_step fs config cwd command decision =
     (case command of (prog, as) \<Rightarrow>
        rbind (preflight fs (permissive_paths config) cwd prog as) (\<lambda>_.
        rbind (argument_path_decision fs config cwd prog as) (\<lambda>d. Inr (max decision d))))"

definition execution_path_decision ::
    "(rstr \<Rightarrow> ts_node option) \<Rightarrow> file_system \<Rightarrow> config \<Rightarrow> abs_path \<Rightarrow> execution_spec \<Rightarrow>
     path_error + policy_decision" where
  "execution_path_decision parse fs config cwd execution =
     rbind (path_policy_decision fs config cwd True)
       (rfold (execution_step fs config (path_string cwd)) (literal_commands parse execution))"


subsection \<open>Scopes of an approval\<close>

datatype confirmation_method = Method_Ntfy | Method_Freedesktop

record acquire_confirmation =
  acquire :: "bool option"
  acquire_method :: "confirmation_method option"
  read_scope :: "rstr list"
  write_scope :: "rstr list"

definition effective_acquire :: "bool \<Rightarrow> acquire_confirmation \<Rightarrow> bool" where
  "effective_acquire dflt a = (case acquire a of Some b \<Rightarrow> b | None \<Rightarrow> dflt)"

definition validate_scope :: "bool \<Rightarrow> acquire_confirmation \<Rightarrow> path_error + unit" where
  "validate_scope allow_scope a =
     (if read_scope a = [] \<and> write_scope a = [] then Inr ()
      else if \<not> allow_scope then Inl ScopesUnsupported
      else if acquire a \<noteq> Some True then Inl ScopesRequireAcquire
      else Inr ())"

definition resolve_scope :: "file_system \<Rightarrow> rstr \<Rightarrow> rstr \<Rightarrow> path_error + abs_path" where
  "resolve_scope fs cwd raw =
     rbind (ok_or ScopePathInvalid (expand_path fs raw)) (\<lambda>path.
       ok_or ScopePathNotFound (canonicalize fs (if is_absolute path then path else join_path cwd path)))"

definition push_scope :: "file_system \<Rightarrow> rstr \<Rightarrow> rstr \<Rightarrow> abs_path list \<Rightarrow> path_error + abs_path list" where
  "push_scope fs cwd raw target = rbind (resolve_scope fs cwd raw) (\<lambda>p. Inr (target @ [p]))"

definition declared_scopes ::
    "file_system \<Rightarrow> abs_path \<Rightarrow> acquire_confirmation option \<Rightarrow> path_error + abs_path list \<times> abs_path list" where
  "declared_scopes fs cwd acquisition =
     (case acquisition of
        None \<Rightarrow> Inr ([cwd], [])
      | Some a \<Rightarrow>
          rbind (validate_scope True a) (\<lambda>_.
          rbind (rfold (push_scope fs (path_string cwd)) (read_scope a) [cwd]) (\<lambda>read.
          rbind (rfold (push_scope fs (path_string cwd)) (write_scope a) []) (\<lambda>write.
          Inr (read, write)))))"

text \<open>A path of a literal command that exists is added to the scopes its program needs.\<close>

definition argument_scope ::
    "file_system \<Rightarrow> rstr \<Rightarrow> rstr \<Rightarrow> rstr \<Rightarrow> abs_path list \<times> abs_path list \<Rightarrow>
     path_error + abs_path list \<times> abs_path list" where
  "argument_scope fs cwd prog arg scopes =
     (case scopes of (read, write) \<Rightarrow>
        if looks_like_path arg then
          rbind (resolve_argument_path fs cwd arg (classify_program_access prog)) (\<lambda>path.
            if path_exists fs (path_string path) then
              if classify_program_access prog = Read then Inr (read @ [path], write)
              else Inr (read, write @ [path])
            else Inr (read, write))
        else Inr (read, write))"

definition execution_scopes ::
    "(rstr \<Rightarrow> ts_node option) \<Rightarrow> file_system \<Rightarrow> abs_path \<Rightarrow> execution_spec \<Rightarrow>
     acquire_confirmation option \<Rightarrow> path_error + abs_path list \<times> abs_path list" where
  "execution_scopes parse fs cwd execution acquisition =
     rbind (declared_scopes fs cwd acquisition) (\<lambda>scopes.
     rbind (rfold (\<lambda>(prog, as). rfold (argument_scope fs (path_string cwd) prog) as)
              (literal_commands parse execution) scopes) (\<lambda>(read, write).
     Inr (remdups_adj (sort read), remdups_adj (sort write))))"

definition granted_execution_config ::
    "(rstr \<Rightarrow> ts_node option) \<Rightarrow> file_system \<Rightarrow> config \<Rightarrow> abs_path \<Rightarrow> execution_spec \<Rightarrow>
     acquire_confirmation option \<Rightarrow> path_error + config" where
  "granted_execution_config parse fs config cwd execution acquisition =
     rbind (execution_scopes parse fs cwd execution acquisition) (\<lambda>(read, write).
       let p = path_policy (policy config) in
       Inr (config\<lparr>policy := (policy config)\<lparr>path_policy :=
         p\<lparr>approved_read := approved_read p @ map path_string read,
           approved_write := approved_write p @ map path_string write\<rparr>\<rparr>\<rparr>))"

definition scope_step ::
    "file_system \<Rightarrow> config \<Rightarrow> rstr \<Rightarrow> bool \<Rightarrow> rstr \<Rightarrow> policy_decision \<Rightarrow> path_error + policy_decision" where
  "scope_step fs config cwd writable raw decision =
     rbind (resolve_scope fs cwd raw) (\<lambda>path.
     rbind (path_policy_decision fs config path writable) (\<lambda>d. Inr (max decision d)))"

definition declared_scope_decision ::
    "file_system \<Rightarrow> config \<Rightarrow> abs_path \<Rightarrow> acquire_confirmation option \<Rightarrow> path_error + policy_decision" where
  "declared_scope_decision fs config cwd acquisition =
     (case acquisition of
        None \<Rightarrow> Inr Allow
      | Some a \<Rightarrow>
          rbind (validate_scope True a) (\<lambda>_.
          rbind (rfold (scope_step fs config (path_string cwd) False) (read_scope a) Allow) (\<lambda>d.
          rfold (scope_step fs config (path_string cwd) True) (write_scope a) d)))"

subsection \<open>The working directory\<close>

definition resolve_working_directory ::
    "file_system \<Rightarrow> config \<Rightarrow> rstr option \<Rightarrow> path_error + abs_path" where
  "resolve_working_directory fs config working_directory =
     rbind (case working_directory of
         None \<Rightarrow> Inr (workspace_root config)
       | Some value \<Rightarrow>
           if trim value = [] then Inl WorkingDirectoryEmpty
           else rbind (ok_or WorkingDirectoryInvalid (expand_path fs value)) (\<lambda>expanded.
             Inr (if is_absolute expanded then expanded else join_path (workspace_root config) expanded)))
       (\<lambda>candidate.
     rbind (ok_or WorkingDirectoryNotFound (canonicalize fs candidate)) (\<lambda>directory.
     if is_dir fs directory \<noteq> Some True then Inl WorkingDirectoryNotDirectory
     else rbind (path_policy_decision fs config directory True) (\<lambda>d.
       case d of Allow \<Rightarrow> Inr directory
       | Confirm \<Rightarrow> Inl PathConfirmationRequired
       | Deny \<Rightarrow> Inl WorkingDirectoryDenied)))"

subsection \<open>Canonical roots are canonical\<close>

text \<open>
  What is documented of the system: a canonical path is its own canonical path, exists, and
  the directories on the way to it are canonical; \<^verbatim>\<open>metadata\<close> follows links.
\<close>

definition file_system_ok :: "file_system \<Rightarrow> bool" where
  "file_system_ok fs \<longleftrightarrow>
     is_dir fs [] = Some True \<and>
     (\<forall>p r. realpath fs p = Some r \<longrightarrow>
        is_dir fs r = is_dir fs p \<and> is_dir fs r \<noteq> None \<and>
        (\<forall>k. 0 < k \<and> k \<le> length r \<longrightarrow>
           realpath fs (take k r) = Some (take k r) \<and> entry fs (take k r) = Present) \<and>
        (\<forall>k < length r. is_dir fs (take k r) = Some True))"

definition canonical_path :: "file_system \<Rightarrow> abs_path \<Rightarrow> bool" where
  "canonical_path fs r \<longleftrightarrow>
     (\<forall>k. 0 < k \<and> k \<le> length r \<longrightarrow>
        realpath fs (take k r) = Some (take k r) \<and> entry fs (take k r) = Present) \<and>
     (\<forall>k < length r. is_dir fs (take k r) = Some True) \<and> is_dir fs r \<noteq> None"

definition canon_inv :: "file_system \<Rightarrow> canon_state \<Rightarrow> bool" where
  "canon_inv fs st \<longleftrightarrow>
     (case st of (resolved, missing, d) \<Rightarrow>
        canonical_path fs resolved \<and> is_dir fs resolved = Some d \<and>
        (missing \<noteq> [] \<longrightarrow> d \<and> entry fs (resolved @ [hd missing]) = Absent))"

lemma canonical_path_butlast: "canonical_path fs r \<Longrightarrow> canonical_path fs (butlast r)"
proof (cases r rule: rev_cases)
  case (snoc ys y)
  assume c: "canonical_path fs r"
  have take: "take k r = take k ys" if "k \<le> length ys" for k
    using that snoc by simp
  have "is_dir fs ys = Some True"
    using c snoc take [of "length ys"] by (auto simp: canonical_path_def dest: spec [of _ "length ys"])
  moreover have "realpath fs (take k ys) = Some (take k ys) \<and> entry fs (take k ys) = Present"
    if "0 < k" "k \<le> length ys" for k
  proof -
    have "realpath fs (take k r) = Some (take k r) \<and> entry fs (take k r) = Present"
      using c that snoc by (simp only: canonical_path_def) auto
    with take [OF that(2)] show ?thesis by simp
  qed
  moreover have "is_dir fs (take k ys) = Some True" if "k < length ys" for k
  proof -
    have "is_dir fs (take k r) = Some True"
      using c that snoc by (simp only: canonical_path_def) auto
    with take [of k] that show ?thesis by simp
  qed
  ultimately show ?thesis using snoc by (simp add: canonical_path_def)
qed simp

lemma canon_inv_step:
  assumes "file_system_ok fs" and "canon_inv fs st"
  shows "parent_component fs st = Some st' \<Longrightarrow> canon_inv fs st'"
    and "normal_component fs name st = Some st' \<Longrightarrow> canon_inv fs st'"
proof -
  obtain resolved missing d where st: "st = (resolved, missing, d)" by (cases st)
  show "canon_inv fs st'" if "parent_component fs st = Some st'"
  proof (cases "missing = []")
    case True
    with that assms(2) st canonical_path_butlast [of fs resolved] show ?thesis
      by (auto simp: parent_component_def canon_inv_def split: if_splits)
  next
    case False
    have "hd (butlast missing) = hd missing" if "butlast missing \<noteq> []"
      using that by (cases missing) auto
    with that assms(2) st False show ?thesis
      by (auto simp: parent_component_def canon_inv_def)
  qed
  show "canon_inv fs st'" if "normal_component fs name st = Some st'"
  proof (cases "missing = []")
    case True
    with that assms st show ?thesis
      by (auto simp: normal_component_def canon_inv_def Let_def file_system_ok_def canonical_path_def
          split: if_splits entry_status.splits option.splits)
  next
    case False
    with that assms(2) st show ?thesis
      by (auto simp: normal_component_def canon_inv_def split: if_splits)
  qed
qed

lemma canon_loop_inv:
  "file_system_ok fs \<Longrightarrow> canon_inv fs st \<Longrightarrow> canon_loop fs cs st = Some st' \<Longrightarrow> canon_inv fs st'"
proof (induction fs cs st rule: canon_loop.induct)
  case (1 fs st)
  then show ?case by simp
next
  case (2 fs cs st)
  then show ?case by (auto simp: bind_eq_Some_conv dest: canon_inv_step)
next
  case (3 fs name cs st)
  then show ?case by (auto simp: bind_eq_Some_conv dest: canon_inv_step)
qed

lemma canon_loop_append: "canon_loop fs (cs @ ds) st = Option.bind (canon_loop fs cs st) (canon_loop fs ds)"
proof (induction fs cs st rule: canon_loop.induct)
  case (1 fs st)
  then show ?case by simp
next
  case (2 fs cs st)
  then show ?case by (cases "parent_component fs st") simp_all
next
  case (3 fs name cs st)
  then show ?case by (cases "normal_component fs name st") simp_all
qed

lemma canon_loop_resolved:
  assumes "canonical_path fs r" and "is_dir fs [] = Some True" and "k \<le> length r"
  shows "\<exists>d. canon_loop fs (map Normal (take k r)) ([], [], True) = Some (take k r, [], d)
    \<and> is_dir fs (take k r) = Some d"
  using assms(3)
proof (induction k)
  case 0
  with assms(2) show ?case by auto
next
  case (Suc k)
  then have k: "k < length r" by simp
  then have snoc: "take (Suc k) r = take k r @ [r ! k]" by (rule take_Suc_conv_app_nth)
  from Suc obtain d where d: "canon_loop fs (map Normal (take k r)) ([], [], True) = Some (take k r, [], d)"
    "is_dir fs (take k r) = Some d" by auto
  have "is_dir fs (take k r) = Some True" using assms(1) k by (auto simp: canonical_path_def)
  with d have d: "canon_loop fs (map Normal (take k r)) ([], [], True) = Some (take k r, [], True)" by simp
  have there: "realpath fs (take (Suc k) r) = Some (take (Suc k) r)" "entry fs (take (Suc k) r) = Present"
    using assms(1) Suc.prems by (auto simp: canonical_path_def)
  have "is_dir fs (take (Suc k) r) \<noteq> None"
    using assms(1) Suc.prems by (cases "Suc k = length r") (auto simp: canonical_path_def)
  with d there show ?case
    by (auto simp: snoc canon_loop_append normal_component_def)
qed

lemma canon_loop_missing:
  "canon_loop fs (map Normal ns) (resolved, n # missing, True) = Some (resolved, n # missing @ ns, True)"
  by (induction ns arbitrary: missing) (simp_all add: normal_component_def)

lemma canon_loop_idem:
  assumes "file_system_ok fs" and "canon_inv fs (resolved, missing, d)"
  shows "canon_loop fs (map Normal (resolved @ missing)) ([], [], True) = Some (resolved, missing, d)"
proof -
  have c: "canonical_path fs resolved" "is_dir fs resolved = Some d"
    and m: "missing \<noteq> [] \<Longrightarrow> d \<and> entry fs (resolved @ [hd missing]) = Absent"
    using assms(2) by (auto simp: canon_inv_def)
  have r: "canon_loop fs (map Normal resolved) ([], [], True) = Some (resolved, [], d)"
    using canon_loop_resolved [OF c(1), of "length resolved"] assms(1) c(2)
    by (auto simp: file_system_ok_def)
  show ?thesis
  proof (cases missing)
    case Nil
    with r show ?thesis by simp
  next
    case (Cons n ns)
    with m r show ?thesis
      by (simp add: canon_loop_append normal_component_def canon_loop_missing)
  qed
qed

text \<open>The names in a canonical path are names: not empty, not dots, without a slash.\<close>

definition plain_name :: "rstr \<Rightarrow> bool" where
  "plain_name n \<longleftrightarrow> n \<noteq> [] \<and> n \<noteq> [46] \<and> n \<noteq> [46, 46] \<and> 47 \<notin> set n"

lemma path_components_string:
  assumes "list_all plain_name p"
  shows "path_components (path_string p) = map Normal p"
proof -
  have "concat (map (\<lambda>f. if f = [] \<or> f = [46] then [] else if f = [46, 46] then [ParentDir] else [Normal f]) p) =
      map Normal p"
    using assms by (induction p) (auto simp: plain_name_def)
  moreover have "p \<noteq> [] \<Longrightarrow> split_on 47 (join [47] p) = p"
    using assms by (intro split_on_join) (auto simp: list_all_iff plain_name_def)
  ultimately show ?thesis
    by (cases "p = []") (auto simp: path_components_def path_string_def)
qed

lemma canonicalize_result_inv:
  assumes "file_system_ok fs" and "canonicalize_existing_or_parent fs path = Some r"
  obtains resolved missing d where "r = resolved @ missing" and "canon_inv fs (resolved, missing, d)"
proof -
  obtain cs resolved missing d where "canon_loop fs cs ([], [], True) = Some (resolved, missing, d)"
    and r: "r = resolved @ missing"
    using assms(2) by (auto simp: canonicalize_existing_or_parent_def bind_eq_Some_conv)
  moreover have "canon_inv fs ([], [], True)"
    using assms(1) by (auto simp: canon_inv_def canonical_path_def file_system_ok_def)
  ultimately show ?thesis using canon_loop_inv [OF assms(1)] that by blast
qed

text \<open>
  Normalising a path gives a canonical path: normalising the result again changes nothing,
  whatever symbolic links, parent components and missing names the path had.
\<close>

theorem canonicalize_idempotent:
  assumes "file_system_ok fs" and "canonicalize_existing_or_parent fs path = Some r"
    and "list_all plain_name r"
  shows "canonicalize_existing_or_parent fs (path_string r) = Some r"
proof -
  obtain resolved missing d where r: "r = resolved @ missing" and inv: "canon_inv fs (resolved, missing, d)"
    using canonicalize_result_inv [OF assms(1,2)] .
  have "is_absolute (path_string r)" by (simp add: is_absolute_def path_string_def starts_with_iff)
  then show ?thesis
    using canon_loop_idem [OF assms(1) inv] path_components_string [OF assms(3)]
    by (simp add: canonicalize_existing_or_parent_def r)
qed

definition sample_fs :: file_system where
  "sample_fs = \<lparr>home_dir = Some (lit ''/h''), current_dir = Some (lit ''/h''),
     entry = (\<lambda>p. if p = [lit ''h''] \<or> p = [lit ''l''] then Present else Absent),
     is_dir = (\<lambda>p. if p = [] \<or> p = [lit ''h''] \<or> p = [lit ''l''] then Some True else None),
     realpath = (\<lambda>p. if p = [lit ''h''] \<or> p = [lit ''l''] then Some [lit ''h''] else None),
     path_exists = (\<lambda>s. s = lit ''/h''),
     canonicalize = (\<lambda>s. if s = lit ''/h'' then Some [lit ''h''] else None)\<rparr>"

lemma sample_fs_ok: "file_system_ok sample_fs"
  by (auto simp: file_system_ok_def sample_fs_def take_Cons' split: if_splits)

lemma canonicalize_idempotent_witness:
  "canonicalize_existing_or_parent sample_fs (path_string [lit ''h'', lit ''new'']) =
    Some [lit ''h'', lit ''new'']"
proof (rule canonicalize_idempotent [OF sample_fs_ok])
  show "canonicalize_existing_or_parent sample_fs (lit ''/l/x/../new'') = Some [lit ''h'', lit ''new'']"
    by code_simp
  show "list_all plain_name [lit ''h'', lit ''new'']" by code_simp
qed


subsection \<open>What a path decision means\<close>

lemma path_starts_with_append: "path_starts_with root path \<Longrightarrow> path_starts_with root (path @ rest)"
  by (metis append.assoc append_eq_conv_conj append_take_drop_id path_starts_with_def)

lemma in_roots_append: "in_roots fs path roots = Inr True \<Longrightarrow> in_roots fs (path @ rest) roots = Inr True"
  using path_starts_with_append by (fastforce simp: in_roots_def rbind_eq_Inr_iff list_ex_iff)

lemma in_roots_Nil [simp]: "in_roots fs path [] = Inr False"
  by (simp add: in_roots_def normalize_roots_def)

text \<open>Where a root lies, and the paths at and below it.\<close>

definition root_place :: "file_system \<Rightarrow> rstr \<Rightarrow> abs_path option" where
  "root_place fs root = Option.bind (expand_path fs root) (canonicalize_existing_or_parent fs)"

definition below_root :: "file_system \<Rightarrow> rstr \<Rightarrow> abs_path \<Rightarrow> bool" where
  "below_root fs root path \<longleftrightarrow> (\<exists>place rest. root_place fs root = Some place \<and> path = place @ rest)"

lemma normalized_roots:
  "normalize_roots_loop fs roots acc = Inr rs \<Longrightarrow>
    (\<forall>root \<in> set roots. root_place fs root \<noteq> None) \<and> set rs = set acc \<union> {p. \<exists>root \<in> set roots. root_place fs root = Some p}"
proof (induction roots arbitrary: acc)
  case (Cons root roots)
  then obtain p where p: "root_place fs root = Some p"
    and rest: "normalize_roots_loop fs roots (if p \<in> set acc then acc else acc @ [p]) = Inr rs"
    by (auto simp: root_place_def split: option.splits)
  have "set (if p \<in> set acc then acc else acc @ [p]) = insert p (set acc)" by auto
  with Cons.IH [OF rest] p show ?case by auto
qed simp

lemma in_roots_Inr:
  assumes "in_roots fs path roots = Inr b"
  shows "(\<forall>root \<in> set roots. root_place fs root \<noteq> None) \<and> (b \<longleftrightarrow> (\<exists>root \<in> set roots. below_root fs root path))"
proof -
  obtain rs where rs: "normalize_roots_loop fs roots [] = Inr rs" "b \<longleftrightarrow> list_ex (\<lambda>r. path_starts_with r path) rs"
    using assms by (auto simp: in_roots_def normalize_roots_def rbind_eq_Inr_iff)
  have "path_starts_with r path \<longleftrightarrow> (\<exists>rest. path = r @ rest)" for r
    by (metis append_eq_conv_conj append_take_drop_id path_starts_with_def)
  then show ?thesis
    using normalized_roots [OF rs(1)] rs(2) by (auto simp: list_ex_iff below_root_def)
qed

text \<open>C14.
  With the policy enabled, access is allowed only inside of it: without an approval by the user
  that covers the path, it is not at or below any denied root, all of which resolve, and when
  the default is to deny it is at or below some writable root, or at or below some read-only
  root and only read.
\<close>

theorem path_allow_inside_policy:
  assumes "path_policy_decision fs config path write = Inr Allow" and "enabled (policy config)"
    and "\<forall>root \<in> set (approved_write (path_policy (policy config))). \<not> below_root fs root path"
    and "write \<or> (\<forall>root \<in> set (approved_read (path_policy (policy config))). \<not> below_root fs root path)"
  shows "(\<forall>root \<in> set (deny_roots (path_policy (policy config))). root_place fs root \<noteq> None \<and> \<not> below_root fs root path) \<and>
    (path_default_action (path_policy (policy config)) = PathAllow
     \<or> (\<exists>root \<in> set (write_roots (path_policy (policy config))). below_root fs root path)
     \<or> (\<not> write \<and> (\<exists>root \<in> set (read_only (path_policy (policy config))). below_root fs root path)))"
proof -
  let ?p = "path_policy (policy config)"
  obtain aw where aw: "in_roots fs path (approved_write ?p) = Inr aw"
    using assms(1,2) by (auto simp: path_policy_decision_def Let_def rbind_eq_Inr_iff)
  with in_roots_Inr [OF aw] assms(3) have aw: "in_roots fs path (approved_write ?p) = Inr False" by simp
  have ar: "in_roots fs path (approved_read ?p) = Inr False" if read: "\<not> write"
  proof -
    have "\<exists>ar. in_roots fs path (approved_read ?p) = Inr ar"
      using assms(1,2) aw read by (cases "in_roots fs path (approved_read ?p)") (simp_all add: path_policy_decision_def)
    then obtain ar where "in_roots fs path (approved_read ?p) = Inr ar" by blast
    with in_roots_Inr [OF this] assms(4) read show ?thesis by simp
  qed
  have "in_roots fs path (deny_roots ?p) = Inr False \<and>
    (path_default_action ?p = PathAllow \<or> in_roots fs path (write_roots ?p) = Inr True
     \<or> (\<not> write \<and> in_roots fs path (read_only ?p) = Inr True))"
    using assms(1,2) aw ar
    by (auto simp: path_policy_decision_def Let_def rbind_eq_Inr_iff split: if_splits path_default_action.splits)
  then show ?thesis using in_roots_Inr by blast
qed

lemma path_allow_inside_policy_witness:
  "\<not> below_root sample_fs (lit ''/x'') [lit ''h''] \<and> \<not> below_root sample_fs (lit ''/y'') [lit ''h''] \<and>
    below_root sample_fs (lit ''/h'') [lit ''h'']"
proof -
  let ?c = "ls_config\<lparr>policy := (policy ls_config)\<lparr>path_policy :=
    default_path_policy\<lparr>write_roots := [lit ''/h''], deny_roots := [lit ''/x'', lit ''/y'']\<rparr>\<rparr>\<rparr>"
  have "path_policy_decision sample_fs ?c [lit ''h''] True = Inr Allow" by code_simp
  moreover have "enabled (policy ?c)" by code_simp
  ultimately show ?thesis
    using path_allow_inside_policy [of sample_fs ?c "[lit ''h'']" True] by (simp add: default_path_policy_def)
qed

text \<open>
  A denied root denies its whole subtree, to reads and writes, whatever the other roots and
  the default are, as long as nothing was approved by the user.
\<close>

theorem deny_root_covers_subtree:
  assumes "enabled (policy config)"
    and "in_roots fs path (deny_roots (path_policy (policy config))) = Inr True"
    and "approved_read (path_policy (policy config)) = []"
    and "approved_write (path_policy (policy config)) = []"
  shows "path_policy_decision fs config (path @ rest) write = Inr Deny"
  using assms in_roots_append [OF assms(2), of rest]
  by (simp add: path_policy_decision_def Let_def)

lemma deny_root_covers_subtree_witness:
  "path_policy_decision sample_fs
     (ls_config\<lparr>policy := (policy ls_config)\<lparr>path_policy :=
       default_path_policy\<lparr>write_roots := [lit ''/''], deny_roots := [lit ''/h'']\<rparr>\<rparr>\<rparr>)
     ([lit ''h''] @ [lit ''k'']) False = Inr Deny"
proof (rule deny_root_covers_subtree)
  show "in_roots sample_fs [lit ''h''] (deny_roots (path_policy (policy
     (ls_config\<lparr>policy := (policy ls_config)\<lparr>path_policy :=
       default_path_policy\<lparr>write_roots := [lit ''/''], deny_roots := [lit ''/h'']\<rparr>\<rparr>\<rparr>)))) = Inr True"
    by code_simp
qed (simp_all add: ls_config_def default_path_policy_def)

text \<open>
  Permission to write includes permission to read: where a write is allowed, a read is not
  denied.
\<close>

theorem write_allowed_read_not_denied:
  assumes "path_policy_decision fs config path True = Inr Allow"
  shows "path_policy_decision fs config path False \<noteq> Inr Deny"
  using assms
  by (auto simp: path_policy_decision_def Let_def rbind_eq_Inr_iff split: if_splits path_default_action.splits)

lemma write_allowed_read_not_denied_witness:
  "path_policy_decision sample_fs
     (ls_config\<lparr>policy := (policy ls_config)\<lparr>path_policy := default_path_policy\<lparr>write_roots := [lit ''/h'']\<rparr>\<rparr>\<rparr>)
     [lit ''h''] False \<noteq> Inr Deny"
  by (rule write_allowed_read_not_denied) code_simp

lemma argument_path_decision_Allow:
  assumes "rfold (argument_step fs config cwd prog) as d = Inr Allow"
  shows "d = Allow \<and> (\<forall>arg \<in> set as. looks_like_path arg \<longrightarrow>
    (\<exists>p. resolve_argument_path fs cwd arg (classify_program_access prog) = Inr p \<and>
       path_policy_decision fs config p (classify_program_access prog = Write) = Inr Allow))"
  using assms
proof (induction as arbitrary: d)
  case Nil
  then show ?case by simp
next
  case (Cons arg as)
  then obtain d' where d': "argument_step fs config cwd prog arg d = Inr d'"
    and rest: "rfold (argument_step fs config cwd prog) as d' = Inr Allow"
    by (auto elim: rbind_InrE)
  from Cons.IH [OF rest] d' show ?case
    by (auto simp: argument_step_def rbind_eq_Inr_iff split: if_splits)
qed

lemma execution_steps_Allow:
  assumes "rfold (execution_step fs config cwd) cs d = Inr Allow"
  shows "d = Allow \<and> (\<forall>(prog, as) \<in> set cs. interactive_error prog = None \<and>
    argument_path_decision fs config cwd prog as = Inr Allow)"
  using assms
proof (induction cs arbitrary: d)
  case Nil
  then show ?case by simp
next
  case (Cons c cs)
  obtain prog as where c: "c = (prog, as)" by (cases c)
  from Cons.prems obtain d' where d': "execution_step fs config cwd c d = Inr d'"
    and rest: "rfold (execution_step fs config cwd) cs d' = Inr Allow"
    by (auto elim: rbind_InrE)
  from Cons.IH [OF rest] d' c show ?case
    by (auto simp: execution_step_def preflight_def rbind_eq_Inr_iff split: option.splits)
qed

text \<open>
  An execution whose paths are allowed runs no interactive program, may write its working
  directory, and every argument of its literal commands that looks like a path resolves to a
  path the policy allows for the kind of access the program is taken to make.
\<close>

theorem execution_paths_allowed:
  assumes "execution_path_decision parse fs config cwd execution = Inr Allow"
    and "(prog, as) \<in> set (literal_commands parse execution)"
    and "arg \<in> set as" and "looks_like_path arg"
  shows "path_policy_decision fs config cwd True = Inr Allow \<and> interactive_error prog = None \<and>
    (\<exists>p. resolve_argument_path fs (path_string cwd) arg (classify_program_access prog) = Inr p \<and>
       path_policy_decision fs config p (classify_program_access prog = Write) = Inr Allow)"
proof -
  obtain d where d: "path_policy_decision fs config cwd True = Inr d"
    and run: "rfold (execution_step fs config (path_string cwd)) (literal_commands parse execution) d = Inr Allow"
    using assms(1) by (auto simp: execution_path_decision_def elim: rbind_InrE)
  note steps = execution_steps_Allow [OF run]
  then have "interactive_error prog = None"
    and "argument_path_decision fs config (path_string cwd) prog as = Inr Allow"
    using assms(2) by auto
  with d steps argument_path_decision_Allow [of fs config "path_string cwd" prog as Allow] assms(3,4)
  show ?thesis by (auto simp: argument_path_decision_def)
qed

lemma execution_paths_allowed_witness:
  "\<exists>p. resolve_argument_path sample_fs (path_string [lit ''h'']) (lit ''/h'') Read = Inr p \<and>
     path_policy_decision sample_fs
       (ls_config\<lparr>policy := (policy ls_config)\<lparr>path_policy := default_path_policy\<lparr>write_roots := [lit ''/h'']\<rparr>\<rparr>\<rparr>)
       p False = Inr Allow"
proof -
  let ?c = "ls_config\<lparr>policy := (policy ls_config)\<lparr>path_policy := default_path_policy\<lparr>write_roots := [lit ''/h'']\<rparr>\<rparr>\<rparr>"
  let ?e = "Argv (lit ''cat'') [lit ''/h'']"
  have "execution_path_decision (\<lambda>_. None) sample_fs ?c [lit ''h''] ?e = Inr Allow" by code_simp
  moreover have "(lit ''cat'', [lit ''/h'']) \<in> set (literal_commands (\<lambda>_. None) ?e)" by code_simp
  moreover have "lit ''/h'' \<in> set [lit ''/h'']" and "looks_like_path (lit ''/h'')" by code_simp+
  moreover have "classify_program_access (lit ''cat'') = Read" by code_simp
  ultimately show ?thesis
    using execution_paths_allowed [of "\<lambda>_. None" sample_fs ?c "[lit ''h'']" ?e "lit ''cat''"
      "[lit ''/h'']" "lit ''/h''"] by simp
qed

end
