(* ===== verification/Authorization.thy ===== *)
theory Authorization
  imports Path_Policy
begin

text \<open>
  Asking the user (\<^verbatim>\<open>crates/agentic-gpt/src/operations/confirmation.rs\<close>): the
  confirmation channels and their fallback, the decision to run an operation, the pending
  requests to the hub, and the temporary permissions for an MCP server. What a channel
  answers, whether a message could be sent and the readings of the clock and of the
  cancellation flag are arguments. Results are the strings of the code; times are in
  nanoseconds.
\<close>

subsection \<open>Channels\<close>

datatype confirmation_channel = Freedesktop | Ntfy

definition default_channels :: "confirmation_channel list" where
  "default_channels = [Freedesktop, Ntfy]"

definition from_legacy :: "rstr \<Rightarrow> confirmation_channel list option" where
  "from_legacy value =
     (let normalized = trim value in
      if normalized = lit ''none'' then Some []
      else if normalized = lit ''freedesktop'' then Some [Freedesktop]
      else if normalized = lit ''hub'' \<or> normalized = lit ''ntfy'' then Some [Ntfy]
      else if normalized \<in> set [lit ''freedesktop-then-hub'', lit ''freedesktopThenHub'',
                lit ''freedesktop-then-ntfy'', lit ''default''] then Some default_channels
      else None)"

definition channel_string :: "confirmation_channel \<Rightarrow> rstr" where
  "channel_string c = (case c of Freedesktop \<Rightarrow> lit ''freedesktop'' | Ntfy \<Rightarrow> lit ''ntfy'')"

definition parse_channel :: "rstr \<Rightarrow> confirmation_channel option" where
  "parse_channel value =
     (if value = lit ''freedesktop'' then Some Freedesktop
      else if value = lit ''ntfy'' then Some Ntfy else None)"

datatype channel_error = UnknownChannel rstr | DuplicateChannel

definition from_channels :: "confirmation_channel list \<Rightarrow> channel_error + confirmation_channel list" where
  "from_channels channels = (if distinct channels then Inr channels else Inl DuplicateChannel)"

fun parse_channels :: "rstr list \<Rightarrow> channel_error + confirmation_channel list" where
  "parse_channels [] = Inr []"
| "parse_channels (name # names) =
     (case parse_channel name of None \<Rightarrow> Inl (UnknownChannel name)
      | Some c \<Rightarrow> rbind (parse_channels names) (\<lambda>cs. Inr (c # cs)))"

definition from_channel_names :: "rstr list \<Rightarrow> channel_error + confirmation_channel list" where
  "from_channel_names names = rbind (parse_channels names) from_channels"

definition method_string :: "confirmation_method \<Rightarrow> rstr" where
  "method_string m = (case m of Method_Ntfy \<Rightarrow> lit ''ntfy'' | Method_Freedesktop \<Rightarrow> lit ''freedesktop'')"

definition confirmation_channels ::
    "confirmation_channel list \<Rightarrow> rstr option \<Rightarrow> confirmation_channel list" where
  "confirmation_channels configured m =
     (case m of None \<Rightarrow> configured
      | Some value \<Rightarrow>
          if value = lit ''default'' then configured
          else (case from_legacy value of Some cs \<Rightarrow> cs | None \<Rightarrow> []))"

text \<open>The first channel that is available answers.\<close>

fun request_confirmation :: "(confirmation_channel \<Rightarrow> string) \<Rightarrow> confirmation_channel list \<Rightarrow> string" where
  "request_confirmation answer [] = ''provider_unavailable''"
| "request_confirmation answer (c # cs) =
     (if answer c \<noteq> ''provider_unavailable'' then answer c else request_confirmation answer cs)"

subsection \<open>The decision to run an operation\<close>

record operation_authorization =
  approved :: bool
  result :: "string option"

text \<open>
  What the world does during the decision: the answers of the channels to the request the
  caller asked for and to the one the policy asks for, and the cancellation flag before,
  after the first and after the second.
\<close>

record prompt_world =
  asked_answer :: "confirmation_channel \<Rightarrow> string"
  policy_answer :: "confirmation_channel \<Rightarrow> string"
  cancelled_before :: bool
  cancelled_asked :: bool
  cancelled_policy :: bool

definition approved_once :: "string \<Rightarrow> operation_authorization" where
  "approved_once r = \<lparr>approved = True, result = Some r\<rparr>"

text \<open>The part after the request of the caller, with its result when there was one.\<close>

definition decide_operation ::
    "prompt_world \<Rightarrow> confirmation_channel list \<Rightarrow> policy_decision \<Rightarrow> string option \<Rightarrow>
     string + operation_authorization" where
  "decide_operation w configured decision attempted =
     (case decision of
        Deny \<Rightarrow> Inl ''policy_denied''
      | Allow \<Rightarrow> Inr \<lparr>approved = False, result = attempted\<rparr>
      | Confirm \<Rightarrow>
          (case attempted of
             Some r \<Rightarrow> Inl r
           | None \<Rightarrow>
               let r = request_confirmation (policy_answer w) (confirmation_channels configured None) in
               if cancelled_policy w then Inl ''cancelled''
               else if r = ''allow_once'' then Inr (approved_once r)
               else Inl r))"

definition authorize_operation_cancellable ::
    "prompt_world \<Rightarrow> confirmation_channel list \<Rightarrow> acquire_confirmation option \<Rightarrow> bool \<Rightarrow>
     policy_decision \<Rightarrow> bool \<Rightarrow> string + operation_authorization" where
  "authorize_operation_cancellable w configured acquisition default_acquire decision strict =
     (if cancelled_before w then Inl ''cancelled''
      else
        let acquire = (case acquisition of Some a \<Rightarrow> effective_acquire default_acquire a
                       | None \<Rightarrow> default_acquire);
            m = Option.bind acquisition (\<lambda>a. map_option method_string (acquire_method a))
        in if acquire then
             let r = request_confirmation (asked_answer w) (confirmation_channels configured m) in
             if cancelled_asked w then Inl ''cancelled''
             else if r = ''allow_once'' then Inr (approved_once r)
             else if strict \<or> r \<notin> {''timeout'', ''expired'', ''provider_unavailable''} then Inl r
             else decide_operation w configured decision (Some r)
           else decide_operation w configured decision None)"

subsection \<open>Requests to the hub\<close>

datatype wait_outcome = Answered string | Unanswered | WaitCancelled

text \<open>
  The pending requests are a map from request ids to the waiting callers. A request that was
  cancelled before it began leaves it alone; any other one enters it and leaves it.
\<close>

definition hub_request ::
    "bool \<Rightarrow> bool \<Rightarrow> wait_outcome \<Rightarrow> string \<Rightarrow> (string \<rightharpoonup> 'a) \<Rightarrow> 'a \<Rightarrow> string \<times> (string \<rightharpoonup> 'a)" where
  "hub_request cancelled send_ok outcome request_id pending sender =
     (if cancelled then (''cancelled'', pending)
      else
        let pending1 = pending(request_id \<mapsto> sender) in
        if \<not> send_ok then (''provider_unavailable'', pending1(request_id := None))
        else ((case outcome of Answered d \<Rightarrow> d | Unanswered \<Rightarrow> ''timeout'' | WaitCancelled \<Rightarrow> ''cancelled''),
              pending1(request_id := None)))"

definition hub_preview_request ::
    "rstr \<Rightarrow> bool \<Rightarrow> bool \<Rightarrow> wait_outcome \<Rightarrow> string \<Rightarrow> (string \<rightharpoonup> 'a) \<Rightarrow> 'a \<Rightarrow>
     string \<times> (string \<rightharpoonup> 'a)" where
  "hub_preview_request preview cancelled send_ok outcome request_id pending sender =
     (if 1000 < length preview then (''provider_unavailable'', pending)
      else hub_request cancelled send_ok outcome request_id pending sender)"

datatype confirmation_decision =
  AllowOnce | AllowMcpServer15m | AllowMcpServer30m | DenyDecision | TimeoutDecision
| ProviderUnavailable | CallbackTokenInvalid | Expired

definition confirmation_decision_value :: "confirmation_decision \<Rightarrow> string" where
  "confirmation_decision_value d =
     (case d of AllowOnce \<Rightarrow> ''allow_once'' | AllowMcpServer15m \<Rightarrow> ''allow_mcp_server_15m''
      | AllowMcpServer30m \<Rightarrow> ''allow_mcp_server_30m'' | DenyDecision \<Rightarrow> ''deny''
      | TimeoutDecision \<Rightarrow> ''timeout'' | ProviderUnavailable \<Rightarrow> ''provider_unavailable''
      | CallbackTokenInvalid \<Rightarrow> ''callback_token_invalid'' | Expired \<Rightarrow> ''expired'')"

subsection \<open>Temporary permissions\<close>

record temporary_mcp_allow =
  allow_agent :: string
  allow_server :: string
  allow_expires :: int

definition minute :: int where
  "minute = 60000000000"

definition temporary_mcp_allowed ::
    "int \<Rightarrow> string \<Rightarrow> string \<Rightarrow> temporary_mcp_allow list \<Rightarrow> bool \<times> temporary_mcp_allow list" where
  "temporary_mcp_allowed now agent server allows =
     (let kept = filter (\<lambda>a. now < allow_expires a) allows
      in (list_ex (\<lambda>a. allow_agent a = agent \<and> allow_server a = server) kept, kept))"

definition add_temporary_mcp_allow ::
    "int \<Rightarrow> int \<Rightarrow> int \<Rightarrow> string \<Rightarrow> string \<Rightarrow> temporary_mcp_allow list \<Rightarrow> temporary_mcp_allow list" where
  "add_temporary_mcp_allow now later minutes agent server allows =
     filter (\<lambda>a. \<not> (allow_agent a = agent \<and> allow_server a = server))
       (filter (\<lambda>a. later < allow_expires a) allows)
     @ [\<lparr>allow_agent = agent, allow_server = server, allow_expires = now + minutes * minute\<rparr>]"

text \<open>The channels of a request for an MCP call; the cancellation flag is read before each.\<close>

fun request_mcp_confirmation ::
    "(confirmation_channel \<Rightarrow> bool) \<Rightarrow> (confirmation_channel \<Rightarrow> string) \<Rightarrow> confirmation_channel list \<Rightarrow> string" where
  "request_mcp_confirmation cancelled answer [] = ''provider_unavailable''"
| "request_mcp_confirmation cancelled answer (c # cs) =
     (if cancelled c then ''cancelled''
      else if answer c = ''cancelled'' \<or> answer c \<noteq> ''provider_unavailable'' then answer c
      else request_mcp_confirmation cancelled answer cs)"

record mcp_world =
  mcp_cancelled :: bool
  channel_cancelled :: "confirmation_channel \<Rightarrow> bool"
  mcp_answer :: "confirmation_channel \<Rightarrow> string"
  now_check :: int
  now_grant :: int
  now_retain :: int

definition grant_by_decision ::
    "mcp_world \<Rightarrow> string \<Rightarrow> string \<Rightarrow> string \<Rightarrow> temporary_mcp_allow list \<Rightarrow> temporary_mcp_allow list" where
  "grant_by_decision w agent server decision allows =
     (if decision = ''allow_mcp_server_15m''
      then add_temporary_mcp_allow (now_grant w) (now_retain w) 15 agent server allows
      else if decision = ''allow_mcp_server_30m''
      then add_temporary_mcp_allow (now_grant w) (now_retain w) 30 agent server allows
      else allows)"

definition authorize_mcp_tool_call ::
    "mcp_world \<Rightarrow> confirmation_channel list \<Rightarrow> string \<Rightarrow> string \<Rightarrow> temporary_mcp_allow list \<Rightarrow>
     string \<times> temporary_mcp_allow list" where
  "authorize_mcp_tool_call w channels agent server allows =
     (case temporary_mcp_allowed (now_check w) agent server allows of (allowed, kept) \<Rightarrow>
        if allowed then (''temporary_mcp_allow'', kept)
        else if mcp_cancelled w then (''cancelled'', kept)
        else
          let decision = request_mcp_confirmation (channel_cancelled w) (mcp_answer w) channels
          in (decision, grant_by_decision w agent server decision kept))"

definition authorize_mcp_batch ::
    "mcp_world \<Rightarrow> confirmation_channel list \<Rightarrow> string \<Rightarrow> nat \<Rightarrow> string option \<Rightarrow>
     temporary_mcp_allow list \<Rightarrow> string \<times> temporary_mcp_allow list" where
  "authorize_mcp_batch w channels agent items temporary_server allows =
     (if items = 0 then (''temporary_mcp_allow'', allows)
      else if mcp_cancelled w then (''cancelled'', allows)
      else
        let decision = request_mcp_confirmation (channel_cancelled w) (mcp_answer w) channels
        in (decision,
            case temporary_server of None \<Rightarrow> allows
            | Some server \<Rightarrow> grant_by_decision w agent server decision allows))"

subsection \<open>Properties\<close>

lemma request_confirmation_result:
  "request_confirmation answer cs = r \<Longrightarrow> r \<noteq> ''provider_unavailable'' \<Longrightarrow> \<exists>c \<in> set cs. answer c = r"
  by (induction cs) (auto split: if_splits)

lemma operation_authorized:
  assumes "authorize_operation_cancellable w configured acquisition dflt decision strict = Inr auth"
  shows "\<not> cancelled_before w \<and>
    (if approved auth
     then (\<exists>c. asked_answer w c = ''allow_once'') \<or> (decision = Confirm \<and> (\<exists>c. policy_answer w c = ''allow_once''))
     else decision = Allow)"
proof -
  have ask: "request_confirmation answer cs = ''allow_once'' \<Longrightarrow> \<exists>c. answer c = ''allow_once''" for answer cs
    using request_confirmation_result [of answer cs "''allow_once''"] by auto
  show ?thesis
    using assms ask
    by (auto simp: authorize_operation_cancellable_def decide_operation_def approved_once_def Let_def
        split: if_splits policy_decision.splits option.splits)
qed

text \<open>C35.
  An operation is authorised only by the policy or by the user: if it may run, it was not
  cancelled, and either the policy allows it and no approval is claimed, or some channel of
  the request answered that it is allowed once; where the policy denies it, that channel was
  asked at the request of the caller.
\<close>

theorem authorized_by_policy_or_user:
  assumes "authorize_operation_cancellable w configured acquisition dflt decision strict = Inr auth"
  shows "\<not> cancelled_before w \<and>
    (if approved auth
     then (\<exists>c. asked_answer w c = ''allow_once'') \<or> (decision = Confirm \<and> (\<exists>c. policy_answer w c = ''allow_once''))
     else decision = Allow)"
  using assms by (rule operation_authorized)

lemma authorized_by_policy_or_user_witness:
  "\<exists>c. (\<lambda>_. ''allow_once'') c = ''allow_once''"
proof -
  let ?w = "\<lparr>asked_answer = (\<lambda>_. ''deny''), policy_answer = (\<lambda>_. ''allow_once''), cancelled_before = False,
    cancelled_asked = False, cancelled_policy = False\<rparr>"
  have "authorize_operation_cancellable ?w [Ntfy] None False Confirm False = Inr (approved_once ''allow_once'')"
    by code_simp
  from authorized_by_policy_or_user [OF this] show ?thesis by (simp add: approved_once_def)
qed

text \<open>
  A request of the caller that the user denies stops the operation, even one that the policy
  allows; a request that is answered by no one leaves a denied operation denied.
\<close>

theorem asked_denial_stops:
  assumes "acquisition = Some a" and "effective_acquire dflt a"
    and "request_confirmation (asked_answer w)
           (confirmation_channels configured (map_option method_string (acquire_method a))) = r"
    and "r \<noteq> ''allow_once''"
    and "decision = Deny \<or> r \<notin> {''timeout'', ''expired'', ''provider_unavailable''}"
  shows "\<exists>e. authorize_operation_cancellable w configured acquisition dflt decision strict = Inl e"
  using assms by (auto simp: authorize_operation_cancellable_def decide_operation_def Let_def)

lemma asked_denial_stops_witness:
  "\<exists>e. authorize_operation_cancellable
     \<lparr>asked_answer = (\<lambda>_. ''deny''), policy_answer = (\<lambda>_. ''allow_once''), cancelled_before = False,
       cancelled_asked = False, cancelled_policy = False\<rparr> [Ntfy]
     (Some \<lparr>acquire = Some True, acquire_method = None, read_scope = [], write_scope = []\<rparr>) False Allow False
     = Inl e"
  by (rule asked_denial_stops [OF refl, where r = "''deny''"]) (simp_all add: effective_acquire_def confirmation_channels_def)

text \<open>
  A finished request to the hub leaves no entry behind: the pending requests are what they
  were, whatever the outcome.
\<close>

theorem hub_request_no_leak:
  assumes "request_id \<notin> dom pending"
  shows "snd (hub_preview_request preview cancelled send_ok outcome request_id pending sender) = pending"
  using assms by (auto simp: hub_preview_request_def hub_request_def Let_def fun_upd_idem domIff)

lemma hub_request_no_leak_witness:
  "snd (hub_preview_request [] False True (Answered ''deny'') ''r'' (Map.empty(''q'' \<mapsto> (1::nat))) 2) =
    Map.empty(''q'' \<mapsto> (1::nat))"
  by (rule hub_request_no_leak) simp

text \<open>
  A temporary permission lasts for its minutes and is only for its agent and its server: right
  after it is granted, another server is permitted exactly if it was, and its own server is
  permitted exactly until the permission expires.
\<close>

theorem temporary_allow_scope:
  "fst (temporary_mcp_allowed t agent' server' (add_temporary_mcp_allow now later minutes agent server allows)) =
    (if agent' = agent \<and> server' = server then t < now + minutes * minute
     else fst (temporary_mcp_allowed t agent' server' (filter (\<lambda>a. later < allow_expires a) allows)))"
  by (auto simp: temporary_mcp_allowed_def add_temporary_mcp_allow_def Let_def list_ex_iff)

text \<open>
  An MCP call runs without a new question only under a permission for its own agent and
  server that has not expired; a call that is answered otherwise grants a permission only
  for its own agent and server.
\<close>

theorem mcp_call_permission:
  "(fst (authorize_mcp_tool_call w channels agent server allows) = ''temporary_mcp_allow'' \<longrightarrow>
      (\<exists>a \<in> set allows. allow_agent a = agent \<and> allow_server a = server \<and> now_check w < allow_expires a)
      \<or> (\<exists>c \<in> set channels. mcp_answer w c = ''temporary_mcp_allow'')) \<and>
   (\<forall>a \<in> set (snd (authorize_mcp_tool_call w channels agent server allows)).
      a \<in> set allows \<or> (allow_agent a = agent \<and> allow_server a = server))"
proof -
  have ans: "request_mcp_confirmation cancelled answer cs = ''temporary_mcp_allow'' \<Longrightarrow>
      \<exists>c \<in> set cs. answer c = ''temporary_mcp_allow''" for cancelled answer cs
    by (induction cs) (auto split: if_splits)
  show ?thesis
    using ans
    by (auto simp: authorize_mcp_tool_call_def temporary_mcp_allowed_def Let_def list_ex_iff
        grant_by_decision_def add_temporary_mcp_allow_def split: if_splits)
qed

lemma mcp_call_permission_witness:
  "\<exists>a \<in> set [\<lparr>allow_agent = ''a'', allow_server = ''s'', allow_expires = 9\<rparr>].
     allow_agent a = ''a'' \<and> allow_server a = ''s'' \<and> (5::int) < allow_expires a"
proof -
  let ?w = "\<lparr>mcp_cancelled = False, channel_cancelled = (\<lambda>_. False), mcp_answer = (\<lambda>_. ''deny''),
    now_check = 5, now_grant = 5, now_retain = 5\<rparr>"
  have "fst (authorize_mcp_tool_call ?w [Ntfy] ''a'' ''s''
      [\<lparr>allow_agent = ''a'', allow_server = ''s'', allow_expires = 9\<rparr>]) = ''temporary_mcp_allow''"
    by code_simp
  with mcp_call_permission [of ?w "[Ntfy]" "''a''" "''s''"
      "[\<lparr>allow_agent = ''a'', allow_server = ''s'', allow_expires = 9\<rparr>]"]
  show ?thesis by simp
qed

end
