(* ===== verification/Utf8.thy ===== *)
theory Utf8
  imports Prelude
begin

text \<open>
  UTF-8 as \<^verbatim>\<open>String\<close> and \<^verbatim>\<open>str::from_utf8\<close> of the standard library have it:
  the encoding of scalar values, its strict decoding, and how far a sequence of bytes is valid.
\<close>

subsection \<open>UTF-8\<close>

definition is_scalar :: "int \<Rightarrow> bool" where
  "is_scalar c \<longleftrightarrow> 0 \<le> c \<and> c < 1114112 \<and> \<not> (55296 \<le> c \<and> c < 57344)"

definition encode_char :: "int \<Rightarrow> int list" where
  "encode_char c =
     (if c < 128 then [c]
      else if c < 2048 then [192 + c div 64, 128 + c mod 64]
      else if c < 65536 then [224 + c div 4096, 128 + c div 64 mod 64, 128 + c mod 64]
      else [240 + c div 262144, 128 + c div 4096 mod 64, 128 + c div 64 mod 64, 128 + c mod 64])"

definition utf8 :: "rstr \<Rightarrow> int list" where
  "utf8 s = concat (map encode_char s)"

text \<open>The character its first byte announces; it counts when it is what it encodes to.\<close>

definition byte_at :: "int list \<Rightarrow> nat \<Rightarrow> int" where
  "byte_at bs i = (if i < length bs then bs ! i else 0)"

definition lead_char :: "int list \<Rightarrow> int \<times> nat" where
  "lead_char bs =
     (let b = byte_at bs 0; c = byte_at bs 1 - 128; d = byte_at bs 2 - 128; e = byte_at bs 3 - 128 in
      if b < 128 then (b, 1)
      else if b < 224 then ((b - 192) * 64 + c, 2)
      else if b < 240 then ((b - 224) * 4096 + c * 64 + d, 3)
      else ((b - 240) * 262144 + c * 4096 + d * 64 + e, 4))"

function decode_utf8 :: "int list \<Rightarrow> rstr option" where
  "decode_utf8 bs =
     (if bs = [] then Some []
      else case lead_char bs of (c, n) \<Rightarrow>
        if is_scalar c \<and> take n bs = encode_char c then map_option ((#) c) (decode_utf8 (drop n bs))
        else None)"
  by pat_completeness auto
termination
  by (relation "measure length") (auto simp: lead_char_def Let_def split: if_splits)

declare decode_utf8.simps [simp del]

lemma base64_digits:
  fixes c :: int
  shows "c div 4096 * 4096 + c div 64 mod 64 * 64 + c mod 64 = c"
    and "c div 262144 * 262144 + c div 4096 mod 64 * 4096 + c div 64 mod 64 * 64 + c mod 64 = c"
proof -
  have digit: "x div 64 * 64 + x mod 64 = x" for x :: int by simp
  have div: "c div 4096 = c div 64 div 64" "c div 262144 = c div 64 div 64 div 64"
    by (simp_all add: zdiv_zmult2_eq [symmetric])
  show 3: "c div 4096 * 4096 + c div 64 mod 64 * 64 + c mod 64 = c"
    using digit [of c] digit [of "c div 64"] div by linarith
  show "c div 262144 * 262144 + c div 4096 mod 64 * 4096 + c div 64 mod 64 * 64 + c mod 64 = c"
    using 3 digit [of "c div 64 div 64"] unfolding div by linarith
qed

lemma lead_encode:
  assumes "is_scalar c"
  shows "lead_char (encode_char c @ bs) = (c, length (encode_char c))"
proof -
  have c: "0 \<le> c" "c < 1114112" using assms by (auto simp: is_scalar_def)
  consider "c < 128" | "128 \<le> c" "c < 2048" | "2048 \<le> c" "c < 65536" | "65536 \<le> c" by linarith
  then show ?thesis
  proof cases
    case 1
    then show ?thesis by (simp add: encode_char_def lead_char_def byte_at_def)
  next
    case 2
    then have "0 \<le> c div 64" "c div 64 < 32" by linarith+
    then show ?thesis using 2 by (simp add: encode_char_def lead_char_def byte_at_def Let_def)
  next
    case 3
    define x y z where "x = c div 4096" and "y = c div 64 mod 64" and "z = c mod 64"
    then have enc: "encode_char c = [224 + x, 128 + y, 128 + z]" using 3 by (simp add: encode_char_def)
    have "0 \<le> x" "x < 16" unfolding x_def using 3 by linarith+
    moreover have "x * 4096 + y * 64 + z = c" unfolding x_def y_def z_def by (rule base64_digits)
    ultimately show ?thesis unfolding enc by (simp add: lead_char_def byte_at_def Let_def)
  next
    case 4
    define w x y z where "w = c div 262144" and "x = c div 4096 mod 64" and "y = c div 64 mod 64" and "z = c mod 64"
    have "\<not> c < 128" "\<not> c < 2048" "\<not> c < 65536" using 4 by linarith+
    then have enc: "encode_char c = [240 + w, 128 + x, 128 + y, 128 + z]"
      unfolding encode_char_def w_def x_def y_def z_def by (simp only: if_False)
    have "0 \<le> w" unfolding w_def using 4 by linarith
    moreover have "w * 262144 + x * 4096 + y * 64 + z = c"
      unfolding w_def x_def y_def z_def by (rule base64_digits)
    ultimately show ?thesis unfolding enc by (simp add: lead_char_def byte_at_def Let_def)
  qed
qed

lemma decode_encode: "list_all is_scalar s \<Longrightarrow> decode_utf8 (utf8 s) = Some s"
proof (induction s)
  case (Cons c s)
  have "utf8 (c # s) \<noteq> []" by (simp add: utf8_def encode_char_def)
  then show ?case using Cons lead_encode [of c "utf8 s"]
    by (subst decode_utf8.simps) (simp add: utf8_def)
qed (simp add: utf8_def decode_utf8.simps)

text \<open>Decoding is strict: what decodes is the encoding of its result.\<close>

lemma encode_decode:
  "decode_utf8 bs = Some s \<Longrightarrow> utf8 s = bs \<and> list_all is_scalar s"
proof (induction bs arbitrary: s rule: decode_utf8.induct)
  case (1 bs)
  show ?case
  proof (cases "bs = []")
    case True
    with "1.prems" show ?thesis by (simp add: decode_utf8.simps utf8_def)
  next
    case False
    obtain c n where l: "lead_char bs = (c, n)" by fastforce
    with "1.prems" False have c: "is_scalar c" "take n bs = encode_char c"
      and "map_option ((#) c) (decode_utf8 (drop n bs)) = Some s"
      by (subst (asm) decode_utf8.simps, simp split: if_splits)+
    then obtain t where t: "decode_utf8 (drop n bs) = Some t" "s = c # t" by auto
    have "utf8 t = drop n bs \<and> list_all is_scalar t"
      using "1.IH" [OF False l [symmetric] _ t(1)] c by simp
    moreover have "utf8 (c # t) = encode_char c @ utf8 t" by (simp add: utf8_def)
    ultimately show ?thesis using c t(2) append_take_drop_id [of n bs] by simp
  qed
qed

lemma utf8_simps [simp]: "utf8 [] = []" "utf8 (s @ t) = utf8 s @ utf8 t" "utf8 (c # s) = encode_char c @ utf8 s"
  by (simp_all add: utf8_def)

lemma length_encode_char: "length (encode_char c) = char_utf8_len c"
  by (simp add: encode_char_def char_utf8_len_def)

lemma length_utf8: "length (utf8 s) = byte_len s"
  by (induction s) (simp_all add: length_encode_char)

text \<open>\<^verbatim>\<open>str::from_utf8\<close>: the text, or the number of leading bytes that are valid.\<close>

function valid_up_to :: "int list \<Rightarrow> nat" where
  "valid_up_to bs =
     (if bs = [] then 0
      else case lead_char bs of (c, n) \<Rightarrow>
        if is_scalar c \<and> take n bs = encode_char c then n + valid_up_to (drop n bs) else 0)"
  by pat_completeness auto
termination
  by (relation "measure length") (auto simp: lead_char_def Let_def split: if_splits)

declare valid_up_to.simps [simp del]

definition from_utf8 :: "int list \<Rightarrow> nat + rstr" where
  "from_utf8 bs = (case decode_utf8 bs of Some s \<Rightarrow> Inr s | None \<Rightarrow> Inl (valid_up_to bs))"

lemma valid_prefix:
  "\<exists>s. decode_utf8 (take (valid_up_to bs) bs) = Some s \<and> valid_up_to bs \<le> length bs"
proof (induction bs rule: valid_up_to.induct)
  case (1 bs)
  obtain c n where l: "lead_char bs = (c, n)" by fastforce
  show ?case
  proof (cases "bs \<noteq> [] \<and> is_scalar c \<and> take n bs = encode_char c")
    case True
    then obtain s where s: "decode_utf8 (take (valid_up_to (drop n bs)) (drop n bs)) = Some s"
      and le: "valid_up_to (drop n bs) \<le> length (drop n bs)"
      using "1.IH" [OF _ l [symmetric]] by auto
    have v: "valid_up_to bs = n + valid_up_to (drop n bs)"
      using True l by (subst valid_up_to.simps) simp
    have "length (take n bs) \<noteq> 0" using True length_encode_char [of c] by (simp add: char_utf8_len_def)
    then have n: "n \<le> length bs"
    proof -
      have "n = length (encode_char c)" using True l lead_encode [of c "drop n bs"] by (metis Pair_inject append_take_drop_id)
      then show ?thesis using True by (metis length_take min.cobounded1)
    qed
    have enc: "utf8 s = take (valid_up_to (drop n bs)) (drop n bs)" "list_all is_scalar s" using encode_decode [OF s] by auto
    have "take (valid_up_to bs) bs = utf8 (c # s)"
      unfolding v using True enc(1) n by (simp add: take_add)
    then show ?thesis using decode_encode [of "c # s"] enc(2) True le n v by auto
  next
    case False
    then have "valid_up_to bs = 0" using l by (subst valid_up_to.simps) auto
    then show ?thesis by (simp add: decode_utf8.simps)
  qed
qed

lemma from_utf8_Inr: "from_utf8 bs = Inr s \<Longrightarrow> utf8 s = bs \<and> list_all is_scalar s"
  using encode_decode by (auto simp: from_utf8_def split: option.splits)

lemma from_utf8_encode: "list_all is_scalar s \<Longrightarrow> from_utf8 (utf8 s) = Inr s"
  by (simp add: from_utf8_def decode_encode)

lemma from_utf8_Inl:
  assumes "from_utf8 bs = Inl v"
  obtains s where "from_utf8 (take v bs) = Inr s" and "v \<le> length bs"
  using valid_prefix [of bs] assms by (auto simp: from_utf8_def split: option.splits)

end
