(* ===== verification/Process_Output.thy ===== *)
theory Process_Output
  imports Utf8
begin

text \<open>
  The output of a managed process (\<^verbatim>\<open>crates/agentic-gpt/src/process/managed.rs\<close>): the ring
  that keeps the last bytes of a stream with their offsets, and the pages a reader gets with a
  cursor and a budget. Base64 and the JSON form of cursors are arguments.
\<close>

subsection \<open>The ring\<close>

definition ring_capacity :: nat where "ring_capacity = 64 * 1024"

datatype reader_outcome = ReaderEof | ReaderFailed rstr

datatype ring_capture = NotStarted | Capturing | CaptureEof | CaptureFailed rstr

record output_ring =
  ring_data :: "int list"
  start_offset :: nat
  end_offset :: nat
  capture :: ring_capture

definition new_ring :: output_ring where
  "new_ring = \<lparr>ring_data = [], start_offset = 0, end_offset = 0, capture = NotStarted\<rparr>"

definition mark_started :: "output_ring \<Rightarrow> output_ring" where
  "mark_started r = r\<lparr>capture := Capturing\<rparr>"

text \<open>\<^verbatim>\<open>checked_add\<close> on 64 bits; old bytes are dropped from the front one by one.\<close>

definition u64_limit :: nat where "u64_limit = 2 ^ 64"

function drop_front :: "int list \<Rightarrow> int list" where
  "drop_front bs = (if length bs > ring_capacity then drop_front (tl bs) else bs)"
  by pat_completeness auto
termination by (relation "measure length") auto

declare drop_front.simps [simp del]

definition push_bytes :: "int list \<Rightarrow> output_ring \<Rightarrow> bool \<times> output_ring" where
  "push_bytes bytes r =
     (if end_offset r + length bytes \<ge> u64_limit
      then (False, r\<lparr>capture := CaptureFailed (lit ''output_offset_overflow'')\<rparr>)
      else let e = end_offset r + length bytes; d = drop_front (ring_data r @ bytes) in
        (True, r\<lparr>end_offset := e, ring_data := d, start_offset := e - length d\<rparr>))"

definition is_eof :: "output_ring \<Rightarrow> bool" where
  "is_eof r \<longleftrightarrow> capture r = CaptureEof"

definition failure :: "output_ring \<Rightarrow> rstr option" where
  "failure r = (case capture r of CaptureFailed e \<Rightarrow> Some e | _ \<Rightarrow> None)"

definition is_failed :: "output_ring \<Rightarrow> bool" where
  "is_failed r \<longleftrightarrow> (case capture r of CaptureFailed _ \<Rightarrow> True | _ \<Rightarrow> False)"

definition is_settled :: "output_ring \<Rightarrow> bool" where
  "is_settled r \<longleftrightarrow> is_eof r \<or> is_failed r"

definition finish_ring :: "reader_outcome \<Rightarrow> output_ring \<Rightarrow> output_ring" where
  "finish_ring outcome r =
     (if is_settled r then r
      else r\<lparr>capture := (case outcome of ReaderEof \<Rightarrow> CaptureEof | ReaderFailed e \<Rightarrow> CaptureFailed e)\<rparr>)"

definition abort_ring :: "rstr \<Rightarrow> output_ring \<Rightarrow> output_ring" where
  "abort_ring reason r = r\<lparr>capture := CaptureFailed reason\<rparr>"

definition capture_not_started :: "output_ring \<Rightarrow> bool" where
  "capture_not_started r \<longleftrightarrow> capture r = NotStarted"

definition ring_snapshot :: "output_ring \<Rightarrow> int list \<times> nat \<times> nat" where
  "ring_snapshot r = (ring_data r, start_offset r, end_offset r)"

text \<open>The reader: each read gives at most 4096 bytes, nothing at the end, or an error.\<close>

datatype read_result = ReadBytes "int list" | ReadError rstr

fun read_output :: "read_result list \<Rightarrow> output_ring \<Rightarrow> output_ring" where
  "read_output [] r = r"
| "read_output (ReadBytes [] # _) r = finish_ring ReaderEof r"
| "read_output (ReadBytes bytes # rs) r =
     (case push_bytes bytes r of
        (True, r') \<Rightarrow> read_output rs r'
      | (False, r') \<Rightarrow> finish_ring (ReaderFailed (lit ''output_offset_overflow'')) r')"
| "read_output (ReadError e # _) r = finish_ring (ReaderFailed (lit ''pipe_read_failed: '' @ e)) r"

text \<open>The end of a reader task, which is given two seconds; \<open>None\<close> when there is no task.\<close>

datatype reader_end = ReaderDone reader_outcome | ReaderTaskFailed rstr | ReaderTimedOut

definition settle_reader :: "reader_end option \<Rightarrow> output_ring \<Rightarrow> output_ring" where
  "settle_reader reader r =
     (case reader of
        None \<Rightarrow> if capture r = Capturing then abort_ring (lit ''reader_handle_missing'') r else r
      | Some (ReaderDone outcome) \<Rightarrow> finish_ring outcome r
      | Some (ReaderTaskFailed e) \<Rightarrow> finish_ring (ReaderFailed (lit ''reader_task_failed: '' @ e)) r
      | Some ReaderTimedOut \<Rightarrow> finish_ring (ReaderFailed (lit ''output_reader_did_not_converge'')) r)"

datatype capture_status = StatusNotStarted | StatusCapturing | StatusComplete | StatusIncomplete | StatusNotApplicable

definition capture_status_summary :: "output_ring \<Rightarrow> output_ring \<Rightarrow> capture_status" where
  "capture_status_summary out err =
     (let settled = is_settled out \<and> is_settled err in
      if settled \<and> (is_failed out \<or> is_failed err) then StatusIncomplete
      else if settled then StatusComplete
      else if capture_not_started out \<and> capture_not_started err then StatusNotStarted
      else StatusCapturing)"

definition capture_summary :: "output_ring \<Rightarrow> output_ring \<Rightarrow> capture_status \<times> rstr option" where
  "capture_summary out err =
     (let errors = (case failure out of None \<Rightarrow> [] | Some e \<Rightarrow> [lit ''stdout: '' @ e])
        @ (case failure err of None \<Rightarrow> [] | Some e \<Rightarrow> [lit ''stderr: '' @ e]) in
      (capture_status_summary out err, if errors = [] then None else Some (join (lit ''; '') errors)))"

subsection \<open>Texts within a budget\<close>

definition json_cost :: "rchar \<Rightarrow> nat" where
  "json_cost c =
     (if c \<in> {34, 92, 8, 9, 10, 12, 13} then 2 else if 0 \<le> c \<and> c \<le> 31 then 6 else char_utf8_len c)"

definition json_string_content_size :: "rstr \<Rightarrow> nat" where
  "json_string_content_size s = sum_list (map json_cost s)"

fun prefix_for_budget :: "nat \<Rightarrow> nat \<Rightarrow> rstr \<Rightarrow> rstr" where
  "prefix_for_budget budget used [] = []"
| "prefix_for_budget budget used (c # s) =
     (if used + json_cost c > budget then [] else c # prefix_for_budget budget (used + json_cost c) s)"

definition utf8_prefix_for_json_budget :: "rstr \<Rightarrow> nat \<Rightarrow> rstr" where
  "utf8_prefix_for_json_budget s budget = prefix_for_budget budget 0 s"

datatype output_encoding = EncodeUtf8 | EncodeBase64

definition base64_length :: "nat \<Rightarrow> nat" where
  "base64_length n = (n + 2) div 3 * 4"

fun shrink :: "nat \<Rightarrow> nat \<Rightarrow> nat" where
  "shrink budget 0 = 0"
| "shrink budget (Suc n) = (if base64_length (Suc n) > budget then shrink budget n else Suc n)"

text \<open>The encoding, the number of raw bytes, and what they take in JSON.\<close>

definition output_payload_plan :: "int list \<Rightarrow> nat \<Rightarrow> output_encoding \<times> nat \<times> nat" where
  "output_payload_plan data budget =
     (if data = [] \<or> budget = 0 then (EncodeUtf8, 0, 0)
      else let text_plan = (\<lambda>s. let p = utf8_prefix_for_json_budget s budget in
               (EncodeUtf8, byte_len p, json_string_content_size p)) in
        case from_utf8 data of
          Inr s \<Rightarrow> text_plan s
        | Inl v \<Rightarrow>
            if v > 0 then (case from_utf8 (take v data) of Inr s \<Rightarrow> text_plan s | Inl _ \<Rightarrow> (EncodeUtf8, 0, 0))
            else let n = shrink budget (min (budget div 4 * 3) (length data)) in
              (EncodeBase64, n, base64_length n))"

datatype output_error = SnapshotInvalid | CursorAhead | CursorEncodeFailed | OutputPanic

text \<open>A planned prefix that is not UTF-8 would be a panic.\<close>

definition encode_output_prefix :: "(int list \<Rightarrow> rstr) \<Rightarrow> int list \<Rightarrow> output_encoding \<Rightarrow> nat \<Rightarrow> output_error + rstr" where
  "encode_output_prefix b64_encode data enc n =
     (case enc of
        EncodeUtf8 \<Rightarrow> (case from_utf8 (take n data) of Inr s \<Rightarrow> Inr s | Inl _ \<Rightarrow> Inl OutputPanic)
      | EncodeBase64 \<Rightarrow> Inr (b64_encode (take n data)))"

subsection \<open>Segments and pages\<close>

text \<open>Offsets are sent as decimal numbers.\<close>

record output_segment =
  seg_data :: rstr
  seg_start :: nat
  seg_end :: nat
  seg_encoding :: output_encoding
  seg_gap :: "(nat \<times> nat) option"

definition output_segment_for_json_budget ::
    "(int list \<Rightarrow> rstr) \<Rightarrow> int list \<times> nat \<times> nat \<Rightarrow> nat \<Rightarrow> nat \<Rightarrow> output_error + output_segment \<times> nat \<times> nat" where
  "output_segment_for_json_budget b64_encode snap requested budget =
     (case snap of (data, retained, e) \<Rightarrow>
        if retained > e \<or> e - retained \<noteq> length data then Inl SnapshotInvalid
        else if requested > e then Inl CursorAhead
        else let data_start = max requested retained;
                 gap = (if requested < retained then Some (requested, retained) else None);
                 available = drop (data_start - retained) data in
          case output_payload_plan available budget of (enc, n, used) \<Rightarrow>
            rbind (encode_output_prefix b64_encode available enc n) (\<lambda>payload.
              Inr (\<lparr>seg_data = payload, seg_start = data_start, seg_end = data_start + n,
                seg_encoding = enc, seg_gap = gap\<rparr>, data_start + n, used)))"

record process_cursor =
  cursor_version :: nat
  cursor_process :: rstr
  stdout_offset :: nat
  stderr_offset :: nat

record output_page =
  page_stdout :: output_segment
  page_stderr :: output_segment
  next_cursor :: rstr
  has_more :: bool
  page_eof :: bool

type_synonym two_streams = "(int list \<times> nat \<times> nat) \<times> (int list \<times> nat \<times> nat)"

definition stream_available :: "int list \<times> nat \<times> nat \<Rightarrow> nat \<Rightarrow> bool" where
  "stream_available snap offset = (case snap of (_, retained, e) \<Rightarrow> e > max offset retained)"

definition stream_budgets :: "bool \<Rightarrow> bool \<Rightarrow> nat \<Rightarrow> nat \<times> nat" where
  "stream_budgets out err budget =
     (if out \<and> err then (budget div 2, budget - budget div 2)
      else if out then (budget, 0) else if err then (0, budget) else (0, 0))"

definition output_page_for_json_budget ::
    "(int list \<Rightarrow> rstr) \<Rightarrow> (process_cursor \<Rightarrow> rstr option) \<Rightarrow> two_streams \<Rightarrow> rstr \<Rightarrow> process_cursor \<Rightarrow> capture_status \<Rightarrow> nat \<Rightarrow>
     output_error + output_page \<times> nat" where
  "output_page_for_json_budget b64_encode encode snaps pid cursor status budget =
     (case snaps of (out, err) \<Rightarrow>
      case stream_budgets (stream_available out (stdout_offset cursor)) (stream_available err (stderr_offset cursor)) budget of
        (out_budget, err_budget) \<Rightarrow>
      rbind (output_segment_for_json_budget b64_encode out (stdout_offset cursor) out_budget) (\<lambda>(seg_out, next_out, used_out).
      rbind (output_segment_for_json_budget b64_encode err (stderr_offset cursor) err_budget) (\<lambda>(seg_err, next_err, used_err).
      let more = next_out < snd (snd out) \<or> next_err < snd (snd err) in
      rbind (ok_or CursorEncodeFailed (encode \<lparr>cursor_version = 1, cursor_process = pid,
          stdout_offset = next_out, stderr_offset = next_err\<rparr>)) (\<lambda>next.
        Inr (\<lparr>page_stdout = seg_out, page_stderr = seg_err, next_cursor = next, has_more = more,
          page_eof = (\<not> more \<and> status \<in> {StatusComplete, StatusNotApplicable})\<rparr>, used_out + used_err)))))"

definition decode_output_cursor :: "(rstr \<Rightarrow> process_cursor option) \<Rightarrow> rstr \<Rightarrow> rstr \<Rightarrow> process_cursor option" where
  "decode_output_cursor decode encoded pid =
     (if byte_len encoded > 2048 then None
      else case decode encoded of
        None \<Rightarrow> None
      | Some c \<Rightarrow> if cursor_version c \<noteq> 1 \<or> cursor_process c \<noteq> pid then None else Some c)"

subsection \<open>The ring keeps the end of the stream\<close>

lemma drop_front_eq: "drop_front bs = drop (length bs - ring_capacity) bs"
proof (induction bs rule: drop_front.induct)
  case (1 bs)
  show ?case
  proof (cases "length bs > ring_capacity")
    case True
    then obtain b bs' where bs: "bs = b # bs'" by (cases bs) auto
    have "drop_front bs = drop (length bs' - ring_capacity) bs'"
      using 1 True bs by (subst drop_front.simps) simp
    also have "\<dots> = drop (length bs - ring_capacity) bs" using True bs by (simp add: Suc_diff_le)
    finally show ?thesis .
  next
    case False
    then show ?thesis by (subst drop_front.simps) simp
  qed
qed

text \<open>The ring holds the end of the stream that went through it.\<close>

definition ring_holds :: "output_ring \<Rightarrow> int list \<Rightarrow> bool" where
  "ring_holds r stream \<longleftrightarrow>
     ring_data r = drop (length stream - ring_capacity) stream \<and> end_offset r = length stream \<and>
     start_offset r = length stream - ring_capacity \<and> length stream < u64_limit"

lemma ring_holds_new: "ring_holds new_ring []"
  by (simp add: ring_holds_def new_ring_def u64_limit_def)

lemma ring_holds_push:
  assumes "ring_holds r stream" and "length stream + length bytes < u64_limit"
  shows "fst (push_bytes bytes r)" "ring_holds (snd (push_bytes bytes r)) (stream @ bytes)"
    "capture (snd (push_bytes bytes r)) = capture r"
proof -
  let ?n = "length stream - ring_capacity"
  have eq: "drop ?n stream @ bytes = drop ?n (stream @ bytes)" by simp
  have d: "drop_front (drop ?n stream @ bytes) = drop (length (stream @ bytes) - ring_capacity) (stream @ bytes)"
    unfolding eq drop_front_eq drop_drop by (rule arg_cong [where f = "\<lambda>n. drop n (stream @ bytes)"]) auto
  show "fst (push_bytes bytes r)" "ring_holds (snd (push_bytes bytes r)) (stream @ bytes)"
    "capture (snd (push_bytes bytes r)) = capture r"
    using assms d by (auto simp: ring_holds_def push_bytes_def Let_def)
qed

lemma ring_holds_capture: "ring_holds (r\<lparr>capture := c\<rparr>) stream = ring_holds r stream"
  by (simp add: ring_holds_def)

fun stream_of :: "read_result list \<Rightarrow> int list" where
  "stream_of (ReadBytes (b # bs) # rs) = (b # bs) @ stream_of rs"
| "stream_of _ = []"

lemma ring_holds_read:
  assumes "ring_holds r stream" and "length stream + length (stream_of rs) < u64_limit"
  shows "ring_holds (read_output rs r) (stream @ stream_of rs)"
  using assms
proof (induction rs r arbitrary: stream rule: read_output.induct)
  case (3 b bs rs r)
  note push = ring_holds_push [OF "3.prems"(1), of "b # bs"]
  obtain r' where p: "push_bytes (b # bs) r = (True, r')" and holds: "ring_holds r' (stream @ b # bs)"
    using push "3.prems"(2) by (cases "push_bytes (b # bs) r") auto
  from "3.IH" [OF p [symmetric] _ holds] "3.prems"(2) p show ?case by simp
qed (auto simp: finish_ring_def ring_holds_capture)

text \<open>C25.
  Whatever chunks the output of a process arrives in, and however long it is (below 2^64
  bytes), the ring holds exactly its last 65536 bytes, with the offsets they have in the whole
  output.
\<close>

theorem ring_refines_stream:
  assumes "length (stream_of rs) < u64_limit"
  shows "ring_snapshot (read_output rs (mark_started new_ring)) =
    (drop (length (stream_of rs) - ring_capacity) (stream_of rs),
     length (stream_of rs) - ring_capacity, length (stream_of rs))"
proof -
  have "ring_holds (mark_started new_ring) []" by (simp add: mark_started_def ring_holds_capture ring_holds_new)
  from ring_holds_read [OF this, of rs] assms show ?thesis by (simp add: ring_holds_def ring_snapshot_def)
qed

lemma ring_refines_stream_witness:
  "ring_snapshot (read_output [ReadBytes [104, 105], ReadBytes [10], ReadBytes []] (mark_started new_ring)) = ([104, 105, 10], 0, 3)"
  using ring_refines_stream [of "[ReadBytes [104, 105], ReadBytes [10], ReadBytes []]"]
  by (simp add: u64_limit_def ring_capacity_def)

subsection \<open>Plans fit and make progress\<close>

lemma json_cost_bounds: "0 < json_cost c" "json_cost c \<le> 6"
  by (auto simp: json_cost_def char_utf8_len_def)

lemma json_string_content_size_simps [simp]:
  "json_string_content_size [] = 0" "json_string_content_size (c # s) = json_cost c + json_string_content_size s"
  by (simp_all add: json_string_content_size_def)

lemma prefix_for_budget_fits:
  "used \<le> budget \<Longrightarrow> (\<exists>t. s = prefix_for_budget budget used s @ t) \<and>
     used + json_string_content_size (prefix_for_budget budget used s) \<le> budget"
  by (induction budget used s rule: prefix_for_budget.induct) (auto simp: add.assoc)

lemma prefix_for_budget_nonempty: "s \<noteq> [] \<Longrightarrow> 6 \<le> budget \<Longrightarrow> prefix_for_budget budget 0 s \<noteq> []"
  using le_trans [OF json_cost_bounds(2)] by (cases s) (auto simp: not_le leD)

lemma shrink_fits: "shrink budget n \<le> n \<and> (budget = 0 \<or> base64_length (shrink budget n) \<le> budget)"
  by (induction budget n rule: shrink.induct) (auto simp: base64_length_def)

lemma shrink_positive: "4 \<le> budget \<Longrightarrow> 0 < n \<Longrightarrow> 0 < shrink budget n"
proof (induction budget n rule: shrink.induct)
  case (2 budget n)
  then show ?case by (cases n) (auto simp: base64_length_def)
qed simp

definition plan_ok :: "int list \<Rightarrow> nat \<Rightarrow> output_encoding \<times> nat \<times> nat \<Rightarrow> bool" where
  "plan_ok data budget plan \<longleftrightarrow>
     (case plan of (enc, n, used) \<Rightarrow>
        n \<le> length data \<and> used \<le> budget \<and> (data \<noteq> [] \<longrightarrow> 6 \<le> budget \<longrightarrow> 0 < n) \<and>
        (case enc of
           EncodeUtf8 \<Rightarrow> \<exists>s. from_utf8 (take n data) = Inr s \<and> json_string_content_size s = used
         | EncodeBase64 \<Rightarrow> base64_length n = used))"

lemma text_plan_ok:
  assumes "utf8 s @ rest = data" and "list_all is_scalar s" and "s \<noteq> []"
  shows "plan_ok data budget (EncodeUtf8, byte_len (utf8_prefix_for_json_budget s budget),
    json_string_content_size (utf8_prefix_for_json_budget s budget))"
proof -
  let ?p = "utf8_prefix_for_json_budget s budget"
  obtain t where t: "s = ?p @ t" and fits: "json_string_content_size ?p \<le> budget"
    using prefix_for_budget_fits [of 0 budget s] by (auto simp: utf8_prefix_for_json_budget_def)
  have data: "data = utf8 ?p @ (utf8 t @ rest)" using assms(1) t by (metis append.assoc utf8_simps(2))
  have take: "take (byte_len ?p) data = utf8 ?p" unfolding data by (simp add: length_utf8)
  have "list_all is_scalar ?p" using assms(2) t by (metis list_all_append)
  then have "from_utf8 (take (byte_len ?p) data) = Inr ?p" by (simp add: take from_utf8_encode)
  moreover have "byte_len ?p \<le> length data" unfolding data by (simp add: length_utf8)
  moreover have "0 < byte_len ?p" if "6 \<le> budget"
  proof -
    have "?p \<noteq> []" using prefix_for_budget_nonempty [OF assms(3) that] by (simp add: utf8_prefix_for_json_budget_def)
    then have "0 < length ?p" by simp
    with length_le_byte_len [of ?p] show ?thesis by linarith
  qed
  ultimately show ?thesis using fits by (simp add: plan_ok_def)
qed

lemma from_utf8_Nil [simp]: "from_utf8 [] = Inr []"
  by (simp add: from_utf8_def decode_utf8.simps)

lemma output_payload_plan_ok: "plan_ok data budget (output_payload_plan data budget)"
proof (cases "data = [] \<or> budget = 0")
  case True
  then show ?thesis by (auto simp: output_payload_plan_def plan_ok_def)
next
  case False
  show ?thesis
  proof (cases "from_utf8 data")
    case (Inr s)
    then have "utf8 s @ [] = data" "list_all is_scalar s" using from_utf8_Inr by auto
    moreover from this False have "s \<noteq> []" by auto
    ultimately show ?thesis using text_plan_ok [of s "[]" data budget] False Inr by (simp add: output_payload_plan_def Let_def)
  next
    case (Inl v)
    obtain s where s: "from_utf8 (take v data) = Inr s" "v \<le> length data" using from_utf8_Inl [OF Inl] .
    show ?thesis
    proof (cases "v > 0")
      case True
      have "utf8 s @ drop v data = data" "list_all is_scalar s" using from_utf8_Inr [OF s(1)] by auto
      moreover have "s \<noteq> []"
      proof
        assume "s = []"
        then have "take v data = []" using from_utf8_Inr [OF s(1)] by simp
        with True s(2) False show False by auto
      qed
      ultimately show ?thesis using text_plan_ok [of s "drop v data" data budget] False Inl True s(1) by (simp add: output_payload_plan_def Let_def)
    next
      case v: False
      let ?m = "min (budget div 4 * 3) (length data)"
      have "plan_ok data budget (EncodeBase64, shrink budget ?m, base64_length (shrink budget ?m))"
        using shrink_fits [of budget ?m] shrink_positive [of budget ?m] False by (auto simp: plan_ok_def)
      then show ?thesis using False Inl v by (simp add: output_payload_plan_def Let_def)
    qed
  qed
qed

subsection \<open>What a segment carries\<close>

definition segment_bytes :: "(rstr \<Rightarrow> int list option) \<Rightarrow> output_segment \<Rightarrow> int list option" where
  "segment_bytes b64_decode seg =
     (case seg_encoding seg of EncodeUtf8 \<Rightarrow> Some (utf8 (seg_data seg)) | EncodeBase64 \<Rightarrow> b64_decode (seg_data seg))"

definition snapshot_ok :: "int list \<times> nat \<times> nat \<Rightarrow> bool" where
  "snapshot_ok snap \<longleftrightarrow> (case snap of (data, retained, e) \<Rightarrow> retained + length data = e)"

lemma segment_reads:
  assumes "snapshot_ok (data, retained, e)" and "requested \<le> e" and codec: "\<And>bs. b64_decode (b64_encode bs) = Some bs"
  shows "\<exists>seg n used. output_segment_for_json_budget b64_encode (data, retained, e) requested budget =
      Inr (seg, max requested retained + n, used) \<and>
    seg_start seg = max requested retained \<and> seg_end seg = max requested retained + n \<and>
    seg_gap seg = (if requested < retained then Some (requested, retained) else None) \<and>
    n \<le> e - max requested retained \<and> used \<le> budget \<and>
    (max requested retained < e \<longrightarrow> 6 \<le> budget \<longrightarrow> 0 < n) \<and>
    segment_bytes b64_decode seg = Some (take n (drop (max requested retained - retained) data))"
proof -
  let ?avail = "drop (max requested retained - retained) data"
  obtain enc n used where plan: "output_payload_plan ?avail budget = (enc, n, used)" by (cases "output_payload_plan ?avail budget")
  have ok: "plan_ok ?avail budget (enc, n, used)" using output_payload_plan_ok [of ?avail budget] plan by simp
  obtain payload where payload: "encode_output_prefix b64_encode ?avail enc n = Inr payload"
    and bytes: "(case enc of EncodeUtf8 \<Rightarrow> Some (utf8 payload) | EncodeBase64 \<Rightarrow> b64_decode payload) = Some (take n ?avail)"
    using ok codec from_utf8_Inr by (cases enc) (auto simp: plan_ok_def encode_output_prefix_def)
  have len: "e - max requested retained = length ?avail" using assms(1) by (auto simp: snapshot_ok_def)
  have pos: "max requested retained < e \<Longrightarrow> ?avail \<noteq> []" using len by auto
  let ?seg = "\<lparr>seg_data = payload, seg_start = max requested retained, seg_end = max requested retained + n,
      seg_encoding = enc, seg_gap = (if requested < retained then Some (requested, retained) else None)\<rparr>"
  have run: "output_segment_for_json_budget b64_encode (data, retained, e) requested budget = Inr (?seg, max requested retained + n, used)"
    using assms(1,2) plan payload by (auto simp: output_segment_for_json_budget_def snapshot_ok_def Let_def)
  have "segment_bytes b64_decode ?seg = Some (take n ?avail)" using bytes by (cases enc) (simp_all add: segment_bytes_def)
  with run ok len pos show ?thesis
    by (intro exI [of _ ?seg] exI [of _ n] exI [of _ used]) (auto simp: plan_ok_def)
qed

lemma ring_snapshot_ok: "ring_holds r stream \<Longrightarrow> snapshot_ok (ring_snapshot r)"
  by (auto simp: ring_holds_def ring_snapshot_def snapshot_ok_def)

subsection \<open>A reader that follows the output\<close>

text \<open>
  Output arrives and pages are read in any order, with any budgets; the reader takes the
  cursor of each page for the next one, and notes what it got: bytes at an offset, or a gap.
\<close>

datatype follow_event = Arrives "int list" | ReadsPage nat

datatype piece = Piece nat "int list" | Lost nat nat

fun follow_output ::
    "(int list \<Rightarrow> rstr) \<Rightarrow> (rstr \<Rightarrow> int list option) \<Rightarrow> follow_event list \<Rightarrow> output_ring \<Rightarrow> nat \<Rightarrow> (piece list \<times> nat) option" where
  "follow_output b64_encode b64_decode [] r offset = Some ([], offset)"
| "follow_output b64_encode b64_decode (Arrives bytes # es) r offset =
     follow_output b64_encode b64_decode es (snd (push_bytes bytes r)) offset"
| "follow_output b64_encode b64_decode (ReadsPage budget # es) r offset =
     (case output_segment_for_json_budget b64_encode (ring_snapshot r) offset budget of
        Inl _ \<Rightarrow> None
      | Inr (seg, next, _) \<Rightarrow>
          (case segment_bytes b64_decode seg of
             None \<Rightarrow> None
           | Some bytes \<Rightarrow>
               map_option (\<lambda>(ps, n). ((case seg_gap seg of None \<Rightarrow> [] | Some (a, b) \<Rightarrow> [Lost a b]) @ Piece (seg_start seg) bytes # ps, n))
                 (follow_output b64_encode b64_decode es r next)))"

fun arrived :: "follow_event list \<Rightarrow> int list" where
  "arrived [] = []"
| "arrived (Arrives bytes # es) = bytes @ arrived es"
| "arrived (ReadsPage _ # es) = arrived es"

text \<open>The pieces cover the stream from one offset to another, in order and without overlap.\<close>

fun tiles :: "int list \<Rightarrow> nat \<Rightarrow> piece list \<Rightarrow> nat \<Rightarrow> bool" where
  "tiles stream a [] b \<longleftrightarrow> a = b \<and> b \<le> length stream"
| "tiles stream a (Piece s bytes # ps) b \<longleftrightarrow>
     s = a \<and> a + length bytes \<le> length stream \<and> bytes = take (length bytes) (drop a stream) \<and>
     tiles stream (a + length bytes) ps b"
| "tiles stream a (Lost s e # ps) b \<longleftrightarrow> s = a \<and> s < e \<and> tiles stream e ps b"

lemma follow_tiles:
  assumes codec: "\<And>bs. b64_decode (b64_encode bs) = Some bs"
    and "ring_holds r before" and "offset \<le> length before" and "length before + length (arrived es) < u64_limit"
  shows "\<exists>ps n. follow_output b64_encode b64_decode es r offset = Some (ps, n) \<and> tiles (before @ arrived es) offset ps n"
  using assms(2-)
proof (induction es arbitrary: r before offset)
  case Nil
  then show ?case by simp
next
  case (Cons e es)
  show ?case
  proof (cases e)
    case (Arrives bytes)
    have "ring_holds (snd (push_bytes bytes r)) (before @ bytes)"
      using ring_holds_push(2) [OF Cons.prems(1)] Cons.prems(3) Arrives by simp
    from Cons.IH [OF this, of offset] Cons.prems(2,3) Arrives show ?thesis by simp
  next
    case (ReadsPage budget)
    obtain data retained en where snap: "ring_snapshot r = (data, retained, en)" by (cases "ring_snapshot r")
    have en: "en = length before" and data: "data = drop retained before" and ret: "retained = length before - ring_capacity"
      using Cons.prems(1) snap by (auto simp: ring_holds_def ring_snapshot_def)
    have ok: "snapshot_ok (data, retained, en)" using ring_snapshot_ok [OF Cons.prems(1)] snap by simp
    have "offset \<le> en" using Cons.prems(2) en by simp
    let ?s = "max offset retained"
    obtain seg n used where seg: "output_segment_for_json_budget b64_encode (data, retained, en) offset budget = Inr (seg, ?s + n, used)"
      "seg_start seg = ?s" "seg_gap seg = (if offset < retained then Some (offset, retained) else None)"
      "n \<le> en - ?s" "segment_bytes b64_decode seg = Some (take n (drop (?s - retained) data))"
      using segment_reads [where b64_decode = b64_decode and b64_encode = b64_encode and budget = budget, OF ok \<open>offset \<le> en\<close> codec] by blast
    have le: "?s + n \<le> length before" using seg(4) en \<open>offset \<le> en\<close> ret by auto
    obtain ps m where rest: "follow_output b64_encode b64_decode es r (?s + n) = Some (ps, m)" "tiles (before @ arrived es) (?s + n) ps m"
      using Cons.IH [OF Cons.prems(1) le] Cons.prems(3) ReadsPage by auto
    let ?bytes = "take n (drop ?s before)"
    have bytes: "take n (drop (?s - retained) data) = ?bytes" by (simp add: data)
    have len: "length ?bytes = n" using le by simp
    have "tiles (before @ arrived es) ?s (Piece ?s ?bytes # ps) m" using rest(2) len le by simp
    then have "tiles (before @ arrived es) offset
        ((case seg_gap seg of None \<Rightarrow> [] | Some (a, b) \<Rightarrow> [Lost a b]) @ Piece ?s ?bytes # ps) m"
      using seg(3) by (cases "offset < retained") (simp_all add: max_def)
    with ReadsPage snap seg bytes rest(1) show ?thesis by simp
  qed
qed

text \<open>C15.
  A reader that follows the output of a process misses nothing silently: however output and
  reads interleave and whatever the budgets of the reads, every read succeeds, and what the
  reader got, bytes and announced gaps, covers the output from its first byte to the cursor
  in order, each byte exactly as it was written and at its offset.
\<close>

theorem reader_misses_nothing:
  assumes "\<And>bs. b64_decode (b64_encode bs) = Some bs" and "length (arrived es) < u64_limit"
  shows "\<exists>ps n. follow_output b64_encode b64_decode es (mark_started new_ring) 0 = Some (ps, n) \<and> tiles (arrived es) 0 ps n"
proof -
  have "ring_holds (mark_started new_ring) []" by (simp add: mark_started_def ring_holds_capture ring_holds_new)
  from follow_tiles [where b64_decode = b64_decode and b64_encode = b64_encode and es = es, OF assms(1) this] assms(2) show ?thesis by simp
qed

lemma reader_misses_nothing_witness:
  "\<exists>ps n. follow_output (\<lambda>bs. bs) Some [Arrives [104, 105], ReadsPage 1, Arrives [195], ReadsPage 10, ReadsPage 10]
      (mark_started new_ring) 0 = Some (ps, n) \<and> tiles [104, 105, 195] 0 ps n"
  using reader_misses_nothing [of Some "\<lambda>bs. bs" "[Arrives [104, 105], ReadsPage 1, Arrives [195], ReadsPage 10, ReadsPage 10]"]
  by (simp add: u64_limit_def)

subsection \<open>Reading to the end\<close>

text \<open>A client that asks for page after page with the cursor of the last one.\<close>

fun read_pages ::
    "(int list \<Rightarrow> rstr) \<Rightarrow> (rstr \<Rightarrow> int list option) \<Rightarrow> (process_cursor \<Rightarrow> rstr option) \<Rightarrow> (rstr \<Rightarrow> process_cursor option) \<Rightarrow>
     nat \<Rightarrow> two_streams \<Rightarrow> rstr \<Rightarrow> process_cursor \<Rightarrow> capture_status \<Rightarrow> nat \<Rightarrow> (int list \<times> int list \<times> bool) option" where
  "read_pages b64_encode b64_decode encode decode 0 snaps pid cursor status budget = None"
| "read_pages b64_encode b64_decode encode decode (Suc fuel) snaps pid cursor status budget =
     (case output_page_for_json_budget b64_encode encode snaps pid cursor status budget of
        Inl _ \<Rightarrow> None
      | Inr (page, _) \<Rightarrow>
          (case (segment_bytes b64_decode (page_stdout page), segment_bytes b64_decode (page_stderr page)) of
             (Some out, Some err) \<Rightarrow>
               if \<not> has_more page then Some (out, err, page_eof page)
               else (case decode_output_cursor decode (next_cursor page) pid of
                       None \<Rightarrow> None
                     | Some c \<Rightarrow> map_option (\<lambda>(out', err', e). (out @ out', err @ err', e))
                         (read_pages b64_encode b64_decode encode decode fuel snaps pid c status budget))
           | _ \<Rightarrow> None))"

text \<open>What is left of a stream after an offset.\<close>

definition left_of :: "int list \<times> nat \<times> nat \<Rightarrow> nat \<Rightarrow> int list" where
  "left_of snap offset = (case snap of (data, retained, _) \<Rightarrow> drop (max offset retained - retained) data)"

lemma segment_step:
  assumes "snapshot_ok snap" and "requested \<le> snd (snd snap)" and "\<And>bs. b64_decode (b64_encode bs) = Some bs"
  obtains seg nxt used bytes where "output_segment_for_json_budget b64_encode snap requested budget = Inr (seg, nxt, used)"
    and "segment_bytes b64_decode seg = Some bytes" and "bytes @ left_of snap nxt = left_of snap requested"
    and "used \<le> budget" and "nxt \<le> snd (snd snap)"
    and "stream_available snap requested \<Longrightarrow> 6 \<le> budget \<Longrightarrow> bytes \<noteq> []"
    and "nxt < snd (snd snap) \<longleftrightarrow> left_of snap nxt \<noteq> []"
proof -
  obtain data retained e where snap: "snap = (data, retained, e)" by (cases snap)
  let ?s = "max requested retained"
  have ok: "snapshot_ok (data, retained, e)" "requested \<le> e" using assms(1,2) snap by simp_all
  obtain seg n used where seg: "output_segment_for_json_budget b64_encode snap requested budget = Inr (seg, ?s + n, used)"
    "n \<le> e - ?s" "used \<le> budget" "?s < e \<longrightarrow> 6 \<le> budget \<longrightarrow> 0 < n"
    "segment_bytes b64_decode seg = Some (take n (drop (?s - retained) data))"
    using segment_reads [where b64_decode = b64_decode and b64_encode = b64_encode and budget = budget, OF ok assms(3)]
    unfolding snap by blast
  have e: "retained + length data = e" using assms(1) snap by (simp add: snapshot_ok_def)
  have "max (?s + n) retained - retained = n + (?s - retained)" by linarith
  then have left: "left_of snap (?s + n) = drop n (drop (?s - retained) data)" by (simp add: snap left_of_def add.commute)
  have requested: "left_of snap requested = drop (?s - retained) data" by (simp add: snap left_of_def)
  have le: "?s + n \<le> e" using seg(2) assms(2) e snap by auto
  show ?thesis
  proof (rule that [OF seg(1,5)])
    show "take n (drop (?s - retained) data) @ left_of snap (?s + n) = left_of snap requested"
      unfolding left requested by (rule append_take_drop_id)
    show "stream_available snap requested \<Longrightarrow> 6 \<le> budget \<Longrightarrow> take n (drop (?s - retained) data) \<noteq> []"
      using seg(4) e by (auto simp: snap stream_available_def max_def split: if_splits)
    show "?s + n < snd (snd snap) \<longleftrightarrow> left_of snap (?s + n) \<noteq> []"
      using le e unfolding left by (auto simp: snap)
  qed (use seg(3) le snap in simp_all)
qed

lemma stream_budgets_sum: "fst (stream_budgets a b budget) + snd (stream_budgets a b budget) \<le> budget"
  by (auto simp: stream_budgets_def)

lemma stream_available_iff: "snapshot_ok snap \<Longrightarrow> stream_available snap offset \<longleftrightarrow> left_of snap offset \<noteq> []"
  by (auto simp: snapshot_ok_def stream_available_def left_of_def max_def split: if_splits)

lemma page_step:
  assumes "snapshot_ok out" and "snapshot_ok err" and "stdout_offset cursor \<le> snd (snd out)" and "stderr_offset cursor \<le> snd (snd err)"
    and codec: "\<And>bs. b64_decode (b64_encode bs) = Some bs" 
    and enc: "\<And>a b. a \<le> snd (snd out) \<Longrightarrow> b \<le> snd (snd err) \<Longrightarrow>
      encode \<lparr>cursor_version = 1, cursor_process = pid, stdout_offset = a, stderr_offset = b\<rparr> \<noteq> None"
  obtains page used out_bytes err_bytes nxt where
    "output_page_for_json_budget b64_encode encode (out, err) pid cursor status budget = Inr (page, used)"
    and "used \<le> budget" and "segment_bytes b64_decode (page_stdout page) = Some out_bytes"
    and "segment_bytes b64_decode (page_stderr page) = Some err_bytes"
    and "out_bytes @ left_of out (stdout_offset nxt) = left_of out (stdout_offset cursor)"
    and "err_bytes @ left_of err (stderr_offset nxt) = left_of err (stderr_offset cursor)"
    and "stdout_offset nxt \<le> snd (snd out)" and "stderr_offset nxt \<le> snd (snd err)"
    and "encode nxt = Some (next_cursor page)" and "cursor_version nxt = 1" and "cursor_process nxt = pid"
    and "has_more page \<longleftrightarrow> left_of out (stdout_offset nxt) \<noteq> [] \<or> left_of err (stderr_offset nxt) \<noteq> []"
    and "page_eof page \<longleftrightarrow> \<not> has_more page \<and> status \<in> {StatusComplete, StatusNotApplicable}"
    and "12 \<le> budget \<Longrightarrow> has_more page \<Longrightarrow> out_bytes \<noteq> [] \<or> err_bytes \<noteq> []"
proof -
  let ?a = "stream_available out (stdout_offset cursor)" and ?b = "stream_available err (stderr_offset cursor)"
  obtain bo be where b: "stream_budgets ?a ?b budget = (bo, be)" by fastforce
  have sum: "bo + be \<le> budget" using stream_budgets_sum [of ?a ?b budget] b by simp
  obtain so no uo xo where o: "output_segment_for_json_budget b64_encode out (stdout_offset cursor) bo = Inr (so, no, uo)"
    "segment_bytes b64_decode so = Some xo" "xo @ left_of out no = left_of out (stdout_offset cursor)"
    "uo \<le> bo" "no \<le> snd (snd out)" "?a \<Longrightarrow> 6 \<le> bo \<Longrightarrow> xo \<noteq> []" "no < snd (snd out) \<longleftrightarrow> left_of out no \<noteq> []"
    using segment_step [where b64_decode = b64_decode and b64_encode = b64_encode and budget = bo, OF assms(1,3) codec] by blast
  obtain se ne ue xe where e: "output_segment_for_json_budget b64_encode err (stderr_offset cursor) be = Inr (se, ne, ue)"
    "segment_bytes b64_decode se = Some xe" "xe @ left_of err ne = left_of err (stderr_offset cursor)"
    "ue \<le> be" "ne \<le> snd (snd err)" "?b \<Longrightarrow> 6 \<le> be \<Longrightarrow> xe \<noteq> []" "ne < snd (snd err) \<longleftrightarrow> left_of err ne \<noteq> []"
    using segment_step [where b64_decode = b64_decode and b64_encode = b64_encode and budget = be, OF assms(2,4) codec] by blast
  let ?next = "\<lparr>cursor_version = 1, cursor_process = pid, stdout_offset = no, stderr_offset = ne\<rparr>"
  obtain coded where coded: "encode ?next = Some coded" using enc [OF o(5) e(5)] by blast
  let ?more = "no < snd (snd out) \<or> ne < snd (snd err)"
  let ?page = "\<lparr>page_stdout = so, page_stderr = se, next_cursor = coded, has_more = ?more,
      page_eof = (\<not> ?more \<and> status \<in> {StatusComplete, StatusNotApplicable})\<rparr>"
  have run: "output_page_for_json_budget b64_encode encode (out, err) pid cursor status budget = Inr (?page, uo + ue)"
    using b o(1) e(1) coded by (simp add: output_page_for_json_budget_def Let_def)
  have progress: "xo \<noteq> [] \<or> xe \<noteq> []" if "12 \<le> budget" "left_of out no \<noteq> [] \<or> left_of err ne \<noteq> []"
  proof -
    have "?a \<or> ?b" using that(2) o(3) e(3) stream_available_iff [OF assms(1)] stream_available_iff [OF assms(2)] by auto
    then have "(?a \<and> 6 \<le> bo) \<or> (?b \<and> 6 \<le> be)" using that(1) b by (auto simp: stream_budgets_def split: if_splits)
    then show ?thesis using o(6) e(6) by blast
  qed
  show ?thesis
    by (rule that [of ?page "uo + ue" xo xe ?next]) (use run o e sum coded progress in simp_all)
qed

text \<open>C34.
  A finished output is read completely in finitely many pages: from any cursor, with a budget
  of at least 12 bytes per page, a client that follows the cursors has everything that is
  retained of both streams after at most as many pages as bytes, exactly and in order, and the
  last page says whether the capture is complete.
\<close>

theorem pages_reach_the_end:
  assumes "snapshot_ok out" and "snapshot_ok err" and "stdout_offset cursor \<le> snd (snd out)" and "stderr_offset cursor \<le> snd (snd err)"
    and "\<And>bs. b64_decode (b64_encode bs) = Some bs"
    and "\<And>a b. a \<le> snd (snd out) \<Longrightarrow> b \<le> snd (snd err) \<Longrightarrow>
      (\<exists>t. encode \<lparr>cursor_version = 1, cursor_process = pid, stdout_offset = a, stderr_offset = b\<rparr> = Some t \<and> byte_len t \<le> 2048 \<and>
        decode t = Some \<lparr>cursor_version = 1, cursor_process = pid, stdout_offset = a, stderr_offset = b\<rparr>)" and "12 \<le> budget"
    and "length (left_of out (stdout_offset cursor)) + length (left_of err (stderr_offset cursor)) < fuel"
  shows "read_pages b64_encode b64_decode encode decode fuel (out, err) pid cursor status budget =
    Some (left_of out (stdout_offset cursor), left_of err (stderr_offset cursor), status \<in> {StatusComplete, StatusNotApplicable})"
  using assms(3,4,8)
proof (induction fuel arbitrary: cursor)
  case (Suc fuel)
  have enc: "encode \<lparr>cursor_version = 1, cursor_process = pid, stdout_offset = a, stderr_offset = b\<rparr> \<noteq> None"
    if "a \<le> snd (snd out)" "b \<le> snd (snd err)" for a b
    using assms(6) [OF that] by auto
  obtain page used xo xe nxt where p:
    "output_page_for_json_budget b64_encode encode (out, err) pid cursor status budget = Inr (page, used)"
    "used \<le> budget" "segment_bytes b64_decode (page_stdout page) = Some xo" "segment_bytes b64_decode (page_stderr page) = Some xe"
    "xo @ left_of out (stdout_offset nxt) = left_of out (stdout_offset cursor)"
    "xe @ left_of err (stderr_offset nxt) = left_of err (stderr_offset cursor)"
    "stdout_offset nxt \<le> snd (snd out)" "stderr_offset nxt \<le> snd (snd err)"
    "encode nxt = Some (next_cursor page)" "cursor_version nxt = 1" "cursor_process nxt = pid"
    "has_more page \<longleftrightarrow> left_of out (stdout_offset nxt) \<noteq> [] \<or> left_of err (stderr_offset nxt) \<noteq> []"
    "page_eof page \<longleftrightarrow> \<not> has_more page \<and> status \<in> {StatusComplete, StatusNotApplicable}"
    "12 \<le> budget \<Longrightarrow> has_more page \<Longrightarrow> xo \<noteq> [] \<or> xe \<noteq> []"
    by (rule page_step [where b64_decode = b64_decode and b64_encode = b64_encode and encode = encode and status = status,
      OF assms(1,2) Suc.prems(1,2) assms(5)], erule enc, assumption) (rule that; assumption)
  show ?case
  proof (cases "has_more page")
    case False
    with p show ?thesis by simp
  next
    case True
    have step: "decode_output_cursor decode (next_cursor page) pid = Some nxt"
    proof -
      have "nxt = \<lparr>cursor_version = 1, cursor_process = pid, stdout_offset = stdout_offset nxt, stderr_offset = stderr_offset nxt\<rparr>"
        using p(10,11) by simp
      with assms(6) [OF p(7,8)] obtain t where "encode nxt = Some t" "byte_len t \<le> 2048" "decode t = Some nxt" by metis
      with p(9-11) show ?thesis by (simp add: decode_output_cursor_def)
    qed
    have "length (left_of out (stdout_offset cursor)) = length xo + length (left_of out (stdout_offset nxt))"
      "length (left_of err (stderr_offset cursor)) = length xe + length (left_of err (stderr_offset nxt))"
      unfolding p(5) [symmetric] p(6) [symmetric] by simp_all
    moreover have "0 < length xo + length xe" using p(14) assms(7) True by auto
    ultimately have "length (left_of out (stdout_offset nxt)) + length (left_of err (stderr_offset nxt)) < fuel"
      using Suc.prems(3) by linarith
    from Suc.IH [OF p(7,8) this] step p(1,3,4,5,6) True show ?thesis by simp
  qed
qed simp

lemma pages_reach_the_end_witness:
  "read_pages (\<lambda>bs. bs) Some (\<lambda>c. Some [int (stdout_offset c), int (stderr_offset c)])
     (\<lambda>t. case t of [a, b] \<Rightarrow> Some \<lparr>cursor_version = 1, cursor_process = lit ''p'', stdout_offset = nat a, stderr_offset = nat b\<rparr> | _ \<Rightarrow> None)
     6 (([104, 105, 195], 7, 10), ([33], 0, 1)) (lit ''p'')
     \<lparr>cursor_version = 1, cursor_process = lit ''p'', stdout_offset = 2, stderr_offset = 0\<rparr> StatusComplete 12
   = Some ([104, 105, 195], [33], True)"
proof -
  let ?enc = "\<lambda>c. Some [int (stdout_offset c), int (stderr_offset c)]"
  let ?dec = "\<lambda>t :: rstr. case t of [a, b] \<Rightarrow> Some \<lparr>cursor_version = 1, cursor_process = lit ''p'', stdout_offset = nat a, stderr_offset = nat b\<rparr>
    | _ \<Rightarrow> None"
  let ?out = "([104, 105, 195], 7, 10) :: int list \<times> nat \<times> nat" and ?err = "([33], 0, 1) :: int list \<times> nat \<times> nat"
  let ?c = "\<lparr>cursor_version = 1, cursor_process = lit ''p'', stdout_offset = 2, stderr_offset = 0\<rparr>"
  have "read_pages (\<lambda>bs. bs) Some ?enc ?dec 6 (?out, ?err) (lit ''p'') ?c StatusComplete 12 =
    Some (left_of ?out (stdout_offset ?c), left_of ?err (stderr_offset ?c), StatusComplete \<in> {StatusComplete, StatusNotApplicable})"
    by (rule pages_reach_the_end) (simp_all add: snapshot_ok_def left_of_def char_utf8_len_def)
  then show ?thesis by (simp add: left_of_def)
qed

subsection \<open>Pages fit\<close>

lemma segment_size:
  assumes "output_segment_for_json_budget b64_encode snap requested budget = Inr (seg, nxt, used)"
    and "\<And>bs. json_string_content_size (b64_encode bs) = base64_length (length bs)"
  shows "json_string_content_size (seg_data seg) = used \<and> used \<le> budget"
proof -
  obtain data retained e where snap: "snap = (data, retained, e)" by (cases snap)
  let ?avail = "drop (max requested retained - retained) data"
  obtain enc n used' where plan: "output_payload_plan ?avail budget = (enc, n, used')" by (cases "output_payload_plan ?avail budget")
  with assms(1) snap obtain payload where payload: "encode_output_prefix b64_encode ?avail enc n = Inr payload"
    "seg_data seg = payload" "used = used'"
    by (auto simp: output_segment_for_json_budget_def Let_def rbind_eq_Inr_iff split: if_splits)
  have "plan_ok ?avail budget (enc, n, used')" using output_payload_plan_ok [of ?avail budget] plan by simp
  then show ?thesis
    using payload assms(2) by (cases enc) (auto simp: plan_ok_def encode_output_prefix_def min_def)
qed

text \<open>
  A page never takes more of a response than its budget: the JSON text of the data of both
  streams, escapes and base64 included, has exactly the size the page accounts for, which is
  within the budget.
\<close>

theorem page_fits_budget:
  assumes "output_page_for_json_budget b64_encode encode snaps pid cursor status budget = Inr (page, used)"
    and "\<And>bs. json_string_content_size (b64_encode bs) = base64_length (length bs)"
  shows "json_string_content_size (seg_data (page_stdout page)) + json_string_content_size (seg_data (page_stderr page)) = used \<and>
    used \<le> budget"
proof -
  obtain out err where snaps: "snaps = (out, err)" by (cases snaps)
  let ?a = "stream_available out (stdout_offset cursor)" and ?b = "stream_available err (stderr_offset cursor)"
  obtain bo be where b: "stream_budgets ?a ?b budget = (bo, be)" by fastforce
  obtain so no uo se ne ue where o: "output_segment_for_json_budget b64_encode out (stdout_offset cursor) bo = Inr (so, no, uo)"
    "output_segment_for_json_budget b64_encode err (stderr_offset cursor) be = Inr (se, ne, ue)"
    "page_stdout page = so" "page_stderr page = se" "used = uo + ue"
    using assms(1) snaps b by (auto simp: output_page_for_json_budget_def Let_def rbind_eq_Inr_iff)
  have "bo + be \<le> budget" using stream_budgets_sum [of ?a ?b budget] b by simp
  with segment_size [OF o(1) assms(2)] segment_size [OF o(2) assms(2)] o(3-5) show ?thesis by auto
qed

lemma page_fits_budget_witness:
  "\<exists>page used. output_page_for_json_budget (\<lambda>bs. replicate (base64_length (length bs)) 65) (\<lambda>_. Some []) (([255, 254, 34], 0, 3), ([10, 10], 0, 2)) (lit ''p'')
     \<lparr>cursor_version = 1, cursor_process = lit ''p'', stdout_offset = 0, stderr_offset = 0\<rparr> StatusComplete 12 = Inr (page, used) \<and> used \<le> 12"
proof -
  let ?b = "\<lambda>bs :: int list. replicate (base64_length (length bs)) (65 :: int)"
  let ?r = "output_page_for_json_budget ?b (\<lambda>_. Some []) (([255, 254, 34], 0, 3), ([10, 10], 0, 2)) (lit ''p'')
     \<lparr>cursor_version = 1, cursor_process = lit ''p'', stdout_offset = 0, stderr_offset = 0\<rparr> StatusComplete 12"
  have "case ?r of Inl _ \<Rightarrow> False | Inr _ \<Rightarrow> True" by code_simp
  then obtain page used where r: "?r = Inr (page, used)" by (auto split: sum.splits)
  have "json_string_content_size (?b bs) = base64_length (length bs)" for bs
    by (simp add: json_string_content_size_def sum_list_replicate json_cost_def char_utf8_len_def)
  from page_fits_budget [OF r this] r show ?thesis by blast
qed

end
