(* ===== verification/Disk.thy ===== *)
theory Disk
  imports Path_Policy Utf8 "HOL-Library.AList"
begin

text \<open>
  A disk with directories, regular files and symbolic links, the resolution of paths on it,
  and the calls of \<^verbatim>\<open>std::fs\<close> the file tools make. The disk gives the answers
  the path policy asks the system for (\<open>answers\<close>), so that what Path\_Policy assumes
  of a file system holds for it.
\<close>

subsection \<open>Nodes and lookup\<close>

text \<open>
  The stamp of a file stands for its inode and its time of modification, the number of a
  directory for its device and inode; a link has a text; a special file is a socket, pipe or
  device.
\<close>

datatype node = RegularFile "int list" nat nat | Directory nat | Link rstr | Special

type_synonym disk = "(abs_path \<times> node) list"

definition look :: "disk \<Rightarrow> abs_path \<Rightarrow> node option" where
  "look d p = (if p = [] then Some (Directory 0) else map_of d p)"

definition put :: "abs_path \<Rightarrow> node \<Rightarrow> disk \<Rightarrow> disk" where
  "put p n d = AList.update p n d"

definition erase :: "abs_path \<Rightarrow> disk \<Rightarrow> disk" where
  "erase p d = AList.delete p d"

lemma look_put [simp]: "p \<noteq> [] \<Longrightarrow> look (put p n d) q = (if q = p then Some n else look d q)"
  by (auto simp: look_def put_def update_conv')

lemma look_erase [simp]: "p \<noteq> [] \<Longrightarrow> look (erase p d) q = (if q = p then None else look d q)"
  by (auto simp: look_def erase_def delete_conv')

lemma look_root [simp]: "look d [] = Some (Directory 0)"
  by (simp add: look_def)

definition directory_at :: "disk \<Rightarrow> abs_path \<Rightarrow> bool" where
  "directory_at d p = (case look d p of Some (Directory _) \<Rightarrow> True | _ \<Rightarrow> False)"

definition has_child :: "disk \<Rightarrow> abs_path \<Rightarrow> bool" where
  "has_child d p = list_ex (\<lambda>(q, _). q \<noteq> [] \<and> butlast q = p) d"

subsection \<open>Resolution\<close>

datatype os_error = NoEntry | EntryExists | OtherError

definition max_links :: nat where "max_links = 40"

text \<open>
  From a directory along components; a link is replaced by its components, at most
  \<open>max_links\<close> times.
\<close>

function walk :: "disk \<Rightarrow> nat \<Rightarrow> abs_path \<Rightarrow> component list \<Rightarrow> os_error + abs_path" where
  "walk d fuel here [] = Inr here"
| "walk d fuel here (ParentDir # cs) = walk d fuel (butlast here) cs"
| "walk d fuel here (Normal n # cs) =
     (case look d (here @ [n]) of
        None \<Rightarrow> Inl NoEntry
      | Some (Directory _) \<Rightarrow> walk d fuel (here @ [n]) cs
      | Some (Link s) \<Rightarrow>
          (case fuel of
             0 \<Rightarrow> Inl OtherError
           | Suc f \<Rightarrow> walk d f (if is_absolute s then [] else here) (path_components s @ cs))
      | Some _ \<Rightarrow> if cs = [] then Inr (here @ [n]) else Inl OtherError)"
  by pat_completeness auto
termination by (relation "measures [\<lambda>(d, fuel, here, cs). fuel, \<lambda>(d, fuel, here, cs). length cs]") auto

definition follow :: "disk \<Rightarrow> component list \<Rightarrow> os_error + abs_path" where
  "follow d cs = walk d max_links [] cs"

text \<open>The place of the last component, which is not followed.\<close>

definition locate :: "disk \<Rightarrow> component list \<Rightarrow> os_error + abs_path" where
  "locate d cs =
     (if cs = [] then Inl OtherError
      else case last cs of
        ParentDir \<Rightarrow> Inl OtherError
      | Normal n \<Rightarrow> rbind (follow d (butlast cs)) (\<lambda>p. if directory_at d p then Inr (p @ [n]) else Inl OtherError))"

text \<open>\<^verbatim>\<open>metadata\<close> follows links; \<^verbatim>\<open>symlink_metadata\<close> does not follow the last one.\<close>

definition stat :: "disk \<Rightarrow> component list \<Rightarrow> os_error + node" where
  "stat d cs = rbind (follow d cs) (\<lambda>p. ok_or NoEntry (look d p))"

definition lstat :: "disk \<Rightarrow> component list \<Rightarrow> os_error + node" where
  "lstat d cs =
     (if cs = [] \<or> last cs = ParentDir then stat d cs
      else rbind (locate d cs) (\<lambda>p. ok_or NoEntry (look d p)))"

text \<open>
  A path as it is written, made absolute; a final slash asks for a directory and follows a
  link.
\<close>

definition absolute_string :: "rstr option \<Rightarrow> rstr \<Rightarrow> os_error + rstr" where
  "absolute_string cwd s =
     (if s = [] then Inl NoEntry
      else if is_absolute s then Inr s
      else case cwd of None \<Rightarrow> Inl NoEntry | Some c \<Rightarrow> Inr (join_path c s))"

definition wants_directory :: "rstr \<Rightarrow> bool" where
  "wants_directory s \<longleftrightarrow> ends_with [47] s \<or> ends_with [47, 46] s"

definition stat_string :: "rstr option \<Rightarrow> disk \<Rightarrow> rstr \<Rightarrow> os_error + node" where
  "stat_string cwd d s =
     rbind (absolute_string cwd s) (\<lambda>a. rbind (stat d (path_components a)) (\<lambda>n.
       if wants_directory s \<and> \<not> (case n of Directory _ \<Rightarrow> True | _ \<Rightarrow> False) then Inl OtherError else Inr n))"

definition lstat_string :: "rstr option \<Rightarrow> disk \<Rightarrow> rstr \<Rightarrow> os_error + node" where
  "lstat_string cwd d s =
     (if wants_directory s then stat_string cwd d s
      else rbind (absolute_string cwd s) (\<lambda>a. lstat d (path_components a)))"

definition canonicalize_string :: "rstr option \<Rightarrow> disk \<Rightarrow> rstr \<Rightarrow> os_error + abs_path" where
  "canonicalize_string cwd d s =
     rbind (stat_string cwd d s) (\<lambda>_. rbind (absolute_string cwd s) (\<lambda>a. follow d (path_components a)))"

definition names :: "abs_path \<Rightarrow> component list" where
  "names p = map Normal p"

definition to_option :: "'e + 'a \<Rightarrow> 'a option" where
  "to_option r = (case r of Inl _ \<Rightarrow> None | Inr a \<Rightarrow> Some a)"

text \<open>The answers of the system to what the path policy asks.\<close>

definition answers :: "rstr option \<Rightarrow> rstr option \<Rightarrow> disk \<Rightarrow> file_system" where
  "answers home cwd d =
     \<lparr>home_dir = home, current_dir = cwd,
      entry = (\<lambda>p. case lstat d (names p) of Inl NoEntry \<Rightarrow> Absent | Inl _ \<Rightarrow> Unreadable | Inr _ \<Rightarrow> Present),
      is_dir = (\<lambda>p. case stat d (names p) of Inl _ \<Rightarrow> None | Inr n \<Rightarrow> Some (case n of Directory _ \<Rightarrow> True | _ \<Rightarrow> False)),
      realpath = (\<lambda>p. to_option (follow d (names p))),
      path_exists = (\<lambda>s. to_option (stat_string cwd d s) \<noteq> None),
      canonicalize = (\<lambda>s. to_option (canonicalize_string cwd d s))\<rparr>"

subsection \<open>Canonical paths\<close>

text \<open>A path on which every proper prefix is a directory is where it says.\<close>

definition in_directories :: "disk \<Rightarrow> abs_path \<Rightarrow> bool" where
  "in_directories d p \<longleftrightarrow> (\<forall>k < length p. directory_at d (take k p))"

lemma directory_at_iff: "directory_at d p \<longleftrightarrow> (\<exists>i. look d p = Some (Directory i))"
  by (auto simp: directory_at_def split: option.split node.split)

lemma in_directories_Nil [simp]: "in_directories d []"
  by (simp add: in_directories_def)

lemma in_directories_snoc: "in_directories d (p @ [n]) \<longleftrightarrow> in_directories d p \<and> directory_at d p"
  by (auto simp: in_directories_def less_Suc_eq)

lemma in_directories_butlast: "in_directories d p \<Longrightarrow> in_directories d (butlast p)"
  by (cases p rule: rev_cases) (auto simp: in_directories_snoc)

lemma directory_root [simp]: "directory_at d []"
  by (simp add: directory_at_def)

lemma directory_butlast: "in_directories d p \<Longrightarrow> directory_at d (butlast p)"
  by (cases p rule: rev_cases) (auto simp: in_directories_snoc)

text \<open>What resolution gives is canonical and exists.\<close>

lemma walk_canonical:
  assumes "walk d fuel here cs = Inr p" and "in_directories d here" and "directory_at d here"
  shows "in_directories d p \<and> look d p \<noteq> None \<and> (\<forall>s. look d p \<noteq> Some (Link s))"
  using assms
proof (induction d fuel here cs rule: walk.induct)
  case (1 d fuel here)
  then show ?case by (auto simp: directory_at_def split: option.splits node.splits)
next
  case (2 d fuel here cs)
  then show ?case by (simp add: in_directories_butlast directory_butlast)
next
  case (3 d fuel here n cs)
  have "in_directories d (here @ [n])" using "3.prems" by (simp add: in_directories_snoc)
  then show ?case
    using "3.prems" "3.IH" by (auto simp: directory_at_def split: option.splits node.splits nat.splits if_splits)
qed

lemma walk_names:
  assumes "in_directories d (here @ p)" and "p \<noteq> [] \<Longrightarrow> directory_at d here"
  shows "walk d fuel here (map Normal p) =
    (case look d (here @ p) of None \<Rightarrow> if p = [] then Inr here else Inl NoEntry
     | Some (Link s) \<Rightarrow> if p = [] then Inr here else walk d fuel (here @ butlast p) [Normal (last p)]
     | Some _ \<Rightarrow> Inr (here @ p))"
  using assms
proof (induction p arbitrary: here)
  case Nil
  then show ?case by (auto split: option.split node.split)
next
  case (Cons n p)
  show ?case
  proof (cases "p = []")
    case True
    then show ?thesis by (auto split: option.split node.split nat.split)
  next
    case False
    then have "directory_at d (take (Suc (length here)) (here @ n # p))"
      using Cons.prems(1) unfolding in_directories_def by (metis Suc_less_eq add_Suc_right length_append length_Cons length_greater_0_conv less_add_same_cancel1)
    then have dir: "directory_at d (here @ [n])" by simp
    then obtain i where "look d (here @ [n]) = Some (Directory i)"
      by (auto simp: directory_at_def split: option.splits node.splits)
    with Cons.IH [of "here @ [n]"] Cons.prems(1) dir False show ?thesis
      by (auto split: option.split node.split)
  qed
qed

lemma follow_canonical:
  assumes "in_directories d p" and "look d p = Some n" and "\<forall>s. n \<noteq> Link s"
  shows "follow d (names p) = Inr p"
  using walk_names [of d "[]" p max_links] assms by (auto simp: follow_def names_def split: node.split)

lemma locate_canonical:
  assumes "in_directories d p" and "p \<noteq> []"
  shows "locate d (names p) = Inr p"
proof -
  obtain q n where p: "p = q @ [n]" using assms(2) by (cases p rule: rev_cases) auto
  then have q: "in_directories d q" "directory_at d q" using assms(1) by (simp_all add: in_directories_snoc)
  then obtain i where "look d q = Some (Directory i)"
    by (auto simp: directory_at_def split: option.splits node.splits)
  with q have "follow d (names q) = Inr q" by (auto intro: follow_canonical)
  with q(2) show ?thesis by (simp add: locate_def names_def p)
qed

lemma follow_result:
  assumes "follow d cs = Inr p"
  shows "in_directories d p" "\<exists>n. look d p = Some n \<and> (\<forall>s. n \<noteq> Link s)" "follow d (names p) = Inr p"
proof -
  from walk_canonical [of d max_links "[]" cs p] assms
  have *: "in_directories d p" "look d p \<noteq> None" "\<forall>s. look d p \<noteq> Some (Link s)" by (auto simp: follow_def)
  then show "in_directories d p" "\<exists>n. look d p = Some n \<and> (\<forall>s. n \<noteq> Link s)" by auto
  with follow_canonical show "follow d (names p) = Inr p" by blast
qed


lemma names_simps [simp]: "names (p @ q) = names p @ names q" "names [] = []" "names [n] = [Normal n]"
  by (simp_all add: names_def)

lemma lstat_canonical:
  assumes "in_directories d p" and "p \<noteq> []"
  shows "lstat d (names p) = ok_or NoEntry (look d p)"
proof -
  have "names p \<noteq> []" "last (names p) \<noteq> ParentDir" using assms(2) by (auto simp: names_def last_map)
  then show ?thesis using locate_canonical [OF assms] by (simp add: lstat_def)
qed

lemma in_directories_take: "in_directories d p \<Longrightarrow> in_directories d (take k p)"
  by (auto simp: in_directories_def min_def)

theorem answers_ok: "file_system_ok (answers home cwd d)"
proof -
  let ?fs = "answers home cwd d"
  have "is_dir ?fs [] = Some True"
    by (simp add: answers_def stat_def follow_def ok_or_def)
  moreover have "is_dir ?fs r = is_dir ?fs p \<and> is_dir ?fs r \<noteq> None \<and>
      (\<forall>k. 0 < k \<and> k \<le> length r \<longrightarrow> realpath ?fs (take k r) = Some (take k r) \<and> entry ?fs (take k r) = Present) \<and>
      (\<forall>k < length r. is_dir ?fs (take k r) = Some True)"
    if "realpath ?fs p = Some r" for p r
  proof -
    have f: "follow d (names p) = Inr r" using that by (auto simp: answers_def to_option_def split: sum.splits)
    note r = follow_result [OF f]
    then obtain n where n: "look d r = Some n" "\<forall>s. n \<noteq> Link s" by blast
    have pre: "follow d (names (take k r)) = Inr (take k r) \<and> (\<exists>m. look d (take k r) = Some m \<and> (k < length r \<longrightarrow> (\<exists>i. m = Directory i)))"
      if "k \<le> length r" for k
    proof (cases "k = length r")
      case True
      with r n show ?thesis by simp
    next
      case False
      then have "directory_at d (take k r)" using r(1) that by (simp add: in_directories_def)
      then obtain i where "look d (take k r) = Some (Directory i)"
        by (auto simp: directory_at_def split: option.splits node.splits)
      with in_directories_take [OF r(1), of k] show ?thesis by (auto intro: follow_canonical)
    qed
    have "is_dir ?fs r = is_dir ?fs p \<and> is_dir ?fs r \<noteq> None"
      using f r(3) n by (simp add: answers_def stat_def ok_or_def)
    moreover have "realpath ?fs (take k r) = Some (take k r) \<and> entry ?fs (take k r) = Present"
      if "0 < k" "k \<le> length r" for k
    proof -
      have "take k r \<noteq> []" using that by auto
      then show ?thesis
        using pre [OF that(2)] lstat_canonical [OF in_directories_take [OF r(1), of k]]
        by (auto simp: answers_def to_option_def ok_or_def)
    qed
    moreover have "is_dir ?fs (take k r) = Some True" if "k < length r" for k
      using pre [of k] that by (auto simp: answers_def stat_def ok_or_def)
    ultimately show ?thesis by blast
  qed
  ultimately show ?thesis unfolding file_system_ok_def by blast
qed

subsection \<open>Directories and links alone decide resolution\<close>

definition same_tree :: "disk \<Rightarrow> disk \<Rightarrow> bool" where
  "same_tree d d' \<longleftrightarrow>
     (\<forall>p i. look d p = Some (Directory i) \<longleftrightarrow> look d' p = Some (Directory i)) \<and>
     (\<forall>p s. look d p = Some (Link s) \<longleftrightarrow> look d' p = Some (Link s))"

lemma same_tree_refl [simp]: "same_tree d d" by (simp add: same_tree_def)

lemma same_tree_trans: "same_tree d d' \<Longrightarrow> same_tree d' d'' \<Longrightarrow> same_tree d d''"
  by (simp add: same_tree_def)

lemma same_tree_directory: "same_tree d d' \<Longrightarrow> directory_at d' p = directory_at d p"
  by (simp add: same_tree_def directory_at_iff)

lemma same_tree_in_directories: "same_tree d d' \<Longrightarrow> in_directories d' p = in_directories d p"
  by (simp add: in_directories_def same_tree_directory)

lemma walk_same_tree:
  assumes "walk d fuel here cs = Inr p" and "directory_at d p" and "same_tree d d'"
  shows "walk d' fuel here cs = Inr p"
  using assms
proof (induction d fuel here cs rule: walk.induct)
  case (3 d fuel here n cs)
  show ?case
  proof (cases "look d (here @ [n])")
    case (Some m)
    show ?thesis
    proof (cases m)
      case (Link s)
      then have link: "look d' (here @ [n]) = Some (Link s)" using Some "3.prems"(3) by (simp add: same_tree_def)
      obtain f where f: "fuel = Suc f" using "3.prems"(1) Some Link by (cases fuel) auto
      from "3.IH"(2) [OF Some Link f] "3.prems" Some Link f
      have "walk d' f (if is_absolute s then [] else here) (path_components s @ cs) = Inr p" by simp
      with link f show ?thesis by simp
    next
      case (Directory i)
      with Some "3.prems"(3) have "look d' (here @ [n]) = Some (Directory i)" by (simp add: same_tree_def)
      with "3.IH"(1) [OF Some Directory] "3.prems" Some Directory show ?thesis by simp
    qed (use "3.prems" Some in \<open>auto simp: directory_at_iff split: if_splits\<close>)
  qed (use "3.prems" in simp)
qed simp_all

lemma same_tree_put:
  assumes "p \<noteq> []" and "\<forall>i. look d p \<noteq> Some (Directory i)" and "\<forall>s. look d p \<noteq> Some (Link s)"
    and "\<forall>i. n \<noteq> Directory i" and "\<forall>s. n \<noteq> Link s"
  shows "same_tree d (put p n d)"
  using assms by (auto simp: same_tree_def)

lemma same_tree_erase:
  assumes "p \<noteq> []" and "\<forall>i. look d p \<noteq> Some (Directory i)" and "\<forall>s. look d p \<noteq> Some (Link s)"
  shows "same_tree d (erase p d)"
  using assms by (auto simp: same_tree_def)

subsection \<open>Calls that change the disk\<close>

text \<open>A call can fail for a reason outside the model; \<open>fails\<close> says which do.\<close>

datatype io_op =
  CreateDir "component list" | CreateNew "component list" | WriteNew "component list" | HardLink "component list" | Rename "component list"
| RemoveFile "component list" | RemoveDir "component list"

type_synonym 'a io = "disk \<Rightarrow> (os_error + 'a) \<times> disk"

definition create_dir :: "(io_op \<Rightarrow> bool) \<Rightarrow> nat \<Rightarrow> component list \<Rightarrow> unit io" where
  "create_dir fails inode cs d =
     (if fails (CreateDir cs) then (Inl OtherError, d)
      else case locate d cs of
        Inl e \<Rightarrow> (Inl e, d)
      | Inr p \<Rightarrow> if look d p \<noteq> None then (Inl EntryExists, d) else (Inr (), put p (Directory inode) d))"

text \<open>\<^verbatim>\<open>create_new\<close>: the file must not be there; writing to it is a call of its own.\<close>

definition write_new :: "(io_op \<Rightarrow> bool) \<Rightarrow> int list \<Rightarrow> nat \<Rightarrow> nat \<Rightarrow> component list \<Rightarrow> unit io" where
  "write_new fails bytes mode stamp cs d =
     (case locate d cs of
        Inl e \<Rightarrow> (Inl e, d)
      | Inr p \<Rightarrow>
          if look d p \<noteq> None then (Inl EntryExists, d)
          else if fails (CreateNew cs) then (Inl OtherError, d)
          else (Inr (), put p (RegularFile bytes mode stamp) d))"

definition hard_link :: "(io_op \<Rightarrow> bool) \<Rightarrow> component list \<Rightarrow> component list \<Rightarrow> unit io" where
  "hard_link fails src dst d =
     (if fails (HardLink dst) then (Inl OtherError, d)
      else case rbind (locate d src) (\<lambda>s. rbind (locate d dst) (\<lambda>t. Inr (s, t))) of
        Inl e \<Rightarrow> (Inl e, d)
      | Inr (s, t) \<Rightarrow>
          (case (look d s, look d t) of
             (None, _) \<Rightarrow> (Inl NoEntry, d)
           | (_, Some _) \<Rightarrow> (Inl EntryExists, d)
           | (Some (Directory _), None) \<Rightarrow> (Inl OtherError, d)
           | (Some n, None) \<Rightarrow> (Inr (), put t n d)))"

text \<open>\<^verbatim>\<open>rename\<close> of a file replaces a file or link at its target; it is used for files only.\<close>

definition rename_file :: "(io_op \<Rightarrow> bool) \<Rightarrow> component list \<Rightarrow> component list \<Rightarrow> unit io" where
  "rename_file fails src dst d =
     (if fails (Rename dst) then (Inl OtherError, d)
      else case rbind (locate d src) (\<lambda>s. rbind (locate d dst) (\<lambda>t. Inr (s, t))) of
        Inl e \<Rightarrow> (Inl e, d)
      | Inr (s, t) \<Rightarrow>
          (case look d s of
             None \<Rightarrow> (Inl NoEntry, d)
           | Some (Directory _) \<Rightarrow> (Inl OtherError, d)
           | Some n \<Rightarrow>
               if directory_at d t then (Inl OtherError, d)
               else if s = t then (Inr (), d)
               else (Inr (), put t n (erase s d))))"

definition remove_file :: "(io_op \<Rightarrow> bool) \<Rightarrow> component list \<Rightarrow> unit io" where
  "remove_file fails cs d =
     (if fails (RemoveFile cs) then (Inl OtherError, d)
      else case locate d cs of
        Inl e \<Rightarrow> (Inl e, d)
      | Inr p \<Rightarrow>
          (case look d p of
             None \<Rightarrow> (Inl NoEntry, d)
           | Some (Directory _) \<Rightarrow> (Inl OtherError, d)
           | Some _ \<Rightarrow> (Inr (), erase p d)))"

definition remove_dir :: "(io_op \<Rightarrow> bool) \<Rightarrow> component list \<Rightarrow> unit io" where
  "remove_dir fails cs d =
     (if fails (RemoveDir cs) then (Inl OtherError, d)
      else case locate d cs of
        Inl e \<Rightarrow> (Inl e, d)
      | Inr p \<Rightarrow>
          if \<not> directory_at d p \<or> has_child d p then (Inl OtherError, d) else (Inr (), erase p d))"

lemma locate_nonempty: "locate d cs = Inr p \<Longrightarrow> p \<noteq> []"
  by (auto simp: locate_def rbind_def split: if_splits component.splits sum.splits)

end
