(* ===== verification/File_Edit.thy ===== *)
theory File_Edit
  imports Disk Authorization Patch_Parser File_Update
begin

text \<open>
  The file editing tool (\<^verbatim>\<open>crates/agentic-gpt/src/files/file_ops.rs\<close>): a patch is
  parsed, its targets are authorised, every hunk is planned as a change of a file, and the
  changes are staged, validated again and committed one by one. An error is its code. What
  the system and the user do meanwhile is the record \<open>edit_world\<close>: which calls fail, the
  names and numbers of new files, what other programs do to the disk while the tool waits.
  The digest of a file (SHA-256) is an argument, diffs and audit records are left out.
\<close>

subsection \<open>Paths\<close>

type_synonym file_error = string

record edit_world =
  fails :: "io_op \<Rightarrow> bool"
  new_inode :: "abs_path \<Rightarrow> nat"
  new_stamp :: "nat \<Rightarrow> nat"
  temp_name :: "nat \<Rightarrow> nat \<Rightarrow> rstr"
  new_mode :: nat
  file_identity :: "disk \<Rightarrow> abs_path \<Rightarrow> nat option"
  during_approval :: "disk \<Rightarrow> disk"
  during_lock :: "disk \<Rightarrow> disk"
  during_staging :: "disk \<Rightarrow> disk"
  home :: "rstr option"
  cwd :: "rstr option"

abbreviation answers_in :: "edit_world \<Rightarrow> disk \<Rightarrow> file_system" where
  "answers_in w d \<equiv> answers (home w) (cwd w) d"

text \<open>
  The path as requested is kept as its components, and whether it was written with a slash
  at its end.
\<close>

record resolved_path =
  res_input :: rstr
  requested :: "component list"
  requested_slash :: bool
  res_path :: abs_path

definition temp_prefix :: rstr where "temp_prefix = lit ''.agentic-file-tmp-''"

definition is_temp :: "abs_path \<Rightarrow> bool" where
  "is_temp p \<longleftrightarrow> p \<noteq> [] \<and> starts_with temp_prefix (last p)"

definition is_reserved_path :: "file_system \<Rightarrow> config \<Rightarrow> abs_path \<Rightarrow> bool" where
  "is_reserved_path fs config p \<longleftrightarrow>
     (let audit = join_path (workspace_root config) (lit ''.agentic-gpt-audit.jsonl'') in
      (is_absolute audit \<and> starts_with (path_components audit) (names p)) \<or>
      (case canonicalize_existing_or_parent fs audit of None \<Rightarrow> False | Some c \<Rightarrow> path_starts_with c p) \<or>
      is_temp p)"

definition check_policy :: "file_system \<Rightarrow> config \<Rightarrow> path_access_kind \<Rightarrow> abs_path \<Rightarrow> file_error + unit" where
  "check_policy fs config access p =
     (case path_policy_decision fs config p (access = Write) of
        Inl _ \<Rightarrow> Inl ''path_policy_error''
      | Inr Allow \<Rightarrow> Inr ()
      | Inr Confirm \<Rightarrow> Inl ''file_confirmation_required''
      | Inr Deny \<Rightarrow> Inl ''path_denied'')"

text \<open>The check that follows every resolution.\<close>

definition permit :: "file_system \<Rightarrow> config \<Rightarrow> path_access_kind \<Rightarrow> abs_path \<Rightarrow> file_error + unit" where
  "permit fs config access p =
     rbind (check_policy fs config access p) (\<lambda>_.
       if is_reserved_path fs config p then Inl ''file_reserved_path'' else Inr ())"

definition candidate_path :: "file_system \<Rightarrow> config \<Rightarrow> rstr \<Rightarrow> file_error + rstr" where
  "candidate_path fs config input =
     (if trim input = [] then Inl ''file_path_empty''
      else rbind (ok_or ''file_path_invalid'' (expand_path fs input)) (\<lambda>e.
        Inr (if is_absolute e then e else join_path (workspace_root config) e)))"

definition components_in :: "edit_world \<Rightarrow> rstr \<Rightarrow> component list" where
  "components_in w s = (case absolute_string (cwd w) s of Inl _ \<Rightarrow> [] | Inr a \<Rightarrow> path_components a)"

definition resolve_path :: "edit_world \<Rightarrow> config \<Rightarrow> rstr \<Rightarrow> path_access_kind \<Rightarrow> disk \<Rightarrow> file_error + resolved_path" where
  "resolve_path w config input access d =
     rbind (candidate_path (answers_in w d) config input) (\<lambda>c.
       case lstat_string (cwd w) d c of
         Inl NoEntry \<Rightarrow> Inl ''file_not_found''
       | Inl _ \<Rightarrow> Inl ''file_path_unreadable''
       | Inr n \<Rightarrow>
           (case canonicalize_string (cwd w) d c of
              Inl _ \<Rightarrow> Inl (case n of Link _ \<Rightarrow> ''file_symlink_rejected'' | _ \<Rightarrow> ''file_path_unreadable'')
            | Inr p \<Rightarrow> rbind (permit (answers_in w d) config access p) (\<lambda>_.
                Inr \<lparr>res_input = input, requested = components_in w c, requested_slash = wants_directory c, res_path = p\<rparr>)))"

text \<open>\<^verbatim>\<open>Path::is_dir\<close> of the parent; the root has none.\<close>

definition parent_is_dir :: "disk \<Rightarrow> abs_path \<Rightarrow> bool" where
  "parent_is_dir d p \<longleftrightarrow> p \<noteq> [] \<and>
     (case stat d (names (butlast p)) of Inr (Directory _) \<Rightarrow> True | _ \<Rightarrow> False)"

definition resolve_absent_path :: "edit_world \<Rightarrow> config \<Rightarrow> rstr \<Rightarrow> disk \<Rightarrow> file_error + resolved_path" where
  "resolve_absent_path w config input d =
     rbind (candidate_path (answers_in w d) config input) (\<lambda>c.
       if to_option (lstat_string (cwd w) d c) \<noteq> None then Inl ''file_already_exists''
       else rbind (ok_or ''file_parent_not_found'' (canonicalize_existing_or_parent (answers_in w d) c)) (\<lambda>p.
         if \<not> parent_is_dir d p then Inl ''file_parent_not_found''
         else rbind (permit (answers_in w d) config Write p) (\<lambda>_.
           Inr \<lparr>res_input = input, requested = components_in w c, requested_slash = wants_directory c, res_path = p\<rparr>)))"

function missing_parent_directories :: "disk \<Rightarrow> abs_path \<Rightarrow> file_error + abs_path list" where
  "missing_parent_directories d p =
     (case lstat d (names p) of
        Inr n \<Rightarrow>
          (case n of Directory _ \<Rightarrow> if follow d (names p) = Inr p then Inr [] else Inl ''file_symlink_rejected''
           | _ \<Rightarrow> Inl ''file_symlink_rejected'')
      | Inl NoEntry \<Rightarrow>
          if p = [] then Inl ''file_parent_not_found''
          else rbind (missing_parent_directories d (butlast p)) (\<lambda>m. Inr (m @ [p]))
      | Inl _ \<Rightarrow> Inl ''file_parent_not_found'')"
  by pat_completeness auto
termination by (relation "measure (\<lambda>(d, p). length p)") auto

declare missing_parent_directories.simps [simp del]

definition permit_all :: "file_system \<Rightarrow> config \<Rightarrow> abs_path list \<Rightarrow> file_error + unit" where
  "permit_all fs config ps = rfold (\<lambda>p _. permit fs config Write p) ps ()"

text \<open>
  For a file to be added the missing directories are found too; the second projection of the
  code, on the disk as it is, gives the same path.
\<close>

definition resolve_absent_add_path ::
    "edit_world \<Rightarrow> config \<Rightarrow> rstr \<Rightarrow> disk \<Rightarrow> file_error + resolved_path \<times> abs_path list" where
  "resolve_absent_add_path w config input d =
     rbind (candidate_path (answers_in w d) config input) (\<lambda>c.
       if to_option (lstat_string (cwd w) d c) \<noteq> None then Inl ''file_already_exists''
       else rbind (ok_or ''file_parent_not_found'' (canonicalize_existing_or_parent (answers_in w d) c)) (\<lambda>p.
         if to_option (lstat d (names p)) \<noteq> None then Inl ''file_already_exists''
         else if p = [] then Inl ''file_parent_not_found''
         else rbind (missing_parent_directories d (butlast p)) (\<lambda>parents.
         rbind (permit (answers_in w d) config Write p) (\<lambda>_.
         rbind (permit_all (answers_in w d) config parents) (\<lambda>_.
           Inr (\<lparr>res_input = input, requested = names p, requested_slash = False, res_path = p\<rparr>, parents))))))"

subsection \<open>Planned changes\<close>

datatype edit_action = ActAdd | ActDelete | ActUpdate | ActMove

record planned_change =
  action :: edit_action
  source :: "resolved_path option"
  target :: resolved_path
  parents_to_create :: "abs_path list"
  destination :: "resolved_path option"
  before_bytes :: "int list option"
  before_revision :: "rstr option"
  before_mode :: "nat option"
  candidate :: "int list option"
  after_revision :: "rstr option"
  temp :: "abs_path option"

definition max_file_bytes :: nat where "max_file_bytes = 8 * 1024 * 1024"

definition exceeds_limit :: "nat \<Rightarrow> bool" where
  "exceeds_limit n \<longleftrightarrow> n > max_file_bytes"

lemma exceeds_limit_code [code]: "exceeds_limit n \<longleftrightarrow> 8388608 < int n"
  by (auto simp: exceeds_limit_def max_file_bytes_def)

definition load_edit_source :: "disk \<Rightarrow> abs_path \<Rightarrow> file_error + int list \<times> rstr \<times> nat" where
  "load_edit_source d p =
     (case stat d (names p) of
        Inl _ \<Rightarrow> Inl ''file_not_found''
      | Inr (RegularFile bytes mode _) \<Rightarrow>
          if exceeds_limit (length bytes) then Inl ''file_too_large''
          else (case decode_utf8 bytes of None \<Rightarrow> Inl ''file_not_utf8'' | Some s \<Rightarrow> Inr (bytes, s, mode))
      | Inr _ \<Rightarrow> Inl ''file_not_regular'')"

definition plan_add :: "(int list \<Rightarrow> rstr) \<Rightarrow> edit_world \<Rightarrow> config \<Rightarrow> disk \<Rightarrow> rstr \<Rightarrow> rstr \<Rightarrow> file_error + planned_change" where
  "plan_add sha w config d path contents =
     rbind (resolve_absent_add_path w config path d) (\<lambda>(t, parents).
       if exceeds_limit (byte_len contents) then Inl ''file_too_large''
       else Inr \<lparr>action = ActAdd, source = None, target = t, parents_to_create = parents, destination = None,
         before_bytes = None, before_revision = None, before_mode = None, candidate = Some (utf8 contents),
         after_revision = Some (sha (utf8 contents)), temp = None\<rparr>)"

definition plan_delete :: "(int list \<Rightarrow> rstr) \<Rightarrow> edit_world \<Rightarrow> config \<Rightarrow> disk \<Rightarrow> rstr \<Rightarrow> file_error + planned_change" where
  "plan_delete sha w config d path =
     rbind (resolve_path w config path Write d) (\<lambda>s.
     rbind (load_edit_source d (res_path s)) (\<lambda>(bytes, txt, mode).
       Inr \<lparr>action = ActDelete, source = Some s, target = s, parents_to_create = [], destination = None,
         before_bytes = Some bytes, before_revision = Some (sha bytes), before_mode = Some mode, candidate = None,
         after_revision = None, temp = None\<rparr>))"

definition plan_update ::
    "(int list \<Rightarrow> rstr) \<Rightarrow> edit_world \<Rightarrow> config \<Rightarrow> disk \<Rightarrow> rstr \<Rightarrow> rstr option \<Rightarrow> update_file_chunk list \<Rightarrow>
     file_error + planned_change" where
  "plan_update sha w config d path move_path chunks =
     rbind (resolve_path w config path Write d) (\<lambda>s.
     rbind (load_edit_source d (res_path s)) (\<lambda>(bytes, txt, mode).
     case apply_update txt path chunks PreserveLineEndings of
       Inl _ \<Rightarrow> Inl ''file_patch_conflict''
     | Inr new \<Rightarrow>
         if exceeds_limit (byte_len new) then Inl ''file_too_large''
         else rbind (case move_path of None \<Rightarrow> Inr None
                     | Some m \<Rightarrow> rbind (resolve_absent_path w config m d) (\<lambda>r. Inr (Some r))) (\<lambda>dest.
           Inr \<lparr>action = (if dest = None then ActUpdate else ActMove), source = Some s,
             target = (case dest of None \<Rightarrow> s | Some r \<Rightarrow> r), parents_to_create = [], destination = dest,
             before_bytes = Some bytes, before_revision = Some (sha bytes), before_mode = Some mode,
             candidate = Some (utf8 new), after_revision = Some (sha (utf8 new)), temp = None\<rparr>)))"

definition plan_hunk :: "(int list \<Rightarrow> rstr) \<Rightarrow> edit_world \<Rightarrow> config \<Rightarrow> disk \<Rightarrow> hunk \<Rightarrow> file_error + planned_change" where
  "plan_hunk sha w config d h =
     (case h of
        AddFile path contents \<Rightarrow> plan_add sha w config d path contents
      | DeleteFile path \<Rightarrow> plan_delete sha w config d path
      | UpdateFile path move_path chunks \<Rightarrow> plan_update sha w config d path move_path chunks)"

definition plan_hunks ::
    "(int list \<Rightarrow> rstr) \<Rightarrow> edit_world \<Rightarrow> config \<Rightarrow> disk \<Rightarrow> hunk list \<Rightarrow> file_error + planned_change list" where
  "plan_hunks sha w config d hs =
     rfold (\<lambda>h cs. rbind (plan_hunk sha w config d h) (\<lambda>c. Inr (cs @ [c]))) hs []"

text \<open>The paths a change touches, in the order they are collected; they also name its locks.\<close>

definition change_paths :: "planned_change \<Rightarrow> abs_path list" where
  "change_paths c =
     (case source c of None \<Rightarrow> [res_path (target c)]
      | Some s \<Rightarrow> res_path s # (case destination c of None \<Rightarrow> [] | Some r \<Rightarrow> [res_path r]))"

fun overlap_free :: "abs_path list \<Rightarrow> bool" where
  "overlap_free (p # q # ps) = (q \<noteq> p \<and> \<not> path_starts_with p q \<and> overlap_free (q # ps))"
| "overlap_free _ = True"

definition reject_overlapping_paths :: "abs_path list \<Rightarrow> file_error + unit" where
  "reject_overlapping_paths ps = (if overlap_free (sort ps) then Inr () else Inl ''file_patch_ambiguous_paths'')"

definition is_effective :: "planned_change \<Rightarrow> bool" where
  "is_effective c =
     (case (before_bytes c, candidate c) of
        (Some before, Some new) \<Rightarrow> before \<noteq> new \<or> action c = ActMove
      | (None, None) \<Rightarrow> False
      | _ \<Rightarrow> True)"

end
