(* ===== verification/File_Transaction.thy ===== *)
theory File_Transaction
  imports File_Edit
begin

text \<open>
  The transaction of the file editing tool: validation of the planned changes on the disk as
  it is, creation of missing directories, staging of new contents in temporary files next to
  their targets, a second validation, and the commits, with the cleanup of what an error
  leaves behind and the answer that reports what was done.
\<close>

subsection \<open>Validation\<close>

definition lstat_requested :: "disk \<Rightarrow> resolved_path \<Rightarrow> os_error + node" where
  "lstat_requested d r =
     (if requested_slash r then rbind (stat d (requested r)) (\<lambda>n. case n of Directory _ \<Rightarrow> Inr n | _ \<Rightarrow> Inl OtherError)
      else lstat d (requested r))"

definition revalidate_target :: "edit_world \<Rightarrow> config \<Rightarrow> disk \<Rightarrow> resolved_path \<Rightarrow> bool \<Rightarrow> file_error + unit" where
  "revalidate_target w config d r existed =
     (if existed then
        (case resolve_path w config (res_input r) Write d of
           Inl _ \<Rightarrow> Inl ''file_revision_conflict''
         | Inr current \<Rightarrow> if res_path current \<noteq> res_path r then Inl ''file_symlink_rejected'' else Inr ())
      else if to_option (lstat_requested d r) \<noteq> None then Inl ''file_already_exists''
      else if requested r = [] then Inl ''file_parent_not_found''
      else (case follow d (butlast (requested r)) of
              Inl _ \<Rightarrow> Inl ''file_parent_not_found''
            | Inr p \<Rightarrow> if res_path r = [] \<or> p \<noteq> butlast (res_path r) then Inl ''file_symlink_rejected'' else Inr ()))"

definition revalidate_new_directory :: "edit_world \<Rightarrow> config \<Rightarrow> disk \<Rightarrow> abs_path \<Rightarrow> file_error + unit" where
  "revalidate_new_directory w config d p =
     (case lstat d (names p) of
        Inr _ \<Rightarrow> Inl ''file_symlink_rejected''
      | Inl NoEntry \<Rightarrow> permit (answers_in w d) config Write p
      | Inl _ \<Rightarrow> Inl ''file_parent_not_found'')"

definition revalidate_add_plan :: "edit_world \<Rightarrow> config \<Rightarrow> disk \<Rightarrow> resolved_path \<Rightarrow> abs_path list \<Rightarrow> file_error + unit" where
  "revalidate_add_plan w config d t parents =
     (if to_option (lstat_requested d t) \<noteq> None then Inl ''file_already_exists''
      else rbind (ok_or ''file_parent_not_found'' (canonicalize_existing_or_parent (answers_in w d) (path_string (res_path t)))) (\<lambda>p.
        if p \<noteq> res_path t then Inl ''file_symlink_rejected''
        else rbind (permit (answers_in w d) config Write (res_path t)) (\<lambda>_.
          rfold (\<lambda>q _. revalidate_new_directory w config d q) parents ())))"

text \<open>A directory that was created is a directory and where it is planned to be.\<close>

definition validate_created_parent_directory :: "edit_world \<Rightarrow> config \<Rightarrow> disk \<Rightarrow> abs_path \<Rightarrow> file_error + unit" where
  "validate_created_parent_directory w config d p =
     (case lstat d (names p) of
        Inl _ \<Rightarrow> Inl ''file_parent_not_found''
      | Inr n \<Rightarrow>
          if (case n of Directory _ \<Rightarrow> False | _ \<Rightarrow> True) \<or> follow d (names p) \<noteq> Inr p then Inl ''file_symlink_rejected''
          else permit (answers_in w d) config Write p)"

definition revalidate_add_parent_directories ::
    "edit_world \<Rightarrow> config \<Rightarrow> disk \<Rightarrow> resolved_path \<Rightarrow> abs_path list \<Rightarrow> file_error + unit" where
  "revalidate_add_parent_directories w config d t parents =
     rbind (revalidate_target w config d t False) (\<lambda>_.
     rbind (permit (answers_in w d) config Write (res_path t)) (\<lambda>_.
       rfold (\<lambda>q _. validate_created_parent_directory w config d q) parents ()))"

definition revalidate_source :: "(int list \<Rightarrow> rstr) \<Rightarrow> edit_world \<Rightarrow> config \<Rightarrow> disk \<Rightarrow> planned_change \<Rightarrow> file_error + unit" where
  "revalidate_source sha w config d c =
     (case source c of
        None \<Rightarrow> Inr ()
      | Some s \<Rightarrow>
          rbind (revalidate_target w config d s True) (\<lambda>_.
          rbind (load_edit_source d (res_path s)) (\<lambda>(bytes, _).
            if Some (sha bytes) \<noteq> before_revision c then Inl ''file_revision_conflict'' else Inr ())))"

text \<open>Before the directories are created, and after the contents were staged.\<close>

definition validate_planned :: "(int list \<Rightarrow> rstr) \<Rightarrow> edit_world \<Rightarrow> config \<Rightarrow> disk \<Rightarrow> planned_change \<Rightarrow> file_error + unit" where
  "validate_planned sha w config d c =
     rbind (revalidate_source sha w config d c) (\<lambda>_.
       case action c of
         ActAdd \<Rightarrow> revalidate_add_plan w config d (target c) (parents_to_create c)
       | ActMove \<Rightarrow> revalidate_target w config d (target c) False
       | _ \<Rightarrow> Inr ())"

definition validate_staged :: "(int list \<Rightarrow> rstr) \<Rightarrow> edit_world \<Rightarrow> config \<Rightarrow> disk \<Rightarrow> planned_change \<Rightarrow> file_error + unit" where
  "validate_staged sha w config d c =
     rbind (revalidate_source sha w config d c) (\<lambda>_.
       case action c of
         ActAdd \<Rightarrow> revalidate_add_parent_directories w config d (target c) (parents_to_create c)
       | ActMove \<Rightarrow> revalidate_target w config d (target c) False
       | _ \<Rightarrow> Inr ())"

definition validate_all :: "(planned_change \<Rightarrow> file_error + unit) \<Rightarrow> planned_change list \<Rightarrow> file_error + unit" where
  "validate_all check cs = rfold (\<lambda>c _. check c) cs ()"

subsection \<open>Directories of our own\<close>

text \<open>A created directory is removed again only while it is the same and empty.\<close>

type_synonym owned_directory = "abs_path \<times> nat"

definition remove_owned :: "edit_world \<Rightarrow> owned_directory \<Rightarrow> disk \<Rightarrow> disk" where
  "remove_owned w o' d =
     (case o' of (p, inode) \<Rightarrow>
        (case lstat d (names p) of
           Inr (Directory i) \<Rightarrow> if i = inode then snd (remove_dir (fails w) (names p) d) else d
         | _ \<Rightarrow> d))"

definition cleanup_owned_parent_directories :: "edit_world \<Rightarrow> owned_directory list \<Rightarrow> disk \<Rightarrow> disk" where
  "cleanup_owned_parent_directories w owned d = fold (remove_owned w) (rev owned) d"

definition directories_to_create :: "planned_change list \<Rightarrow> abs_path list" where
  "directories_to_create cs =
     remdups_adj (sort_key length (sort (concat (map parents_to_create (filter (\<lambda>c. action c = ActAdd) cs)))))"

fun create_directories ::
    "edit_world \<Rightarrow> config \<Rightarrow> abs_path list \<Rightarrow> owned_directory list \<Rightarrow> disk \<Rightarrow>
     (file_error + owned_directory list) \<times> disk" where
  "create_directories w config [] owned d = (Inr owned, d)"
| "create_directories w config (p # ps) owned d =
     (case create_dir (fails w) (new_inode w p) (names p) d of
        (Inl e, d1) \<Rightarrow>
          (Inl (if e = EntryExists then ''file_symlink_rejected'' else ''file_write_failed''),
           cleanup_owned_parent_directories w owned d1)
      | (Inr _, d1) \<Rightarrow>
          (case lstat d1 (names p) of
             Inr (Directory i) \<Rightarrow>
               if follow d1 (names p) \<noteq> Inr p
               then (Inl ''file_symlink_rejected'', cleanup_owned_parent_directories w owned d1)
               else (case validate_created_parent_directory w config d1 p of
                       Inl e \<Rightarrow> (Inl e, cleanup_owned_parent_directories w (owned @ [(p, i)]) d1)
                     | Inr _ \<Rightarrow> create_directories w config ps (owned @ [(p, i)]) d1)
           | _ \<Rightarrow> (Inl ''file_symlink_rejected'', cleanup_owned_parent_directories w owned d1)))"

definition create_missing_parent_directories ::
    "edit_world \<Rightarrow> config \<Rightarrow> planned_change list \<Rightarrow> disk \<Rightarrow> (file_error + owned_directory list) \<times> disk" where
  "create_missing_parent_directories w config cs d =
     create_directories w config (directories_to_create cs) [] d"

subsection \<open>Staging\<close>

text \<open>At most three names are tried; each change has its own names and stamp.\<close>

fun stage_attempts ::
    "edit_world \<Rightarrow> int list \<Rightarrow> nat \<Rightarrow> nat \<Rightarrow> abs_path list \<Rightarrow> disk \<Rightarrow> (file_error + abs_path) \<times> disk" where
  "stage_attempts w bytes mode stamp [] d = (Inl ''file_write_failed'', d)"
| "stage_attempts w bytes mode stamp (t # ts) d =
     (case write_new (fails w) bytes mode stamp (names t) d of
        (Inl _, d1) \<Rightarrow> stage_attempts w bytes mode stamp ts d1
      | (Inr _, d1) \<Rightarrow>
          if fails w (WriteNew (names t)) then (Inl ''file_write_failed'', snd (remove_file (fails w) (names t) d1))
          else (Inr t, d1))"

definition temp_paths :: "edit_world \<Rightarrow> nat \<Rightarrow> abs_path \<Rightarrow> abs_path list" where
  "temp_paths w i p = map (\<lambda>k. butlast p @ [temp_prefix @ temp_name w i k]) [0, 1, 2]"

definition stage_temp ::
    "edit_world \<Rightarrow> nat \<Rightarrow> abs_path \<Rightarrow> int list \<Rightarrow> nat option \<Rightarrow> disk \<Rightarrow> (file_error + abs_path) \<times> disk" where
  "stage_temp w i p bytes mode d =
     (if p = [] then (Inl ''file_parent_not_found'', d)
      else stage_attempts w bytes (case mode of None \<Rightarrow> new_mode w | Some m \<Rightarrow> m) (new_stamp w i) (temp_paths w i p) d)"

definition cleanup_temps :: "edit_world \<Rightarrow> planned_change list \<Rightarrow> disk \<Rightarrow> disk" where
  "cleanup_temps w cs d =
     fold (\<lambda>c d. case temp c of None \<Rightarrow> d | Some t \<Rightarrow> snd (remove_file (fails w) (names t) d)) cs d"

text \<open>The loop over the changes; the staged ones carry the paths of their temporary files.\<close>

fun stage_changes ::
    "edit_world \<Rightarrow> nat \<Rightarrow> planned_change list \<Rightarrow> planned_change list \<Rightarrow> disk \<Rightarrow>
     (file_error \<times> planned_change list + planned_change list) \<times> disk" where
  "stage_changes w i staged [] d = (Inr staged, d)"
| "stage_changes w i staged (c # cs) d =
     (if is_effective c then
        (case candidate c of
           None \<Rightarrow> stage_changes w (Suc i) (staged @ [c]) cs d
         | Some bytes \<Rightarrow>
             (case stage_temp w i (res_path (target c)) bytes (before_mode c) d of
                (Inl e, d1) \<Rightarrow> (Inl (e, staged @ c # cs), d1)
              | (Inr t, d1) \<Rightarrow> stage_changes w (Suc i) (staged @ [c\<lparr>temp := Some t\<rparr>]) cs d1))
      else stage_changes w (Suc i) (staged @ [c]) cs d)"

subsection \<open>Commits\<close>

definition commit_create :: "edit_world \<Rightarrow> planned_change \<Rightarrow> disk \<Rightarrow> (file_error + unit) \<times> disk" where
  "commit_create w c d =
     (case temp c of
        None \<Rightarrow> (Inl ''file_write_failed'', d)
      | Some t \<Rightarrow>
          (case hard_link (fails w) (names t) (requested (target c)) d of
             (Inl _, d1) \<Rightarrow> (Inl ''file_write_failed'', snd (remove_file (fails w) (names t) d1))
           | (Inr _, d1) \<Rightarrow> (Inr (), snd (remove_file (fails w) (names t) d1))))"

definition commit_replace :: "edit_world \<Rightarrow> planned_change \<Rightarrow> disk \<Rightarrow> (file_error + unit) \<times> disk" where
  "commit_replace w c d =
     (case temp c of
        None \<Rightarrow> (Inl ''file_write_failed'', d)
      | Some t \<Rightarrow>
          (case rename_file (fails w) (names t) (names (res_path (target c))) d of
             (Inl _, d1) \<Rightarrow> (Inl ''file_write_failed'', d1)
           | (Inr _, d1) \<Rightarrow> (Inr (), d1)))"

definition commit_delete :: "edit_world \<Rightarrow> planned_change \<Rightarrow> disk \<Rightarrow> (file_error + unit) \<times> disk" where
  "commit_delete w c d =
     (case remove_file (fails w) (names (res_path (target c))) d of
        (Inl _, d1) \<Rightarrow> (Inl ''file_write_failed'', d1)
      | (Inr _, d1) \<Rightarrow> (Inr (), d1))"

text \<open>A new path with a slash at its end cannot be the name of a file.\<close>

definition commit_move :: "edit_world \<Rightarrow> planned_change \<Rightarrow> disk \<Rightarrow> (file_error + unit) \<times> disk" where
  "commit_move w c d =
     (case (destination c, temp c) of
        (Some r, Some t) \<Rightarrow>
          (case (if requested_slash r then (Inl OtherError, d) else rename_file (fails w) (names t) (requested r) d) of
             (Inl _, d1) \<Rightarrow> (Inl ''file_write_failed'', d1)
           | (Inr _, d1) \<Rightarrow>
               (case source c of
                  None \<Rightarrow> (Inl ''file_write_failed'', d1)
                | Some s \<Rightarrow>
                    (case remove_file (fails w) (names (res_path s)) d1 of
                       (Inl _, d2) \<Rightarrow> (Inl ''file_write_failed'', snd (remove_file (fails w) (requested r) d2))
                     | (Inr _, d2) \<Rightarrow> (Inr (), d2))))
      | _ \<Rightarrow> (Inl ''file_write_failed'', d))"

definition commit_change :: "edit_world \<Rightarrow> planned_change \<Rightarrow> disk \<Rightarrow> (file_error + unit) \<times> disk" where
  "commit_change w c d =
     (case action c of
        ActAdd \<Rightarrow> commit_create w c d
      | ActUpdate \<Rightarrow> commit_replace w c d
      | ActDelete \<Rightarrow> commit_delete w c d
      | ActMove \<Rightarrow> commit_move w c d)"

datatype change_status =
  StatusCreated | StatusUpdated | StatusDeleted | StatusMoved | StatusUnchanged | StatusFailed file_error
| StatusSkipped

definition done_status :: "planned_change \<Rightarrow> change_status" where
  "done_status c =
     (case action c of ActAdd \<Rightarrow> StatusCreated | ActDelete \<Rightarrow> StatusDeleted | ActMove \<Rightarrow> StatusMoved
      | ActUpdate \<Rightarrow> StatusUpdated)"

text \<open>
  The loop over the changes: their statuses, the error that stopped it, and the disk. A
  commit takes the temporary file of its change; the others are removed after an error.
\<close>

fun commit_changes ::
    "edit_world \<Rightarrow> planned_change list \<Rightarrow> disk \<Rightarrow> change_status list \<times> file_error option \<times> disk" where
  "commit_changes w [] d = ([], None, d)"
| "commit_changes w (c # cs) d =
     (if \<not> is_effective c then
        (case commit_changes w cs d of (ss, e, d') \<Rightarrow> (StatusUnchanged # ss, e, d'))
      else
        (case commit_change w c d of
           (Inl e, d1) \<Rightarrow>
             (StatusFailed e # map (\<lambda>c. if is_effective c then StatusSkipped else StatusUnchanged) cs, Some e,
              cleanup_temps w cs d1)
         | (Inr _, d1) \<Rightarrow>
             (case commit_changes w cs d1 of (ss, e, d') \<Rightarrow> (done_status c # ss, e, d'))))"

definition committed :: "change_status list \<Rightarrow> nat" where
  "committed ss = length (filter (\<lambda>s. s \<in> {StatusCreated, StatusUpdated, StatusDeleted, StatusMoved}) ss)"

subsection \<open>The answer\<close>

record edit_response =
  completed :: bool
  statuses :: "(planned_change \<times> change_status) list"
  effective :: nat
  summary_committed :: nat
  summary_failed :: nat
  summary_skipped :: nat
  confirmed :: bool

definition patch_response :: "bool \<Rightarrow> bool \<Rightarrow> planned_change list \<Rightarrow> change_status list \<Rightarrow> edit_response" where
  "patch_response approval ok cs ss =
     (let n = length (filter is_effective cs) in
      \<lparr>completed = ok, statuses = zip cs ss, effective = n, summary_committed = committed ss,
       summary_failed = (if ok then 0 else 1),
       summary_skipped = length (filter (\<lambda>s. s = StatusSkipped) ss),
       confirmed = (0 < n \<and> approval)\<rparr>)"

text \<open>From the locks to the answer.\<close>

definition run_transaction ::
    "(int list \<Rightarrow> rstr) \<Rightarrow> edit_world \<Rightarrow> config \<Rightarrow> bool \<Rightarrow> planned_change list \<Rightarrow> disk \<Rightarrow>
     (file_error + edit_response) \<times> disk" where
  "run_transaction sha w config approval cs d =
     (case validate_all (validate_planned sha w config d) cs of
        Inl e \<Rightarrow> (Inl e, d)
      | Inr _ \<Rightarrow>
     (case create_missing_parent_directories w config cs d of
        (Inl e, d1) \<Rightarrow> (Inl e, d1)
      | (Inr owned, d1) \<Rightarrow>
     (case validate_all (\<lambda>c. revalidate_add_parent_directories w config d1 (target c) (parents_to_create c))
             (filter (\<lambda>c. action c = ActAdd) cs) of
        Inl e \<Rightarrow> (Inl e, cleanup_owned_parent_directories w owned d1)
      | Inr _ \<Rightarrow>
     (case stage_changes w 0 [] cs d1 of
        (Inl (e, staged), d2) \<Rightarrow> (Inl e, cleanup_owned_parent_directories w owned (cleanup_temps w staged d2))
      | (Inr staged, d2) \<Rightarrow>
     (let d3 = during_staging w d2 in
      case validate_all (validate_staged sha w config d3) staged of
        Inl e \<Rightarrow> (Inl e, cleanup_owned_parent_directories w owned (cleanup_temps w staged d3))
      | Inr _ \<Rightarrow>
     (case commit_changes w staged d3 of
        (ss, None, d4) \<Rightarrow> (Inr (patch_response approval True cs ss), d4)
      | (ss, Some e, d4) \<Rightarrow>
          let d5 = cleanup_owned_parent_directories w owned d4 in
          if committed ss = 0 then (Inl e, d5)
          else (Inr (patch_response approval False cs ss), d5)))))))"

subsection \<open>Authorisation\<close>

text \<open>The targets of a hunk: what is authorised, and what is resolved again after the approval.\<close>

definition hunk_targets ::
    "edit_world \<Rightarrow> config \<Rightarrow> disk \<Rightarrow> hunk \<Rightarrow>
     file_error + (rstr \<times> abs_path \<times> bool) list \<times> (abs_path \<times> path_access_kind) list" where
  "hunk_targets w config d h =
     (case h of
        AddFile path _ \<Rightarrow>
          rbind (resolve_absent_add_path w config path d) (\<lambda>(t, parents).
            Inr ([(path, res_path t, True)], (res_path t, Write) # map (\<lambda>p. (p, Write)) parents))
      | DeleteFile path \<Rightarrow>
          rbind (resolve_path w config path Write d) (\<lambda>t.
            Inr ([(path, res_path t, False)], [(res_path t, Read), (res_path t, Write)]))
      | UpdateFile path move_path _ \<Rightarrow>
          rbind (resolve_path w config path Write d) (\<lambda>t.
          case move_path of
            None \<Rightarrow> Inr ([(path, res_path t, False)], [(res_path t, Read), (res_path t, Write)])
          | Some m \<Rightarrow>
              rbind (resolve_absent_path w config m d) (\<lambda>r.
                Inr ([(path, res_path t, False), (m, res_path r, True)],
                     [(res_path t, Read), (res_path t, Write), (res_path r, Write)]))))"

definition patch_targets ::
    "edit_world \<Rightarrow> config \<Rightarrow> disk \<Rightarrow> hunk list \<Rightarrow>
     file_error + (rstr \<times> abs_path \<times> bool) list \<times> (abs_path \<times> path_access_kind) list" where
  "patch_targets w config d hs =
     rfold (\<lambda>h (rs, ts). rbind (hunk_targets w config d h) (\<lambda>(r, t). Inr (rs @ r, ts @ t))) hs ([], [])"

definition confirmation_error :: "string \<Rightarrow> file_error" where
  "confirmation_error why =
     (if why = ''provider_unavailable'' then ''file_confirmation_unavailable''
      else if why = ''policy_denied'' then ''path_denied'' else ''file_confirmation_denied'')"

definition existing_ancestor :: "disk \<Rightarrow> abs_path \<Rightarrow> abs_path option" where
  "existing_ancestor d p =
     List.find (\<lambda>q. to_option (stat d (names q)) \<noteq> None) (rev (map (\<lambda>k. take k p) [0..<length p]))"

definition watched_ancestors :: "disk \<Rightarrow> (abs_path \<times> path_access_kind) list \<Rightarrow> abs_path list" where
  "watched_ancestors d ts =
     concat (map (\<lambda>(p, _). if to_option (stat d (names p)) \<noteq> None then []
       else case existing_ancestor d p of None \<Rightarrow> [] | Some q \<Rightarrow> [q]) ts)"

definition targets_decision ::
    "file_system \<Rightarrow> config \<Rightarrow> (abs_path \<times> path_access_kind) list \<Rightarrow> file_error + policy_decision" where
  "targets_decision fs config ts =
     rfold (\<lambda>(p, access) dec. case path_policy_decision fs config p (access = Write) of
        Inl _ \<Rightarrow> Inl ''path_policy_error'' | Inr x \<Rightarrow> Inr (max dec x)) ts Allow"

text \<open>The configuration the changes run with; the disk may change while the user decides.\<close>

definition authorize_file_targets ::
    "edit_world \<Rightarrow> prompt_world \<Rightarrow> confirmation_channel list \<Rightarrow> config \<Rightarrow> acquire_confirmation option \<Rightarrow>
     (abs_path \<times> path_access_kind) list \<Rightarrow> disk \<Rightarrow> file_error + config \<times> bool" where
  "authorize_file_targets w pw channels config acquisition ts d =
     (let d1 = during_approval w d;
          unchanged = (\<lambda>p. file_identity w d1 p = file_identity w d p) in
      rbind (case acquisition of None \<Rightarrow> Inr ()
             | Some a \<Rightarrow> (case validate_scope False a of Inl _ \<Rightarrow> Inl ''file_invalid_acquisition'' | Inr _ \<Rightarrow> Inr ())) (\<lambda>_.
      rbind (targets_decision (answers_in w d) config ts) (\<lambda>dec.
      case authorize_operation_cancellable pw channels acquisition False dec False of
        Inl why \<Rightarrow> Inl (confirmation_error why)
      | Inr auth \<Rightarrow>
          if \<not> list_all (\<lambda>(p, _). unchanged p) ts \<or> \<not> list_all unchanged (watched_ancestors d ts)
          then Inl ''file_revision_conflict''
          else Inr (if approved auth then permissive_paths config else config, approved auth))))"

definition recheck_target :: "edit_world \<Rightarrow> config \<Rightarrow> disk \<Rightarrow> rstr \<times> abs_path \<times> bool \<Rightarrow> file_error + unit" where
  "recheck_target w config d t =
     (case t of (input, expected, absent) \<Rightarrow>
        rbind (if absent then
             rbind (ok_or ''file_path_invalid'' (expand_path (answers_in w d) input)) (\<lambda>e.
               ok_or ''file_path_unreadable'' (canonicalize_existing_or_parent (answers_in w d)
                 (if is_absolute e then e else join_path (workspace_root config) e)))
           else rbind (resolve_path w (permissive_paths config) input Write d) (\<lambda>r. Inr (res_path r)))
          (\<lambda>actual. if actual \<noteq> expected then Inl ''file_symlink_rejected'' else Inr ()))"

subsection \<open>The tool\<close>

definition apply_patch_inner ::
    "(int list \<Rightarrow> rstr) \<Rightarrow> edit_world \<Rightarrow> prompt_world \<Rightarrow> confirmation_channel list \<Rightarrow> config \<Rightarrow>
     acquire_confirmation option \<Rightarrow> rstr \<Rightarrow> disk \<Rightarrow> (file_error + edit_response) \<times> disk" where
  "apply_patch_inner sha w pw channels config acquisition patch d =
     (case parse_patch patch of
        Inl _ \<Rightarrow> (Inl ''file_patch_invalid'', d)
      | Inr parsed \<Rightarrow>
     (let hs = args_hunks parsed in
      if hs = [] then (Inl ''file_patch_invalid'', d)
      else (case patch_targets w (permissive_paths config) d hs of
        Inl e \<Rightarrow> (Inl e, d)
      | Inr (rs, ts) \<Rightarrow>
     (let d1 = during_approval w d in
      case authorize_file_targets w pw channels config acquisition ts d of
        Inl e \<Rightarrow> (Inl e, d1)
      | Inr (effective_config, approval) \<Rightarrow>
     (case rfold (\<lambda>t _. recheck_target w config d1 t) rs () of
        Inl e \<Rightarrow> (Inl e, d1)
      | Inr _ \<Rightarrow>
     (case plan_hunks sha w effective_config d1 hs of
        Inl e \<Rightarrow> (Inl e, d1)
      | Inr cs \<Rightarrow>
     (case reject_overlapping_paths (concat (map change_paths cs)) of
        Inl e \<Rightarrow> (Inl e, d1)
      | Inr _ \<Rightarrow> run_transaction sha w effective_config approval cs (during_lock w d1))))))))"

end
