(* ===== verification/File_Atomic.thy ===== *)
theory File_Atomic
  imports File_Transaction
begin

text \<open>
  What the transaction does to the disk: the directories it creates, the temporary files it
  stages, the cleanup that undoes both, and the commits; the
  lemmas on which the theories about errors and answers rest.
\<close>

subsection \<open>Trees\<close>

text \<open>A disk is a tree: what exists has a directory above it.\<close>

definition tree_ok :: "disk \<Rightarrow> bool" where
  "tree_ok d \<longleftrightarrow> (\<forall>p. p \<noteq> [] \<longrightarrow> look d p \<noteq> None \<longrightarrow> directory_at d (butlast p))"

lemma has_child_iff: "has_child d p \<longleftrightarrow> (\<exists>q. q \<noteq> [] \<and> look d q \<noteq> None \<and> butlast q = p)"
proof -
  have "(\<exists>n. (q, n) \<in> set d) \<longleftrightarrow> map_of d q \<noteq> None" for q
    using map_of_eq_None_iff [of d q] by force
  then show ?thesis unfolding has_child_def list_ex_iff look_def by (metis (mono_tags, lifting) case_prodE case_prodI)
qed

text \<open>No link on the way to a path, the path itself included.\<close>

definition linkless :: "disk \<Rightarrow> abs_path \<Rightarrow> bool" where
  "linkless d p \<longleftrightarrow> (\<forall>k \<le> length p. \<forall>s. look d (take k p) \<noteq> Some (Link s))"

lemma linkless_Nil [simp]: "linkless d []"
  by (simp add: linkless_def)

lemma linkless_snoc: "linkless d (p @ [n]) \<longleftrightarrow> linkless d p \<and> (\<forall>s. look d (p @ [n]) \<noteq> Some (Link s))"
  by (auto simp: linkless_def le_Suc_eq)

lemma linkless_take: "linkless d p \<Longrightarrow> linkless d (take k p)"
  by (auto simp: linkless_def min_def)

lemma in_directories_linkless:
  assumes "in_directories d p" and "\<forall>s. look d p \<noteq> Some (Link s)"
  shows "linkless d p"
  unfolding linkless_def
proof (intro allI impI)
  fix k s
  assume "k \<le> length p"
  show "look d (take k p) \<noteq> Some (Link s)"
  proof (cases "k = length p")
    case False
    with \<open>k \<le> length p\<close> assms(1) have "directory_at d (take k p)" by (simp add: in_directories_def)
    then show ?thesis by (auto simp: directory_at_iff)
  qed (use assms(2) in simp)
qed

lemma walk_linkless:
  assumes "walk d fuel here (map Normal q) = Inr r" and "linkless d (here @ q)" and "directory_at d here"
  shows "r = here @ q"
  using assms
proof (induction q arbitrary: here)
  case (Cons n q)
  have "look d (take (Suc (length here)) (here @ n # q)) \<noteq> Some (Link s)" for s
    using Cons.prems(2) unfolding linkless_def by (metis Suc_leI add_Suc_right length_Cons length_append less_add_Suc1)
  then have "look d (here @ [n]) \<noteq> Some (Link s)" for s by simp
  with Cons.IH [of "here @ [n]"] Cons.prems show ?case
    by (auto simp: directory_at_iff split: option.splits node.splits if_splits)
qed simp

lemma follow_linkless: "follow d (names q) = Inr r \<Longrightarrow> linkless d q \<Longrightarrow> r = q"
  using walk_linkless [of d max_links "[]" q r] by (simp add: follow_def names_def)

lemma names_butlast: "butlast (names p) = names (butlast p)"
  by (simp add: names_def map_butlast)

text \<open>On a way without links the place of a name is where it says, below a directory.\<close>

lemma locate_linkless:
  assumes "locate d (names p) = Inr q" and "linkless d (butlast p)"
  shows "q = p \<and> in_directories d p \<and> p \<noteq> []"
proof -
  have p: "p \<noteq> []" using assms(1) by (auto simp: locate_def names_def)
  then have last: "last (names p) = Normal (last p)" by (simp add: names_def last_map)
  have "names p \<noteq> []" using p by (simp add: names_def)
  with assms(1) last obtain r where r: "follow d (names (butlast p)) = Inr r" "directory_at d r" "q = r @ [last p]"
    by (auto simp: locate_def names_butlast rbind_def split: sum.splits if_splits)
  from follow_linkless [OF r(1) assms(2)] have "r = butlast p" .
  moreover have "in_directories d (butlast p @ [last p])"
    using follow_result(1) [OF r(1)] r(2) \<open>r = butlast p\<close> by (simp add: in_directories_snoc)
  ultimately show ?thesis using r(3) p by simp
qed

lemma lstat_linkless_None:
  assumes "linkless d (butlast p)" and "p \<noteq> []" and "look d p = None"
  shows "to_option (lstat d (names p)) = None"
proof -
  have "names p \<noteq> []" "last (names p) \<noteq> ParentDir" using assms(2) by (auto simp: names_def last_map)
  then show ?thesis
    using locate_linkless [OF _ assms(1)] assms(3)
    by (cases "locate d (names p)") (auto simp: lstat_def to_option_def rbind_def ok_or_def)
qed

subsection \<open>What the transaction has added\<close>

text \<open>
  Its directories, in the order of their creation, its temporary files, and temporary files
  that were left behind, which are not in its directories.
\<close>

record additions =
  own_dirs :: "owned_directory list"
  own_temps :: "abs_path list"
  left_temps :: "abs_path list"

definition own_paths :: "additions \<Rightarrow> abs_path set" where
  "own_paths a = fst ` set (own_dirs a)"

definition dirs_ok :: "disk \<Rightarrow> additions \<Rightarrow> disk \<Rightarrow> bool" where
  "dirs_ok d a d' \<longleftrightarrow>
     (\<forall>(p, i) \<in> set (own_dirs a). p \<noteq> [] \<and> look d' p = Some (Directory i) \<and> look d p = None \<and> in_directories d' p) \<and>
     sorted (map (length \<circ> fst) (own_dirs a)) \<and> distinct (map fst (own_dirs a))"

definition temps_ok :: "disk \<Rightarrow> additions \<Rightarrow> disk \<Rightarrow> bool" where
  "temps_ok d a d' \<longleftrightarrow>
     (\<forall>t \<in> set (own_temps a). (\<exists>b m s. look d' t = Some (RegularFile b m s)) \<and> in_directories d' t) \<and>
     distinct (own_temps a)"

definition fresh_temps :: "disk \<Rightarrow> additions \<Rightarrow> bool" where
  "fresh_temps d a \<longleftrightarrow>
     (\<forall>t \<in> set (own_temps a) \<union> set (left_temps a). is_temp t \<and> look d t = None \<and> linkless d (butlast t)) \<and>
     (\<forall>t \<in> set (left_temps a). butlast t \<notin> own_paths a) \<and>
     own_paths a \<inter> (set (own_temps a) \<union> set (left_temps a)) = {}"

definition rest_same :: "disk \<Rightarrow> additions \<Rightarrow> disk \<Rightarrow> bool" where
  "rest_same d a d' \<longleftrightarrow>
     (\<forall>p. p \<notin> own_paths a \<union> set (own_temps a) \<union> set (left_temps a) \<longrightarrow> look d' p = look d p)"

definition added :: "disk \<Rightarrow> additions \<Rightarrow> disk \<Rightarrow> bool" where
  "added d a d' \<longleftrightarrow> dirs_ok d a d' \<and> temps_ok d a d' \<and> fresh_temps d a \<and> rest_same d a d'"

definition cleanup_works :: "edit_world \<Rightarrow> disk \<Rightarrow> bool" where
  "cleanup_works w d \<longleftrightarrow>
     (\<forall>cs. \<not> fails w (RemoveDir cs)) \<and> (\<forall>cs. fails w (RemoveFile cs) \<longrightarrow> to_option (lstat d cs) \<noteq> None)"

definition visibly_same :: "disk \<Rightarrow> disk \<Rightarrow> bool" where
  "visibly_same d d' \<longleftrightarrow> (\<forall>p. \<not> is_temp p \<longrightarrow> look d' p = look d p)"

lemma added_nothing: "added d \<lparr>own_dirs = [], own_temps = [], left_temps = []\<rparr> d"
  by (simp add: added_def dirs_ok_def temps_ok_def fresh_temps_def rest_same_def own_paths_def)

lemma added_visible: "added d a d' \<Longrightarrow> own_dirs a = [] \<Longrightarrow> visibly_same d d'"
  by (auto simp: added_def fresh_temps_def rest_same_def own_paths_def visibly_same_def)

lemma own_temp:
  assumes "added d a d'" and "t \<in> set (own_temps a)"
  obtains b m s where "look d' t = Some (RegularFile b m s)" and "in_directories d' t" and "t \<noteq> []"
    and "look d t = None" and "linkless d (butlast t)" and "t \<notin> own_paths a"
proof -
  obtain b m s where "look d' t = Some (RegularFile b m s)" "in_directories d' t"
    using assms unfolding added_def temps_ok_def by blast
  moreover have "is_temp t" "look d t = None" "linkless d (butlast t)" "t \<notin> own_paths a"
    using assms unfolding added_def fresh_temps_def by blast+
  ultimately show ?thesis using that by (auto simp: is_temp_def)
qed

text \<open>Changes of regular files away from the directories keep them in place.\<close>

lemma dirs_ok_same_tree:
  assumes "dirs_ok d a d'" and "same_tree d' d''"
  shows "dirs_ok d a d''"
  using assms unfolding dirs_ok_def same_tree_def same_tree_in_directories [OF assms(2)] by auto

lemma erase_own_temp:
  assumes "added d a d'" and "t \<in> set (own_temps a)"
  shows "added d (a\<lparr>own_temps := remove1 t (own_temps a)\<rparr>) (erase t d')" and "same_tree d' (erase t d')"
proof -
  obtain b m s where t: "look d' t = Some (RegularFile b m s)" "in_directories d' t" and ne: "t \<noteq> []"
    and t2: "look d t = None" "linkless d (butlast t)" "t \<notin> own_paths a"
    using own_temp [OF assms] .
  let ?d = "erase t d'" and ?a = "a\<lparr>own_temps := remove1 t (own_temps a)\<rparr>"
  show tree: "same_tree d' ?d" by (rule same_tree_erase) (simp_all add: ne t(1))
  have ok: "dirs_ok d a d'" "temps_ok d a d'" "fresh_temps d a" "rest_same d a d'"
    using assms(1) by (simp_all add: added_def)
  have dist: "distinct (own_temps a)" using ok(2) by (simp add: temps_ok_def)
  have "dirs_ok d ?a ?d" using dirs_ok_same_tree [OF ok(1) tree] by (simp add: dirs_ok_def)
  moreover have "temps_ok d ?a ?d"
    using ok(2) dist ne by (auto simp: temps_ok_def same_tree_in_directories [OF tree])
  moreover have "fresh_temps d ?a" using ok(3) dist by (auto simp: fresh_temps_def own_paths_def)
  moreover have "rest_same d ?a ?d" using ok(4) dist ne t2(1) by (auto simp: rest_same_def own_paths_def)
  ultimately show "added d ?a ?d" by (simp add: added_def)
qed

lemma remove_own_temp:
  assumes "cleanup_works w d" and "added d a d'" and "t \<in> set (own_temps a)"
  shows "remove_file (fails w) (names t) d' = (Inr (), erase t d')"
proof -
  obtain b m s where t: "look d' t = Some (RegularFile b m s)" "in_directories d' t" and ne: "t \<noteq> []"
    and t2: "look d t = None" "linkless d (butlast t)" "t \<notin> own_paths a"
    using own_temp [OF assms(2,3)] .
  have "\<not> fails w (RemoveFile (names t))"
    using lstat_linkless_None [OF t2(2) ne t2(1)] assms(1) by (auto simp: cleanup_works_def)
  then show ?thesis by (simp add: remove_file_def locate_canonical [OF t(2) ne] t(1))
qed

lemma cleanup_temps_added:
  assumes "cleanup_works w d" and "added d a d'" and "own_temps a = concat (map (\<lambda>c. case temp c of None \<Rightarrow> [] | Some t \<Rightarrow> [t]) cs)"
  shows "added d (a\<lparr>own_temps := []\<rparr>) (cleanup_temps w cs d')"
  using assms(2,3)
proof (induction cs arbitrary: a d')
  case Nil
  then show ?case by (cases a) (simp add: cleanup_temps_def)
next
  case (Cons c cs)
  show ?case
  proof (cases "temp c")
    case None
    with Cons show ?thesis by (simp add: cleanup_temps_def)
  next
    case (Some t)
    then have ts: "own_temps a = t # concat (map (\<lambda>c. case temp c of None \<Rightarrow> [] | Some t \<Rightarrow> [t]) cs)"
      using Cons.prems(2) by simp
    have rm: "remove_file (fails w) (names t) d' = (Inr (), erase t d')"
      and d'': "added d (a\<lparr>own_temps := remove1 t (own_temps a)\<rparr>) (erase t d')"
      using remove_own_temp [OF assms(1) Cons.prems(1), of t] erase_own_temp [OF Cons.prems(1), of t] ts by auto
    from Cons.IH [OF d''] ts rm Some show ?thesis by (simp add: cleanup_temps_def)
  qed
qed

lemma remove_last_dir:
  assumes "cleanup_works w d" and "tree_ok d" and "added d (a\<lparr>own_dirs := ds @ [(p, i)], own_temps := []\<rparr>) d'"
  shows "added d (a\<lparr>own_dirs := ds, own_temps := []\<rparr>) (remove_owned w (p, i) d')"
proof -
  let ?a = "a\<lparr>own_dirs := ds @ [(p, i)], own_temps := []\<rparr>" and ?b = "a\<lparr>own_dirs := ds, own_temps := []\<rparr>"
  have ok: "dirs_ok d ?a d'" "fresh_temps d ?a" "rest_same d ?a d'"
    using assms(3) by (simp_all add: added_def)
  have p: "p \<noteq> []" "look d' p = Some (Directory i)" "look d p = None" "in_directories d' p" "p \<notin> fst ` set ds"
    "\<forall>q \<in> fst ` set ds. length q \<le> length p"
    using ok(1) by (auto simp: dirs_ok_def sorted_append)
  have "\<not> has_child d' p"
  proof
    assume "has_child d' p"
    then obtain q where q: "q \<noteq> []" "look d' q \<noteq> None" "butlast q = p" by (auto simp: has_child_iff)
    have "length q = Suc (length p)" using q(1,3) by (cases q rule: rev_cases) auto
    then have "q \<notin> fst ` set (own_dirs ?a)" using p(6) by fastforce
    moreover have "q \<notin> set (left_temps ?a)" using ok(2) q(3) by (auto simp: fresh_temps_def own_paths_def)
    ultimately have "look d q = look d' q" using ok(3) by (auto simp: rest_same_def own_paths_def)
    with q assms(2) p(3) show False by (auto simp: tree_ok_def directory_at_def)
  qed
  moreover have "\<not> fails w (RemoveDir (names p))" using assms(1) by (simp add: cleanup_works_def)
  ultimately have rm: "remove_owned w (p, i) d' = erase p d'"
    using p by (simp add: remove_owned_def lstat_canonical ok_or_def remove_dir_def locate_canonical directory_at_def)
  have shorter: "take k q \<noteq> p" if "q \<in> fst ` set ds" "k < length q" for q k
  proof -
    have "length q \<le> length p" using p(6) that(1) by blast
    with that(2) have "length (take k q) < length p" by simp
    then show ?thesis by auto
  qed
  have kept: "q \<noteq> [] \<and> look (erase p d') q = Some (Directory j) \<and> look d q = None \<and> in_directories (erase p d') q"
    if q: "(q, j) \<in> set ds" for q j
  proof -
    have old: "q \<noteq> []" "look d' q = Some (Directory j)" "look d q = None" "in_directories d' q"
      using ok(1) q by (auto simp: dirs_ok_def)
    have "q \<in> fst ` set ds" using q by force
    then have "q \<noteq> p" using p(5) by blast
    have "in_directories (erase p d') q"
      using old(4) shorter [OF \<open>q \<in> fst ` set ds\<close>] p(1) by (simp add: in_directories_def directory_at_def)
    with old \<open>q \<noteq> p\<close> p(1) show ?thesis by simp
  qed
  then have "dirs_ok d ?b (erase p d')"
    using ok(1) by (auto simp: dirs_ok_def sorted_append)
  moreover have "temps_ok d ?b (erase p d')" by (simp add: temps_ok_def)
  moreover have "fresh_temps d ?b" using ok(2) by (auto simp: fresh_temps_def own_paths_def)
  moreover have "rest_same d ?b (erase p d')" using ok(3) p by (auto simp: rest_same_def own_paths_def)
  ultimately show ?thesis by (simp add: added_def rm)
qed

lemma cleanup_dirs_added:
  assumes "cleanup_works w d" and "tree_ok d" and "added d (a\<lparr>own_temps := []\<rparr>) d'"
  shows "added d (a\<lparr>own_dirs := [], own_temps := []\<rparr>) (cleanup_owned_parent_directories w (own_dirs a) d')"
proof -
  have "added d (a\<lparr>own_dirs := [], own_temps := []\<rparr>) (fold (remove_owned w) (rev ds) d')"
    if "added d (a\<lparr>own_dirs := ds, own_temps := []\<rparr>) d'" for ds
    using that
  proof (induction ds arbitrary: d' rule: rev_induct)
    case (snoc x ds)
    from remove_last_dir [OF assms(1,2), where a = a and ds = ds and p = "fst x" and i = "snd x"] snoc show ?case by simp
  qed simp
  from this [of "own_dirs a"] assms(3) show ?thesis by (simp add: cleanup_owned_parent_directories_def)
qed


subsection \<open>Creating directories\<close>

definition adds :: "owned_directory list \<Rightarrow> abs_path list \<Rightarrow> abs_path list \<Rightarrow> additions" where
  "adds ds ts ls = \<lparr>own_dirs = ds, own_temps = ts, left_temps = ls\<rparr>"

lemma adds_simps [simp]:
  "own_dirs (adds ds ts ls) = ds" "own_temps (adds ds ts ls) = ts" "left_temps (adds ds ts ls) = ls"
  "own_paths (adds ds ts ls) = fst ` set ds"
  "(adds ds ts ls)\<lparr>own_temps := ts'\<rparr> = adds ds ts' ls" "(adds ds ts ls)\<lparr>own_dirs := ds'\<rparr> = adds ds' ts ls"
  by (simp_all add: adds_def own_paths_def)

lemma added_linkless:
  assumes "added d (adds ds ts []) d'" and "linkless d q"
  shows "linkless d' q"
  unfolding linkless_def
proof (intro allI impI)
  fix k s
  assume k: "k \<le> length q"
  show "look d' (take k q) \<noteq> Some (Link s)"
  proof (cases "take k q \<in> fst ` set ds \<union> set ts")
    case True
    then show ?thesis using assms(1) by (fastforce simp: added_def dirs_ok_def temps_ok_def)
  next
    case False
    then have "look d' (take k q) = look d (take k q)" using assms(1) by (simp add: added_def rest_same_def)
    then show ?thesis using assms(2) k by (simp add: linkless_def)
  qed
qed

lemma look_put_None:
  assumes "look d p = None"
  shows "in_directories d q \<Longrightarrow> in_directories (put p n d) q" and "directory_at d q \<Longrightarrow> directory_at (put p n d) q"
proof -
  have "p \<noteq> []" using assms by auto
  then have "directory_at d r \<Longrightarrow> directory_at (put p n d) r" for r
    using assms by (auto simp: directory_at_def)
  then show "in_directories d q \<Longrightarrow> in_directories (put p n d) q" "directory_at d q \<Longrightarrow> directory_at (put p n d) q"
    by (auto simp: in_directories_def)
qed

lemma create_dir_added:
  assumes "added d (adds ds [] []) d'" and "linkless d (butlast p)" and "\<forall>q \<in> fst ` set ds. length q \<le> length p"
    and "create_dir f inode (names p) d' = (Inr u, d'')"
  shows "added d (adds (ds @ [(p, inode)]) [] []) d''" "look d'' p = Some (Directory inode)" "in_directories d'' p" "p \<noteq> []"
proof -
  have "linkless d' (butlast p)" using added_linkless [OF assms(1,2)] .
  then obtain loc: "locate d' (names p) = Inr p" and p: "in_directories d' p" "p \<noteq> []" and none: "look d' p = None"
    and d'': "d'' = put p (Directory inode) d'"
    using assms(4) locate_linkless [of d' p]
    by (auto simp: create_dir_def split: if_splits sum.splits)
  have new: "p \<notin> fst ` set ds" using assms(1) none by (force simp: added_def dirs_ok_def)
  then have "look d p = None" using assms(1) none by (auto simp: added_def rest_same_def)
  moreover note keep = look_put_None(1) [OF none, where n = "Directory inode"]
  ultimately have "dirs_ok d (adds (ds @ [(p, inode)]) [] []) d''"
    using assms(1,3) p new unfolding added_def dirs_ok_def d'' by (force simp: sorted_append)
  moreover have "rest_same d (adds (ds @ [(p, inode)]) [] []) d''"
    using assms(1) p unfolding added_def rest_same_def d'' by auto
  ultimately show "added d (adds (ds @ [(p, inode)]) [] []) d''"
    by (simp add: added_def temps_ok_def fresh_temps_def)
  show "look d'' p = Some (Directory inode)" "in_directories d'' p" "p \<noteq> []"
    using p keep by (simp_all add: d'')
qed

lemma cleanup_owned:
  assumes "cleanup_works w d" and "tree_ok d" and "added d (adds ds [] ls) d'"
  shows "visibly_same d (cleanup_owned_parent_directories w ds d')"
  using cleanup_dirs_added [OF assms(1,2), of "adds ds [] ls" d'] assms(3) by (auto intro: added_visible)

lemma create_directories_added:
  assumes "cleanup_works w d" and "tree_ok d" and "added d (adds ds [] []) d'"
    and "\<forall>p \<in> set ps. linkless d (butlast p)" and "sorted (map length (map fst ds @ ps))"
    and "create_directories w config ps ds d' = (r, d'')"
  shows "case r of Inl e \<Rightarrow> visibly_same d d'' | Inr owned \<Rightarrow> map fst owned = map fst ds @ ps \<and> added d (adds owned [] []) d''"
  using assms(3-)
proof (induction ps arbitrary: ds d')
  case (Cons p ps)
  have longest: "\<forall>q \<in> fst ` set ds. length q \<le> length p" using Cons.prems(3) by (auto simp: sorted_append)
  obtain o1 d1 where c: "create_dir (fails w) (new_inode w p) (names p) d' = (o1, d1)" by fastforce
  show ?case
  proof (cases o1)
    case (Inl e)
    then have "d1 = d'" using c by (auto simp: create_dir_def split: if_splits sum.splits)
    then show ?thesis using Cons.prems(1,4) c Inl cleanup_owned [OF assms(1,2) Cons.prems(1)] by auto
  next
    case (Inr u)
    note new = create_dir_added [OF Cons.prems(1) _ longest c [unfolded Inr]]
    have link: "linkless d (butlast p)" using Cons.prems(2) by simp
    have lstat: "lstat d1 (names p) = Inr (Directory (new_inode w p))"
      using lstat_canonical [OF new(3) new(4)] new(2) link by (simp add: ok_or_def)
    have follow: "follow d1 (names p) = Inr p" using follow_canonical [OF new(3,2)] link by simp
    show ?thesis
    proof (cases "validate_created_parent_directory w config d1 p")
      case (Inl e)
      then show ?thesis using Cons.prems(4) c Inr lstat follow cleanup_owned [OF assms(1,2) new(1)] link by auto
    next
      case (Inr u')
      have "create_directories w config ps (ds @ [(p, new_inode w p)]) d1 = (r, d'')"
        using Cons.prems(4) c \<open>o1 = Inr u\<close> lstat follow Inr by simp
      from Cons.IH [OF new(1) _ _ this] Cons.prems(2,3) link show ?thesis by (auto split: sum.splits)
    qed
  qed
qed (auto split: sum.splits)


subsection \<open>Staging\<close>

lemma stage_attempts_added:
  assumes "cleanup_works w d" and "added d (adds ds ts []) d'"
    and "\<forall>t \<in> set cands. is_temp t \<and> linkless d (butlast t)"
    and "stage_attempts w bytes mode stamp cands d' = (r, d'')"
  shows "case r of Inl e \<Rightarrow> added d (adds ds ts []) d''
    | Inr t \<Rightarrow> added d (adds ds (ts @ [t]) []) d'' \<and> look d' t = None \<and> d'' = put t (RegularFile bytes mode stamp) d' \<and> is_temp t \<and> t \<in> set cands"
  using assms(2-)
proof (induction cands arbitrary: d')
  case (Cons t cands)
  obtain o1 d1 where new: "write_new (fails w) bytes mode stamp (names t) d' = (o1, d1)" by fastforce
  show ?case
  proof (cases o1)
    case (Inl e)
    then have "d1 = d'" using new by (auto simp: write_new_def split: sum.splits if_splits)
    with Cons.IH [OF Cons.prems(1)] Cons.prems(2,3) new Inl show ?thesis by (auto split: sum.splits)
  next
    case (Inr u)
    have t: "is_temp t" "linkless d (butlast t)" using Cons.prems(2) by simp_all
    note link = added_linkless [OF Cons.prems(1) t(2)]
    obtain p where p: "locate d' (names t) = Inr p" "look d' p = None" "d1 = put p (RegularFile bytes mode stamp) d'"
      using new Inr by (auto simp: write_new_def split: sum.splits if_splits)
    with locate_linkless [OF p(1) link] have loc: "in_directories d' t" "t \<noteq> []" and none: "look d' t = None"
      and d1: "d1 = put t (RegularFile bytes mode stamp) d'" by auto
    have out: "t \<notin> fst ` set ds" "t \<notin> set ts"
      using Cons.prems(1) none by (force simp: added_def dirs_ok_def, force simp: added_def temps_ok_def)
    then have old: "look d t = None" using Cons.prems(1) none by (auto simp: added_def rest_same_def)
    note keep = look_put_None(1) [OF none, where n = "RegularFile bytes mode stamp"]
    have "dirs_ok d (adds ds (ts @ [t]) []) d1"
      using Cons.prems(1) out(1) loc(2) keep unfolding added_def dirs_ok_def d1 by force
    moreover have "temps_ok d (adds ds (ts @ [t]) []) d1"
      using Cons.prems(1) out(2) loc keep unfolding added_def temps_ok_def d1 by auto
    moreover have "fresh_temps d (adds ds (ts @ [t]) [])"
      using Cons.prems(1) out t old unfolding added_def fresh_temps_def by auto
    moreover have "rest_same d (adds ds (ts @ [t]) []) d1"
      using Cons.prems(1) loc(2) unfolding added_def rest_same_def d1 by auto
    ultimately have added: "added d (adds ds (ts @ [t]) []) d1" by (simp add: added_def)
    show ?thesis
    proof (cases "fails w (WriteNew (names t))")
      case True
      have "remove_file (fails w) (names t) d1 = (Inr (), erase t d1)" "added d (adds ds (remove1 t (ts @ [t])) []) (erase t d1)"
        using remove_own_temp [OF assms(1) added, of t] erase_own_temp [OF added, of t] by auto
      with True Cons.prems(3) new Inr out(2) show ?thesis by (auto simp: remove1_append)
    next
      case False
      with Cons.prems(3) new Inr added none d1 t show ?thesis by auto
    qed
  qed
qed (auto split: sum.splits)

definition temps_of :: "planned_change list \<Rightarrow> abs_path list" where
  "temps_of cs = concat (map (\<lambda>c. case temp c of None \<Rightarrow> [] | Some t \<Rightarrow> [t]) cs)"

lemma temps_of_simps [simp]:
  "temps_of [] = []" "temps_of (cs @ cs') = temps_of cs @ temps_of cs'"
  "temps_of (c # cs) = (case temp c of None \<Rightarrow> [] | Some t \<Rightarrow> [t]) @ temps_of cs"
  by (simp_all add: temps_of_def)

lemma temps_of_None: "\<forall>c \<in> set cs. temp c = None \<Longrightarrow> temps_of cs = []"
  by (induction cs) auto

definition mode_of :: "edit_world \<Rightarrow> planned_change \<Rightarrow> nat" where
  "mode_of w c = (case before_mode c of None \<Rightarrow> new_mode w | Some m \<Rightarrow> m)"

text \<open>An effective change with new contents has them in its temporary file.\<close>

definition staged_ok :: "edit_world \<Rightarrow> disk \<Rightarrow> planned_change \<Rightarrow> bool" where
  "staged_ok w d c \<longleftrightarrow>
     (case temp c of
        None \<Rightarrow> \<not> is_effective c \<or> candidate c = None
      | Some t \<Rightarrow> is_effective c \<and> butlast t = butlast (res_path (target c)) \<and>
          (\<exists>b s. candidate c = Some b \<and> look d t = Some (RegularFile b (mode_of w c) s)))"

lemma staged_ok_put: "staged_ok w d c \<Longrightarrow> look d t = None \<Longrightarrow> staged_ok w (put t n d) c"
  by (cases "t = []") (auto simp: staged_ok_def split: option.splits)

lemma temp_update_simps [simp]:
  "is_effective (c\<lparr>temp := t\<rparr>) = is_effective c" "mode_of w (c\<lparr>temp := t\<rparr>) = mode_of w c"
  by (simp_all add: is_effective_def mode_of_def split: option.split)

lemma stage_changes_added:
  assumes "cleanup_works w d" and "added d (adds ds (temps_of staged) []) d'"
    and "\<forall>c \<in> set cs. temp c = None \<and> linkless d (butlast (res_path (target c)))"
    and "\<forall>c \<in> set staged. staged_ok w d' c"
    and "stage_changes w i staged cs d' = (r, d'')"
  shows "case r of
      Inl (e, all) \<Rightarrow> added d (adds ds (temps_of all) []) d''
    | Inr all \<Rightarrow> added d (adds ds (temps_of all) []) d'' \<and> (\<forall>c \<in> set all. staged_ok w d'' c) \<and>
        map (\<lambda>c. c\<lparr>temp := None\<rparr>) all = map (\<lambda>c. c\<lparr>temp := None\<rparr>) staged @ cs"
  using assms(2-)
proof (induction cs arbitrary: i staged d')
  case (Cons c cs)
  have c: "temp c = None" "c\<lparr>temp := None\<rparr> = c" using Cons.prems(2) by simp_all
  show ?case
  proof (cases "is_effective c \<and> candidate c \<noteq> None")
    case False
    then have go: "stage_changes w (Suc i) (staged @ [c]) cs d' = (r, d'')"
      using Cons.prems(4) by (auto split: if_splits option.splits)
    have "staged_ok w d' c" using False c by (auto simp: staged_ok_def)
    with Cons.IH [OF _ _ _ go] Cons.prems(1-3) c show ?thesis by (auto split: sum.splits)
  next
    case True
    then obtain bytes where b: "candidate c = Some bytes" "is_effective c" by auto
    obtain o1 d1 where st: "stage_temp w i (res_path (target c)) bytes (before_mode c) d' = (o1, d1)" by fastforce
    have link: "linkless d (butlast (res_path (target c)))" using Cons.prems(2) by simp
    have cands: "\<forall>t \<in> set (temp_paths w i (res_path (target c))). is_temp t \<and> linkless d (butlast t)"
      using link by (auto simp: temp_paths_def is_temp_def starts_with_iff)
    have res: "case o1 of Inl e \<Rightarrow> added d (adds ds (temps_of staged) []) d1
      | Inr t \<Rightarrow> added d (adds ds (temps_of staged @ [t]) []) d1 \<and> look d' t = None \<and>
          d1 = put t (RegularFile bytes (mode_of w c) (new_stamp w i)) d' \<and> is_temp t \<and>
          butlast t = butlast (res_path (target c))"
    proof (cases "res_path (target c) = []")
      case True
      then show ?thesis using st Cons.prems(1) by (auto simp: stage_temp_def)
    next
      case False
      have "stage_attempts w bytes (mode_of w c) (new_stamp w i) (temp_paths w i (res_path (target c))) d' = (o1, d1)"
        using st False by (simp add: stage_temp_def mode_of_def)
      from stage_attempts_added [OF assms(1) Cons.prems(1) cands this]
      have "case o1 of Inl e \<Rightarrow> added d (adds ds (temps_of staged) []) d1
        | Inr t \<Rightarrow> added d (adds ds (temps_of staged @ [t]) []) d1 \<and> look d' t = None \<and>
          d1 = put t (RegularFile bytes (mode_of w c) (new_stamp w i)) d' \<and> is_temp t \<and>
          t \<in> set (temp_paths w i (res_path (target c)))" .
      moreover have "butlast t = butlast (res_path (target c))" if "t \<in> set (temp_paths w i (res_path (target c)))" for t
        using that by (auto simp: temp_paths_def)
      ultimately show ?thesis by (auto split: sum.splits)
    qed
    show ?thesis
    proof (cases o1)
      case (Inl e)
      have "temps_of cs = []" using Cons.prems(2) by (simp add: temps_of_None)
      then show ?thesis using Cons.prems(4) st b Inl res c by auto
    next
      case (Inr t)
      have go: "stage_changes w (Suc i) (staged @ [c\<lparr>temp := Some t\<rparr>]) cs d1 = (r, d'')"
        using Cons.prems(4) st b Inr by simp
      have t: "t \<noteq> []" "look d' t = None" "d1 = put t (RegularFile bytes (mode_of w c) (new_stamp w i)) d'"
        "butlast t = butlast (res_path (target c))"
        using res Inr by (auto simp: is_temp_def)
      have "staged_ok w d1 (c\<lparr>temp := Some t\<rparr>)" using t b by (simp add: staged_ok_def)
      moreover have "\<forall>c \<in> set staged. staged_ok w d1 c" using Cons.prems(3) t staged_ok_put by blast
      ultimately show ?thesis
        using Cons.IH [OF _ _ _ go] Cons.prems(2) res Inr c by (auto split: sum.splits)
    qed
  qed
qed (auto)


subsection \<open>What validation establishes\<close>

lemma canonicalize_string_follow:
  "canonicalize_string wd d s = Inr p \<Longrightarrow> \<exists>cs. follow d cs = Inr p"
  by (auto simp: canonicalize_string_def rbind_def split: sum.splits)

lemma resolve_path_Inr:
  assumes "resolve_path w config input access d = Inr r"
  shows "permit (answers_in w d) config access (res_path r) = Inr ()" "\<exists>cs. follow d cs = Inr (res_path r)"
    "res_input r = input"
proof -
  obtain c where c: "candidate_path (answers_in w d) config input = Inr c"
    using assms by (auto simp: resolve_path_def rbind_eq_Inr_iff)
  then obtain n where n: "lstat_string (cwd w) d c = Inr n"
    using assms by (cases "lstat_string (cwd w) d c") (auto simp: resolve_path_def split: os_error.splits)
  with c obtain p where p: "canonicalize_string (cwd w) d c = Inr p"
    using assms by (cases "canonicalize_string (cwd w) d c") (auto simp: resolve_path_def)
  have "permit (answers_in w d) config access p = Inr () \<and> res_path r = p \<and> res_input r = input"
    using assms c n p by (auto simp: resolve_path_def rbind_eq_Inr_iff)
  with canonicalize_string_follow [OF p]
  show "permit (answers_in w d) config access (res_path r) = Inr ()" "\<exists>cs. follow d cs = Inr (res_path r)"
    "res_input r = input" by auto
qed

definition regular_at :: "disk \<Rightarrow> abs_path \<Rightarrow> int list \<Rightarrow> bool" where
  "regular_at d p b \<longleftrightarrow> in_directories d p \<and> p \<noteq> [] \<and> (\<exists>m s. look d p = Some (RegularFile b m s))"

lemma valid_source:
  assumes "revalidate_source sha w config d c = Inr ()" and "source c = Some s"
  shows "\<exists>b. regular_at d (res_path s) b \<and> before_revision c = Some (sha b)"
proof -
  from assms obtain r bytes s' mode where r: "resolve_path w config (res_input s) Write d = Inr r" "res_path r = res_path s"
    and load: "load_edit_source d (res_path s) = Inr (bytes, s', mode)" and rev: "before_revision c = Some (sha bytes)"
    by (auto simp: revalidate_source_def revalidate_target_def rbind_eq_Inr_iff split: sum.splits if_splits)
  from resolve_path_Inr(2) [OF r(1)] r(2) obtain cs where "follow d cs = Inr (res_path s)" by auto
  note f = follow_result [OF this]
  have "\<exists>m st. look d (res_path s) = Some (RegularFile bytes m st)"
    using load f(3) by (auto simp: load_edit_source_def stat_def ok_or_def split: sum.splits option.splits node.splits if_splits)
  moreover have "res_path s \<noteq> []" using calculation by auto
  ultimately show ?thesis using f(1) rev by (auto simp: regular_at_def)
qed

lemma valid_absent:
  assumes "revalidate_target w config d r False = Inr ()"
  shows "to_option (lstat_requested d r) = None" "requested r \<noteq> []" "res_path r \<noteq> []"
    "follow d (butlast (requested r)) = Inr (butlast (res_path r))"
  using assms by (auto simp: revalidate_target_def split: if_splits sum.splits)

lemma absent_place:
  assumes "to_option (lstat_requested d r) = None" and "\<not> requested_slash r" and "locate d (requested r) = Inr q"
  shows "look d q = None"
proof -
  have "requested r \<noteq> []" "last (requested r) \<noteq> ParentDir"
    using assms(3) by (auto simp: locate_def split: if_splits component.splits)
  then show ?thesis
    using assms by (cases "look d q") (auto simp: lstat_requested_def lstat_def to_option_def ok_or_def)
qed

lemma locate_InrE:
  assumes "locate d cs = Inr q"
  obtains p n where "cs = butlast cs @ [Normal n]" and "follow d (butlast cs) = Inr p" and "directory_at d p" and "q = p @ [n]"
proof -
  obtain n where n: "cs \<noteq> []" "last cs = Normal n"
    using assms by (cases "last cs") (auto simp: locate_def split: if_splits)
  then obtain p where "follow d (butlast cs) = Inr p" "directory_at d p" "q = p @ [n]"
    using assms by (auto simp: locate_def rbind_eq_Inr_iff split: if_splits)
  moreover have "cs = butlast cs @ [Normal n]" using n by (metis append_butlast_last_id)
  ultimately show ?thesis using that by blast
qed

lemma locate_same_tree:
  assumes "locate d cs = Inr q" and "same_tree d d'"
  shows "locate d' cs = Inr q"
proof -
  obtain p n where cs: "cs = butlast cs @ [Normal n]" and p: "follow d (butlast cs) = Inr p" "directory_at d p" "q = p @ [n]"
    using locate_InrE [OF assms(1)] .
  have "follow d' (butlast cs) = Inr p"
    using walk_same_tree [OF _ p(2) assms(2)] p(1) by (simp add: follow_def)
  moreover have "directory_at d' p" using p(2) same_tree_directory [OF assms(2)] by simp
  ultimately show ?thesis using p(3) by (subst cs) (simp add: locate_def)
qed

lemma added_cong:
  assumes "added d a d1" and "\<And>p. look d1 p = look d2 p"
  shows "added d a d2"
proof -
  have "directory_at d1 = directory_at d2" by (simp add: directory_at_def assms(2) fun_eq_iff)
  then have "in_directories d1 = in_directories d2" by (simp add: in_directories_def fun_eq_iff)
  with assms show ?thesis by (simp add: added_def dirs_ok_def temps_ok_def rest_same_def)
qed

text \<open>How plans are made: what each action has.\<close>

definition planned_ok :: "planned_change \<Rightarrow> bool" where
  "planned_ok c \<longleftrightarrow>
     (case action c of
        ActAdd \<Rightarrow> source c = None \<and> destination c = None \<and> before_bytes c = None \<and> candidate c \<noteq> None \<and>
          requested (target c) = names (res_path (target c)) \<and> \<not> requested_slash (target c) \<and>
          (\<forall>p \<in> set (parents_to_create c). \<exists>k. p = take k (res_path (target c)))
      | ActDelete \<Rightarrow> source c = Some (target c) \<and> destination c = None \<and> candidate c = None \<and> before_bytes c \<noteq> None
      | ActUpdate \<Rightarrow> source c = Some (target c) \<and> destination c = None \<and> candidate c \<noteq> None
      | ActMove \<Rightarrow> source c \<noteq> None \<and> destination c = Some (target c) \<and> candidate c \<noteq> None)"

end
