(* ===== verification/File_Commit.thy ===== *)
theory File_Commit
  imports File_Atomic
begin

text \<open>
  What commits do: an error of the first commit leaves nothing behind but a temporary file,
  a commit that succeeds puts the new contents in place, and the loop reports for every
  change what became of it. The theorems here are about the transaction from its first
  validation on.
\<close>

subsection \<open>A change that is ready\<close>

definition change_ready :: "(int list \<Rightarrow> rstr) \<Rightarrow> edit_world \<Rightarrow> config \<Rightarrow> disk \<Rightarrow> disk \<Rightarrow> planned_change \<Rightarrow> bool" where
  "change_ready sha w config d d1 c \<longleftrightarrow>
     planned_ok c \<and> staged_ok w d1 c \<and> validate_planned sha w config d c = Inr () \<and>
     validate_staged sha w config d1 c = Inr ()"

lemma ready_source:
  assumes "change_ready sha w config d d1 c" and "source c = Some s"
  shows "\<exists>b. regular_at d (res_path s) b" and "\<exists>b. regular_at d1 (res_path s) b \<and> before_revision c = Some (sha b)"
proof -
  have "revalidate_source sha w config d c = Inr ()" "revalidate_source sha w config d1 c = Inr ()"
    using assms(1) by (auto simp: change_ready_def validate_planned_def validate_staged_def rbind_eq_Inr_iff)
  with valid_source assms(2)
  show "\<exists>b. regular_at d (res_path s) b" "\<exists>b. regular_at d1 (res_path s) b \<and> before_revision c = Some (sha b)"
    by blast+
qed

lemma ready_move:
  assumes "change_ready sha w config d d1 c" and "action c = ActMove"
  shows "revalidate_target w config d (target c) False = Inr ()" "revalidate_target w config d1 (target c) False = Inr ()"
  using assms by (auto simp: change_ready_def validate_planned_def validate_staged_def rbind_eq_Inr_iff)

lemma ready_add:
  assumes "change_ready sha w config d d1 c" and "action c = ActAdd"
  shows "revalidate_target w config d1 (target c) False = Inr ()"
  using assms by (auto simp: change_ready_def validate_staged_def revalidate_add_parent_directories_def rbind_eq_Inr_iff)

lemma ready_temp:
  assumes "change_ready sha w config d d1 c" and "is_effective c" and "candidate c = Some b"
  obtains t s where "temp c = Some t" and "butlast t = butlast (res_path (target c))"
    and "look d1 t = Some (RegularFile b (mode_of w c) s)"
  using assms by (auto simp: change_ready_def staged_ok_def split: option.splits)

text \<open>The parent of a target that is not added was there before.\<close>

lemma ready_parent:
  assumes "change_ready sha w config d d1 c" and "tree_ok d" and "action c \<noteq> ActAdd"
  shows "look d (butlast (res_path (target c))) \<noteq> None"
proof (cases "action c = ActMove")
  case True
  from valid_absent(4) [OF ready_move(1) [OF assms(1) True]] follow_result(2) show ?thesis by blast
next
  case False
  then have "source c = Some (target c)"
    using assms(1,3) by (cases "action c") (auto simp: change_ready_def planned_ok_def)
  from ready_source(1) [OF assms(1) this] obtain b where "regular_at d (res_path (target c)) b" by blast
  then show ?thesis using assms(2) by (auto simp: regular_at_def tree_ok_def directory_at_def split: option.splits)
qed

lemma leave_temp:
  assumes "added d (adds ds (t # ts) []) d1" and "look d (butlast t) \<noteq> None"
  shows "added d (adds ds ts [t]) d1"
proof -
  have "butlast t \<notin> fst ` set ds" using assms by (force simp: added_def dirs_ok_def)
  with assms(1) show ?thesis
    by (auto simp: added_def dirs_ok_def temps_ok_def fresh_temps_def rest_same_def)
qed

lemma added_left_any: "added d (adds ds ts []) d1 \<Longrightarrow> \<exists>ls. added d (adds ds ts ls) d1" by blast

lemma hard_link_error: "hard_link f s t d = (Inl e, d') \<Longrightarrow> d' = d"
  by (auto simp: hard_link_def split: if_splits sum.splits option.splits node.splits)

lemma rename_error: "rename_file f s t d = (Inl e, d') \<Longrightarrow> d' = d"
  by (auto simp: rename_file_def Let_def split: if_splits sum.splits option.splits node.splits)

lemma remove_file_error: "remove_file f cs d = (Inl e, d') \<Longrightarrow> d' = d"
  by (auto simp: remove_file_def split: if_splits sum.splits option.splits node.splits)

lemma rename_done:
  assumes "rename_file f s t d = (Inr u, d')" and "locate d s = Inr p" and "look d p = Some (RegularFile b m st)"
  obtains q where "locate d t = Inr q" and "\<not> directory_at d q"
    and "q \<noteq> p \<Longrightarrow> d' = put q (RegularFile b m st) (erase p d)" and "q = p \<Longrightarrow> d' = d"
  using assms by (auto simp: rename_file_def Let_def rbind_eq_Inr_iff split: if_splits sum.splits)


subsection \<open>A first commit that fails\<close>

lemma own_temp_place:
  assumes "added d (adds ds (t # ts) []) d1"
  shows "locate d1 (names t) = Inr t" "t \<noteq> []" "look d t = None" "added d (adds ds ts []) (erase t d1)" "same_tree d1 (erase t d1)"
    "\<exists>b m s. look d1 t = Some (RegularFile b m s)"
proof -
  have "t \<in> set (own_temps (adds ds (t # ts) []))" by simp
  from own_temp [OF assms this]
  obtain b m s where t: "look d1 t = Some (RegularFile b m s)" "in_directories d1 t" "t \<noteq> []" "look d t = None"
    by blast
  then show "locate d1 (names t) = Inr t" "t \<noteq> []" "look d t = None" "\<exists>b m s. look d1 t = Some (RegularFile b m s)"
    by (auto intro: locate_canonical)
  show "added d (adds ds ts []) (erase t d1)" "same_tree d1 (erase t d1)"
    using erase_own_temp [OF assms, of t] by auto
qed

lemma commit_move_error:
  assumes "cleanup_works w d" and "tree_ok d" and ready: "change_ready sha w config d d1 c" and "action c = ActMove"
    and "temp c = Some t" and "added d (adds ds (t # ts) []) d1" and "butlast t = butlast (res_path (target c))"
    and "commit_move w c d1 = (Inl e, d2)"
  shows "\<exists>ls. added d (adds ds ts ls) d2"
proof -
  note t = own_temp_place [OF assms(6)]
  obtain s where s: "source c = Some s" "destination c = Some (target c)"
    using ready assms(4) by (auto simp: change_ready_def planned_ok_def)
  let ?r = "target c"
  have parent: "look d (butlast t) \<noteq> None" using ready_parent [OF ready assms(2)] assms(4,7) by simp
  note left = leave_temp [OF assms(6) parent]
  show ?thesis
  proof (cases "requested_slash ?r \<or> (\<exists>e d'. rename_file (fails w) (names t) (requested ?r) d1 = (Inl e, d'))")
    case True
    then have "d2 = d1" using assms(5,8) s by (auto simp: commit_move_def dest: rename_error split: if_splits)
    with left show ?thesis by auto
  next
    case False
    then obtain u dr where rn: "\<not> requested_slash ?r" "rename_file (fails w) (names t) (requested ?r) d1 = (Inr u, dr)"
      by (metis Inl_Inr_False obj_sumE surj_pair)
    obtain b m st where bt: "look d1 t = Some (RegularFile b m st)" using t(6) by blast
    obtain q where q: "locate d1 (requested ?r) = Inr q" "q \<noteq> t \<Longrightarrow> dr = put q (RegularFile b m st) (erase t d1)"
      using rename_done [OF rn(2) t(1) bt] by blast
    have none: "look d1 q = None"
      using absent_place [OF valid_absent(1) [OF ready_move(2) [OF ready assms(4)]] rn(1) q(1)] .
    have "q \<noteq> t" using none bt by auto
    then have dr: "dr = put q (RegularFile b m st) (erase t d1)" by (rule q(2))
    have qne: "q \<noteq> []" using locate_nonempty [OF q(1)] .
    have tree: "same_tree d1 dr"
      using same_tree_trans [OF t(5) same_tree_put [OF qne, of "erase t d1"]] none t(2) by (auto simp: dr)
    obtain e' d' where rm: "remove_file (fails w) (names (res_path s)) dr = (Inl e', d')"
      and d2: "d2 = snd (remove_file (fails w) (requested ?r) d')"
      using assms(5,8) s rn by (auto simp: commit_move_def split: prod.splits sum.splits)
    have "\<not> fails w (RemoveFile (requested ?r))"
      using valid_absent(1) [OF ready_move(1) [OF ready assms(4)]] rn(1) assms(1)
      by (auto simp: cleanup_works_def lstat_requested_def)
    then have "d2 = erase q dr"
      using d2 remove_file_error [OF rm] locate_same_tree [OF q(1) tree] qne dr by (simp add: remove_file_def)
    then have "look (erase t d1) p = look d2 p" for p using dr qne none t(2) by simp
    from added_cong [OF t(4) this] show ?thesis by blast
  qed
qed

lemma commit_error:
  assumes "cleanup_works w d" and "tree_ok d" and ready: "change_ready sha w config d d1 c" and "is_effective c"
    and "added d (adds ds (temps_of (c # cs)) []) d1" and "commit_change w c d1 = (Inl e, d2)"
  shows "\<exists>ls. added d (adds ds (temps_of cs) ls) d2"
proof (cases "candidate c")
  case None
  then have "action c = ActDelete" "temp c = None"
    using ready by (auto simp: change_ready_def planned_ok_def staged_ok_def split: edit_action.splits option.splits)
  with assms(5,6) show ?thesis
    by (auto simp: commit_change_def commit_delete_def dest: remove_file_error split: prod.splits sum.splits)
next
  case (Some b)
  obtain t s where t: "temp c = Some t" "butlast t = butlast (res_path (target c))"
    using ready_temp [OF ready assms(4) Some] .
  then have a: "added d (adds ds (t # temps_of cs) []) d1" using assms(5) by simp
  note place = own_temp_place [OF a]
  show ?thesis
  proof (cases "action c")
    case ActAdd
    have rm: "remove_file (fails w) (names t) d1 = (Inr (), erase t d1)"
      using remove_own_temp [OF assms(1) a, of t] by simp
    then have "d2 = erase t d1"
      using assms(6) t ActAdd by (auto simp: commit_change_def commit_create_def dest!: hard_link_error split: prod.splits sum.splits)
    with place(4) show ?thesis by blast
  next
    case ActDelete
    then show ?thesis using ready Some by (simp add: change_ready_def planned_ok_def)
  next
    case ActUpdate
    have "d2 = d1"
      using assms(6) t ActUpdate by (auto simp: commit_change_def commit_replace_def dest!: rename_error split: prod.splits sum.splits)
    moreover have "look d (butlast t) \<noteq> None" using ready_parent [OF ready assms(2)] ActUpdate t(2) by simp
    ultimately show ?thesis using leave_temp [OF a] by blast
  next
    case ActMove
    show ?thesis
      using commit_move_error [OF assms(1,2) ready ActMove t(1) a t(2)] assms(6) ActMove by (simp add: commit_change_def)
  qed
qed

lemma first_commit_error:
  assumes "cleanup_works w d" and "tree_ok d" and "\<forall>c \<in> set cs. change_ready sha w config d d1 c"
    and "added d (adds ds (temps_of cs) []) d1" and "commit_changes w cs d1 = (ss, Some e, d2)" and "committed ss = 0"
  shows "\<exists>ls. added d (adds ds [] ls) d2"
  using assms(3-)
proof (induction cs arbitrary: ss)
  case (Cons c cs)
  have ready: "change_ready sha w config d d1 c" using Cons.prems(1) by simp
  show ?case
  proof (cases "is_effective c")
    case False
    then have "temp c = None" using ready by (auto simp: change_ready_def staged_ok_def split: option.splits)
    moreover obtain ss' where "commit_changes w cs d1 = (ss', Some e, d2)" "ss = StatusUnchanged # ss'"
      using Cons.prems(3) False by (auto split: prod.splits)
    ultimately show ?thesis using Cons by (simp add: committed_def)
  next
    case True
    obtain o1 d' where c: "commit_change w c d1 = (o1, d')" by fastforce
    show ?thesis
    proof (cases o1)
      case (Inr u)
      then have "committed ss \<noteq> 0"
        using Cons.prems(3) True c by (auto simp: committed_def done_status_def split: prod.splits edit_action.splits)
      with Cons.prems(4) show ?thesis by simp
    next
      case (Inl e')
      obtain ls where "added d (adds ds (temps_of cs) ls) d'"
        using commit_error [OF assms(1,2) ready True Cons.prems(2) c [unfolded Inl]] by blast
      from cleanup_temps_added [OF assms(1) this, of cs]
      have "added d (adds ds [] ls) (cleanup_temps w cs d')" by (simp add: temps_of_def)
      with Cons.prems(3) True c Inl show ?thesis by auto
    qed
  qed
qed simp

end
