(* ===== verification/File_Errors.thy ===== *)
theory File_Errors
  imports File_Commit
begin

text \<open>
  An edit that answers with an error has changed nothing: whatever step of the transaction
  fails, the files, links and directories are those of before. Temporary files may be left
  behind, which the finding on the replacing commits records.
\<close>

subsection \<open>Where the planned paths are\<close>

lemma tree_absent_below:
  assumes "tree_ok d" and "look d p = None"
  shows "look d (p @ q) = None"
proof (induction q rule: rev_induct)
  case (snoc n q)
  then show ?case using assms(1) unfolding tree_ok_def directory_at_def
    by (metis (no_types, lifting) append.assoc append_is_Nil_conv butlast_snoc list.distinct(1) option.simps(4))
qed (use assms(2) in simp)

lemma entry_answers:
  "entry (answers h c d) p = Absent \<longleftrightarrow> lstat d (names p) = Inl NoEntry"
  by (auto simp: answers_def split: sum.splits os_error.splits)

lemma canonical_path_in_directories:
  assumes "canonical_path (answers h c d) r"
  shows "in_directories d r" "\<forall>s. look d r \<noteq> Some (Link s)"
proof -
  have "follow d (names r) = Inr r" if "r \<noteq> []"
  proof -
    have "realpath (answers h c d) (take (length r) r) = Some (take (length r) r)"
      using assms that unfolding canonical_path_def by blast
    then show ?thesis by (auto simp: answers_def to_option_def split: sum.splits)
  qed
  then show "in_directories d r" "\<forall>s. look d r \<noteq> Some (Link s)"
    using follow_result [of d "names r" r] by (cases "r = []"; auto)+
qed

lemma canonicalize_linkless:
  assumes "tree_ok d" and "canonicalize_existing_or_parent (answers h c d) path = Some r"
  shows "linkless d r"
proof -
  obtain resolved missing b where r: "r = resolved @ missing" and inv: "canon_inv (answers h c d) (resolved, missing, b)"
    using canonicalize_result_inv [OF answers_ok assms(2)] .
  then have canon: "canonical_path (answers h c d) resolved" by (simp add: canon_inv_def)
  note dirs = canonical_path_in_directories [OF canon]
  have base: "linkless d resolved" using in_directories_linkless [OF dirs] .
  show ?thesis
  proof (cases missing)
    case Nil
    with base r show ?thesis by simp
  next
    case (Cons n ns)
    have "is_dir (answers h c d) resolved = Some True" and absent: "lstat d (names (resolved @ [n])) = Inl NoEntry"
      using inv Cons by (auto simp: canon_inv_def entry_answers)
    then obtain q i where "follow d (names resolved) = Inr q" "look d q = Some (Directory i)"
      by (auto simp: answers_def stat_def rbind_def ok_or_def split: sum.splits option.splits node.splits)
    with follow_linkless [OF _ base] have "directory_at d resolved" by (auto simp: directory_at_iff)
    then have "in_directories d (resolved @ [n])" using dirs(1) by (simp add: in_directories_snoc)
    from lstat_canonical [OF this] absent have "look d (resolved @ [n]) = None"
      by (cases "look d (resolved @ [n])") auto
    then have none: "look d ((resolved @ [n]) @ q) = None" for q by (rule tree_absent_below [OF assms(1)])
    have "linkless d (resolved @ n # q)" for q
    proof (induction q rule: rev_induct)
      case Nil
      then show ?case using base none [of "[]"] linkless_snoc [of d resolved n] by simp
    next
      case (snoc m q)
      then show ?case using none [of "q @ [m]"] linkless_snoc [of d "resolved @ n # q" m] by simp
    qed
    with r Cons show ?thesis by simp
  qed
qed

text \<open>A planned change that passes its first validation has no link above its target.\<close>

lemma valid_target_linkless:
  assumes "tree_ok d" and "planned_ok c" and "validate_planned sha w config d c = Inr ()"
  shows "linkless d (butlast (res_path (target c)))" and "action c = ActAdd \<Longrightarrow> linkless d (res_path (target c))"
proof -
  have source: "linkless d (butlast (res_path (target c)))" if "source c = Some (target c)"
  proof -
    have "revalidate_source sha w config d c = Inr ()" using assms(3) by (auto simp: validate_planned_def rbind_eq_Inr_iff)
    from valid_source [OF this that] obtain b where "regular_at d (res_path (target c)) b" by blast
    then have "in_directories d (res_path (target c))" "\<forall>s. look d (res_path (target c)) \<noteq> Some (Link s)"
      by (auto simp: regular_at_def)
    from in_directories_linkless [OF this] show ?thesis by (simp add: butlast_conv_take linkless_take)
  qed
  have add: "linkless d (res_path (target c))" if "action c = ActAdd"
  proof -
    have "canonicalize_existing_or_parent (answers_in w d) (path_string (res_path (target c))) = Some (res_path (target c))"
      using assms(3) that
      by (auto simp: validate_planned_def revalidate_add_plan_def rbind_eq_Inr_iff ok_or_def split: if_splits option.splits)
    from canonicalize_linkless [OF assms(1) this] show ?thesis .
  qed
  then show "action c = ActAdd \<Longrightarrow> linkless d (res_path (target c))" .
  have move: "linkless d (butlast (res_path (target c)))" if "action c = ActMove"
  proof -
    have "revalidate_target w config d (target c) False = Inr ()"
      using assms(3) that by (auto simp: validate_planned_def rbind_eq_Inr_iff)
    note f = follow_result [OF valid_absent(4) [OF this]]
    from f(2) have "\<forall>s. look d (butlast (res_path (target c))) \<noteq> Some (Link s)" by auto
    from in_directories_linkless [OF f(1) this] show ?thesis .
  qed
  show "linkless d (butlast (res_path (target c)))"
    using source add move assms(2) linkless_take [of d "res_path (target c)"]
    by (cases "action c") (auto simp: planned_ok_def butlast_conv_take)
qed

lemma valid_parents_linkless:
  assumes "tree_ok d" and "planned_ok c" and "validate_planned sha w config d c = Inr ()" and "action c = ActAdd"
    and "p \<in> set (parents_to_create c)"
  shows "linkless d (butlast p)"
proof -
  obtain k where "p = take k (res_path (target c))" using assms(2,4,5) by (auto simp: planned_ok_def)
  with linkless_take [OF linkless_take [OF valid_target_linkless(2) [OF assms(1-4)]]] show ?thesis
    by (simp only: butlast_conv_take)
qed

subsection \<open>The order of the directories\<close>

lemma sorted_remdups_adj_map: "sorted (map f xs) \<Longrightarrow> sorted (map f (remdups_adj xs))"
  by (induction xs rule: remdups_adj.induct) auto

lemma directories_sorted: "sorted (map length (directories_to_create cs))"
  by (simp add: directories_to_create_def sorted_remdups_adj_map)

lemma set_directories:
  "set (directories_to_create cs) = (\<Union>c \<in> {c \<in> set cs. action c = ActAdd}. set (parents_to_create c))"
  by (auto simp: directories_to_create_def)

lemma rfold_unit: "rfold (\<lambda>x _. f x) xs () = Inr () \<longleftrightarrow> (\<forall>x \<in> set xs. f x = Inr ())"
  by (induction xs) (auto simp: rbind_eq_Inr_iff)

lemma validate_all_iff: "validate_all f cs = Inr () \<longleftrightarrow> (\<forall>c \<in> set cs. f c = Inr ())"
  by (simp add: validate_all_def rfold_unit)

lemma temp_update_checks [simp]:
  "planned_ok (c\<lparr>temp := t\<rparr>) = planned_ok c"
  "validate_planned sha w config d (c\<lparr>temp := t\<rparr>) = validate_planned sha w config d c"
  by (cases c, cases "action c"; simp add: planned_ok_def)
    (cases "action c"; cases "source c"; simp add: validate_planned_def revalidate_source_def split_beta)

lemma ready_changes:
  assumes "\<forall>c \<in> set cs. planned_ok c \<and> temp c = None"
    and "\<forall>c \<in> set cs. validate_planned sha w config d c = Inr ()"
    and "map (\<lambda>c. c\<lparr>temp := None\<rparr>) all = cs" and "\<forall>c \<in> set all. staged_ok w d1 c"
    and "\<forall>c \<in> set all. validate_staged sha w config d1 c = Inr ()"
  shows "\<forall>c \<in> set all. change_ready sha w config d d1 c"
proof
  fix c
  assume c: "c \<in> set all"
  then have "c\<lparr>temp := None\<rparr> \<in> set cs" using assms(3) by auto
  then have "planned_ok (c\<lparr>temp := None\<rparr>)" "validate_planned sha w config d (c\<lparr>temp := None\<rparr>) = Inr ()"
    using assms(1,2) by auto
  then show "change_ready sha w config d d1 c" using c assms(4,5) by (simp add: change_ready_def)
qed

subsection \<open>The transaction\<close>

text \<open>Nobody else changes the disk while the tool waits or stages.\<close>

definition undisturbed :: "edit_world \<Rightarrow> bool" where
  "undisturbed w \<longleftrightarrow> during_approval w = id \<and> during_lock w = id \<and> during_staging w = id"

lemma cleanup_all:
  assumes "cleanup_works w d" and "tree_ok d" and "added d (adds owned (temps_of all) []) d'"
  shows "visibly_same d (cleanup_owned_parent_directories w owned (cleanup_temps w all d'))"
proof -
  have "added d (adds owned [] []) (cleanup_temps w all d')"
    using cleanup_temps_added [OF assms(1,3), of all] by (simp add: temps_of_def)
  from cleanup_owned [OF assms(1,2) this] show ?thesis .
qed

lemma transaction_error:
  assumes "tree_ok d" and "cleanup_works w d" and "during_staging w = id"
    and plans: "\<forall>c \<in> set cs. planned_ok c \<and> temp c = None"
    and run: "run_transaction sha w config approval cs d = (Inl e, d')"
  shows "visibly_same d d'"
proof (cases "validate_all (validate_planned sha w config d) cs")
  case (Inl e1)
  with run show ?thesis by (simp add: run_transaction_def visibly_same_def)
next
  case (Inr u1)
  then have valid: "\<forall>c \<in> set cs. validate_planned sha w config d c = Inr ()" by (simp add: validate_all_iff)
  obtain r1 d1 where dirs: "create_missing_parent_directories w config cs d = (r1, d1)" by fastforce
  have link: "\<forall>p \<in> set (directories_to_create cs). linkless d (butlast p)"
    using valid_parents_linkless [OF assms(1), where sha = sha and w = w and config = config] plans valid
    unfolding set_directories by blast
  have empty: "added d (adds [] [] []) d" using added_nothing by (simp add: adds_def)
  have one: "case r1 of Inl e \<Rightarrow> visibly_same d d1 | Inr owned \<Rightarrow> added d (adds owned [] []) d1"
    using create_directories_added [OF assms(2,1) empty link _ dirs [unfolded create_missing_parent_directories_def]]
      directories_sorted [of cs]
    by (cases r1) auto
  show ?thesis
  proof (cases r1)
    case (Inl e2)
    with run Inr dirs one show ?thesis by (simp add: run_transaction_def)
  next
    case owned: (Inr owned)
    then have add1: "added d (adds owned [] []) d1" using one by simp
    let ?again = "validate_all (\<lambda>c. revalidate_add_parent_directories w config d1 (target c) (parents_to_create c))
             (filter (\<lambda>c. action c = ActAdd) cs)"
    show ?thesis
    proof (cases ?again)
      case (Inl e3)
      with run Inr dirs owned cleanup_owned [OF assms(2,1) add1] show ?thesis by (simp add: run_transaction_def)
    next
      case again: (Inr u3)
      obtain r2 d2 where st: "stage_changes w 0 [] cs d1 = (r2, d2)" by fastforce
      have "\<forall>c \<in> set cs. temp c = None \<and> linkless d (butlast (res_path (target c)))"
        using plans valid_target_linkless(1) [OF assms(1)] valid by blast
      from stage_changes_added [OF assms(2) _ this _ st] add1
      have two: "case r2 of
          Inl (e, all) \<Rightarrow> added d (adds owned (temps_of all) []) d2
        | Inr all \<Rightarrow> added d (adds owned (temps_of all) []) d2 \<and> (\<forall>c \<in> set all. staged_ok w d2 c) \<and>
            map (\<lambda>c. c\<lparr>temp := None\<rparr>) all = cs"
        by (auto split: sum.splits)
      show ?thesis
      proof (cases r2)
        case staged: (Inr all)
        then have add2: "added d (adds owned (temps_of all) []) d2" using two by simp
        show ?thesis
        proof (cases "validate_all (validate_staged sha w config d2) all")
          case (Inl e4)
          with run Inr dirs owned again st staged cleanup_all [OF assms(2,1) add2] assms(3)
          show ?thesis by (simp add: run_transaction_def)
        next
          case last: (Inr u4)
          then have "\<forall>c \<in> set all. validate_staged sha w config d2 c = Inr ()" by (simp add: validate_all_iff)
          from ready_changes [OF plans valid _ _ this] two staged
          have "\<forall>c \<in> set all. change_ready sha w config d d2 c" by simp
          note first = first_commit_error [OF assms(2,1) this add2]
          obtain ss o4 d4 where com: "commit_changes w all d2 = (ss, o4, d4)" by (cases "commit_changes w all d2")
          then have "o4 = Some e" "committed ss = 0" and d': "d' = cleanup_owned_parent_directories w owned d4"
            using run Inr dirs owned again st staged last assms(3)
            by (auto simp: run_transaction_def Let_def split: option.splits if_splits)
          with first com obtain ls where "added d (adds owned [] ls) d4" by blast
          from cleanup_owned [OF assms(2,1) this] d' show ?thesis by simp
        qed
      next
        case (Inl p)
        then show ?thesis
          using run Inr dirs owned again st two cleanup_all [OF assms(2,1), of owned "snd p" d2]
          by (cases p) (auto simp: run_transaction_def)
      qed
    qed
  qed
qed

subsection \<open>Plans\<close>

lemma missing_parents_prefixes:
  "missing_parent_directories d p = Inr ps \<Longrightarrow> q \<in> set ps \<Longrightarrow> \<exists>k. q = take k p"
proof (induction d p arbitrary: ps rule: missing_parent_directories.induct)
  case (1 d p)
  show ?case
  proof (cases "lstat d (names p)")
    case (Inr n)
    with "1.prems" show ?thesis
      by (subst (asm) missing_parent_directories.simps) (auto split: node.splits if_splits)
  next
    case (Inl e)
    then have e: "e = NoEntry" "p \<noteq> []"
      using "1.prems"(1) by (subst (asm) missing_parent_directories.simps; auto split: os_error.splits if_splits)+
    then obtain m where m: "missing_parent_directories d (butlast p) = Inr m" "ps = m @ [p]"
      using "1.prems"(1) Inl by (subst (asm) missing_parent_directories.simps) (auto simp: rbind_eq_Inr_iff)
    show ?thesis
    proof (cases "q = p")
      case True
      then show ?thesis by (auto intro: exI [of _ "length p"])
    next
      case False
      then obtain k where "q = take k (butlast p)"
        using "1.IH" [OF _ e(1) e(2) m(1)] Inl e m(2) "1.prems"(2) by auto
      then show ?thesis by (auto simp: butlast_conv_take min_def)
    qed
  qed
qed

lemma take_butlast_take: "\<exists>j. take k (butlast p) = take j p"
  by (auto simp: butlast_conv_take)

lemma plan_updateE:
  assumes "plan_update sha w config d path move_path chunks = Inr c"
  obtains s bytes old mode new dest where "resolve_path w config path Write d = Inr s"
    and "load_edit_source d (res_path s) = Inr (bytes, old, mode)"
    and "apply_update old path chunks PreserveLineEndings = Inr new" and "\<not> exceeds_limit (byte_len new)"
    and "case move_path of None \<Rightarrow> dest = None | Some m \<Rightarrow> \<exists>r. resolve_absent_path w config m d = Inr r \<and> dest = Some r"
    and "c = \<lparr>action = (if dest = None then ActUpdate else ActMove), source = Some s,
             target = (case dest of None \<Rightarrow> s | Some r \<Rightarrow> r), parents_to_create = [], destination = dest,
             before_bytes = Some bytes, before_revision = Some (sha bytes), before_mode = Some mode,
             candidate = Some (utf8 new), after_revision = Some (sha (utf8 new)), temp = None\<rparr>"
proof -
  obtain s bytes old mode where s: "resolve_path w config path Write d = Inr s"
    "load_edit_source d (res_path s) = Inr (bytes, old, mode)"
    using assms by (auto simp: plan_update_def rbind_eq_Inr_iff)
  then obtain new where new: "apply_update old path chunks PreserveLineEndings = Inr new" "\<not> exceeds_limit (byte_len new)"
    using assms by (cases "apply_update old path chunks PreserveLineEndings") (auto simp: plan_update_def split: if_splits)
  show ?thesis
  proof (cases move_path)
    case None
    with that [of s bytes old mode new None] assms s new show ?thesis by (auto simp: plan_update_def)
  next
    case (Some m)
    then obtain r where "resolve_absent_path w config m d = Inr r"
      using assms s new by (auto simp: plan_update_def rbind_eq_Inr_iff)
    with that [of s bytes old mode new "Some r"] assms s new Some show ?thesis by (auto simp: plan_update_def)
  qed
qed

lemma plan_hunk_ok:
  assumes "plan_hunk sha w config d h = Inr c"
  shows "planned_ok c \<and> temp c = None"
proof (cases h)
  case (AddFile path contents)
  with assms obtain t parents where t: "resolve_absent_add_path w config path d = Inr (t, parents)"
    and c: "c = \<lparr>action = ActAdd, source = None, target = t, parents_to_create = parents, destination = None,
         before_bytes = None, before_revision = None, before_mode = None, candidate = Some (utf8 contents),
         after_revision = Some (sha (utf8 contents)), temp = None\<rparr>"
    by (auto simp: plan_hunk_def plan_add_def rbind_eq_Inr_iff split: if_splits)
  obtain p where p: "missing_parent_directories d (butlast p) = Inr parents" "requested t = names p" "res_path t = p"
      "\<not> requested_slash t"
    using t by (auto simp: resolve_absent_add_path_def rbind_eq_Inr_iff split: if_splits)
  have "\<exists>k. q = take k (res_path t)" if "q \<in> set parents" for q
    using missing_parents_prefixes [OF p(1) that] p(3) take_butlast_take by fastforce
  with c p show ?thesis by (simp add: planned_ok_def)
next
  case (DeleteFile path)
  with assms show ?thesis by (auto simp: plan_hunk_def plan_delete_def planned_ok_def rbind_eq_Inr_iff)
next
  case (UpdateFile path move_path chunks)
  with assms have "plan_update sha w config d path move_path chunks = Inr c" by (simp add: plan_hunk_def)
  then show ?thesis
  proof (cases rule: plan_updateE)
    case (1 s bytes old mode new dest)
    then show ?thesis by (cases dest) (simp_all add: planned_ok_def)
  qed
qed

lemma plan_hunks_ok:
  assumes "plan_hunks sha w config d hs = Inr cs"
  shows "\<forall>c \<in> set cs. planned_ok c \<and> temp c = None"
proof (rule rfold_inv [where I = "\<lambda>cs. \<forall>c \<in> set cs. planned_ok c \<and> temp c = None"])
  show "rfold (\<lambda>h cs. rbind (plan_hunk sha w config d h) (\<lambda>c. Inr (cs @ [c]))) hs [] = Inr cs"
    using assms by (simp add: plan_hunks_def)
qed (auto simp: rbind_eq_Inr_iff dest: plan_hunk_ok)

text \<open>How the tool gets to its transaction.\<close>

lemma apply_patch_cases:
  assumes "apply_patch_inner sha w pw channels config acquisition patch d = (r, d')"
  obtains (early) e where "r = Inl e" "d' = d \<or> d' = during_approval w d"
  | (transaction) parsed rs ts effective_config approval cs
    where "parse_patch patch = Inr parsed"
      and "patch_targets w (permissive_paths config) d (args_hunks parsed) = Inr (rs, ts)"
      and "authorize_file_targets w pw channels config acquisition ts d = Inr (effective_config, approval)"
      and "\<forall>t \<in> set rs. recheck_target w config (during_approval w d) t = Inr ()"
      and "plan_hunks sha w effective_config (during_approval w d) (args_hunks parsed) = Inr cs"
      and "reject_overlapping_paths (concat (map change_paths cs)) = Inr ()"
      and "run_transaction sha w effective_config approval cs (during_lock w (during_approval w d)) = (r, d')"
  using assms
  by (auto simp: apply_patch_inner_def Let_def rfold_unit split: sum.splits if_splits)

lemma edit_error:
  assumes "tree_ok d" and "cleanup_works w d" and "undisturbed w"
    and "apply_patch_inner sha w pw channels config acquisition patch d = (Inl e, d')"
  shows "visibly_same d d'"
  using assms(4)
proof (cases rule: apply_patch_cases)
  case early
  then show ?thesis using assms(3) by (auto simp: undisturbed_def visibly_same_def)
next
  case (transaction parsed rs ts effective_config approval cs)
  have "during_staging w = id" "during_lock w (during_approval w d) = d" using assms(3) by (simp_all add: undisturbed_def)
  with transaction_error [OF assms(1,2) _ plan_hunks_ok [OF transaction(5)]] transaction(7) show ?thesis by simp
qed

end
