(* ===== verification/File_Report.thy ===== *)
theory File_Report
  imports File_Errors
begin

text \<open>
  The answer of an edit is true: what it reports as created, updated, moved or deleted is so
  on the disk, what it reports as unchanged, failed or skipped was left alone, and nothing
  else was touched.
\<close>

subsection \<open>Paths that do not overlap\<close>

lemma path_starts_with_iff: "path_starts_with p q \<longleftrightarrow> (\<exists>r. q = p @ r)"
  by (metis append_eq_conv_conj append_take_drop_id path_starts_with_def)

text \<open>What lies between a path and a path below it is below it too.\<close>

lemma between_path_and_below:
  fixes p q r :: "'a::linorder list"
  shows "p \<le> q \<Longrightarrow> q \<le> p @ r \<Longrightarrow> \<exists>s. q = p @ s"
proof (induction p arbitrary: q)
  case (Cons a p)
  then obtain b q' where q: "q = b # q'" by (cases q) auto
  with Cons.prems have "a = b" "p \<le> q'" "q' \<le> p @ r" by (auto simp: Cons_le_Cons)
  with Cons.IH [of q'] q show ?case by auto
qed simp

lemma prefix_le: "p \<le> p @ (r :: 'a::linorder list)"
  by (induction p) (auto simp: Cons_le_Cons)

lemma overlap_free_sorted:
  assumes "sorted ps"
  shows "overlap_free ps \<longleftrightarrow> sorted_wrt (\<lambda>p q. \<not> path_starts_with p q) ps"
  using assms
proof (induction ps rule: overlap_free.induct)
  case (1 p q ps)
  have "\<not> path_starts_with p x" if x: "x \<in> set ps" and no: "\<not> path_starts_with p q" for x
  proof
    assume "path_starts_with p x"
    then obtain r where "x = p @ r" by (auto simp: path_starts_with_iff)
    moreover have "p \<le> q" "q \<le> x" using "1.prems" x by auto
    ultimately have "path_starts_with p q" using between_path_and_below [of p q r] by (auto simp: path_starts_with_iff)
    with no show False ..
  qed
  moreover have "\<not> path_starts_with p q \<Longrightarrow> q \<noteq> p" by (auto simp: path_starts_with_def)
  ultimately show ?case using 1 by auto
qed simp_all

definition paths_apart :: "abs_path list \<Rightarrow> bool" where
  "paths_apart ps \<longleftrightarrow> distinct ps \<and> (\<forall>p \<in> set ps. \<forall>q \<in> set ps. path_starts_with p q \<longrightarrow> p = q)"

lemma overlap_check: "reject_overlapping_paths ps = Inr () \<longleftrightarrow> paths_apart ps"
proof -
  have "sorted_wrt (\<lambda>p q. \<not> path_starts_with p q) xs \<longleftrightarrow> paths_apart xs" if "sorted xs" for xs
    using that
  proof (induction xs)
    case (Cons x xs)
    have "\<not> path_starts_with y x" if "y \<in> set xs" "y \<noteq> x" for y
    proof
      assume "path_starts_with y x"
      then have "y \<le> x" using prefix_le by (auto simp: path_starts_with_iff)
      moreover have "x \<le> y" using Cons.prems that(1) by simp
      ultimately show False using that(2) by simp
    qed
    moreover have "path_starts_with x x" by (simp add: path_starts_with_def)
    ultimately show ?case using Cons by (auto simp: paths_apart_def)
  qed (simp add: paths_apart_def)
  from this [of "sort ps"] have "overlap_free (sort ps) \<longleftrightarrow> paths_apart ps"
    using overlap_free_sorted [of "sort ps"] by (simp add: paths_apart_def)
  then show ?thesis by (simp add: reject_overlapping_paths_def)
qed

text \<open>C39.
  The check for overlapping paths compares neighbours of a sorted list only, and misses
  nothing: a patch passes it exactly when no two of its paths are the same and none lies below
  another.
\<close>

theorem overlap_check_complete:
  "reject_overlapping_paths ps = Inr () \<longleftrightarrow>
     distinct ps \<and> \<not> (\<exists>p \<in> set ps. \<exists>q \<in> set ps. p \<noteq> q \<and> (\<exists>r. q = p @ r))"
  unfolding overlap_check paths_apart_def path_starts_with_iff by blast

subsection \<open>What a commit does\<close>

text \<open>Whatever its outcome, a commit touches its paths and its temporary file only.\<close>

definition touches :: "planned_change \<Rightarrow> disk \<Rightarrow> disk \<Rightarrow> bool" where
  "touches c d d' \<longleftrightarrow>
     same_tree d d' \<and> (\<forall>p. p \<notin> set (change_paths c) \<longrightarrow> temp c \<noteq> Some p \<longrightarrow> look d' p = look d p)"

lemma touches_refl [simp]: "touches c d d" by (simp add: touches_def)

lemma touches_trans: "touches c d d' \<Longrightarrow> touches c d' d'' \<Longrightarrow> touches c d d''"
  by (auto simp: touches_def dest: same_tree_trans)

lemma same_tree_sym: "same_tree d d' \<Longrightarrow> same_tree d' d"
  by (simp add: same_tree_def)

lemma erase_touches:
  assumes "p \<in> set (change_paths c) \<or> temp c = Some p" and "p \<noteq> []"
    and "look d p = None \<or> (\<exists>b m s. look d p = Some (RegularFile b m s))"
  shows "touches c d (erase p d)"
  using assms by (auto simp: touches_def intro!: same_tree_erase)

lemma put_touches:
  assumes "p \<in> set (change_paths c) \<or> temp c = Some p" and "p \<noteq> []"
    and "look d p = None \<or> (\<exists>b m s. look d p = Some (RegularFile b m s))"
  shows "touches c d (put p (RegularFile b m s) d)"
  using assms by (auto simp: touches_def intro!: same_tree_put)

text \<open>The removal of a file whose place is known, whether or not the call succeeds.\<close>

lemma remove_file_cases:
  assumes "locate d cs = Inr p"
  shows "snd (remove_file f cs d) = d \<or> snd (remove_file f cs d) = erase p d"
  using assms by (auto simp: remove_file_def split: option.split node.split)

lemma remove_file_done:
  assumes "locate d cs = Inr p" and "remove_file f cs d = (Inr u, d')"
  shows "d' = erase p d"
  using assms by (auto simp: remove_file_def split: option.splits node.splits if_splits)

text \<open>
  The state in which a change is committed: it is ready in the staged disk, the name it
  was asked for is its path, and since then nothing of it changed.
\<close>

definition committable :: "(int list \<Rightarrow> rstr) \<Rightarrow> edit_world \<Rightarrow> config \<Rightarrow> disk \<Rightarrow> disk \<Rightarrow> planned_change \<Rightarrow> disk \<Rightarrow> bool" where
  "committable sha w config d d1 c dk \<longleftrightarrow>
     change_ready sha w config d d1 c \<and> is_effective c \<and> same_tree d1 dk \<and>
     (\<forall>p. p \<in> set (change_paths c) \<or> temp c = Some p \<longrightarrow> look dk p = look d1 p) \<and>
     (\<forall>t. temp c = Some t \<longrightarrow> t \<noteq> [] \<and> t \<notin> set (change_paths c) \<and> in_directories d1 t) \<and>
     (action c \<in> {ActAdd, ActMove} \<longrightarrow> \<not> requested_slash (target c) \<longrightarrow> (\<forall>q. locate d1 (requested (target c)) = Inr q \<longrightarrow> q = res_path (target c)))"

lemma committableD:
  assumes "committable sha w config d d1 c dk"
  shows "change_ready sha w config d d1 c" "is_effective c" "same_tree d1 dk"
    "p \<in> set (change_paths c) \<Longrightarrow> look dk p = look d1 p" "temp c = Some t \<Longrightarrow> look dk t = look d1 t"
    "temp c = Some t \<Longrightarrow> t \<noteq> []" "temp c = Some t \<Longrightarrow> t \<notin> set (change_paths c)"
    "temp c = Some t \<Longrightarrow> in_directories d1 t"
    "action c = ActAdd \<or> action c = ActMove \<Longrightarrow> \<not> requested_slash (target c) \<Longrightarrow> locate d1 (requested (target c)) = Inr q \<Longrightarrow> q = res_path (target c)"
  using assms unfolding committable_def by blast+

lemma committable_temp:
  assumes "committable sha w config d d1 c dk" and "candidate c = Some b"
  obtains t s where "temp c = Some t" "t \<noteq> []" "locate dk (names t) = Inr t"
    "look dk t = Some (RegularFile b (mode_of w c) s)" "t \<notin> set (change_paths c)"
proof -
  note c = committableD [OF assms(1)]
  obtain t s where t: "temp c = Some t" "look d1 t = Some (RegularFile b (mode_of w c) s)"
    using ready_temp [OF c(1,2) assms(2)] .
  note t' = c(5-8) [OF t(1)]
  moreover from t'(4) c(3) have "in_directories dk t" using same_tree_in_directories by blast
  ultimately show ?thesis using that t locate_canonical by auto
qed

lemma committable_source:
  assumes "committable sha w config d d1 c dk" and "source c = Some s"
  obtains b m st where "look dk (res_path s) = Some (RegularFile b m st)" "res_path s \<noteq> []"
    "locate dk (names (res_path s)) = Inr (res_path s)" "in_directories dk (res_path s)"
proof -
  obtain b where b: "regular_at d1 (res_path s) b"
    using ready_source(2) [OF committableD(1) [OF assms(1)] assms(2)] by blast
  have "res_path s \<in> set (change_paths c)" using assms(2) by (simp add: change_paths_def)
  from committableD(4) [OF assms(1) this] have "look dk (res_path s) = look d1 (res_path s)" .
  moreover from b committableD(3) [OF assms(1)] have "in_directories dk (res_path s)" using same_tree_in_directories by (auto simp: regular_at_def)
  ultimately show ?thesis using that b locate_canonical by (auto simp: regular_at_def)
qed

lemma committable_absent:
  assumes "committable sha w config d d1 c dk" and "action c = ActAdd \<or> action c = ActMove" and "locate dk (requested (target c)) = Inr q"
    and "\<not> requested_slash (target c)"
  shows "q = res_path (target c)" "look dk q = None" "q \<in> set (change_paths c)" "q \<noteq> []"
proof -
  note c = committableD [OF assms(1)]
  note ready = c(1) and tree = c(3)
  have loc: "locate d1 (requested (target c)) = Inr q" using locate_same_tree [OF assms(3) same_tree_sym [OF tree]] .
  show q: "q = res_path (target c)" using c(9) [OF assms(2,4) loc] .
  have "revalidate_target w config d1 (target c) False = Inr ()"
    using assms(2) ready_move(2) [OF ready] ready_add [OF ready] by auto
  then have "look d1 q = None" using absent_place [OF valid_absent(1) assms(4) loc] by simp
  moreover show mem: "q \<in> set (change_paths c)"
    using assms(2) ready q by (auto simp: change_paths_def change_ready_def planned_ok_def split: option.splits)
  ultimately show "look dk q = None" using c(4) by simp
  then show "q \<noteq> []" by auto
qed

text \<open>What each status claims of the disks before and after.\<close>

definition holds_new :: "edit_world \<Rightarrow> disk \<Rightarrow> planned_change \<Rightarrow> bool" where
  "holds_new w d c \<longleftrightarrow>
     (\<exists>b st. candidate c = Some b \<and> look d (res_path (target c)) = Some (RegularFile b (mode_of w c) st))"

definition report_true :: "edit_world \<Rightarrow> disk \<Rightarrow> disk \<Rightarrow> planned_change \<Rightarrow> change_status \<Rightarrow> bool" where
  "report_true w d d' c s \<longleftrightarrow>
     (case s of
        StatusCreated \<Rightarrow> holds_new w d' c \<and> look d (res_path (target c)) = None
      | StatusUpdated \<Rightarrow> holds_new w d' c
      | StatusMoved \<Rightarrow> holds_new w d' c \<and> look d (res_path (target c)) = None \<and>
          (\<forall>r. source c = Some r \<longrightarrow> look d' (res_path r) = None)
      | StatusDeleted \<Rightarrow> look d' (res_path (target c)) = None
      | _ \<Rightarrow> (\<forall>p \<in> set (change_paths c). look d' p = look d p))"

lemma commit_create_done:
  assumes c: "committable sha w config d d1 c dk" and "action c = ActAdd" and "commit_create w c dk = (Inr u, d')"
  shows "touches c dk d' \<and> report_true w dk d' c StatusCreated"
proof -
  note D = committableD [OF c]
  have plan: "planned_ok c" using D(1) by (simp add: change_ready_def)
  then obtain b where b: "candidate c = Some b" and slash: "\<not> requested_slash (target c)"
    using assms(2) by (auto simp: planned_ok_def)
  obtain t s where t: "temp c = Some t" "t \<noteq> []" "locate dk (names t) = Inr t"
    "look dk t = Some (RegularFile b (mode_of w c) s)" "t \<notin> set (change_paths c)"
    using committable_temp [OF c b] .
  let ?new = "RegularFile b (mode_of w c) s"
  obtain d2 u' where hl: "hard_link (fails w) (names t) (requested (target c)) dk = (Inr u', d2)"
    and d': "d' = snd (remove_file (fails w) (names t) d2)"
    using assms(3) t(1) by (auto simp: commit_create_def split: prod.splits sum.splits)
  from hl obtain q where loc: "locate dk (requested (target c)) = Inr q" and d2: "d2 = put q ?new dk"
    using t(3,4) by (auto simp: hard_link_def rbind_eq_Inr_iff split: if_splits sum.splits option.splits)
  note q = committable_absent [OF c _ loc slash]
  have q': "q = res_path (target c)" "look dk q = None" "q \<in> set (change_paths c)" "q \<noteq> []"
    using q assms(2) by auto
  have one: "touches c dk d2" unfolding d2 by (rule put_touches) (use q' in auto)
  then have "locate d2 (names t) = Inr t" using locate_same_tree [OF t(3)] by (simp add: touches_def)
  from remove_file_cases [OF this] d' have cases: "d' = d2 \<or> d' = erase t d2" by blast
  have ne: "q \<noteq> t" using q'(3) t(5) by auto
  have "look d2 t = Some ?new" using d2 q'(4) ne t(4) by simp
  then have "touches c d2 (erase t d2)" by (intro erase_touches) (use t in auto)
  with one cases have "touches c dk d'" by (auto intro: touches_trans)
  moreover have "look d' q = Some ?new" using cases d2 q'(4) ne t(2) by auto
  ultimately show ?thesis using q' b by (simp add: report_true_def holds_new_def)
qed

lemma commit_replace_done:
  assumes c: "committable sha w config d d1 c dk" and "action c = ActUpdate" and "commit_replace w c dk = (Inr u, d')"
  shows "touches c dk d' \<and> report_true w dk d' c StatusUpdated"
proof -
  note D = committableD [OF c]
  have plan: "planned_ok c" using D(1) by (simp add: change_ready_def)
  then obtain b where b: "candidate c = Some b" and source: "source c = Some (target c)"
    using assms(2) by (auto simp: planned_ok_def)
  obtain t s where t: "temp c = Some t" "t \<noteq> []" "locate dk (names t) = Inr t"
    "look dk t = Some (RegularFile b (mode_of w c) s)" "t \<notin> set (change_paths c)"
    using committable_temp [OF c b] .
  obtain b0 m0 st0 where src: "look dk (res_path (target c)) = Some (RegularFile b0 m0 st0)" "res_path (target c) \<noteq> []"
    "locate dk (names (res_path (target c))) = Inr (res_path (target c))"
    using committable_source [OF c source] .
  let ?p = "res_path (target c)" and ?new = "RegularFile b (mode_of w c) s"
  have mem: "?p \<in> set (change_paths c)" using source by (simp add: change_paths_def)
  then have ne: "?p \<noteq> t" using t(5) by auto
  obtain u' where "rename_file (fails w) (names t) (names ?p) dk = (Inr u', d')"
    using assms(3) t(1) by (auto simp: commit_replace_def split: prod.splits sum.splits)
  from rename_done [OF this t(3,4)] src(3) ne have d': "d' = put ?p ?new (erase t dk)" by auto
  have "touches c dk (erase t dk)" by (rule erase_touches) (use t in auto)
  moreover have "touches c (erase t dk) d'" unfolding d' by (rule put_touches) (use mem src ne t(2) in auto)
  ultimately have "touches c dk d'" by (rule touches_trans)
  moreover have "look d' ?p = Some ?new" using d' src(2) by simp
  ultimately show ?thesis using b by (simp add: report_true_def holds_new_def)
qed

lemma commit_delete_done:
  assumes c: "committable sha w config d d1 c dk" and "action c = ActDelete" and "commit_delete w c dk = (Inr u, d')"
  shows "touches c dk d' \<and> report_true w dk d' c StatusDeleted"
proof -
  have source: "source c = Some (target c)"
    using committableD(1) [OF c] assms(2) by (auto simp: change_ready_def planned_ok_def)
  obtain b0 m0 st0 where src: "look dk (res_path (target c)) = Some (RegularFile b0 m0 st0)" "res_path (target c) \<noteq> []"
    "locate dk (names (res_path (target c))) = Inr (res_path (target c))"
    using committable_source [OF c source] .
  have "res_path (target c) \<in> set (change_paths c)" using source by (simp add: change_paths_def)
  then have "touches c dk (erase (res_path (target c)) dk)" by (intro erase_touches) (use src in auto)
  moreover have "d' = erase (res_path (target c)) dk"
    using assms(3) remove_file_done [OF src(3)] by (auto simp: commit_delete_def split: prod.splits sum.splits)
  ultimately show ?thesis using src(2) by (simp add: report_true_def)
qed

text \<open>After the rename of a move the file is at its new path; then the old one is removed.\<close>

lemma move_renamed:
  assumes c: "committable sha w config d d1 c dk" and act: "action c = ActMove" and "temp c = Some t"
    and rn: "rename_file (fails w) (names t) (requested (target c)) dk = (Inr u, dr)" and slash: "\<not> requested_slash (target c)"
  shows "locate dk (requested (target c)) = Inr (res_path (target c))" "look dk (res_path (target c)) = None"
    "res_path (target c) \<noteq> []" "touches c dk dr" "holds_new w dr c"
    "\<And>p. p \<noteq> res_path (target c) \<Longrightarrow> p \<noteq> t \<Longrightarrow> look dr p = look dk p"
proof -
  have plan: "planned_ok c" using committableD(1) [OF c] by (simp add: change_ready_def)
  then obtain b where b: "candidate c = Some b" using act by (auto simp: planned_ok_def)
  obtain s where t: "t \<noteq> []" "locate dk (names t) = Inr t"
    "look dk t = Some (RegularFile b (mode_of w c) s)" "t \<notin> set (change_paths c)"
    using committable_temp [OF c b] assms(3) by auto
  let ?p = "res_path (target c)" and ?new = "RegularFile b (mode_of w c) s"
  obtain q where loc: "locate dk (requested (target c)) = Inr q" and dr: "q \<noteq> t \<Longrightarrow> dr = put q ?new (erase t dk)"
    using rename_done [OF rn t(2,3)] by blast
  have q: "q = ?p" "look dk q = None" "q \<in> set (change_paths c)" "q \<noteq> []"
    using committable_absent [OF c disjI2 [OF act] loc slash] by auto
  then have ne: "?p \<noteq> t" using t(4) by auto
  then have dr: "dr = put ?p ?new (erase t dk)" using dr q(1) by simp
  show "locate dk (requested (target c)) = Inr ?p" "look dk ?p = None" "?p \<noteq> []" using loc q by simp_all
  have "touches c dk (erase t dk)" by (rule erase_touches) (use t assms(3) in auto)
  moreover have "touches c (erase t dk) dr" unfolding dr by (rule put_touches) (use q t(1) in auto)
  ultimately show "touches c dk dr" by (rule touches_trans)
  show "holds_new w dr c" using b dr q by (simp add: holds_new_def)
  show "look dr p = look dk p" if "p \<noteq> ?p" "p \<noteq> t" for p using that dr q t(1) by simp
qed

lemma move_source:
  assumes c: "committable sha w config d d1 c dk" and "action c = ActMove"
    and apart: "paths_apart (change_paths c)"
  obtains s where "source c = Some s" "destination c = Some (target c)" "res_path s \<in> set (change_paths c)"
    "res_path s \<noteq> res_path (target c)"
proof -
  obtain s where "source c = Some s" "destination c = Some (target c)"
    using committableD(1) [OF c] assms(2) by (auto simp: change_ready_def planned_ok_def)
  with apart that show ?thesis by (auto simp: change_paths_def paths_apart_def)
qed

lemma commit_move_done:
  assumes c: "committable sha w config d d1 c dk" and act: "action c = ActMove" and apart: "paths_apart (change_paths c)"
    and "commit_move w c dk = (Inr u, d')"
  shows "touches c dk d' \<and> report_true w dk d' c StatusMoved"
proof -
  obtain s where s: "source c = Some s" "destination c = Some (target c)" "res_path s \<in> set (change_paths c)"
    "res_path s \<noteq> res_path (target c)"
    using move_source [OF c act apart] .
  obtain t where t: "temp c = Some t" using assms(4) s by (auto simp: commit_move_def split: option.splits)
  obtain u1 dr u2 where slash: "\<not> requested_slash (target c)"
    and rn: "rename_file (fails w) (names t) (requested (target c)) dk = (Inr u1, dr)"
    and rm: "remove_file (fails w) (names (res_path s)) dr = (Inr u2, d')"
    using assms(4) s t by (auto simp: commit_move_def split: prod.splits sum.splits if_splits)
  note m = move_renamed [OF c act t rn slash]
  obtain b0 m0 st0 where src: "look dk (res_path s) = Some (RegularFile b0 m0 st0)" "res_path s \<noteq> []"
    "locate dk (names (res_path s)) = Inr (res_path s)"
    using committable_source [OF c s(1)] .
  have "same_tree dk dr" using m(4) by (simp add: touches_def)
  from locate_same_tree [OF src(3) this] have loc: "locate dr (names (res_path s)) = Inr (res_path s)" .
  have d': "d' = erase (res_path s) dr" using remove_file_done [OF loc rm] .
  have "res_path s \<noteq> t" using committableD(7) [OF c t] s(3) by auto
  then have "look dr (res_path s) = look dk (res_path s)" using m(6) s(4) by blast
  then have "touches c dr d'" unfolding d' by (intro erase_touches) (use s(3) src in auto)
  with m(4) have "touches c dk d'" by (rule touches_trans)
  moreover have "holds_new w d' c" using m(5) s(4) src(2) d' by (auto simp: holds_new_def)
  ultimately show ?thesis using m(2) d' s(1) src(2) by (simp add: report_true_def)
qed

lemma commit_move_failed:
  assumes c: "committable sha w config d d1 c dk" and act: "action c = ActMove" and apart: "paths_apart (change_paths c)"
    and restores: "\<not> requested_slash (target c) \<Longrightarrow> \<not> fails w (RemoveFile (requested (target c)))"
    and "commit_move w c dk = (Inl e, d')"
  shows "touches c dk d' \<and> (\<forall>p \<in> set (change_paths c). look d' p = look dk p)"
proof -
  obtain s where s: "source c = Some s" "destination c = Some (target c)" "res_path s \<in> set (change_paths c)"
    "res_path s \<noteq> res_path (target c)"
    using move_source [OF c act apart] .
  show ?thesis
  proof (cases "temp c = None \<or> requested_slash (target c) \<or>
      (\<exists>e t dr. temp c = Some t \<and> rename_file (fails w) (names t) (requested (target c)) dk = (Inl e, dr))")
    case True
    then have "d' = dk" using assms(5) s by (auto simp: commit_move_def dest: rename_error split: option.splits if_splits)
    then show ?thesis by simp
  next
    case False
    then obtain t u1 dr where t: "temp c = Some t" and slash: "\<not> requested_slash (target c)"
      and rn: "rename_file (fails w) (names t) (requested (target c)) dk = (Inr u1, dr)"
      by (metis Inl_Inr_False obj_sumE option.exhaust surj_pair)
    note m = move_renamed [OF c act t rn slash]
    obtain e' d2 where rm: "remove_file (fails w) (names (res_path s)) dr = (Inl e', d2)"
      and d': "d' = snd (remove_file (fails w) (requested (target c)) d2)"
      using assms(5) s t rn slash by (auto simp: commit_move_def split: prod.splits sum.splits)
    have d2: "d2 = dr" using remove_file_error [OF rm] .
    have "same_tree dk dr" using m(4) by (simp add: touches_def)
    from locate_same_tree [OF m(1) this] have loc: "locate dr (requested (target c)) = Inr (res_path (target c))" .
    have new: "\<exists>b m st. look dr (res_path (target c)) = Some (RegularFile b m st)" using m(5) by (auto simp: holds_new_def)
    then have er: "d' = erase (res_path (target c)) dr"
      using d' d2 loc restores [OF slash] by (auto simp: remove_file_def)
    have mem: "res_path (target c) \<in> set (change_paths c)" using s by (simp add: change_paths_def)
    have "touches c dr d'" unfolding er by (rule erase_touches) (use mem m(3) new in auto)
    with m(4) have "touches c dk d'" by (rule touches_trans)
    moreover have "look d' p = look dk p" if "p \<in> set (change_paths c)" for p
    proof -
      have "p \<noteq> t" using committableD(7) [OF c t] that by auto
      then show ?thesis using m(2,3) m(6) [of p] er by auto
    qed
    ultimately show ?thesis by blast
  qed
qed

lemma commit_change_done:
  assumes "committable sha w config d d1 c dk" and "paths_apart (change_paths c)" and "commit_change w c dk = (Inr u, d')"
  shows "touches c dk d' \<and> report_true w dk d' c (done_status c)"
  using assms commit_create_done commit_replace_done commit_delete_done commit_move_done
  by (cases "action c") (force simp: commit_change_def done_status_def)+

lemma commit_change_failed:
  assumes c: "committable sha w config d d1 c dk" and "paths_apart (change_paths c)"
    and "action c = ActMove \<Longrightarrow> \<not> requested_slash (target c) \<Longrightarrow> \<not> fails w (RemoveFile (requested (target c)))"
    and "commit_change w c dk = (Inl e, d')"
  shows "touches c dk d' \<and> (\<forall>p \<in> set (change_paths c). look d' p = look dk p)"
proof (cases "action c")
  case ActAdd
  then obtain b where b: "candidate c = Some b" using committableD(1) [OF c] by (auto simp: change_ready_def planned_ok_def)
  obtain t s where t: "temp c = Some t" "t \<noteq> []" "locate dk (names t) = Inr t"
    "look dk t = Some (RegularFile b (mode_of w c) s)" "t \<notin> set (change_paths c)"
    using committable_temp [OF c b] .
  have "d' = snd (remove_file (fails w) (names t) dk)"
    using assms(4) ActAdd t(1)
    by (auto simp: commit_change_def commit_create_def dest!: hard_link_error split: prod.splits sum.splits)
  with remove_file_cases [OF t(3)] have "d' = dk \<or> d' = erase t dk" by blast
  moreover have "touches c dk (erase t dk)" by (rule erase_touches) (use t in auto)
  ultimately show ?thesis using t(2,5) by auto
next
  case ActDelete
  then have "d' = dk"
    using assms(4) by (auto simp: commit_change_def commit_delete_def dest!: remove_file_error split: prod.splits sum.splits)
  then show ?thesis by simp
next
  case ActUpdate
  then have "d' = dk"
    using assms(4) by (auto simp: commit_change_def commit_replace_def dest!: rename_error split: option.splits prod.splits sum.splits)
  then show ?thesis by simp
next
  case ActMove
  with commit_move_failed [OF c ActMove assms(2)] assms(3,4) show ?thesis by (simp add: commit_change_def)
qed

subsection \<open>The loop over the commits\<close>

abbreviation paths_of :: "planned_change list \<Rightarrow> abs_path list" where
  "paths_of cs \<equiv> concat (map change_paths cs)"

text \<open>The name a new file is asked for is its path, and a failed move can be undone.\<close>

definition placed :: "edit_world \<Rightarrow> disk \<Rightarrow> planned_change \<Rightarrow> bool" where
  "placed w d1 c \<longleftrightarrow>
     (action c = ActAdd \<or> action c = ActMove \<longrightarrow> \<not> requested_slash (target c) \<longrightarrow>
        (\<forall>q. locate d1 (requested (target c)) = Inr q \<longrightarrow> q = res_path (target c))) \<and>
     (action c = ActMove \<longrightarrow> \<not> requested_slash (target c) \<longrightarrow> \<not> fails w (RemoveFile (requested (target c))))"

definition commit_state :: "(int list \<Rightarrow> rstr) \<Rightarrow> edit_world \<Rightarrow> config \<Rightarrow> disk \<Rightarrow> disk \<Rightarrow> planned_change list \<Rightarrow> disk \<Rightarrow> bool" where
  "commit_state sha w config d d1 cs dk \<longleftrightarrow>
     (\<forall>c \<in> set cs. change_ready sha w config d d1 c \<and> placed w d1 c) \<and> paths_apart (paths_of cs) \<and>
     distinct (temps_of cs) \<and>
     (\<forall>t \<in> set (temps_of cs). t \<noteq> [] \<and> t \<notin> set (paths_of cs) \<and> in_directories d1 t) \<and> same_tree d1 dk \<and>
     (\<forall>p \<in> set (paths_of cs) \<union> set (temps_of cs). look dk p = look d1 p)"

lemma commit_state_parts:
  assumes "commit_state sha w config d d1 cs dk"
  shows "paths_apart (paths_of cs)" "distinct (temps_of cs)" "same_tree d1 dk"
    "t \<in> set (temps_of cs) \<Longrightarrow> t \<noteq> [] \<and> t \<notin> set (paths_of cs) \<and> in_directories d1 t"
    "p \<in> set (paths_of cs) \<union> set (temps_of cs) \<Longrightarrow> look dk p = look d1 p"
    "c \<in> set cs \<Longrightarrow> change_ready sha w config d d1 c \<and> placed w d1 c"
  using assms unfolding commit_state_def by blast+

lemma commit_stateD:
  assumes "commit_state sha w config d d1 (c # cs) dk"
  shows "change_ready sha w config d d1 c" "placed w d1 c" "paths_apart (change_paths c)"
    "is_effective c \<Longrightarrow> committable sha w config d d1 c dk"
    "set (change_paths c) \<inter> set (paths_of cs) = {}"
    "\<not> is_effective c \<Longrightarrow> temp c = None"
proof -
  show ready: "change_ready sha w config d d1 c" and pl: "placed w d1 c" and ap: "paths_apart (change_paths c)"
    and "set (change_paths c) \<inter> set (paths_of cs) = {}"
    using assms by (auto simp: commit_state_def paths_apart_def)
  show "\<not> is_effective c \<Longrightarrow> temp c = None"
    using ready by (auto simp: change_ready_def staged_ok_def split: option.splits)
  have "\<forall>p. p \<in> set (change_paths c) \<or> temp c = Some p \<longrightarrow> look dk p = look d1 p"
    "\<forall>t. temp c = Some t \<longrightarrow> t \<noteq> [] \<and> t \<notin> set (change_paths c) \<and> in_directories d1 t" "same_tree d1 dk"
    using assms by (auto simp: commit_state_def)
  with ready pl show "is_effective c \<Longrightarrow> committable sha w config d d1 c dk"
    unfolding committable_def placed_def by blast
qed

lemma commit_state_step:
  assumes "commit_state sha w config d d1 (c # cs) dk" and "touches c dk dk'"
  shows "commit_state sha w config d d1 cs dk'"
proof -
  note parts = commit_state_parts [OF assms(1)]
  have same: "look dk' p = look d1 p" if p: "p \<in> set (paths_of cs) \<union> set (temps_of cs)" for p
  proof -
    have p': "p \<in> set (paths_of (c # cs)) \<union> set (temps_of (c # cs))" using p by auto
    have "temp c \<noteq> Some p"
    proof
      assume t: "temp c = Some p"
      then have "p \<notin> set (paths_of (c # cs))" using parts(4) [of p] by auto
      moreover have "p \<notin> set (temps_of cs)" using parts(2) t by simp
      ultimately show False using p by auto
    qed
    moreover have "p \<notin> set (change_paths c)"
    proof
      assume c: "p \<in> set (change_paths c)"
      then have "p \<notin> set (paths_of cs)" using commit_stateD(5) [OF assms(1)] by auto
      moreover have "p \<in> set (paths_of (c # cs))" using c by simp
      ultimately show False using p parts(4) [of p] by auto
    qed
    ultimately have "look dk' p = look dk p" using assms(2) by (simp add: touches_def)
    with parts(5) [OF p'] show ?thesis by simp
  qed
  have "paths_apart (paths_of cs)" using parts(1) by (auto simp: paths_apart_def)
  moreover have "distinct (temps_of cs)" using parts(2) by simp
  moreover have "same_tree d1 dk'" using same_tree_trans [OF parts(3)] assms(2) by (simp add: touches_def)
  moreover have "\<forall>t \<in> set (temps_of cs). t \<noteq> [] \<and> t \<notin> set (paths_of cs) \<and> in_directories d1 t"
  proof
    fix t
    assume "t \<in> set (temps_of cs)"
    with parts(4) [of t] show "t \<noteq> [] \<and> t \<notin> set (paths_of cs) \<and> in_directories d1 t" by auto
  qed
  ultimately show ?thesis using parts(6) same by (simp add: commit_state_def)
qed

lemma target_in_paths: "planned_ok c \<Longrightarrow> res_path (target c) \<in> set (change_paths c)"
  by (cases "action c") (auto simp: planned_ok_def change_paths_def)

lemma report_true_cong:
  assumes "planned_ok c" and "\<And>p. p \<in> set (change_paths c) \<Longrightarrow> look d p = look e p \<and> look d' p = look e' p"
  shows "report_true w d d' c s = report_true w e e' c s"
proof -
  note target_in_paths [OF assms(1)]
  moreover have "source c = Some r \<Longrightarrow> res_path r \<in> set (change_paths c)" for r by (simp add: change_paths_def)
  ultimately show ?thesis using assms(2) by (auto simp: report_true_def holds_new_def split: change_status.split)
qed

lemma cleanup_temps_touches:
  assumes "\<forall>t \<in> set (temps_of cs). t \<noteq> [] \<and> in_directories d t \<and> (look d t = None \<or> (\<exists>b m s. look d t = Some (RegularFile b m s)))"
  shows "same_tree d (cleanup_temps w cs d) \<and> (\<forall>p. p \<notin> set (temps_of cs) \<longrightarrow> look (cleanup_temps w cs d) p = look d p)"
  using assms
proof (induction cs arbitrary: d)
  case Nil
  then show ?case by (simp add: cleanup_temps_def)
next
  case (Cons c cs)
  have unfold: "cleanup_temps w (c # cs) d =
    cleanup_temps w cs (case temp c of None \<Rightarrow> d | Some t \<Rightarrow> snd (remove_file (fails w) (names t) d))"
    by (simp add: cleanup_temps_def)
  show ?case
  proof (cases "temp c")
    case None
    with Cons unfold show ?thesis by simp
  next
    case (Some t)
    then have t: "t \<noteq> []" "in_directories d t" "look d t = None \<or> (\<exists>b m s. look d t = Some (RegularFile b m s))"
      using Cons.prems by auto
    let ?d = "snd (remove_file (fails w) (names t) d)"
    have cases: "?d = d \<or> ?d = erase t d" using remove_file_cases [OF locate_canonical [OF t(2,1)]] .
    have tree: "same_tree d ?d" using cases t same_tree_erase [of t d] by auto
    have look: "look ?d p = look d p \<or> p = t \<and> look ?d p = None" for p using cases t(1) by (auto split: if_splits)
    have "\<forall>u \<in> set (temps_of cs). u \<noteq> [] \<and> in_directories ?d u \<and> (look ?d u = None \<or> (\<exists>b m s. look ?d u = Some (RegularFile b m s)))"
    proof
      fix u
      assume "u \<in> set (temps_of cs)"
      then have "u \<noteq> []" "in_directories d u" "look d u = None \<or> (\<exists>b m s. look d u = Some (RegularFile b m s))"
        using Cons.prems by auto
      then show "u \<noteq> [] \<and> in_directories ?d u \<and> (look ?d u = None \<or> (\<exists>b m s. look ?d u = Some (RegularFile b m s)))"
        using look [of u] same_tree_in_directories [OF tree] by auto
    qed
    from Cons.IH [OF this] tree look show ?thesis
      unfolding unfold using Some by (auto intro: same_tree_trans)
  qed
qed

lemma staged_temp_regular:
  assumes "commit_state sha w config d d1 cs dk" and "t \<in> set (temps_of cs)"
  shows "\<exists>b m s. look dk t = Some (RegularFile b m s)"
proof -
  obtain c where "c \<in> set cs" "temp c = Some t" using assms(2) by (auto simp: temps_of_def split: option.splits)
  then have "\<exists>b m s. look d1 t = Some (RegularFile b m s)"
    using commit_state_parts(6) [OF assms(1)] by (fastforce simp: change_ready_def staged_ok_def)
  with commit_state_parts(5) [OF assms(1), of t] assms(2) show ?thesis by simp
qed

lemma commit_state_cleanup:
  assumes "commit_state sha w config d d1 cs dk"
  shows "same_tree dk (cleanup_temps w cs dk)" "p \<notin> set (temps_of cs) \<Longrightarrow> look (cleanup_temps w cs dk) p = look dk p"
proof -
  have "\<forall>t \<in> set (temps_of cs). t \<noteq> [] \<and> in_directories dk t \<and> (look dk t = None \<or> (\<exists>b m s. look dk t = Some (RegularFile b m s)))"
    using commit_state_parts(3,4) [OF assms] staged_temp_regular [OF assms] same_tree_in_directories by blast
  from cleanup_temps_touches [OF this]
  show "same_tree dk (cleanup_temps w cs dk)" "p \<notin> set (temps_of cs) \<Longrightarrow> look (cleanup_temps w cs dk) p = look dk p"
    by auto
qed

lemma commit_changes_true:
  assumes "commit_state sha w config d d1 cs dk" and "commit_changes w cs dk = (ss, eo, d')"
  shows "list_all2 (report_true w dk d') cs ss \<and> same_tree dk d' \<and>
    (\<forall>p. p \<notin> set (paths_of cs) \<longrightarrow> p \<notin> set (temps_of cs) \<longrightarrow> look d' p = look dk p)"
  using assms
proof (induction cs arbitrary: dk ss)
  case (Cons c cs)
  note D = commit_stateD [OF Cons.prems(1)]
  have plan: "planned_ok c" if "change_ready sha w config d d1 c" for c using that by (simp add: change_ready_def)
  have apart: "p \<notin> set (paths_of cs)" "p \<notin> set (temps_of cs)" if p: "p \<in> set (change_paths c)" for p
    using D(5) p commit_state_parts(4) [OF Cons.prems(1), of p] by auto
  have later: "p \<notin> set (change_paths c)" "temp c \<noteq> Some p" if p: "p \<in> set (paths_of cs)" for p
    using D(5) p commit_state_parts(4) [OF Cons.prems(1), of p] by auto
  have rest: "list_all2 (report_true w dk d') (c # cs) (s # ss') \<and> same_tree dk d' \<and>
      (\<forall>p. p \<notin> set (paths_of (c # cs)) \<longrightarrow> p \<notin> set (temps_of (c # cs)) \<longrightarrow> look d' p = look dk p)"
    if one: "touches c dk d2" "report_true w dk d2 c s" and all: "list_all2 (report_true w d2 d') cs ss'" "same_tree d2 d'"
      "\<forall>p. p \<notin> set (paths_of cs) \<longrightarrow> p \<notin> set (temps_of cs) \<longrightarrow> look d' p = look d2 p" for d2 s ss'
  proof -
    have "report_true w dk d' c s"
      using one(2) report_true_cong [OF plan [OF D(1)], of dk dk d2 d'] all(3) apart by auto
    moreover have "report_true w dk d' c' s' = report_true w d2 d' c' s'" if "c' \<in> set cs" for c' s'
    proof (rule report_true_cong)
      show "planned_ok c'" using commit_state_parts(6) [OF Cons.prems(1)] that plan by auto
      show "look dk p = look d2 p \<and> look d' p = look d' p" if "p \<in> set (change_paths c')" for p
      proof -
        have "p \<in> set (paths_of cs)" using \<open>c' \<in> set cs\<close> that by auto
        with later [of p] one(1) show ?thesis by (simp add: touches_def)
      qed
    qed
    then have "list_all2 (report_true w dk d') cs ss'" using all(1) by (auto simp: list_all2_conv_all_nth)
    moreover have "look d' p = look dk p" if "p \<notin> set (paths_of (c # cs))" "p \<notin> set (temps_of (c # cs))" for p
      using that one(1) all(3) by (auto simp: touches_def split: option.splits)
    ultimately show ?thesis using one(1) all(2) by (auto simp: touches_def intro: same_tree_trans)
  qed
  show ?case
  proof (cases "is_effective c")
    case False
    obtain ss' where c: "commit_changes w cs dk = (ss', eo, d')" "ss = StatusUnchanged # ss'"
      using Cons.prems(2) False by (auto split: prod.splits)
    have "commit_state sha w config d d1 cs dk" using commit_state_step [OF Cons.prems(1)] by simp
    note all = Cons.IH [OF this c(1), THEN conjunct1] Cons.IH [OF this c(1), THEN conjunct2, THEN conjunct1]
      Cons.IH [OF this c(1), THEN conjunct2, THEN conjunct2]
    have "report_true w dk dk c StatusUnchanged" by (simp add: report_true_def)
    from rest [OF touches_refl this all] c(2) show ?thesis by simp
  next
    case True
    note able = D(4) [OF True]
    obtain o1 d2 where c: "commit_change w c dk = (o1, d2)" by fastforce
    show ?thesis
    proof (cases o1)
      case (Inr u)
      obtain ss' where s: "commit_changes w cs d2 = (ss', eo, d')" "ss = done_status c # ss'"
        using Cons.prems(2) True c Inr by (auto split: prod.splits)
      have one: "touches c dk d2" "report_true w dk d2 c (done_status c)"
        using commit_change_done [OF able D(3) c [unfolded Inr]] by simp_all
      from Cons.IH [OF commit_state_step [OF Cons.prems(1) one(1)] s(1)]
      have all: "list_all2 (report_true w d2 d') cs ss'" "same_tree d2 d'"
        "\<forall>p. p \<notin> set (paths_of cs) \<longrightarrow> p \<notin> set (temps_of cs) \<longrightarrow> look d' p = look d2 p" by blast+
      from rest [OF one all] s(2) show ?thesis by simp
    next
      case (Inl e)
      have d': "d' = cleanup_temps w cs d2"
        and ss: "ss = StatusFailed e # map (\<lambda>c. if is_effective c then StatusSkipped else StatusUnchanged) cs"
        using Cons.prems(2) True c Inl by auto
      have one: "touches c dk d2" "\<forall>p \<in> set (change_paths c). look d2 p = look dk p"
        using commit_change_failed [OF able D(3) _ c [unfolded Inl]] D(2) by (simp_all add: placed_def)
      note state = commit_state_step [OF Cons.prems(1) one(1)]
      note clean = commit_state_cleanup [OF state]
      have "list_all2 (report_true w d2 d') cs (map (\<lambda>c. if is_effective c then StatusSkipped else StatusUnchanged) cs)"
      proof -
        have "p \<notin> set (temps_of cs)" if "p \<in> set (paths_of cs)" for p
          using commit_state_parts(4) [OF state, of p] that by blast
        then have same: "look d' p = look d2 p" if "p \<in> set (paths_of cs)" for p using clean(2) that unfolding d' by blast
        have "report_true w d2 d' c' StatusSkipped" "report_true w d2 d' c' StatusUnchanged" if "c' \<in> set cs" for c'
          using same that by (auto simp: report_true_def)
        then show ?thesis by (simp add: list_all2_conv_all_nth)
      qed
      note all = this
      have "report_true w dk d2 c (StatusFailed e)" using one(2) by (simp add: report_true_def)
      from rest [OF one(1) this all] clean d' ss show ?thesis by simp
    qed
  qed
qed simp

subsection \<open>What plans ask for\<close>

text \<open>
  The paths of a plan are permitted, the directories it creates lie above its
  target, and the new path of a move is the place of the name it was given.
\<close>

definition plan_placed :: "edit_world \<Rightarrow> config \<Rightarrow> disk \<Rightarrow> planned_change \<Rightarrow> bool" where
  "plan_placed w config d c \<longleftrightarrow>
     (\<forall>p \<in> set (change_paths c) \<union> set (parents_to_create c). permit (answers_in w d) config Write p = Inr ()) \<and>
     (action c = ActAdd \<longrightarrow> (\<forall>p \<in> set (parents_to_create c). \<exists>k < length (res_path (target c)). p = take k (res_path (target c)))) \<and>
     (action c = ActMove \<longrightarrow> (\<exists>s. canonicalize_existing_or_parent (answers_in w d) s = Some (res_path (target c)) \<and>
        requested (target c) = components_in w s))"

lemma permit_not_temp: "permit fs config access p = Inr () \<Longrightarrow> \<not> is_temp p"
  by (auto simp: permit_def is_reserved_path_def Let_def rbind_eq_Inr_iff split: if_splits)

lemma resolve_absent_path_Inr:
  assumes "resolve_absent_path w config input d = Inr r"
  shows "permit (answers_in w d) config Write (res_path r) = Inr ()"
    "\<exists>s. canonicalize_existing_or_parent (answers_in w d) s = Some (res_path r) \<and> requested r = components_in w s"
  using assms
  by (auto simp: resolve_absent_path_def rbind_eq_Inr_iff ok_or_def split: if_splits option.splits)

lemma resolve_absent_add_path_Inr:
  assumes "resolve_absent_add_path w config input d = Inr (r, parents)"
  shows "permit (answers_in w d) config Write (res_path r) = Inr ()" "res_path r \<noteq> []" "requested r = names (res_path r)"
    "missing_parent_directories d (butlast (res_path r)) = Inr parents"
    "\<forall>p \<in> set parents. permit (answers_in w d) config Write p = Inr ()"
  using assms
  by (auto simp: resolve_absent_add_path_def permit_all_def rfold_unit rbind_eq_Inr_iff split: if_splits)

lemma plan_hunk_placed:
  assumes "plan_hunk sha w config d h = Inr c"
  shows "plan_placed w config d c"
proof (cases h)
  case (AddFile path contents)
  with assms obtain t parents where t: "resolve_absent_add_path w config path d = Inr (t, parents)"
    and c: "c = \<lparr>action = ActAdd, source = None, target = t, parents_to_create = parents, destination = None,
         before_bytes = None, before_revision = None, before_mode = None, candidate = Some (utf8 contents),
         after_revision = Some (sha (utf8 contents)), temp = None\<rparr>"
    by (auto simp: plan_hunk_def plan_add_def rbind_eq_Inr_iff split: if_splits)
  note t = resolve_absent_add_path_Inr [OF t]
  have "\<exists>k < length (res_path (target c)). q = take k (res_path (target c))" if q: "q \<in> set parents" for q
  proof -
    obtain k where "q = take k (butlast (res_path t))" using missing_parents_prefixes [OF t(4) q] by blast
    then have "q = take (min k (length (res_path t) - 1)) (res_path t)" by (simp add: butlast_conv_take)
    moreover have "0 < length (res_path t)" using t(2) by simp
    then have "min k (length (res_path t) - 1) < length (res_path t)" by linarith
    ultimately show ?thesis unfolding c by auto
  qed
  with c t show ?thesis by (auto simp: plan_placed_def change_paths_def)
next
  case (DeleteFile path)
  with assms resolve_path_Inr(1) show ?thesis
    by (fastforce simp: plan_hunk_def plan_delete_def plan_placed_def change_paths_def rbind_eq_Inr_iff)
next
  case (UpdateFile path move_path chunks)
  with assms have "plan_update sha w config d path move_path chunks = Inr c" by (simp add: plan_hunk_def)
  then show ?thesis
  proof (cases rule: plan_updateE)
    case (1 s bytes old mode new dest)
    note s = resolve_path_Inr(1) [OF 1(1)]
    show ?thesis
    proof (cases dest)
      case None
      with 1 s show ?thesis by (simp add: plan_placed_def change_paths_def)
    next
      case (Some r)
      then obtain m where "resolve_absent_path w config m d = Inr r" using 1(5) by (auto split: option.splits)
      note r = resolve_absent_path_Inr [OF this]
      with 1(6) Some s show ?thesis by (simp add: plan_placed_def change_paths_def)
    qed
  qed
qed

lemma plan_hunks_placed:
  assumes "plan_hunks sha w config d hs = Inr cs"
  shows "\<forall>c \<in> set cs. plan_placed w config d c"
proof (rule rfold_inv [where I = "\<lambda>cs. \<forall>c \<in> set cs. plan_placed w config d c"])
  show "rfold (\<lambda>h cs. rbind (plan_hunk sha w config d h) (\<lambda>c. Inr (cs @ [c]))) hs [] = Inr cs"
    using assms by (simp add: plan_hunks_def)
qed (auto simp: rbind_eq_Inr_iff dest: plan_hunk_placed)

subsection \<open>The place of a new name\<close>

text \<open>Resolution of a path is resolution of its beginning and then of the rest.\<close>

lemma walk_split:
  assumes "walk d f here (xs @ ys) = Inr p" and "in_directories d here" and "directory_at d here"
  shows "\<exists>q g. g \<le> f \<and> walk d f here xs = Inr q \<and> walk d g q ys = Inr p \<and> (ys \<noteq> [] \<longrightarrow> directory_at d q)"
  using assms
proof (induction d f here xs rule: walk.induct)
  case (1 d fuel here)
  then show ?case by auto
next
  case (2 d fuel here cs)
  from "2.IH" "2.prems" show ?case by (simp add: in_directories_butlast directory_butlast)
next
  case (3 d fuel here n cs)
  have here: "in_directories d (here @ [n])" using "3.prems"(2,3) by (simp add: in_directories_snoc)
  obtain m where m: "look d (here @ [n]) = Some m" using "3.prems"(1) by (cases "look d (here @ [n])") auto
  show ?case
  proof (cases m)
    case (Directory i)
    with "3.IH"(1) [OF m Directory] "3.prems"(1) m here show ?thesis by (simp add: directory_at_def)
  next
    case (Link s)
    then obtain f where f: "fuel = Suc f" using "3.prems"(1) m by (cases fuel) auto
    let ?h = "if is_absolute s then [] else here"
    have w: "walk d f ?h ((path_components s @ cs) @ ys) = Inr p" using "3.prems"(1) m Link f by simp
    have "in_directories d ?h" "directory_at d ?h" using "3.prems"(2,3) by auto
    from "3.IH"(2) [OF m Link f w this] obtain q g where "g \<le> f" "walk d f ?h (path_components s @ cs) = Inr q"
      "walk d g q ys = Inr p" "ys \<noteq> [] \<longrightarrow> directory_at d q" by blast
    with m Link f show ?thesis by (intro exI [of _ q] exI [of _ g]) simp
  qed (use "3.prems"(1) m in \<open>auto split: if_splits\<close>)
qed

lemma walk_more_fuel: "walk d f here cs = Inr p \<Longrightarrow> f \<le> g \<Longrightarrow> walk d g here cs = Inr p"
proof (induction d f here cs arbitrary: g rule: walk.induct)
  case (3 d fuel here n cs)
  obtain m where m: "look d (here @ [n]) = Some m" using "3.prems"(1) by (cases "look d (here @ [n])") auto
  show ?case
  proof (cases m)
    case (Link s)
    then obtain f where f: "fuel = Suc f" using "3.prems"(1) m by (cases fuel) auto
    with "3.prems"(2) obtain g' where g: "g = Suc g'" "f \<le> g'" by (cases g) auto
    from "3.IH"(2) [OF m Link f _ g(2)] "3.prems"(1) m Link f g(1) show ?thesis by simp
  qed (use "3.IH"(1) [OF m] "3.prems" m in \<open>auto split: if_splits\<close>)
qed simp_all

text \<open>What resolves is canonical for the path policy too.\<close>

lemma realpath_answers: "follow d (names p) = Inr r \<Longrightarrow> realpath (answers h c d) p = Some r"
  by (simp add: answers_def to_option_def)

lemma entry_present:
  "in_directories d p \<Longrightarrow> p \<noteq> [] \<Longrightarrow> entry (answers h c d) p = (if look d p = None then Absent else Present)"
  by (auto simp: answers_def lstat_canonical ok_or_def split: option.splits)

lemma is_dir_follow:
  "follow d (names p) = Inr q \<Longrightarrow> look d q \<noteq> None \<Longrightarrow> is_dir (answers h c d) p = Some (directory_at d q)"
  by (auto simp: answers_def stat_def ok_or_def directory_at_def)

lemma walk_canon_loop:
  assumes "walk d f here cs = Inr p" and "in_directories d here" and "directory_at d here" and "f \<le> max_links"
  shows "canon_loop (answers h c d) cs (here, [], True) = Some (p, [], directory_at d p)"
  using assms
proof (induction f arbitrary: here cs rule: less_induct)
  case (less f)
  from less.prems show ?case
  proof (induction cs arbitrary: here)
    case Nil
    then show ?case by simp
  next
    case (Cons x cs)
    show ?case
    proof (cases x)
      case ParentDir
      have "is_dir (answers h c d) (butlast here) = Some True" if "here \<noteq> []"
      proof -
        have "in_directories d (butlast here)" "directory_at d (butlast here)"
          using Cons.prems(2) by (simp_all add: in_directories_butlast directory_butlast)
        then show ?thesis using is_dir_follow [OF follow_canonical] by (auto simp: directory_at_iff)
      qed
      with ParentDir Cons.IH [of "butlast here"] Cons.prems show ?thesis
        by (cases "here = []") (simp_all add: parent_component_def in_directories_butlast directory_butlast)
    next
      case (Normal n)
      let ?p = "here @ [n]"
      have dirs: "in_directories d ?p" using Cons.prems(2,3) by (simp add: in_directories_snoc)
      obtain m where m: "look d ?p = Some m" using Cons.prems(1) Normal by (cases "look d ?p") auto
      then have entry: "entry (answers h c d) ?p = Present" using entry_present [OF dirs] by simp
      have step: "canon_loop (answers h c d) (x # cs) (here, [], True) = canon_loop (answers h c d) cs (q, [], directory_at d q)"
        if "follow d (names ?p) = Inr q" "look d q \<noteq> None" for q
        using that entry realpath_answers [OF that(1)] is_dir_follow [OF that] Normal by (simp add: normal_component_def)
      show ?thesis
      proof (cases m)
        case (Directory i)
        then have "follow d (names ?p) = Inr ?p" using follow_canonical [OF dirs m] by simp
        from step [OF this] m Directory Cons.IH [of ?p] Cons.prems Normal dirs show ?thesis by (simp add: directory_at_def)
      next
        case (Link s)
        then obtain g where g: "f = Suc g" using Cons.prems(1) Normal m by (cases f) auto
        let ?h = "if is_absolute s then [] else here"
        have hd: "in_directories d ?h" "directory_at d ?h" using Cons.prems(2,3) by auto
        have "walk d g ?h (path_components s @ cs) = Inr p" using Cons.prems(1) Normal m Link g by simp
        from walk_split [OF this hd] obtain q k where q: "k \<le> g" "walk d g ?h (path_components s) = Inr q"
          "walk d k q cs = Inr p" "cs \<noteq> [] \<longrightarrow> directory_at d q" by blast
        note canon = walk_canonical [OF q(2) hd]
        have "walk d max_links [] (names ?p) = walk d max_links here [Normal n]"
          using walk_names [of d "[]" ?p max_links] dirs m Link by (simp add: names_def)
        also have "\<dots> = walk d (max_links - 1) ?h (path_components s)"
          using m Link by (simp add: max_links_def)
        also have "\<dots> = Inr q" using walk_more_fuel [OF q(2), of "max_links - 1"] g Cons.prems(4) by simp
        finally have "follow d (names ?p) = Inr q" by (simp add: follow_def)
        note step = step [OF this]
        show ?thesis
        proof (cases "cs = []")
          case True
          with step q(3) canon show ?thesis by simp
        next
          case False
          with q(4) have "directory_at d q" by simp
          with step canon less.IH [of k q cs] q(1,3) g Cons.prems(4) show ?thesis by simp
        qed
      qed (use Cons.prems(1) Normal m step follow_canonical [OF dirs m] in \<open>auto split: if_splits\<close>)
    qed
  qed
qed

text \<open>The last name of a path that does not exist is the last name of its canonical path.\<close>

lemma components_absolute:
  assumes "canonicalize_existing_or_parent (answers_in w d) s = Some p" and "components_in w s \<noteq> []"
  shows "\<exists>b. canon_loop (answers_in w d) (components_in w s) ([], [], True) = Some b \<and> (case b of (r, m, _) \<Rightarrow> p = r @ m)"
proof -
  obtain a where a: "absolute_string (cwd w) s = Inr a" "components_in w s = path_components a"
    using assms(2) by (auto simp: components_in_def split: sum.splits)
  have "current_dir (answers_in w d) = cwd w" by (simp add: answers_def)
  with a(1) have "(if is_absolute s then Some s else map_option (\<lambda>c. join_path c s) (current_dir (answers_in w d))) = Some a"
    by (auto simp: absolute_string_def split: if_splits option.splits)
  then have "map_option (\<lambda>(r, m, _). r @ m) (canon_loop (answers_in w d) (components_in w s) ([], [], True)) = Some p"
    using assms(1) unfolding canonicalize_existing_or_parent_def a(2) by simp
  then show ?thesis by (cases "canon_loop (answers_in w d) (components_in w s) ([], [], True)") (auto split: prod.splits)
qed

lemma new_name:
  assumes "canonicalize_existing_or_parent (answers_in w d) s = Some p" and "components_in w s = xs @ [Normal n]"
    and "follow d xs = Inr (butlast p)" and "directory_at d (butlast p)" and "look d (butlast p @ [n]) = None"
  shows "p = butlast p @ [n]"
proof -
  let ?r = "butlast p"
  obtain b where b: "canon_loop (answers_in w d) (xs @ [Normal n]) ([], [], True) = Some b" "case b of (r, m, _) \<Rightarrow> p = r @ m"
    using components_absolute [OF assms(1)] assms(2) by auto
  have "canon_loop (answers_in w d) xs ([], [], True) = Some (?r, [], directory_at d ?r)"
    using walk_canon_loop [of d max_links "[]" xs] assms(3) by (simp add: follow_def)
  then have one: "canon_loop (answers_in w d) [Normal n] (?r, [], True) = Some b"
    using b(1) assms(4) by (simp add: canon_loop_append)
  have "in_directories d (?r @ [n])" using follow_result(1) [OF assms(3)] assms(4) by (simp add: in_directories_snoc)
  from entry_present [OF this] assms(5) have "entry (answers_in w d) (?r @ [n]) = Absent" by simp
  with one have "b = (?r, [n], True)" by (simp add: normal_component_def)
  with b(2) show ?thesis by simp
qed

lemma plan_move_name:
  assumes "planned_ok c" and "plan_placed w config d c" and "validate_planned sha w config d c = Inr ()" and "action c = ActMove"
    and "requested (target c) = xs @ [Normal n]" and "\<not> requested_slash (target c)"
  shows "res_path (target c) = butlast (res_path (target c)) @ [n]"
proof -
  let ?p = "res_path (target c)"
  have valid: "revalidate_target w config d (target c) False = Inr ()"
    using assms(3,4) by (auto simp: validate_planned_def rbind_eq_Inr_iff)
  have f: "follow d xs = Inr (butlast ?p)" using valid_absent(4) [OF valid] assms(5) by simp
  obtain s where s: "canonicalize_existing_or_parent (answers_in w d) s = Some ?p" "components_in w s = xs @ [Normal n]"
    using assms(2,4,5) by (auto simp: plan_placed_def)
  obtain b where b: "canon_loop (answers_in w d) (xs @ [Normal n]) ([], [], True) = Some b"
    using components_absolute [OF s(1)] s(2) by auto
  have "canon_loop (answers_in w d) xs ([], [], True) = Some (butlast ?p, [], directory_at d (butlast ?p))"
    using walk_canon_loop [of d max_links "[]" xs] f by (simp add: follow_def)
  with b have dir: "directory_at d (butlast ?p)" by (cases "directory_at d (butlast ?p)") (auto simp: canon_loop_append normal_component_def)
  with f have "locate d (requested (target c)) = Inr (butlast ?p @ [n])" using assms(5) by (simp add: locate_def)
  from absent_place [OF valid_absent(1) [OF valid] assms(6) this] have "look d (butlast ?p @ [n]) = None" .
  from new_name [OF s f dir this] show ?thesis .
qed

text \<open>A change that is ready is where it was asked for.\<close>

lemma ready_placed:
  assumes ready: "change_ready sha w config d d1 c" and "plan_placed w config d c" and "cleanup_works w d"
  shows "placed w d1 c"
proof -
  have plan: "planned_ok c" and valid: "validate_planned sha w config d c = Inr ()" using ready by (simp_all add: change_ready_def)
  have "q = res_path (target c)"
    if act: "action c = ActAdd \<or> action c = ActMove" and slash: "\<not> requested_slash (target c)"
      and loc: "locate d1 (requested (target c)) = Inr q" for q
  proof -
    obtain r n where q: "requested (target c) = butlast (requested (target c)) @ [Normal n]"
      "follow d1 (butlast (requested (target c))) = Inr r" "q = r @ [n]"
      using locate_InrE [OF loc] .
    have "revalidate_target w config d1 (target c) False = Inr ()"
      using act ready_move(2) [OF ready] ready_add [OF ready] by auto
    note v = valid_absent [OF this]
    have q': "q = butlast (res_path (target c)) @ [n]" using v(4) q by simp
    show ?thesis
    proof (cases "action c")
      case ActAdd
      then have "requested (target c) = names (res_path (target c))" using plan by (simp add: planned_ok_def)
      then have "last (names (res_path (target c))) = Normal n" using arg_cong [OF q(1), of last] by simp
      then have "last (res_path (target c)) = n" using v(3) by (simp add: names_def last_map)
      with q' append_butlast_last_id [OF v(3)] show ?thesis by simp
    next
      case ActMove
      from plan_move_name [OF plan assms(2) valid ActMove q(1) slash] q' show ?thesis by simp
    qed (use act in auto)
  qed
  moreover have "\<not> fails w (RemoveFile (requested (target c)))" if "action c = ActMove" "\<not> requested_slash (target c)"
    using valid_absent(1) [OF ready_move(1) [OF ready that(1)]] that(2) assms(3)
    by (auto simp: cleanup_works_def lstat_requested_def)
  ultimately show ?thesis by (simp add: placed_def)
qed

subsection \<open>The whole transaction\<close>

text \<open>The removal of own directories touches nothing else.\<close>

lemma remove_owned_touches:
  assumes "linkless d (butlast p)"
  shows "q \<noteq> p \<Longrightarrow> look (remove_owned w (p, i) d) q = look d q"
    and "look (remove_owned w (p, i) d) q \<noteq> Some (Link s) \<or> look d q = Some (Link s)"
    and "look (remove_owned w (p, i) d) q = look d q \<or> directory_at d q"
proof -
  have "remove_owned w (p, i) d = d \<or> (p \<noteq> [] \<and> directory_at d p \<and> remove_owned w (p, i) d = erase p d)"
  proof (cases "\<exists>r. remove_dir (fails w) (names p) d = (Inr (), r)")
    case True
    then obtain r where r: "locate d (names p) = Inr r" "directory_at d r" "remove_dir (fails w) (names p) d = (Inr (), erase r d)"
      by (auto simp: remove_dir_def split: if_splits sum.splits)
    with locate_linkless [OF r(1) assms] show ?thesis
      by (auto simp: remove_owned_def split: sum.split node.split)
  next
    case False
    then have "snd (remove_dir (fails w) (names p) d) = d" by (auto simp: remove_dir_def split: sum.splits)
    then show ?thesis by (auto simp: remove_owned_def split: sum.split node.split)
  qed
  then show "q \<noteq> p \<Longrightarrow> look (remove_owned w (p, i) d) q = look d q"
    and "look (remove_owned w (p, i) d) q \<noteq> Some (Link s) \<or> look d q = Some (Link s)"
    and "look (remove_owned w (p, i) d) q = look d q \<or> directory_at d q"
    by (auto split: if_splits)
qed

lemma cleanup_owned_touches:
  assumes "\<forall>p \<in> fst ` set ds. linkless d (butlast p)" and "q \<notin> fst ` set ds"
  shows "look (cleanup_owned_parent_directories w ds d) q = look d q"
proof -
  have "look (fold (remove_owned w) es d) q = look d q" if "fst ` set es \<subseteq> fst ` set ds" "\<forall>p \<in> fst ` set ds. linkless d (butlast p)" for es d
    using that
  proof (induction es arbitrary: d)
    case (Cons x es)
    have x: "fst x \<in> fst ` set ds" "linkless d (butlast (fst x))" using Cons.prems by auto
    note one = remove_owned_touches [OF x(2), where w = w and i = "snd x", simplified]
    have "\<forall>p \<in> fst ` set ds. linkless (remove_owned w x d) (butlast p)"
      using Cons.prems(2) one(2) unfolding linkless_def by (metis prod.collapse)
    with Cons.IH [of "remove_owned w x d"] Cons.prems(1) one(1) [of q] x(1) assms(2) show ?case by auto
  qed simp
  from this [of "rev ds"] assms(1) show ?thesis by (simp add: cleanup_owned_parent_directories_def)
qed

text \<open>The state in which the commits start.\<close>

lemma change_paths_temp [simp]: "change_paths (c\<lparr>temp := t\<rparr>) = change_paths c"
  by (cases "source c"; cases "destination c"; simp add: change_paths_def)

lemma start_commits:
  assumes "tree_ok d" and "cleanup_works w d" and add: "added d (adds owned (temps_of all) []) d2"
    and dirs: "map fst owned = directories_to_create cs" and strip: "map (\<lambda>c. c\<lparr>temp := None\<rparr>) all = cs"
    and placed: "\<forall>c \<in> set cs. plan_placed w config d c" and apart: "paths_apart (paths_of cs)"
    and ready: "\<forall>c \<in> set all. change_ready sha w config d d2 c"
  shows "commit_state sha w config d d2 all d2"
    and "\<And>p. p \<in> set (paths_of cs) \<Longrightarrow> look d2 p = look d p \<and> p \<notin> fst ` set owned"
proof -
  have strip1: "c\<lparr>temp := None\<rparr> \<in> set cs" if "c \<in> set all" for c using strip that by auto
  have paths: "paths_of cs = paths_of all"
    unfolding strip [symmetric] by (simp add: comp_def)
  have temp: "is_temp t" "t \<noteq> []" "in_directories d2 t" if "t \<in> set (temps_of all)" for t
    using add that by (auto simp: added_def fresh_temps_def temps_ok_def is_temp_def)
  have clean: "\<not> is_temp p" if "p \<in> set (paths_of cs)" for p
    using placed that permit_not_temp by (fastforce simp: plan_placed_def)
  have pl: "placed w d2 c" if "c \<in> set all" for c
  proof -
    have "plan_placed w config d (c\<lparr>temp := None\<rparr>)" using placed strip1 [OF that] by blast
    then have "plan_placed w config d c" by (simp add: plan_placed_def)
    from ready_placed [OF _ this assms(2)] ready that show ?thesis by blast
  qed
  have "t \<notin> set (paths_of all)" if "t \<in> set (temps_of all)" for t using temp(1) [OF that] clean paths by auto
  moreover have "distinct (temps_of all)" using add by (simp add: added_def temps_ok_def)
  ultimately show "commit_state sha w config d d2 all d2"
    using ready pl apart temp unfolding commit_state_def paths [symmetric] by simp
  show "look d2 p = look d p \<and> p \<notin> fst ` set owned" if p: "p \<in> set (paths_of cs)" for p
  proof -
    have "p \<notin> fst ` set owned"
    proof
      assume own: "p \<in> fst ` set owned"
      then have "p \<in> set (directories_to_create cs)" using dirs by (metis list.set_map)
      then obtain c where c: "c \<in> set cs" "action c = ActAdd" "p \<in> set (parents_to_create c)" by (auto simp: set_directories)
      have "plan_placed w config d c" using placed c(1) by blast
      then obtain k where k: "k < length (res_path (target c))" "p = take k (res_path (target c))"
        using c(2,3) unfolding plan_placed_def by blast
      have "path_starts_with p (res_path (target c))" using k by (simp add: path_starts_with_def)
      moreover obtain c' where "c' \<in> set all" "c = c'\<lparr>temp := None\<rparr>" using c(1) strip by auto
      then have "planned_ok c" using ready by (simp add: change_ready_def)
      from target_in_paths [OF this] have "res_path (target c) \<in> set (paths_of cs)" using c(1) by auto
      ultimately have "p = res_path (target c)" using apart p unfolding paths_apart_def by blast
      with k show False by (metis length_take min_less_iff_conj nat_neq_iff)
    qed
    moreover have "p \<notin> set (temps_of all)" using temp(1) clean p by blast
    ultimately show ?thesis using add by (simp add: added_def rest_same_def)
  qed
qed

text \<open>From the end of the transaction back to its steps.\<close>

lemma transaction_cases:
  assumes "tree_ok d" and "cleanup_works w d" and "during_staging w = id"
    and plans: "\<forall>c \<in> set cs. planned_ok c \<and> temp c = None"
    and run: "run_transaction sha w config approval cs d = (Inr resp, d')"
  obtains owned all d2 ss eo d4 where "map fst owned = directories_to_create cs"
    and "added d (adds owned (temps_of all) []) d2" and "map (\<lambda>c. c\<lparr>temp := None\<rparr>) all = cs"
    and "\<forall>c \<in> set all. change_ready sha w config d d2 c" and "commit_changes w all d2 = (ss, eo, d4)"
    and "resp = patch_response approval (eo = None) cs ss"
    and "d' = (if eo = None then d4 else cleanup_owned_parent_directories w owned d4)"
    and "eo \<noteq> None \<Longrightarrow> committed ss \<noteq> 0"
proof -
  have valid: "\<forall>c \<in> set cs. validate_planned sha w config d c = Inr ()"
    using run by (cases "validate_all (validate_planned sha w config d) cs") (auto simp: run_transaction_def validate_all_iff)
  then have v: "validate_all (validate_planned sha w config d) cs = Inr ()" by (simp add: validate_all_iff)
  obtain owned d1 where dirs: "create_missing_parent_directories w config cs d = (Inr owned, d1)"
    using run v by (cases "create_missing_parent_directories w config cs d"; cases "fst (create_missing_parent_directories w config cs d)")
      (auto simp: run_transaction_def)
  have link: "\<forall>p \<in> set (directories_to_create cs). linkless d (butlast p)"
    using valid_parents_linkless [OF assms(1), where sha = sha and w = w and config = config] plans valid
    unfolding set_directories by blast
  have empty: "added d (adds [] [] []) d" using added_nothing by (simp add: adds_def)
  have one: "map fst owned = directories_to_create cs" "added d (adds owned [] []) d1"
    using create_directories_added [OF assms(2,1) empty link _ dirs [unfolded create_missing_parent_directories_def]]
      directories_sorted [of cs] by auto
  let ?again = "validate_all (\<lambda>c. revalidate_add_parent_directories w config d1 (target c) (parents_to_create c))
             (filter (\<lambda>c. action c = ActAdd) cs)"
  have again: "?again = Inr ()"
    using run v dirs by (cases ?again) (auto simp: run_transaction_def)
  obtain all d2 where st: "stage_changes w 0 [] cs d1 = (Inr all, d2)"
    using run v dirs again by (cases "stage_changes w 0 [] cs d1"; cases "fst (stage_changes w 0 [] cs d1)")
      (auto simp: run_transaction_def)
  have "\<forall>c \<in> set cs. temp c = None \<and> linkless d (butlast (res_path (target c)))"
    using plans valid_target_linkless(1) [OF assms(1)] valid by blast
  from stage_changes_added [OF assms(2) _ this _ st] one(2)
  have two: "added d (adds owned (temps_of all) []) d2" "\<forall>c \<in> set all. staged_ok w d2 c"
    "map (\<lambda>c. c\<lparr>temp := None\<rparr>) all = cs" by auto
  have last: "validate_all (validate_staged sha w config d2) all = Inr ()"
    using run v dirs again st assms(3)
    by (cases "validate_all (validate_staged sha w config d2) all") (auto simp: run_transaction_def)
  then have "\<forall>c \<in> set all. validate_staged sha w config d2 c = Inr ()" by (simp add: validate_all_iff)
  note ready = ready_changes [OF plans valid two(3,2) this]
  obtain ss eo d4 where com: "commit_changes w all d2 = (ss, eo, d4)" by (cases "commit_changes w all d2")
  have "resp = patch_response approval (eo = None) cs ss \<and>
      d' = (if eo = None then d4 else cleanup_owned_parent_directories w owned d4) \<and> (eo \<noteq> None \<longrightarrow> committed ss \<noteq> 0)"
    using run v dirs again st last com assms(3)
    by (cases eo) (auto simp: run_transaction_def Let_def split: if_splits)
  with that [OF one(1) two(1,3) ready com] show ?thesis by blast
qed

text \<open>An answer is true and complete.\<close>

definition answer_true :: "edit_world \<Rightarrow> disk \<Rightarrow> disk \<Rightarrow> planned_change list \<Rightarrow> edit_response \<Rightarrow> bool" where
  "answer_true w d d' cs resp \<longleftrightarrow>
     cs = map fst (statuses resp) \<and> (\<forall>(c, s) \<in> set (statuses resp). report_true w d d' c s) \<and>
     (\<forall>p. p \<notin> set (paths_of cs) \<union> set (directories_to_create cs) \<longrightarrow> \<not> is_temp p \<longrightarrow> look d' p = look d p)"

lemma commit_changes_length: "commit_changes w cs d = (ss, eo, d') \<Longrightarrow> length ss = length cs"
  by (induction cs arbitrary: d ss) (auto split: if_splits prod.splits sum.splits)

lemma report_true_temp: "report_true w d d' (c\<lparr>temp := t\<rparr>) s = report_true w d d' c s"
  by (cases s) (simp_all add: report_true_def holds_new_def)

lemma transaction_report:
  assumes "tree_ok d" and "cleanup_works w d" and "during_staging w = id"
    and plans: "\<forall>c \<in> set cs. planned_ok c \<and> temp c = None" and placed: "\<forall>c \<in> set cs. plan_placed w config d c"
    and apart: "paths_apart (paths_of cs)"
    and run: "run_transaction sha w config approval cs d = (Inr resp, d')"
  shows "answer_true w d d' cs resp"
proof -
  obtain owned all d2 ss eo d4 where t: "map fst owned = directories_to_create cs"
    "added d (adds owned (temps_of all) []) d2" "map (\<lambda>c. c\<lparr>temp := None\<rparr>) all = cs"
    "\<forall>c \<in> set all. change_ready sha w config d d2 c" "commit_changes w all d2 = (ss, eo, d4)"
    "resp = patch_response approval (eo = None) cs ss"
    "d' = (if eo = None then d4 else cleanup_owned_parent_directories w owned d4)"
    using transaction_cases [OF assms(1-4) run] .
  note start = start_commits [OF assms(1,2) t(2,1,3) placed apart t(4)]
  from commit_changes_true [OF start(1) t(5)]
  have done_true: "list_all2 (report_true w d2 d4) all ss" and tree: "same_tree d2 d4"
    and rest: "\<forall>p. p \<notin> set (paths_of all) \<longrightarrow> p \<notin> set (temps_of all) \<longrightarrow> look d4 p = look d2 p" by blast+
  have paths: "paths_of cs = paths_of all" unfolding t(3) [symmetric] by (simp add: comp_def)
  have own: "linkless d4 (butlast p)" if "p \<in> fst ` set owned" for p
  proof -
    have "in_directories d2 p" "p \<noteq> []" using t(2) that by (auto simp: added_def dirs_ok_def)
    then have "in_directories d4 p" "p \<noteq> []" using same_tree_in_directories [OF tree] by auto
    then have "in_directories d4 (butlast p)" "directory_at d4 (butlast p)"
      by (simp_all add: in_directories_butlast directory_butlast)
    then show ?thesis by (intro in_directories_linkless) (auto simp: directory_at_iff)
  qed
  have last: "look d' p = look d4 p" if "p \<notin> fst ` set owned" for p
    using cleanup_owned_touches [of owned d4 p w] own that t(7) by auto
  have "report_true w d d' c s = report_true w d2 d4 c s" if "c \<in> set all" for c s
  proof (rule report_true_cong)
    show "planned_ok c" using t(4) that by (simp add: change_ready_def)
    show "look d p = look d2 p \<and> look d' p = look d4 p" if "p \<in> set (change_paths c)" for p
    proof -
      have "p \<in> set (paths_of cs)" using that \<open>c \<in> set all\<close> paths by auto
      from start(2) [OF this] last [of p] show ?thesis by simp
    qed
  qed
  with done_true have "list_all2 (report_true w d d') all ss" by (auto simp: list_all2_conv_all_nth)
  then have "list_all2 (report_true w d d') cs ss"
    unfolding t(3) [symmetric] by (simp add: list_all2_map1 report_true_temp)
  then have "(\<forall>(c, s) \<in> set (zip cs ss). report_true w d d' c s) \<and> length cs = length ss"
    by (simp add: list_all2_iff split_beta)
  moreover have "look d' p = look d p"
    if "p \<notin> set (paths_of cs) \<union> set (directories_to_create cs)" "\<not> is_temp p" for p
  proof -
    have "p \<notin> fst ` set owned" using that(1) t(1) by (metis UnCI list.set_map)
    moreover have "p \<notin> set (temps_of all)" using that(2) t(2) by (auto simp: added_def fresh_temps_def)
    ultimately show ?thesis using that(1) last rest paths t(2) by (simp add: added_def rest_same_def)
  qed
  ultimately show ?thesis using t(6) by (auto simp: answer_true_def patch_response_def Let_def)
qed

text \<open>The answer of the tool.\<close>

lemma edit_report:
  assumes "tree_ok d" and "cleanup_works w d" and "undisturbed w"
    and "apply_patch_inner sha w pw channels config acquisition patch d = (Inr resp, d')"
  obtains parsed effective_config where "parse_patch patch = Inr parsed"
    and "plan_hunks sha w effective_config d (args_hunks parsed) = Inr (map fst (statuses resp))"
    and "answer_true w d d' (map fst (statuses resp)) resp"
  using assms(4)
proof (cases rule: apply_patch_cases)
  case early
  then show ?thesis by simp
next
  case (transaction parsed rs ts effective_config approval cs)
  have calm: "during_approval w = id" "during_staging w = id" "during_lock w (during_approval w d) = d"
    using assms(3) by (simp_all add: undisturbed_def)
  have plan: "plan_hunks sha w effective_config d (args_hunks parsed) = Inr cs" using transaction(5) calm(1) by simp
  note plans = plan_hunks_ok [OF plan] plan_hunks_placed [OF plan]
  have apart: "paths_apart (paths_of cs)" using transaction(6) by (simp add: overlap_check)
  have "run_transaction sha w effective_config approval cs d = (Inr resp, d')" using transaction(7) calm(3) by simp
  note report = transaction_report [OF assms(1,2) calm(2) plans apart this]
  then have "cs = map fst (statuses resp)" by (simp add: answer_true_def)
  with that transaction(1) plan report show ?thesis by blast
qed

end
