(* ===== verification/File_Guarantees.thy ===== *)
theory File_Guarantees
  imports File_Report
begin

text \<open>
  What an edit of files guarantees: an error changes nothing, the answer is true, no change is
  made on the basis of stale contents or outside of what the policy or the user allows.
\<close>

subsection \<open>An example\<close>

definition sample_disk :: disk where
  "sample_disk = [([lit ''w''], Directory 1), ([lit ''w'', lit ''a''], RegularFile (lit ''x'' @ [10]) 420 7),
     ([lit ''l''], Link (lit ''w''))]"

definition sample_world :: edit_world where
  "sample_world = \<lparr>fails = (\<lambda>_. False), new_inode = length, new_stamp = Suc, temp_name = (\<lambda>i k. [int i + 97, int k + 97]),
     new_mode = 384, file_identity = (\<lambda>_ _. None), during_approval = id, during_lock = id, during_staging = id,
     home = None, cwd = None\<rparr>"

definition sample_prompt :: prompt_world where
  "sample_prompt = \<lparr>asked_answer = (\<lambda>_. ''deny''), policy_answer = (\<lambda>_. ''deny''), cancelled_before = False,
    cancelled_asked = False, cancelled_policy = False\<rparr>"

definition sample_config :: config where
  "sample_config = ls_config\<lparr>workspace_root := lit ''/w'', policy := (policy ls_config)\<lparr>path_policy :=
     default_path_policy\<lparr>write_roots := [lit ''/w''], deny_roots := [lit ''/w/no'']\<rparr>\<rparr>\<rparr>"

definition sample_patch :: rstr where
  "sample_patch = join [10] [lit ''*** Begin Patch'', lit ''*** Update File: a'', lit ''*** Move to: /l/b'',
     lit ''-x'', lit ''+y'', lit ''*** Add File: d/c'', lit ''+z'', lit ''*** End Patch'']"

lemma sample_disk_ok: "tree_ok sample_disk"
  by (auto simp: tree_ok_def sample_disk_def look_def directory_at_def)

lemma sample_world_ok: "cleanup_works sample_world d" "undisturbed sample_world"
  by (simp_all add: cleanup_works_def undisturbed_def sample_world_def)

lemma sample_edit:
  obtains resp d' where "apply_patch_inner (\<lambda>b. b) sample_world sample_prompt [] sample_config None sample_patch sample_disk = (Inr resp, d')"
    and "map snd (statuses resp) = [StatusMoved, StatusCreated]"
    and "source (fst (hd (statuses resp))) \<noteq> None"
    and "look d' [lit ''w'', lit ''d'', lit ''c''] = Some (RegularFile (lit ''z'' @ [10]) 384 2)"
proof -
  let ?r = "apply_patch_inner (\<lambda>b. b) sample_world sample_prompt [] sample_config None sample_patch sample_disk"
  have "case ?r of (Inr resp, d') \<Rightarrow> map snd (statuses resp) = [StatusMoved, StatusCreated] \<and>
      source (fst (hd (statuses resp))) \<noteq> None \<and>
      look d' [lit ''w'', lit ''d'', lit ''c''] = Some (RegularFile (lit ''z'' @ [10]) 384 2)
    | (Inl _, _) \<Rightarrow> False" by code_simp
  with that show ?thesis by (auto split: prod.splits sum.splits)
qed

subsection \<open>Errors\<close>

text \<open>C3.
  An edit is atomic in its errors: when nobody else writes to the disk meanwhile and the
  removal of what the tool itself created works, an edit that answers with an error, be it in
  the patch, the policy, the validation, the staging or the first commit, leaves every file,
  link and directory as it was; only temporary files of the tool may be left.
\<close>

theorem edit_error_changes_nothing:
  assumes "tree_ok d" and "cleanup_works w d" and "undisturbed w"
    and "apply_patch_inner sha w pw channels config acquisition patch d = (Inl e, d')"
  shows "\<forall>p. \<not> is_temp p \<longrightarrow> look d' p = look d p"
  using edit_error [OF assms] by (simp add: visibly_same_def)

lemma edit_error_changes_nothing_witness:
  "\<exists>d'. apply_patch_inner (\<lambda>b. b) (sample_world\<lparr>fails := (\<lambda>op. case op of HardLink _ \<Rightarrow> True | _ \<Rightarrow> False)\<rparr>)
      sample_prompt [] sample_config None
      (join [10] [lit ''*** Begin Patch'', lit ''*** Add File: d/c'', lit ''+z'', lit ''*** End Patch'']) sample_disk
      = (Inl ''file_write_failed'', d') \<and> look d' [lit ''w'', lit ''d''] = None"
proof -
  let ?w = "sample_world\<lparr>fails := (\<lambda>op. case op of HardLink _ \<Rightarrow> True | _ \<Rightarrow> False)\<rparr>"
  let ?p = "join [10] [lit ''*** Begin Patch'', lit ''*** Add File: d/c'', lit ''+z'', lit ''*** End Patch'']"
  let ?r = "apply_patch_inner (\<lambda>b. b) ?w sample_prompt [] sample_config None ?p sample_disk"
  have "fst ?r = Inl ''file_write_failed''" by code_simp
  then obtain d' where r: "?r = (Inl ''file_write_failed'', d')" by (cases ?r) auto
  have "cleanup_works ?w sample_disk" "undisturbed ?w"
    by (simp_all add: cleanup_works_def undisturbed_def sample_world_def)
  from edit_error_changes_nothing [OF sample_disk_ok this r]
  have "look d' [lit ''w'', lit ''d''] = look sample_disk [lit ''w'', lit ''d'']"
    by (auto simp: is_temp_def temp_prefix_def starts_with_iff lit_def)
  moreover have "look sample_disk [lit ''w'', lit ''d''] = None" by code_simp
  ultimately show ?thesis using r by simp
qed

subsection \<open>Answers\<close>

text \<open>C4.
  The answer of an edit is true: its changes are the plans of the hunks of the patch, a created,
  updated or moved file has exactly its planned contents at its canonical path, a deleted or
  moved source is gone, a change reported as unchanged, failed or skipped was left alone, and
  apart from these paths and the directories created for new files nothing else on the disk
  is touched.
\<close>

theorem edit_reports_the_truth:
  assumes "tree_ok d" and "cleanup_works w d" and "undisturbed w"
    and "apply_patch_inner sha w pw channels config acquisition patch d = (Inr resp, d')"
  shows "\<exists>parsed effective_config. parse_patch patch = Inr parsed \<and>
      plan_hunks sha w effective_config d (args_hunks parsed) = Inr (map fst (statuses resp)) \<and>
      (\<forall>(c, s) \<in> set (statuses resp). report_true w d d' c s) \<and>
      (\<forall>p. look d' p = look d p \<or> is_temp p \<or> p \<in> set (paths_of (map fst (statuses resp))) \<or>
        p \<in> set (directories_to_create (map fst (statuses resp))))"
proof -
  obtain parsed effective_config where *: "parse_patch patch = Inr parsed"
    "plan_hunks sha w effective_config d (args_hunks parsed) = Inr (map fst (statuses resp))"
    "answer_true w d d' (map fst (statuses resp)) resp"
    by (rule edit_report [OF assms])
  then show ?thesis unfolding answer_true_def by blast
qed

lemma edit_reports_the_truth_witness:
  "\<exists>resp d' c s. apply_patch_inner (\<lambda>b. b) sample_world sample_prompt [] sample_config None sample_patch sample_disk = (Inr resp, d') \<and>
     (c, StatusMoved) \<in> set (statuses resp) \<and> report_true sample_world sample_disk d' c StatusMoved"
proof -
  obtain resp d' where r: "apply_patch_inner (\<lambda>b. b) sample_world sample_prompt [] sample_config None sample_patch sample_disk = (Inr resp, d')"
    and s: "map snd (statuses resp) = [StatusMoved, StatusCreated]"
    using sample_edit .
  then obtain c where "(c, StatusMoved) \<in> set (statuses resp)" by (cases "statuses resp") auto
  with edit_reports_the_truth [OF sample_disk_ok sample_world_ok r] r show ?thesis by blast
qed

subsection \<open>Stale contents\<close>

lemma stage_changes_strip:
  "stage_changes w i staged cs d = (Inr all, d') \<Longrightarrow>
     map (\<lambda>c. c\<lparr>temp := None\<rparr>) all = map (\<lambda>c. c\<lparr>temp := None\<rparr>) (staged @ cs)"
  by (induction w i staged cs d rule: stage_changes.induct) (auto split: if_splits option.splits sum.splits prod.splits)

text \<open>
  A transaction that commits anything validated its plans twice: on the disk it was locked on,
  and on the disk as it was when the commits began, whatever others did in between.
\<close>

lemma transaction_validated:
  assumes run: "run_transaction sha w config approval cs d = (Inr resp, d')"
  obtains d2 all where "\<forall>c \<in> set cs. validate_planned sha w config d c = Inr ()"
    and "\<forall>c \<in> set all. validate_staged sha w config (during_staging w d2) c = Inr ()"
    and "map (\<lambda>c. c\<lparr>temp := None\<rparr>) all = map (\<lambda>c. c\<lparr>temp := None\<rparr>) cs"
    and "\<exists>ss eo d4. commit_changes w all (during_staging w d2) = (ss, eo, d4) \<and> statuses resp = zip cs ss"
proof -
  have v: "validate_all (validate_planned sha w config d) cs = Inr ()"
    using run by (cases "validate_all (validate_planned sha w config d) cs") (auto simp: run_transaction_def)
  obtain owned d1 where dirs: "create_missing_parent_directories w config cs d = (Inr owned, d1)"
    using run v by (cases "create_missing_parent_directories w config cs d"; cases "fst (create_missing_parent_directories w config cs d)")
      (auto simp: run_transaction_def)
  let ?again = "validate_all (\<lambda>c. revalidate_add_parent_directories w config d1 (target c) (parents_to_create c))
             (filter (\<lambda>c. action c = ActAdd) cs)"
  have again: "?again = Inr ()"
    using run v dirs by (cases ?again) (auto simp: run_transaction_def)
  obtain all d2 where st: "stage_changes w 0 [] cs d1 = (Inr all, d2)"
    using run v dirs again by (cases "stage_changes w 0 [] cs d1"; cases "fst (stage_changes w 0 [] cs d1)")
      (auto simp: run_transaction_def)
  have last: "validate_all (validate_staged sha w config (during_staging w d2)) all = Inr ()"
    using run v dirs again st
    by (cases "validate_all (validate_staged sha w config (during_staging w d2)) all") (auto simp: run_transaction_def Let_def)
  obtain ss eo d4 where com: "commit_changes w all (during_staging w d2) = (ss, eo, d4)"
    by (cases "commit_changes w all (during_staging w d2)")
  then have "statuses resp = zip cs ss"
    using run v dirs again st last
    by (cases eo) (auto simp: run_transaction_def patch_response_def Let_def split: if_splits)
  with that v last com stage_changes_strip [OF st] show ?thesis by (auto simp: validate_all_iff)
qed

lemma source_revision:
  assumes "validate_planned sha w config d c = Inr () \<or> validate_staged sha w config d c = Inr ()" and "source c = Some s"
  shows "\<exists>b m st. look d (res_path s) = Some (RegularFile b m st) \<and> before_revision c = Some (sha b)"
proof -
  have "revalidate_source sha w config d c = Inr ()"
    using assms(1) by (auto simp: validate_planned_def validate_staged_def rbind_eq_Inr_iff)
  from valid_source [OF this assms(2)] show ?thesis by (auto simp: regular_at_def)
qed

lemma plan_hunk_revision:
  assumes "plan_hunk sha w config d h = Inr c" and "source c = Some r"
  shows "\<exists>b. before_bytes c = Some b \<and> before_revision c = Some (sha b)"
proof (cases h)
  case (UpdateFile path move_path chunks)
  with assms(1) have "plan_update sha w config d path move_path chunks = Inr c" by (simp add: plan_hunk_def)
  then show ?thesis by (cases rule: plan_updateE) simp
qed (use assms in \<open>auto simp: plan_hunk_def plan_add_def plan_delete_def rbind_eq_Inr_iff split: if_splits\<close>)

lemma plan_hunks_elem:
  assumes "plan_hunks sha w config d hs = Inr cs" and "c \<in> set cs"
  shows "\<exists>h \<in> set hs. plan_hunk sha w config d h = Inr c"
proof -
  have "\<forall>c \<in> set cs. \<exists>h \<in> set hs. plan_hunk sha w config d h = Inr c"
  proof (rule rfold_inv [where I = "\<lambda>cs. \<forall>c \<in> set cs. \<exists>h \<in> set hs. plan_hunk sha w config d h = Inr c"])
    show "rfold (\<lambda>h cs. rbind (plan_hunk sha w config d h) (\<lambda>c. Inr (cs @ [c]))) hs [] = Inr cs"
      using assms(1) by (simp add: plan_hunks_def)
  qed (auto simp: rbind_eq_Inr_iff)
  with assms(2) show ?thesis by blast
qed

text \<open>C5.
  No edit goes through on stale contents, whatever other programs do to the disk at the three
  moments the tool waits: if it commits, then every file it updates, moves or deletes had the
  digest of the contents the change was planned on when the locks were taken, and again in
  the disk on which the commits began.
\<close>

theorem edit_based_on_current_contents:
  assumes "apply_patch_inner sha w pw channels config acquisition patch d = (Inr resp, d')"
    and "(c, st) \<in> set (statuses resp)" and "source c = Some r"
  shows "\<exists>b. before_bytes c = Some b \<and>
    (\<exists>b1 m i. look (during_lock w (during_approval w d)) (res_path r) = Some (RegularFile b1 m i) \<and> sha b1 = sha b) \<and>
    (\<exists>all d2 eo d4. commit_changes w all (during_staging w d2) = (map snd (statuses resp), eo, d4) \<and>
      (\<exists>b2 m i. look (during_staging w d2) (res_path r) = Some (RegularFile b2 m i) \<and> sha b2 = sha b))"
  using assms(1)
proof (cases rule: apply_patch_cases)
  case early
  then show ?thesis by simp
next
  case (transaction parsed rs ts config' approval cs)
  obtain d2 all ss eo d4 where v: "\<forall>c \<in> set cs. validate_planned sha w config' (during_lock w (during_approval w d)) c = Inr ()"
    "\<forall>c \<in> set all. validate_staged sha w config' (during_staging w d2) c = Inr ()"
    "map (\<lambda>c. c\<lparr>temp := None\<rparr>) all = map (\<lambda>c. c\<lparr>temp := None\<rparr>) cs"
    and com: "commit_changes w all (during_staging w d2) = (ss, eo, d4)" and z: "statuses resp = zip cs ss"
    using transaction_validated [OF transaction(7)] by metis
  have "length all = length cs" using v(3) by (metis length_map)
  with commit_changes_length [OF com] have ss: "map snd (statuses resp) = ss" using z by simp
  have c: "c \<in> set cs" using assms(2) z by (auto dest: set_zip_leftD)
  then obtain h where "plan_hunk sha w config' (during_approval w d) h = Inr c" using plan_hunks_elem [OF transaction(5)] by blast
  from plan_hunk_revision [OF this assms(3)] obtain b where b: "before_bytes c = Some b" "before_revision c = Some (sha b)" by blast
  have lock: "\<exists>b1 m i. look (during_lock w (during_approval w d)) (res_path r) = Some (RegularFile b1 m i) \<and> sha b1 = sha b"
    using source_revision [OF disjI1 assms(3)] v(1) c b(2) by fastforce
  have "c\<lparr>temp := None\<rparr> \<in> set (map (\<lambda>c. c\<lparr>temp := None\<rparr>) all)" using v(3) c by simp
  then obtain c' where c': "c' \<in> set all" "c\<lparr>temp := None\<rparr> = c'\<lparr>temp := None\<rparr>" by auto
  have "source c' = Some r" "before_revision c' = Some (sha b)"
    using arg_cong [OF c'(2), of source] arg_cong [OF c'(2), of before_revision] assms(3) b(2) by simp_all
  then have "\<exists>b2 m i. look (during_staging w d2) (res_path r) = Some (RegularFile b2 m i) \<and> sha b2 = sha b"
    using source_revision [OF disjI2, of sha w config' "during_staging w d2" c' r] v(2) c'(1) by fastforce
  with b(1) lock com ss show ?thesis by blast
qed

lemma edit_based_on_current_contents_witness:
  "\<exists>resp d' c st r b. apply_patch_inner (\<lambda>b. b) sample_world sample_prompt [] sample_config None sample_patch sample_disk = (Inr resp, d') \<and>
     (c, st) \<in> set (statuses resp) \<and> source c = Some r \<and> before_bytes c = Some b \<and>
     (\<exists>m i. look sample_disk (res_path r) = Some (RegularFile b m i))"
proof -
  obtain resp d' where run: "apply_patch_inner (\<lambda>b. b) sample_world sample_prompt [] sample_config None sample_patch sample_disk = (Inr resp, d')"
    and s: "map snd (statuses resp) = [StatusMoved, StatusCreated]" and src: "source (fst (hd (statuses resp))) \<noteq> None"
    using sample_edit .
  obtain c st where h: "hd (statuses resp) = (c, st)" by (cases "hd (statuses resp)")
  then have "(c, st) \<in> set (statuses resp)" using s by (cases "statuses resp") auto
  moreover obtain r where "source c = Some r" using src h by auto
  ultimately have c: "(c, st) \<in> set (statuses resp)" "source c = Some r" .
  have "during_lock sample_world (during_approval sample_world sample_disk) = sample_disk" by (simp add: sample_world_def)
  with edit_based_on_current_contents [OF run c] obtain b where "before_bytes c = Some b"
    "\<exists>m i. look sample_disk (res_path r) = Some (RegularFile b m i)" by auto
  with run c show ?thesis by blast
qed

subsection \<open>Permission\<close>

text \<open>A path resolves to the same place under every path policy.\<close>

lemma resolve_path_policy:
  assumes "resolve_path w config input access d = Inr r" and "resolve_path w config' input access' d = Inr r'"
    and "workspace_root config = workspace_root config'"
  shows "r = r'"
  using assms
  by (auto simp: resolve_path_def candidate_path_def rbind_eq_Inr_iff split: if_splits sum.splits os_error.splits)

lemma resolve_absent_path_policy:
  assumes "resolve_absent_path w config input d = Inr r" and "resolve_absent_path w config' input d = Inr r'"
    and "workspace_root config = workspace_root config'"
  shows "r = r'"
  using assms
  by (auto simp: resolve_absent_path_def candidate_path_def rbind_eq_Inr_iff split: if_splits)

lemma resolve_absent_add_path_policy:
  assumes "resolve_absent_add_path w config input d = Inr r" and "resolve_absent_add_path w config' input d = Inr r'"
    and "workspace_root config = workspace_root config'"
  shows "r = r'"
  using assms
  by (auto simp: resolve_absent_add_path_def candidate_path_def rbind_eq_Inr_iff split: if_splits)

lemma hunk_targets_cover:
  assumes "hunk_targets w config d h = Inr (rs, ts)" and "plan_hunk sha w config' d h = Inr c"
    and ws: "workspace_root config = workspace_root config'"
  shows "\<forall>p \<in> set (change_paths c) \<union> set (parents_to_create c). (p, Write) \<in> set ts"
proof (cases h)
  case (AddFile path contents)
  with assms(2) obtain r' where "resolve_absent_add_path w config' path d = Inr r'" "target c = fst r'" "parents_to_create c = snd r'"
      "source c = None"
    by (auto simp: plan_hunk_def plan_add_def rbind_eq_Inr_iff split: if_splits)
  moreover obtain q where q: "resolve_absent_add_path w config path d = Inr q"
      "ts = (res_path (fst q), Write) # map (\<lambda>p. (p, Write)) (snd q)"
    using assms(1) AddFile by (auto simp: hunk_targets_def rbind_eq_Inr_iff)
  moreover from this calculation(1) have "q = r'" using resolve_absent_add_path_policy [OF _ _ ws] by blast
  ultimately show ?thesis by (simp add: change_paths_def)
next
  case (DeleteFile path)
  with assms(2) obtain r' where "resolve_path w config' path Write d = Inr r'" "source c = Some r'" "parents_to_create c = []"
      "destination c = None"
    by (auto simp: plan_hunk_def plan_delete_def rbind_eq_Inr_iff)
  moreover obtain q where q: "resolve_path w config path Write d = Inr q" "ts = [(res_path q, Read), (res_path q, Write)]"
    using assms(1) DeleteFile by (auto simp: hunk_targets_def rbind_eq_Inr_iff)
  moreover from this calculation(1) have "q = r'" using resolve_path_policy [OF _ _ ws] by blast
  ultimately show ?thesis by (simp add: change_paths_def)
next
  case (UpdateFile path move_path chunks)
  with assms(2) have "plan_update sha w config' d path move_path chunks = Inr c" by (simp add: plan_hunk_def)
  then show ?thesis
  proof (cases rule: plan_updateE)
    case (1 s bytes old mode new dest)
    obtain t where t: "resolve_path w config path Write d = Inr t"
      using assms(1) UpdateFile by (auto simp: hunk_targets_def rbind_eq_Inr_iff)
    have s: "t = s" using resolve_path_policy [OF t 1(1) ws] .
    show ?thesis
    proof (cases move_path)
      case None
      with assms(1) UpdateFile t s 1 show ?thesis by (auto simp: hunk_targets_def change_paths_def)
    next
      case (Some m)
      then obtain r r' where r: "resolve_absent_path w config m d = Inr r" "resolve_absent_path w config' m d = Inr r'" "dest = Some r'"
        using assms(1) UpdateFile t 1(5) by (auto simp: hunk_targets_def rbind_eq_Inr_iff)
      have "r = r'" using resolve_absent_path_policy [OF r(1,2) ws] .
      with assms(1) UpdateFile t s 1(6) r Some show ?thesis by (auto simp: hunk_targets_def change_paths_def)
    qed
  qed
qed

lemma patch_targets_elem:
  assumes "patch_targets w config d hs = Inr (rs, ts)" and "h \<in> set hs"
  shows "\<exists>r t. hunk_targets w config d h = Inr (r, t) \<and> set t \<subseteq> set ts"
proof -
  have "(\<forall>h \<in> set hs. \<exists>r t. hunk_targets w config d h = Inr (r, t) \<and> set t \<subseteq> set ts) \<and> set ts0 \<subseteq> set ts"
    if "rfold (\<lambda>h (rs, ts). rbind (hunk_targets w config d h) (\<lambda>(r, t). Inr (rs @ r, ts @ t))) hs (rs0, ts0) = Inr (rs, ts)"
    for hs rs0 ts0
    using that
  proof (induction hs arbitrary: rs0 ts0)
    case (Cons h hs)
    then obtain r t where h: "hunk_targets w config d h = Inr (r, t)"
      and rest: "rfold (\<lambda>h (rs, ts). rbind (hunk_targets w config d h) (\<lambda>(r, t). Inr (rs @ r, ts @ t))) hs (rs0 @ r, ts0 @ t) = Inr (rs, ts)"
      by (auto simp: rbind_eq_Inr_iff)
    from Cons.IH [OF rest] h show ?case by auto
  qed simp
  from this [of hs "[]" "[]"] assms show ?thesis by (auto simp: patch_targets_def)
qed

lemma permissive_paths_root [simp]:
  "workspace_root (permissive_paths config) = workspace_root config"
  "is_reserved_path fs (permissive_paths config) = is_reserved_path fs config"
  by (simp_all add: permissive_paths_def is_reserved_path_def fun_eq_iff)

lemma authorize_file_targetsE:
  assumes "authorize_file_targets w pw channels config acquisition ts d = Inr (config', approval)"
  obtains "\<not> approval" and "config' = config"
  | "approval" and "config' = permissive_paths config"
    and "\<exists>c. asked_answer pw c = ''allow_once'' \<or> policy_answer pw c = ''allow_once''"
proof -
  obtain dec where dec: "targets_decision (answers_in w d) config ts = Inr dec"
    using assms by (auto simp: authorize_file_targets_def Let_def rbind_eq_Inr_iff)
  then obtain auth where auth: "authorize_operation_cancellable pw channels acquisition False dec False = Inr auth"
    using assms by (cases "authorize_operation_cancellable pw channels acquisition False dec False")
      (auto simp: authorize_file_targets_def Let_def rbind_eq_Inr_iff)
  with dec have "approval = approved auth" "config' = (if approved auth then permissive_paths config else config)"
    using assms by (auto simp: authorize_file_targets_def Let_def rbind_eq_Inr_iff split: if_splits)
  with operation_authorized [OF auth(1)] that show ?thesis by (cases "approved auth") auto
qed

lemma permit_Inr:
  "permit fs config access p = Inr () \<Longrightarrow>
     path_policy_decision fs config p (access = Write) = Inr Allow \<and> \<not> is_reserved_path fs config p"
  by (auto simp: permit_def check_policy_def rbind_eq_Inr_iff split: sum.splits policy_decision.splits if_splits)

lemma committed_path_permitted:
  assumes "tree_ok d" and "cleanup_works w d" and "undisturbed w"
    and run: "apply_patch_inner sha w pw channels config acquisition patch d = (r, d')"
    and "look d' p \<noteq> look d p" and "\<not> is_temp p"
  obtains parsed rs ts config' approval where "parse_patch patch = Inr parsed"
    and "patch_targets w (permissive_paths config) d (args_hunks parsed) = Inr (rs, ts)"
    and "authorize_file_targets w pw channels config acquisition ts d = Inr (config', approval)"
    and "(p, Write) \<in> set ts" and "permit (answers_in w d) config' Write p = Inr ()"
  using run
proof (cases rule: apply_patch_cases)
  case early
  then show ?thesis using assms(3,5) by (auto simp: undisturbed_def)
next
  case (transaction parsed rs ts config' approval cs)
  have calm: "during_approval w = id" "during_staging w = id" "during_lock w (during_approval w d) = d"
    using assms(3) by (simp_all add: undisturbed_def)
  have plan: "plan_hunks sha w config' d (args_hunks parsed) = Inr cs" using transaction(5) calm(1) by simp
  have apart: "paths_apart (paths_of cs)" using transaction(6) by (simp add: overlap_check)
  have tr: "run_transaction sha w config' approval cs d = (r, d')" using transaction(7) calm(3) by simp
  obtain resp where resp: "r = Inr resp"
    using transaction_error [OF assms(1,2) calm(2) plan_hunks_ok [OF plan]] tr assms(5,6) by (cases r) (auto simp: visibly_same_def)
  have "answer_true w d d' cs resp"
    using transaction_report [OF assms(1,2) calm(2) plan_hunks_ok [OF plan] plan_hunks_placed [OF plan] apart] tr resp by simp
  then have "p \<in> set (paths_of cs) \<union> set (directories_to_create cs)" using assms(5,6) unfolding answer_true_def by blast
  then obtain c where c: "c \<in> set cs" "p \<in> set (change_paths c) \<union> set (parents_to_create c)" by (auto simp: set_directories)
  then have permit: "permit (answers_in w d) config' Write p = Inr ()"
    using plan_hunks_placed [OF plan] unfolding plan_placed_def by blast
  obtain h where h: "h \<in> set (args_hunks parsed)" "plan_hunk sha w config' d h = Inr c" using plan_hunks_elem [OF plan c(1)] by blast
  from patch_targets_elem [OF transaction(2) h(1)] obtain q t where t: "hunk_targets w (permissive_paths config) d h = Inr (q, t)"
    "set t \<subseteq> set ts" by blast
  have "workspace_root (permissive_paths config) = workspace_root config'"
    using transaction(3) by (cases rule: authorize_file_targetsE) simp_all
  from hunk_targets_cover [OF t(1) h(2) this] c(2) t(2) have "(p, Write) \<in> set ts" by blast
  with that transaction(1-3) permit show ?thesis by blast
qed

text \<open>C6.
  An edit stays within what is allowed: every file or directory that differs after it, in
  success, partial success or error, is neither reserved for the audit log nor a temporary
  file of the tool. It is among the targets that the hunks of this patch ask to write, these
  targets are what was authorised, all of them at once, and the policy allows writing it unless
  the authorisation was an approval, which the user gave on some channel.
\<close>

theorem edit_within_policy:
  assumes "tree_ok d" and "cleanup_works w d" and "undisturbed w"
    and "apply_patch_inner sha w pw channels config acquisition patch d = (r, d')"
    and "look d' p \<noteq> look d p" and "\<not> is_temp p"
  shows "\<not> is_reserved_path (answers_in w d) config p \<and>
    (\<exists>parsed rs ts config' approval. parse_patch patch = Inr parsed \<and>
       patch_targets w (permissive_paths config) d (args_hunks parsed) = Inr (rs, ts) \<and> (p, Write) \<in> set ts \<and>
       authorize_file_targets w pw channels config acquisition ts d = Inr (config', approval) \<and>
       (if approval then \<exists>c. asked_answer pw c = ''allow_once'' \<or> policy_answer pw c = ''allow_once''
        else path_policy_decision (answers_in w d) config p True = Inr Allow))"
proof -
  obtain parsed rs ts config' approval where t: "parse_patch patch = Inr parsed"
    "patch_targets w (permissive_paths config) d (args_hunks parsed) = Inr (rs, ts)"
    "authorize_file_targets w pw channels config acquisition ts d = Inr (config', approval)"
    "(p, Write) \<in> set ts" "permit (answers_in w d) config' Write p = Inr ()"
    using committed_path_permitted [OF assms] .
  note p = permit_Inr [OF t(5), simplified]
  from t(3) have "\<not> is_reserved_path (answers_in w d) config p \<and>
    (if approval then \<exists>c. asked_answer pw c = ''allow_once'' \<or> policy_answer pw c = ''allow_once''
     else path_policy_decision (answers_in w d) config p True = Inr Allow)"
    by (cases rule: authorize_file_targetsE) (use p in auto)
  with t show ?thesis by blast
qed

lemma edit_within_policy_witness:
  "\<exists>r d'. apply_patch_inner (\<lambda>b. b) sample_world sample_prompt [] sample_config None sample_patch sample_disk = (r, d') \<and>
     path_policy_decision (answers_in sample_world sample_disk) sample_config [lit ''w'', lit ''d'', lit ''c''] True = Inr Allow"
proof -
  let ?p = "[lit ''w'', lit ''d'', lit ''c'']"
  obtain resp d' where run: "apply_patch_inner (\<lambda>b. b) sample_world sample_prompt [] sample_config None sample_patch sample_disk = (Inr resp, d')"
    and new: "look d' ?p = Some (RegularFile (lit ''z'' @ [10]) 384 2)"
    using sample_edit .
  have "look sample_disk ?p = None" "\<not> is_temp ?p" by code_simp+
  with edit_within_policy [OF sample_disk_ok sample_world_ok run, of ?p] new obtain approval where
    "if approval then \<exists>c. asked_answer sample_prompt c = ''allow_once'' \<or> policy_answer sample_prompt c = ''allow_once''
     else path_policy_decision (answers_in sample_world sample_disk) sample_config ?p True = Inr Allow" by fastforce
  moreover have "asked_answer sample_prompt c \<noteq> ''allow_once'' \<and> policy_answer sample_prompt c \<noteq> ''allow_once''" for c
    by (simp add: sample_prompt_def)
  ultimately have "path_policy_decision (answers_in sample_world sample_disk) sample_config ?p True = Inr Allow"
    by (cases approval) simp_all
  with run show ?thesis by blast
qed

end
