(* ===== verification/Event_Store.thy ===== *)
theory Event_Store
  imports Prelude "HOL-Library.Word" "HOL-Library.List_Lexorder" "HOL-Library.Product_Lexorder"
begin

text \<open>
  The event store of the agent (\<^verbatim>\<open>crates/agentic-gpt/src/storage/event_store.rs\<close>,
  with the records of \<^verbatim>\<open>agentic-gpt-protocol/src/events.rs\<close>): two SQLite tables,
  modelled as lists of rows, and the transactions on them. A time is a number of
  nanoseconds; the fixed-width time stamps of the tables compare as the times do. The clock,
  the identifier of a new row and the encoding of a cursor are arguments. Typed columns
  replace the texts that the code parses back, so the errors of parsing its own rows do not
  arise; failures of the database itself are not modelled.
\<close>

subsection \<open>Rows\<close>

datatype event_severity = Low | Medium | High
datatype event_status = Pending | Handled | Expired
datatype event_source_kind = Process | SkillInstall | External

record event_source =
  source_kind :: event_source_kind
  reference :: rstr

record event_origin =
  run_id :: rstr
  request_id :: rstr
  command_hash :: rstr

record event_row =
  event_id :: rstr
  message :: rstr
  severity :: event_severity
  created_at :: int
  status :: event_status
  event_source :: event_source
  shown_count :: nat
  expires_at :: "int option"
  terminal_at :: "int option"

record internal_event_policy =
  low_ttl_seconds :: "64 word"
  overrides :: "(rstr \<times> event_severity option) list"

datatype response_state = AwaitingResponse | AsyncEligible | Suppressed

record internal_row =
  row_source :: event_source
  response_state :: response_state
  settled_at :: "int option"
  row_policy :: internal_event_policy
  completion :: "(rstr option \<times> rstr option \<times> int) option"
  notified :: bool
  row_origin :: "event_origin option"

text \<open>
  \<open>completion\<close> is \<^verbatim>\<open>completion_seen\<close> with the type, the message and the time of the
  completion; the first two are cleared when they are not needed any more.
\<close>

record event_store =
  events :: "event_row list"
  sources :: "internal_row list"

datatype event_error =
  EventMessageTooLarge | ReferenceInvalid | EventTypeInvalid | AgentScopeInvalid
| LowTtlOutOfRange | TooManyOverrides | PendingCapacityReached | MarkTooManyIds | EventNotFound
| CursorInvalid | CursorScopeMismatch | CursorTooLarge | SourceKindInvalid | SourceNotRegistered
| OriginInvalid | OriginBindingConflict | OriginBindAfterSettlement | RemoteResponseRequiresHub
| OriginMismatch | DispositionConflict | InsertFailed | InvalidShownCount | CompletionMissing

definition default_internal_policy :: internal_event_policy where
  "default_internal_policy = \<lparr>low_ttl_seconds = 86400, overrides = []\<rparr>"

text \<open>\<^verbatim>\<open>COMPACT_POLICY_JSON\<close> is the default policy.\<close>

definition severity_for :: "internal_event_policy \<Rightarrow> rstr \<Rightarrow> event_severity option" where
  "severity_for p event_type =
     (case map_of (overrides p) event_type of None \<Rightarrow> Some Low | Some s \<Rightarrow> s)"

subsection \<open>Checks of the input\<close>

definition max_message_bytes :: nat where "max_message_bytes = 16384"
definition max_reference_bytes :: nat where "max_reference_bytes = 512"
definition max_event_type_bytes :: nat where "max_event_type_bytes = 128"
definition max_agent_scope_bytes :: nat where "max_agent_scope_bytes = 512"
definition max_origin_component_bytes :: nat where "max_origin_component_bytes = 512"
definition max_cursor_bytes :: nat where "max_cursor_bytes = 2048"
definition max_event_ids_per_mark :: nat where "max_event_ids_per_mark = 512"
definition max_pending_events :: nat where "max_pending_events = 8192"
definition internal_policy_max_overrides :: nat where "internal_policy_max_overrides = 128"

definition check :: "bool \<Rightarrow> event_error \<Rightarrow> event_error + unit" where
  "check ok e = (if ok then Inr () else Inl e)"

lemma check_simps [simp]: "check True e = Inr ()" "check False e = Inl e"
  by (simp_all add: check_def)

lemma check_eq [simp]: "check b e = Inr u \<longleftrightarrow> b" "check b e = Inl e' \<longleftrightarrow> \<not> b \<and> e' = e"
  by (auto simp: check_def)

definition validate_reference :: "rstr \<Rightarrow> event_error + unit" where
  "validate_reference r =
     check (r \<noteq> [] \<and> byte_len r \<le> max_reference_bytes \<and> \<not> list_ex is_control r) ReferenceInvalid"

definition validate_internal_source :: "event_source \<Rightarrow> event_error + unit" where
  "validate_internal_source s =
     rbind (validate_reference (reference s)) (\<lambda>_. check (source_kind s \<noteq> External) SourceKindInvalid)"

definition validate_message :: "rstr \<Rightarrow> event_error + unit" where
  "validate_message m = check (byte_len m \<le> max_message_bytes) EventMessageTooLarge"

definition validate_event_type :: "rstr \<Rightarrow> event_error + unit" where
  "validate_event_type t =
     check (t \<noteq> [] \<and> byte_len t \<le> max_event_type_bytes \<and> \<not> list_ex is_control t) EventTypeInvalid"

definition validate_agent_scope :: "rstr \<Rightarrow> event_error + unit" where
  "validate_agent_scope a = check (byte_len a \<le> max_agent_scope_bytes \<and> \<not> list_ex is_control a) AgentScopeInvalid"

definition origin_component_ok :: "rstr \<Rightarrow> bool" where
  "origin_component_ok c \<longleftrightarrow>
     c \<noteq> [] \<and> byte_len c \<le> max_origin_component_bytes \<and> \<not> list_ex is_control c"

definition validate_origin :: "event_origin \<Rightarrow> event_error + unit" where
  "validate_origin origin =
     check (list_all origin_component_ok [run_id origin, request_id origin, command_hash origin]) OriginInvalid"

subsection \<open>Expiry\<close>

definition second :: int where "second = 1000000000"

text \<open>The years 0 to 9999, in seconds since the epoch.\<close>

definition first_second :: int where "first_second = - 62167219200"
definition end_second :: int where "end_second = 253402300800"

definition max_low_ttl_seconds :: int where
  "max_low_ttl_seconds = (2 ^ 63 - 1) div 1000"

definition checked_ttl_duration :: "64 word \<Rightarrow> event_error + int" where
  "checked_ttl_duration ttl =
     (if 2 ^ 63 \<le> uint ttl \<or> max_low_ttl_seconds < uint ttl then Inl LowTtlOutOfRange
      else Inr (uint ttl * second))"

definition checked_expiry_at :: "64 word \<Rightarrow> int \<Rightarrow> event_error + int" where
  "checked_expiry_at ttl created =
     rbind (checked_ttl_duration ttl) (\<lambda>duration.
       let t = created + duration in
       if first_second * second \<le> t \<and> t < end_second * second then Inr t else Inl LowTtlOutOfRange)"

definition expiry_for :: "event_severity \<Rightarrow> 64 word \<Rightarrow> int \<Rightarrow> event_error + int option" where
  "expiry_for sev ttl created =
     (if sev \<noteq> Low then Inr None else rbind (checked_expiry_at ttl created) (\<lambda>t. Inr (Some t)))"

definition validate_policy :: "int \<Rightarrow> internal_event_policy \<Rightarrow> event_error + unit" where
  "validate_policy now p =
     rbind (checked_expiry_at (low_ttl_seconds p) now) (\<lambda>_.
     rbind (check (length (overrides p) \<le> internal_policy_max_overrides) TooManyOverrides) (\<lambda>_.
     rfold (\<lambda>(event_type, _) _. validate_event_type event_type) (overrides p) ()))"

definition retention :: int where "retention = 7 * 86400 * second"

definition expire_row :: "int \<Rightarrow> event_row \<Rightarrow> event_row" where
  "expire_row now e =
     (case expires_at e of
        Some t \<Rightarrow> if status e = Pending \<and> t \<le> now then e\<lparr>status := Expired, terminal_at := Some t\<rparr> else e
      | None \<Rightarrow> e)"

definition outdated :: "int \<Rightarrow> event_row \<Rightarrow> bool" where
  "outdated now e \<longleftrightarrow>
     status e \<noteq> Pending \<and> (case terminal_at e of None \<Rightarrow> False | Some t \<Rightarrow> t \<le> now - retention)"

definition expire_and_cleanup_at :: "int \<Rightarrow> event_store \<Rightarrow> event_store" where
  "expire_and_cleanup_at now st =
     st\<lparr>events := filter (\<lambda>e. \<not> outdated now e) (map (expire_row now) (events st))\<rparr>"

subsection \<open>Transactions\<close>

text \<open>An operation that fails is rolled back.\<close>

type_synonym 'a transaction = "event_store \<Rightarrow> event_error + 'a \<times> event_store"

definition transact :: "'a transaction \<Rightarrow> event_store \<Rightarrow> (event_error + 'a) \<times> event_store" where
  "transact operation st =
     (case operation st of Inl e \<Rightarrow> (Inl e, st) | Inr (r, st') \<Rightarrow> (Inr r, st'))"

definition pending_count :: "event_store \<Rightarrow> nat" where
  "pending_count st = length (filter (\<lambda>e. status e = Pending) (events st))"

definition ensure_pending_capacity :: "event_store \<Rightarrow> event_error + unit" where
  "ensure_pending_capacity st = check (pending_count st < max_pending_events) PendingCapacityReached"

definition insert_event ::
    "rstr \<Rightarrow> rstr \<Rightarrow> event_severity \<Rightarrow> int \<Rightarrow> event_source \<Rightarrow> int option \<Rightarrow> event_store \<Rightarrow>
     event_error + event_row \<times> event_store" where
  "insert_event new_id msg sev created source expires st =
     (if new_id \<in> event_id ` set (events st) then Inl InsertFailed
      else
        let row = \<lparr>event_id = new_id, message = msg, severity = sev, created_at = created,
              status = Pending, event_source = source, shown_count = 0, expires_at = expires,
              terminal_at = None\<rparr>
        in Inr (row, st\<lparr>events := events st @ [row]\<rparr>))"

definition into_record :: "event_row \<Rightarrow> event_error + event_row" where
  "into_record e = (if shown_count e < 2 ^ 32 then Inr e else Inl InvalidShownCount)"

subsection \<open>Injecting, reading and marking events\<close>

record event_inject_request =
  inject_message :: rstr
  inject_severity :: "event_severity option"
  inject_reference :: rstr

definition inject_at ::
    "rstr \<Rightarrow> event_inject_request \<Rightarrow> 64 word \<Rightarrow> int \<Rightarrow> event_store \<Rightarrow> (event_error + event_row) \<times> event_store" where
  "inject_at new_id request ttl now st =
     (let sev = (case inject_severity request of None \<Rightarrow> Low | Some s \<Rightarrow> s) in
      case rbind (validate_message (inject_message request)) (\<lambda>_.
           rbind (validate_reference (inject_reference request)) (\<lambda>_.
           expiry_for sev ttl now)) of
        Inl e \<Rightarrow> (Inl e, st)
      | Inr expires \<Rightarrow>
          transact (\<lambda>st.
            let st1 = expire_and_cleanup_at now st in
            rbind (ensure_pending_capacity st1) (\<lambda>_.
            rbind (insert_event new_id (inject_message request) sev now
                     \<lparr>source_kind = External, reference = inject_reference request\<rparr> expires st1)
              (\<lambda>(row, st2). rbind (into_record row) (\<lambda>record. Inr (record, st2))))) st)"

definition get_at :: "rstr \<Rightarrow> int \<Rightarrow> event_store \<Rightarrow> (event_error + event_row) \<times> event_store" where
  "get_at wanted now st =
     (case validate_reference wanted of
        Inl e \<Rightarrow> (Inl e, st)
      | Inr _ \<Rightarrow>
          (case transact (\<lambda>st.
             let st1 = expire_and_cleanup_at now st in
             case List.find (\<lambda>e. event_id e = wanted) (events st1) of
               None \<Rightarrow> Inr (None, st1)
             | Some e \<Rightarrow> rbind (into_record e) (\<lambda>record. Inr (Some record, st1))) st of
             (Inl e, st') \<Rightarrow> (Inl e, st')
           | (Inr r, st') \<Rightarrow> (ok_or EventNotFound r, st')))"

record event_mark_response =
  handled_ids :: "rstr list"
  not_found_ids :: "rstr list"

definition mark_row :: "int \<Rightarrow> rstr \<Rightarrow> event_row \<Rightarrow> event_row" where
  "mark_row now wanted e =
     (if event_id e = wanted \<and> status e = Pending
      then e\<lparr>status := Handled, terminal_at := Some now\<rparr> else e)"

text \<open>One identifier: a pending event is handled; one that was handled before counts as handled.\<close>

definition mark_one ::
    "int \<Rightarrow> rstr \<Rightarrow> event_mark_response \<times> event_store \<Rightarrow> event_mark_response \<times> event_store" where
  "mark_one now wanted rs =
     (case rs of (response, st) \<Rightarrow>
        let st' = st\<lparr>events := map (mark_row now wanted) (events st)\<rparr> in
        if list_ex (\<lambda>e. event_id e = wanted \<and> status e = Handled) (events st')
        then (response\<lparr>handled_ids := handled_ids response @ [wanted]\<rparr>, st')
        else (response\<lparr>not_found_ids := not_found_ids response @ [wanted]\<rparr>, st'))"

fun mark_loop ::
    "int \<Rightarrow> rstr list \<Rightarrow> rstr set \<Rightarrow> event_mark_response \<times> event_store \<Rightarrow> event_mark_response \<times> event_store" where
  "mark_loop now [] seen rs = rs"
| "mark_loop now (wanted # ids) seen rs =
     (if wanted \<in> seen then mark_loop now ids seen rs
      else mark_loop now ids (insert wanted seen) (mark_one now wanted rs))"

definition mark_at ::
    "rstr list \<Rightarrow> int \<Rightarrow> event_store \<Rightarrow> (event_error + event_mark_response) \<times> event_store" where
  "mark_at ids now st =
     (case rbind (check (length ids \<le> max_event_ids_per_mark) MarkTooManyIds)
                 (\<lambda>_. rfold (\<lambda>i _. validate_reference i) ids ()) of
        Inl e \<Rightarrow> (Inl e, st)
      | Inr _ \<Rightarrow>
          transact (\<lambda>st. Inr (mark_loop now ids {} (\<lparr>handled_ids = [], not_found_ids = []\<rparr>,
                                                    expire_and_cleanup_at now st))) st)"

subsection \<open>The panel\<close>

definition severity_rank :: "event_severity \<Rightarrow> nat" where
  "severity_rank s = (case s of High \<Rightarrow> 0 | Medium \<Rightarrow> 1 | Low \<Rightarrow> 2)"

definition panel_candidate :: "event_row \<Rightarrow> bool" where
  "panel_candidate e \<longleftrightarrow>
     status e = Pending \<and>
     (severity e = High \<or> (severity e = Medium \<and> shown_count e < 3) \<or> (severity e = Low \<and> shown_count e < 1))"

definition panel_key :: "event_row \<Rightarrow> nat \<times> int \<times> rstr" where
  "panel_key e = (severity_rank (severity e), created_at e, event_id e)"

definition panel_rows :: "event_store \<Rightarrow> event_row list" where
  "panel_rows st = take 5 (sort_key panel_key (filter panel_candidate (events st)))"

definition expose :: "rstr list \<Rightarrow> event_row \<Rightarrow> event_row" where
  "expose ids e = (if event_id e \<in> set ids then e\<lparr>shown_count := shown_count e + 1\<rparr> else e)"

text \<open>\<^verbatim>\<open>32\<close> characters of a message, the last one an ellipsis when there are more.\<close>

definition summarize :: "rstr \<Rightarrow> rstr" where
  "summarize m = (if 32 < length m then take 31 m @ [8230] else m)"

record event_panel =
  panel_counts :: "nat \<times> nat \<times> nat"
  panel_new :: "(rstr \<times> rstr \<times> event_severity \<times> int) list"

definition count_severity :: "event_severity \<Rightarrow> event_store \<Rightarrow> nat" where
  "count_severity s st = length (filter (\<lambda>e. status e = Pending \<and> severity e = s) (events st))"

text \<open>
  The rows of the panel have different identifiers and the counts they were read with, so
  the conditional updates of the code all succeed.
\<close>

definition panel_at :: "int \<Rightarrow> event_store \<Rightarrow> (event_error + event_panel) \<times> event_store" where
  "panel_at now st =
     transact (\<lambda>st.
       let st1 = expire_and_cleanup_at now st;
           rows = panel_rows st1
       in Inr (\<lparr>panel_counts = (count_severity Low st1, count_severity Medium st1, count_severity High st1),
                panel_new = map (\<lambda>e. (event_id e, summarize (message e), severity e, created_at e)) rows\<rparr>,
               st1\<lparr>events := map (expose (map event_id rows)) (events st1)\<rparr>)) st"

subsection \<open>Listing with a cursor\<close>

record event_list_request =
  list_agent_id :: rstr
  list_status :: "event_status option"
  list_severity :: "event_severity option"
  list_limit :: "nat option"
  list_cursor :: "rstr option"

record cursor_data =
  cursor_version :: nat
  cursor_agent_id :: rstr
  cursor_status :: event_status
  cursor_severity :: "event_severity option"
  cursor_created_at :: int
  cursor_event_id :: rstr

definition effective_status :: "event_list_request \<Rightarrow> event_status" where
  "effective_status r = (case list_status r of None \<Rightarrow> Pending | Some s \<Rightarrow> s)"

definition effective_limit :: "event_list_request \<Rightarrow> nat" where
  "effective_limit r = max 1 (min 100 (case list_limit r of None \<Rightarrow> 20 | Some n \<Rightarrow> n))"

text \<open>The encoding of a cursor (JSON in base64) is a pair of functions.\<close>

definition decode_cursor ::
    "(rstr \<Rightarrow> cursor_data option) \<Rightarrow> event_list_request \<Rightarrow> rstr \<Rightarrow> event_error + cursor_data" where
  "decode_cursor dec request value =
     rbind (check (byte_len value \<le> max_cursor_bytes) CursorInvalid) (\<lambda>_.
     rbind (ok_or CursorInvalid (dec value)) (\<lambda>c.
     rbind (check (cursor_version c = 1) CursorInvalid) (\<lambda>_.
     rbind (check (cursor_agent_id c = list_agent_id request \<and> cursor_status c = effective_status request
                   \<and> cursor_severity c = list_severity request) CursorScopeMismatch) (\<lambda>_.
     rbind (check (cursor_event_id c \<noteq> [] \<and> byte_len (cursor_event_id c) \<le> max_reference_bytes) CursorInvalid)
       (\<lambda>_. Inr c)))))"

definition cursor_of :: "event_list_request \<Rightarrow> event_row \<Rightarrow> cursor_data" where
  "cursor_of request e =
     \<lparr>cursor_version = 1, cursor_agent_id = list_agent_id request, cursor_status = effective_status request,
      cursor_severity = list_severity request, cursor_created_at = created_at e, cursor_event_id = event_id e\<rparr>"

definition encode_cursor ::
    "(cursor_data \<Rightarrow> rstr) \<Rightarrow> event_list_request \<Rightarrow> event_row \<Rightarrow> event_error + rstr" where
  "encode_cursor enc request e =
     (let value = enc (cursor_of request e) in
      if max_cursor_bytes < byte_len value then Inl CursorTooLarge else Inr value)"

definition list_key :: "event_row \<Rightarrow> int \<times> rstr" where
  "list_key e = (created_at e, event_id e)"

definition list_match :: "event_list_request \<Rightarrow> event_row \<Rightarrow> bool" where
  "list_match request e \<longleftrightarrow>
     status e = effective_status request \<and>
     (case list_severity request of None \<Rightarrow> True | Some s \<Rightarrow> severity e = s)"

definition before_cursor :: "cursor_data option \<Rightarrow> event_row \<Rightarrow> bool" where
  "before_cursor c e =
     (case c of None \<Rightarrow> True | Some c \<Rightarrow> list_key e < (cursor_created_at c, cursor_event_id c))"

definition list_rows :: "event_list_request \<Rightarrow> cursor_data option \<Rightarrow> event_store \<Rightarrow> event_row list" where
  "list_rows request cursor st =
     rev (sort_key list_key (filter (\<lambda>e. list_match request e \<and> before_cursor cursor e) (events st)))"

record event_list_response =
  items :: "event_row list"
  next_cursor :: "rstr option"

text \<open>The response carries the rows of the page; the code shows a summary of each.\<close>

definition list_page ::
    "(cursor_data \<Rightarrow> rstr) \<Rightarrow> event_list_request \<Rightarrow> event_row list \<Rightarrow> event_error + event_list_response" where
  "list_page enc request found =
     (let limit = effective_limit request;
          has_more = (limit < length found);
          records = take limit found
      in if has_more
         then rbind (encode_cursor enc request (last records))
                (\<lambda>c. Inr \<lparr>items = records, next_cursor = Some c\<rparr>)
         else Inr \<lparr>items = records, next_cursor = None\<rparr>)"

definition list_at ::
    "(cursor_data \<Rightarrow> rstr) \<Rightarrow> (rstr \<Rightarrow> cursor_data option) \<Rightarrow> event_list_request \<Rightarrow> int \<Rightarrow> event_store \<Rightarrow>
     (event_error + event_list_response) \<times> event_store" where
  "list_at enc dec request now st =
     (case rbind (validate_agent_scope (list_agent_id request)) (\<lambda>_.
           case list_cursor request of None \<Rightarrow> Inr None
           | Some v \<Rightarrow> rbind (decode_cursor dec request v) (\<lambda>c. Inr (Some c))) of
        Inl e \<Rightarrow> (Inl e, st)
      | Inr cursor \<Rightarrow>
          (case transact (\<lambda>st.
             let st1 = expire_and_cleanup_at now st in
             rbind (rfold (\<lambda>e acc. rbind (into_record e) (\<lambda>r. Inr (acc @ [r])))
                      (take (effective_limit request + 1) (list_rows request cursor st1)) [])
               (\<lambda>records. Inr (records, st1))) st of
             (Inl e, st') \<Rightarrow> (Inl e, st')
           | (Inr records, st') \<Rightarrow> (list_page enc request records, st')))"


subsection \<open>Internal sources\<close>

text \<open>
  A process or a skill installation is registered before it starts. Its completion and the
  settlement of the response to its caller come in any order; an event is emitted only for a
  completion that the response did not carry.
\<close>

definition find_source :: "event_source \<Rightarrow> event_store \<Rightarrow> internal_row option" where
  "find_source source st = List.find (\<lambda>r. row_source r = source) (sources st)"

definition update_source ::
    "event_source \<Rightarrow> (internal_row \<Rightarrow> internal_row) \<Rightarrow> event_store \<Rightarrow> event_store" where
  "update_source source f st =
     st\<lparr>sources := map (\<lambda>r. if row_source r = source then f r else r) (sources st)\<rparr>"

definition register_internal ::
    "event_source \<Rightarrow> internal_event_policy \<Rightarrow> int \<Rightarrow> event_store \<Rightarrow> (event_error + unit) \<times> event_store" where
  "register_internal source p now st =
     (case validate_internal_source source of
        Inl e \<Rightarrow> (Inl e, st)
      | Inr _ \<Rightarrow>
          transact (\<lambda>st.
            if find_source source st \<noteq> None then Inr ((), st)
            else rbind (validate_policy now p) (\<lambda>_.
              Inr ((), st\<lparr>sources := sources st @
                [\<lparr>row_source = source, response_state = AwaitingResponse, settled_at = None, row_policy = p,
                  completion = None, notified = False, row_origin = None\<rparr>]\<rparr>))) st)"

definition bind_origin ::
    "event_source \<Rightarrow> event_origin \<Rightarrow> event_store \<Rightarrow> (event_error + unit) \<times> event_store" where
  "bind_origin source origin st =
     (case rbind (validate_internal_source source) (\<lambda>_. validate_origin origin) of
        Inl e \<Rightarrow> (Inl e, st)
      | Inr _ \<Rightarrow>
          transact (\<lambda>st.
            case find_source source st of
              None \<Rightarrow> Inl SourceNotRegistered
            | Some row \<Rightarrow>
                (case row_origin row of
                   Some existing \<Rightarrow> if existing = origin then Inr ((), st) else Inl OriginBindingConflict
                 | None \<Rightarrow>
                     if response_state row \<noteq> AwaitingResponse then Inl OriginBindAfterSettlement
                     else Inr ((), update_source source (\<lambda>r. r\<lparr>row_origin := Some origin\<rparr>) st))) st)"

definition remote_origin ::
    "event_source \<Rightarrow> event_store \<Rightarrow> (event_error + event_origin option) \<times> event_store" where
  "remote_origin source st =
     (case validate_internal_source source of
        Inl e \<Rightarrow> (Inl e, st)
      | Inr _ \<Rightarrow> transact (\<lambda>st. Inr (Option.bind (find_source source st) row_origin, st)) st)"

definition emit_internal_completion ::
    "rstr \<Rightarrow> event_source \<Rightarrow> internal_event_policy \<Rightarrow> rstr \<Rightarrow> rstr \<Rightarrow> int \<Rightarrow> event_store \<Rightarrow>
     event_error + event_store" where
  "emit_internal_completion new_id source p event_type msg at_time st =
     (case severity_for p event_type of
        None \<Rightarrow> Inr st
      | Some sev \<Rightarrow>
          rbind (ensure_pending_capacity st) (\<lambda>_.
          rbind (expiry_for sev (low_ttl_seconds p) at_time) (\<lambda>expires.
          rbind (insert_event new_id msg sev at_time source expires st) (\<lambda>(_, st'). Inr st'))))"

definition clear_internal_completion :: "event_source \<Rightarrow> event_store \<Rightarrow> event_store" where
  "clear_internal_completion source =
     update_source source (\<lambda>r. r\<lparr>completion := map_option (\<lambda>(_, _, t). (None, None, t)) (completion r),
       row_policy := default_internal_policy, notified := True\<rparr>)"

definition record_internal_completion ::
    "rstr \<Rightarrow> event_source \<Rightarrow> rstr \<Rightarrow> rstr \<Rightarrow> int \<Rightarrow> int \<Rightarrow> event_store \<Rightarrow> (event_error + unit) \<times> event_store" where
  "record_internal_completion new_id source event_type msg at_time now st =
     (case validate_internal_source source of
        Inl e \<Rightarrow> (Inl e, st)
      | Inr _ \<Rightarrow>
          transact (\<lambda>st.
            let st1 = expire_and_cleanup_at now st in
            case find_source source st1 of
              None \<Rightarrow> Inl SourceNotRegistered
            | Some row \<Rightarrow>
                if completion row \<noteq> None then Inr ((), st1)
                else
                  rbind (validate_event_type event_type) (\<lambda>_.
                  rbind (validate_message msg) (\<lambda>_.
                  let st2 = update_source source
                        (\<lambda>r. r\<lparr>completion := Some (Some event_type, Some msg, at_time)\<rparr>) st1
                  in case response_state row of
                       AwaitingResponse \<Rightarrow> Inr ((), st2)
                     | Suppressed \<Rightarrow> Inr ((), clear_internal_completion source st2)
                     | AsyncEligible \<Rightarrow>
                         rbind (emit_internal_completion new_id source (row_policy row) event_type msg at_time st2)
                           (\<lambda>st3. Inr ((), clear_internal_completion source st3))))) st)"

definition check_origin :: "event_origin option \<Rightarrow> event_origin option \<Rightarrow> event_error + unit" where
  "check_origin expected stored =
     (case (expected, stored) of
        (None, None) \<Rightarrow> Inr ()
      | (None, Some _) \<Rightarrow> Inl RemoteResponseRequiresHub
      | (Some e, Some s) \<Rightarrow> if e = s then Inr () else Inl OriginMismatch
      | (Some _, None) \<Rightarrow> Inl OriginMismatch)"

text \<open>A settlement of a response that was settled before.\<close>

definition settled_again :: "response_state \<Rightarrow> event_origin option \<Rightarrow> bool \<Rightarrow> event_error + unit" where
  "settled_again state expected includes_terminal =
     (if expected \<noteq> None
      then (if (state = Suppressed) = includes_terminal then Inr () else Inl DispositionConflict)
      else Inr ())"

definition suppress_row :: "int \<Rightarrow> internal_row \<Rightarrow> internal_row" where
  "suppress_row now r =
     r\<lparr>response_state := Suppressed, settled_at := Some now,
       completion := map_option (\<lambda>(_, _, t). (None, None, t)) (completion r),
       row_policy := default_internal_policy,
       notified := (completion r \<noteq> None \<or> notified r)\<rparr>"

definition emit_pending_completion ::
    "rstr \<Rightarrow> event_source \<Rightarrow> internal_row \<Rightarrow> event_store \<Rightarrow> event_error + event_store" where
  "emit_pending_completion new_id source row st =
     (case completion row of
        None \<Rightarrow> Inr st
      | Some (Some event_type, Some msg, at_time) \<Rightarrow>
          rbind (emit_internal_completion new_id source (row_policy row) event_type msg at_time st)
            (\<lambda>st'. Inr (clear_internal_completion source st'))
      | Some _ \<Rightarrow> Inl CompletionMissing)"

definition settle_response_inner ::
    "rstr \<Rightarrow> event_source \<Rightarrow> event_origin option \<Rightarrow> bool \<Rightarrow> int \<Rightarrow> event_store \<Rightarrow>
     (event_error + unit) \<times> event_store" where
  "settle_response_inner new_id source expected includes_terminal now st =
     transact (\<lambda>st.
       let st1 = expire_and_cleanup_at now st in
       case find_source source st1 of
         None \<Rightarrow> Inl SourceNotRegistered
       | Some row \<Rightarrow>
           rbind (check_origin expected (row_origin row)) (\<lambda>_.
           if response_state row \<noteq> AwaitingResponse
           then rbind (settled_again (response_state row) expected includes_terminal) (\<lambda>_. Inr ((), st1))
           else if includes_terminal then Inr ((), update_source source (suppress_row now) st1)
           else
             rbind (emit_pending_completion new_id source row
                      (update_source source (\<lambda>r. r\<lparr>response_state := AsyncEligible, settled_at := Some now\<rparr>) st1))
               (\<lambda>st2. Inr ((), st2)))) st"

definition settle_response ::
    "rstr \<Rightarrow> event_source \<Rightarrow> bool \<Rightarrow> int \<Rightarrow> event_store \<Rightarrow> (event_error + unit) \<times> event_store" where
  "settle_response new_id source includes_terminal now st =
     (case validate_internal_source source of
        Inl e \<Rightarrow> (Inl e, st)
      | Inr _ \<Rightarrow> settle_response_inner new_id source None includes_terminal now st)"

definition settle_remote_response ::
    "rstr \<Rightarrow> event_source \<Rightarrow> event_origin \<Rightarrow> bool \<Rightarrow> int \<Rightarrow> event_store \<Rightarrow> (event_error + unit) \<times> event_store" where
  "settle_remote_response new_id source origin includes_terminal now st =
     (case rbind (validate_internal_source source) (\<lambda>_. validate_origin origin) of
        Inl e \<Rightarrow> (Inl e, st)
      | Inr _ \<Rightarrow> settle_response_inner new_id source (Some origin) includes_terminal now st)"

definition contains_internal_sources :: "event_source list \<Rightarrow> event_store \<Rightarrow> event_error + bool list" where
  "contains_internal_sources ss st =
     rfold (\<lambda>s found. rbind (validate_internal_source s) (\<lambda>_. Inr (found @ [find_source s st \<noteq> None]))) ss []"

definition source_key :: "event_source \<Rightarrow> rstr \<times> rstr" where
  "source_key s =
     ((case source_kind s of Process \<Rightarrow> lit ''process'' | SkillInstall \<Rightarrow> lit ''skill_install''
       | External \<Rightarrow> lit ''external''), reference s)"

definition pending_internal_sources ::
    "int \<Rightarrow> event_store \<Rightarrow> (event_error + event_source list) \<times> event_store" where
  "pending_internal_sources now st =
     transact (\<lambda>st.
       let st1 = expire_and_cleanup_at now st in
       Inr (sort_key source_key (map row_source (filter (\<lambda>r. response_state r = AwaitingResponse
              \<or> (response_state r = AsyncEligible \<and> completion r = None)) (sources st1))), st1)) st"

end
