(* ===== verification/State_Machine.thy ===== *)
theory State_Machine
  imports Main
begin

text \<open>
  Contracts of components that keep state: a transition system with its invariant, a latch
  (a value that is set at most once), and an effect that a latch guards so that it happens at
  most once. Each is interpreted on the components that provide it.
\<close>

inductive reachable :: "('s \<Rightarrow> bool) \<Rightarrow> ('s \<Rightarrow> 's \<Rightarrow> bool) \<Rightarrow> 's \<Rightarrow> bool"
  for initial step where
  reachable_start: "initial s \<Longrightarrow> reachable initial step s"
| reachable_next: "reachable initial step s \<Longrightarrow> step s s' \<Longrightarrow> reachable initial step s'"

lemma reachable_run:
  "reachable initial step s \<Longrightarrow> step\<^sup>*\<^sup>* s s' \<Longrightarrow> reachable initial step s'"
  by (rotate_tac, induction rule: rtranclp_induct) (auto intro: reachable.reachable_next)

locale transition_system =
  fixes initial :: "'s \<Rightarrow> bool"
    and step :: "'s \<Rightarrow> 's \<Rightarrow> bool"
    and inv :: "'s \<Rightarrow> bool"
  assumes initial_inv: "initial s \<Longrightarrow> inv s"
    and step_inv: "inv s \<Longrightarrow> step s s' \<Longrightarrow> inv s'"
begin

lemma reachable_inv: "reachable initial step s \<Longrightarrow> inv s"
  by (induction rule: reachable.induct) (auto intro: initial_inv step_inv)

lemma steps_inv: "step\<^sup>*\<^sup>* s s' \<Longrightarrow> inv s \<Longrightarrow> inv s'"
  by (induction rule: rtranclp_induct) (auto intro: step_inv)

end

locale latch = transition_system initial step inv
  for initial :: "'s \<Rightarrow> bool" and step and inv +
  fixes latched :: "'s \<Rightarrow> 'v option"
  assumes keep: "inv s \<Longrightarrow> step s s' \<Longrightarrow> latched s = Some v \<Longrightarrow> latched s' = Some v"
begin

lemma latched_forever:
  assumes "reachable initial step s" and "step\<^sup>*\<^sup>* s s'" and "latched s = Some v"
  shows "latched s' = Some v"
proof -
  from assms(1) have "inv s" by (rule reachable_inv)
  from assms(2) have "inv s' \<and> latched s' = Some v"
    by (induction rule: rtranclp_induct) (use \<open>inv s\<close> assms(3) in \<open>auto intro: step_inv keep\<close>)
  then show ?thesis ..
qed

lemma latched_agree:
  assumes "reachable initial step s" and "step\<^sup>*\<^sup>* s s1" and "step\<^sup>*\<^sup>* s1 s2"
    and "latched s1 = Some v" and "latched s2 = Some w"
  shows "v = w"
proof -
  have "reachable initial step s1"
    using assms(2,1) by (induction rule: rtranclp_induct) (auto intro: reachable_next)
  from latched_forever [OF this assms(3,4)] assms(5) show ?thesis by simp
qed

end

text \<open>
  The guarded effect: it can happen only in a step that sets the latch, and once in such a
  step. Later steps may forget its trace, never add to it.
\<close>

locale once = latch initial step inv latched
  for initial :: "'s \<Rightarrow> bool" and step and inv and latched :: "'s \<Rightarrow> 'v option" +
  fixes effects :: "'s \<Rightarrow> nat"
  assumes initial_effects: "initial s \<Longrightarrow> effects s = 0"
    and unset_effects: "inv s \<Longrightarrow> latched s = None \<Longrightarrow> effects s = 0"
    and set_effects: "inv s \<Longrightarrow> step s s' \<Longrightarrow> latched s = None \<Longrightarrow> effects s' \<le> 1"
    and after_effects: "inv s \<Longrightarrow> step s s' \<Longrightarrow> latched s = Some v \<Longrightarrow> effects s' \<le> effects s"
begin

lemma at_most_once: "reachable initial step s \<Longrightarrow> effects s \<le> 1"
proof (induction rule: reachable.induct)
  case (reachable_start s)
  then show ?case by (simp add: initial_effects)
next
  case (reachable_next s s')
  have inv: "inv s" using reachable_next.hyps by (simp add: reachable_inv)
  show ?case
  proof (cases "latched s")
    case None
    then show ?thesis using set_effects inv reachable_next.hyps by blast
  next
    case (Some v)
    then show ?thesis using after_effects [OF inv reachable_next.hyps(2)] reachable_next.IH by force
  qed
qed

lemma never_again:
  assumes "reachable initial step s" and "step\<^sup>*\<^sup>* s s'" and "latched s = Some v"
  shows "effects s' \<le> effects s"
  using assms(2)
proof (induction rule: rtranclp_induct)
  case (step y z)
  have "inv y" using step.hyps(1) assms(1) reachable_inv steps_inv by blast
  moreover have "latched y = Some v" by (rule latched_forever [OF assms(1) step.hyps(1) assms(3)])
  ultimately have "effects z \<le> effects y" using after_effects step.hyps(2) by blast
  with step.IH show ?case by simp
qed simp

end

end
