(* ===== verification/Event_Delivery.thy ===== *)
theory Event_Delivery
  imports Event_Store State_Machine
begin

text \<open>
  What the transactions of the event store keep. Every operation is a sequence of abstract
  changes (\<open>store_change\<close>), the operations are a step relation (\<open>store_step\<close>), and the
  invariant \<open>store_ok\<close> and the latches of a source are proved for the changes and carried
  over to the operations.
\<close>

subsection \<open>The operations as a step relation\<close>

inductive store_step :: "event_store \<Rightarrow> event_store \<Rightarrow> bool" where
  step_inject: "store_step st (snd (inject_at new_id request ttl now st))"
| step_get: "store_step st (snd (get_at wanted now st))"
| step_mark: "store_step st (snd (mark_at ids now st))"
| step_panel: "store_step st (snd (panel_at now st))"
| step_list: "store_step st (snd (list_at enc dec list_request now st))"
| step_register: "store_step st (snd (register_internal source p now st))"
| step_bind: "store_step st (snd (bind_origin source origin st))"
| step_complete: "store_step st (snd (record_internal_completion new_id source event_type msg at_time now st))"
| step_settle: "store_step st (snd (settle_response new_id source terminal now st))"
| step_settle_remote: "store_step st (snd (settle_remote_response new_id source origin terminal now st))"
| step_pending: "store_step st (snd (pending_internal_sources now st))"

definition empty_store :: "event_store \<Rightarrow> bool" where
  "empty_store st \<longleftrightarrow> events st = [] \<and> sources st = []"

subsection \<open>The invariant\<close>

definition internal :: "event_source \<Rightarrow> bool" where
  "internal s \<longleftrightarrow> source_kind s \<noteq> External"

definition row_ok :: "internal_row \<Rightarrow> bool" where
  "row_ok r \<longleftrightarrow>
     internal (row_source r) \<and>
     (notified r \<longleftrightarrow> completion r \<noteq> None \<and> response_state r \<noteq> AwaitingResponse) \<and>
     (settled_at r = None \<longleftrightarrow> response_state r = AwaitingResponse) \<and>
     (case completion r of None \<Rightarrow> True
      | Some (event_type, msg, _) \<Rightarrow> (event_type = None \<longleftrightarrow> notified r) \<and> (msg = None \<longleftrightarrow> notified r))"

definition event_ok :: "event_row \<Rightarrow> bool" where
  "event_ok e \<longleftrightarrow>
     (terminal_at e = None \<longleftrightarrow> status e = Pending) \<and>
     (expires_at e = None \<longleftrightarrow> severity e \<noteq> Low) \<and>
     (status e = Expired \<longrightarrow> severity e = Low) \<and>
     (severity e = Low \<longrightarrow> shown_count e \<le> 1) \<and>
     (severity e = Medium \<longrightarrow> shown_count e \<le> 3)"

definition eligible_row :: "event_source \<Rightarrow> internal_row \<Rightarrow> bool" where
  "eligible_row source r \<longleftrightarrow> row_source r = source \<and> notified r \<and> response_state r = AsyncEligible"

definition linked :: "event_row list \<Rightarrow> internal_row list \<Rightarrow> bool" where
  "linked es rs \<longleftrightarrow> (\<forall>e \<in> set es. internal (event_source e) \<longrightarrow> (\<exists>r \<in> set rs. eligible_row (event_source e) r))"

definition store_ok :: "event_store \<Rightarrow> bool" where
  "store_ok st \<longleftrightarrow>
     distinct (map row_source (sources st)) \<and> list_all row_ok (sources st) \<and>
     distinct (map event_id (events st)) \<and> list_all event_ok (events st) \<and>
     distinct (filter internal (map event_source (events st))) \<and>
     linked (events st) (sources st) \<and>
     pending_count st \<le> max_pending_events"

subsection \<open>Abstract changes\<close>

text \<open>What may become of the row of a source: what is settled, bound or seen stays.\<close>

definition row_le :: "internal_row \<Rightarrow> internal_row \<Rightarrow> bool" where
  "row_le r r' \<longleftrightarrow>
     row_source r' = row_source r \<and>
     (response_state r \<noteq> AwaitingResponse \<longrightarrow>
        response_state r' = response_state r \<and> settled_at r' = settled_at r) \<and>
     (row_origin r \<noteq> None \<longrightarrow> row_origin r' = row_origin r) \<and>
     (notified r \<longrightarrow> notified r') \<and>
     (completion r \<noteq> None \<longrightarrow>
        map_option (snd \<circ> snd) (completion r') = map_option (snd \<circ> snd) (completion r))"

lemma row_le_refl [simp]: "row_le r r"
  by (simp add: row_le_def)

definition fresh_event :: "event_row \<Rightarrow> event_store \<Rightarrow> bool" where
  "fresh_event e st \<longleftrightarrow>
     status e = Pending \<and> shown_count e = 0 \<and> event_ok e \<and> event_id e \<notin> event_id ` set (events st) \<and>
     pending_count st < max_pending_events"

inductive store_change :: "event_store \<Rightarrow> event_store \<Rightarrow> bool" where
  change_expire: "store_change st (expire_and_cleanup_at now st)"
| change_mark: "store_change st (st\<lparr>events := map (mark_row now wanted) (events st)\<rparr>)"
| change_expose:
    "\<forall>e \<in> set (events st). event_id e \<in> set ids \<longrightarrow> panel_candidate e \<Longrightarrow>
     store_change st (st\<lparr>events := map (expose ids) (events st)\<rparr>)"
| change_external:
    "fresh_event e st \<Longrightarrow> \<not> internal (event_source e) \<Longrightarrow>
     store_change st (st\<lparr>events := events st @ [e]\<rparr>)"
| change_register:
    "find_source (row_source r) st = None \<Longrightarrow> row_ok r \<Longrightarrow> \<not> notified r \<Longrightarrow>
     store_change st (st\<lparr>sources := sources st @ [r]\<rparr>)"
| change_row:
    "find_source source st = Some r \<Longrightarrow> row_le r (f r) \<Longrightarrow> row_ok (f r) \<Longrightarrow>
     store_change st (update_source source f st)"
| change_emit:
    "find_source source st = Some r \<Longrightarrow> \<not> notified r \<Longrightarrow> row_le r (f r) \<Longrightarrow> row_ok (f r) \<Longrightarrow>
     eligible_row source (f r) \<Longrightarrow> fresh_event e st \<Longrightarrow> event_source e = source \<Longrightarrow>
     store_change st (update_source source f (st\<lparr>events := events st @ [e]\<rparr>))"

inductive_cases store_changeE: "store_change st st'"

subsection \<open>Preservation\<close>

lemma find_source_SomeD:
  assumes "find_source source st = Some r"
  shows "row_source r = source" and "r \<in> set (sources st)"
  using assms by (auto simp: find_source_def find_Some_iff)

lemma find_source_None_iff: "find_source source st = None \<longleftrightarrow> source \<notin> row_source ` set (sources st)"
  by (auto simp: find_source_def find_None_iff)

lemma find_source_unique:
  assumes "distinct (map row_source (sources st))" and "r \<in> set (sources st)"
  shows "find_source (row_source r) st = Some r"
proof (cases "find_source (row_source r) st")
  case None
  with assms(2) show ?thesis by (auto simp: find_source_None_iff)
next
  case (Some r')
  then have "r' = r"
    using find_source_SomeD [OF Some] assms by (auto simp: distinct_map dest: inj_onD)
  with Some show ?thesis by simp
qed

lemma length_filter_le_if:
  "(\<And>x. x \<in> set xs \<Longrightarrow> P x \<Longrightarrow> Q x) \<Longrightarrow> length (filter P xs) \<le> length (filter Q xs)"
  by (induction xs) auto

text \<open>A change of the events that keeps identity, source and well-formedness.\<close>

lemma store_ok_map_events:
  assumes "store_ok st"
    and "\<And>e. e \<in> set (events st) \<Longrightarrow>
      event_id (f e) = event_id e \<and> event_source (f e) = event_source e \<and>
      event_ok (f e) \<and> (status (f e) = Pending \<longrightarrow> status e = Pending)"
  shows "store_ok (st\<lparr>events := map f (events st)\<rparr>)"
proof -
  have ids: "map event_id (map f (events st)) = map event_id (events st)"
    and srcs: "map event_source (map f (events st)) = map event_source (events st)"
    using assms(2) by (simp_all add: list_eq_iff_nth_eq)
  have "length (filter (\<lambda>e. status (f e) = Pending) (events st)) \<le>
      length (filter (\<lambda>e. status e = Pending) (events st))"
    using assms(2) by (intro length_filter_le_if) auto
  then have "length (filter (\<lambda>e. status e = Pending) (map f (events st))) \<le> pending_count st"
    by (simp add: pending_count_def filter_map o_def)
  moreover have "linked (map f (events st)) (sources st)" and "list_all event_ok (map f (events st))"
    using assms by (simp_all add: store_ok_def linked_def list_all_iff)
  ultimately show ?thesis
    using assms(1) by (simp add: store_ok_def pending_count_def ids srcs del: map_map)
qed

lemma distinct_filter_map_filter:
  "distinct (filter Q (map g xs)) \<Longrightarrow> distinct (filter Q (map g (filter P xs)))"
  by (induction xs) (auto split: if_splits)

lemma store_ok_filter_events:
  assumes "store_ok st"
  shows "store_ok (st\<lparr>events := filter P (events st)\<rparr>)"
proof -
  have "length (filter (\<lambda>e. status e = Pending) (filter P (events st))) \<le>
      length (filter (\<lambda>e. status e = Pending) (events st))"
    by (simp add: filter_filter) (rule length_filter_le_if, simp)
  moreover have "distinct (filter internal (map event_source (filter P (events st))))"
    using assms by (simp add: store_ok_def distinct_filter_map_filter)
  moreover have "distinct (map event_id (filter P (events st)))"
    using assms by (simp add: store_ok_def distinct_map_filter)
  ultimately show ?thesis
    using assms by (simp add: store_ok_def pending_count_def linked_def list_all_iff)
qed

lemma store_ok_expire:
  assumes "store_ok st"
  shows "store_ok (expire_and_cleanup_at now st)"
proof -
  have "store_ok (st\<lparr>events := map (expire_row now) (events st)\<rparr>)"
    by (rule store_ok_map_events [OF assms])
      (use assms in \<open>auto simp: expire_row_def store_ok_def list_all_iff event_ok_def split: option.splits\<close>)
  from store_ok_filter_events [OF this, of "\<lambda>e. \<not> outdated now e"]
  show ?thesis by (simp add: expire_and_cleanup_at_def)
qed

lemma store_ok_insert:
  assumes ok: "store_ok st" and fresh: "fresh_event e st"
    and link: "internal (event_source e) \<Longrightarrow> \<exists>r \<in> set (sources st). eligible_row (event_source e) r"
    and new: "internal (event_source e) \<Longrightarrow> event_source e \<notin> event_source ` set (events st)"
  shows "store_ok (st\<lparr>events := events st @ [e]\<rparr>)"
  using assms by (auto simp: store_ok_def fresh_event_def pending_count_def linked_def)

lemma store_ok_register:
  assumes "store_ok st" and "find_source (row_source r) st = None" and "row_ok r"
  shows "store_ok (st\<lparr>sources := sources st @ [r]\<rparr>)"
  using assms by (auto simp: store_ok_def find_source_None_iff linked_def pending_count_def)

lemma sources_update_source:
  "sources (update_source source f st) = map (\<lambda>r. if row_source r = source then f r else r) (sources st)"
  "events (update_source source f st) = events st"
  "pending_count (update_source source f st) = pending_count st"
  by (simp_all add: update_source_def pending_count_def)

lemma row_is_found:
  assumes "store_ok st" and "find_source source st = Some r" and "r' \<in> set (sources st)"
    and "row_source r' = source"
  shows "r' = r"
proof -
  have "find_source (row_source r') st = Some r'"
    by (rule find_source_unique) (use assms in \<open>simp_all add: store_ok_def\<close>)
  with assms(2,4) show ?thesis by simp
qed

lemma eligible_row_le: "row_le r r' \<Longrightarrow> eligible_row source r \<Longrightarrow> eligible_row source r'"
  by (auto simp: row_le_def eligible_row_def)

lemma linked_map:
  assumes "linked es rs" and "\<And>r. r \<in> set rs \<Longrightarrow> row_le r (g r)"
  shows "linked es (map g rs)"
  unfolding linked_def
proof (intro ballI impI)
  fix e assume "e \<in> set es" "internal (event_source e)"
  with assms(1) obtain r where "r \<in> set rs" "eligible_row (event_source e) r"
    by (auto simp: linked_def)
  with assms(2) show "\<exists>r \<in> set (map g rs). eligible_row (event_source e) r"
    by (auto intro: eligible_row_le)
qed

lemma store_ok_row:
  assumes ok: "store_ok st" and found: "find_source source st = Some r"
    and le: "row_le r (f r)" and r_ok: "row_ok (f r)"
  shows "store_ok (update_source source f st)"
proof -
  let ?g = "\<lambda>r. if row_source r = source then f r else r"
  have g: "row_source r' = source \<longleftrightarrow> r' = r" if "r' \<in> set (sources st)" for r'
    using row_is_found [OF ok found that] find_source_SomeD [OF found] by auto
  have le': "row_le r' (?g r')" if "r' \<in> set (sources st)" for r'
    using le g [OF that] by simp
  have "map row_source (map ?g (sources st)) = map row_source (sources st)"
    using le' by (auto simp: row_le_def)
  moreover have "linked (events st) (map ?g (sources st))"
    using ok le' by (intro linked_map) (simp_all add: store_ok_def)
  moreover have "list_all row_ok (map ?g (sources st))"
    using ok g r_ok by (auto simp: store_ok_def list_all_iff)
  ultimately show ?thesis
    using ok by (simp add: store_ok_def sources_update_source del: map_map)
qed

lemma no_event_before_notification:
  assumes ok: "store_ok st" and found: "find_source source st = Some r" and "\<not> notified r"
  shows "source \<notin> event_source ` set (events st)"
proof
  assume "source \<in> event_source ` set (events st)"
  then obtain e where e: "e \<in> set (events st)" "event_source e = source" by auto
  have "internal source"
    using ok find_source_SomeD [OF found] by (auto simp: store_ok_def list_all_iff row_ok_def)
  with ok e obtain r' where "r' \<in> set (sources st)" "eligible_row source r'"
    unfolding store_ok_def linked_def by blast
  with row_is_found [OF ok found] assms(3) show False by (auto simp: eligible_row_def)
qed

lemma store_ok_change: "store_change st st' \<Longrightarrow> store_ok st \<Longrightarrow> store_ok st'"
proof (induction rule: store_change.induct)
  case (change_expire st now)
  then show ?case by (simp add: store_ok_expire)
next
  case (change_mark st now wanted)
  then show ?case
    by (intro store_ok_map_events) (auto simp: mark_row_def store_ok_def list_all_iff event_ok_def)
next
  case (change_expose st ids)
  then show ?case
    by (intro store_ok_map_events)
      (auto simp: expose_def store_ok_def list_all_iff event_ok_def panel_candidate_def)
next
  case (change_external e st)
  then show ?case by (auto intro: store_ok_insert)
next
  case (change_register r st)
  then show ?case by (simp add: store_ok_register)
next
  case (change_row source st r f)
  then show ?case by (simp add: store_ok_row)
next
  case (change_emit source st r f e)
  let ?st = "update_source source f st"
  have ok: "store_ok ?st" by (rule store_ok_row) fact+
  have "r \<in> set (sources st)" "row_source r = source" using find_source_SomeD change_emit.hyps by blast+
  then have "f r \<in> set (sources ?st)" by (force simp: sources_update_source)
  moreover have "source \<notin> event_source ` set (events st)"
    by (rule no_event_before_notification) fact+
  ultimately have "store_ok (?st\<lparr>events := events ?st @ [e]\<rparr>)"
    using change_emit.hyps
    by (intro store_ok_insert [OF ok]) (auto simp: fresh_event_def sources_update_source)
  then show ?case by (cases st) (simp add: update_source_def)
qed

subsection \<open>Operations are sequences of changes\<close>

abbreviation changes :: "event_store \<Rightarrow> event_store \<Rightarrow> bool" where
  "changes \<equiv> store_change\<^sup>*\<^sup>*"

lemma changes_ok: "changes st st' \<Longrightarrow> store_ok st \<Longrightarrow> store_ok st'"
  by (induction rule: rtranclp_induct) (auto intro: store_ok_change)

lemma changes_expire [intro]: "changes st (expire_and_cleanup_at now st)"
  by (blast intro: change_expire)

lemma changes_after_expire:
  "changes (expire_and_cleanup_at now st) st' \<Longrightarrow> changes st st'"
  by (meson changes_expire rtranclp_trans)

lemma transact_snd: "snd (transact f st) = (case f st of Inl _ \<Rightarrow> st | Inr (_, st') \<Rightarrow> st')"
  by (simp add: transact_def split: sum.splits prod.splits)

lemma changes_transact:
  assumes "\<And>r st'. f st = Inr (r, st') \<Longrightarrow> changes st st'"
  shows "changes st (snd (transact f st))"
  using assms by (auto simp: transact_snd split: sum.splits)

lemma insert_event_Inr:
  assumes "insert_event new_id msg sev created source expires st = Inr (row, st')"
  shows "row = \<lparr>event_id = new_id, message = msg, severity = sev, created_at = created, status = Pending,
      event_source = source, shown_count = 0, expires_at = expires, terminal_at = None\<rparr> \<and>
    new_id \<notin> event_id ` set (events st) \<and> st' = st\<lparr>events := events st @ [row]\<rparr>"
  using assms by (auto simp: insert_event_def Let_def split: if_splits)

lemma expiry_for_Inr: "expiry_for sev ttl created = Inr expires \<Longrightarrow> expires = None \<longleftrightarrow> sev \<noteq> Low"
  by (auto simp: expiry_for_def rbind_eq_Inr_iff split: if_splits)

lemma insert_event_fresh:
  assumes "insert_event new_id msg sev created source expires st = Inr (row, st')"
    and "expiry_for sev ttl created' = Inr expires" and "ensure_pending_capacity st = Inr u"
  shows "fresh_event row st \<and> event_source row = source \<and> st' = st\<lparr>events := events st @ [row]\<rparr>"
  using insert_event_Inr [OF assms(1)] expiry_for_Inr [OF assms(2)] assms(3)
  by (auto simp: fresh_event_def event_ok_def ensure_pending_capacity_def)

lemma inject_changes: "changes st (snd (inject_at new_id request ttl now st))"
proof (cases "rbind (validate_message (inject_message request)) (\<lambda>_.
    rbind (validate_reference (inject_reference request)) (\<lambda>_.
    expiry_for (case inject_severity request of None \<Rightarrow> Low | Some s \<Rightarrow> s) ttl now))")
  case (Inl e)
  then show ?thesis by (simp add: inject_at_def)
next
  case (Inr expires)
  then have exp: "expiry_for (case inject_severity request of None \<Rightarrow> Low | Some s \<Rightarrow> s) ttl now = Inr expires"
    by (auto simp: rbind_eq_Inr_iff)
  have "changes st st'" if "ensure_pending_capacity (expire_and_cleanup_at now st) = Inr u"
    and "insert_event new_id (inject_message request) (case inject_severity request of None \<Rightarrow> Low | Some s \<Rightarrow> s)
      now \<lparr>source_kind = External, reference = inject_reference request\<rparr> expires
      (expire_and_cleanup_at now st) = Inr (row, st')" for u row st'
  proof (rule changes_after_expire, rule r_into_rtranclp)
    show "store_change (expire_and_cleanup_at now st) st'"
      using insert_event_fresh [OF that(2) exp that(1)]
      by (auto intro!: change_external simp: internal_def)
  qed
  then show ?thesis
    using Inr by (auto simp: inject_at_def Let_def rbind_eq_Inr_iff intro!: changes_transact)
qed

lemma get_changes: "changes st (snd (get_at wanted now st))"
proof -
  have "changes st (snd (transact (\<lambda>st.
      let st1 = expire_and_cleanup_at now st in
      case List.find (\<lambda>e. event_id e = wanted) (events st1) of
        None \<Rightarrow> Inr (None, st1)
      | Some e \<Rightarrow> rbind (into_record e) (\<lambda>record. Inr (Some record, st1))) st))"
    by (rule changes_transact) (auto simp: Let_def rbind_eq_Inr_iff split: option.splits)
  then show ?thesis by (auto simp: get_at_def split: sum.splits prod.splits)
qed

lemma snd_map_result:
  "snd (case p of (Inl e, st') \<Rightarrow> (Inl e, st') | (Inr r, st') \<Rightarrow> (g r, st')) = snd p"
  by (simp split: prod.split sum.split)

lemma list_changes: "changes st (snd (list_at enc dec request now st))"
proof -
  have "changes st (snd (transact (\<lambda>st.
      let st1 = expire_and_cleanup_at now st in
      rbind (rfold (\<lambda>e acc. rbind (into_record e) (\<lambda>r. Inr (acc @ [r])))
               (take (effective_limit request + 1) (list_rows request cursor st1)) [])
        (\<lambda>records. Inr (records, st1))) st))" for cursor
    by (rule changes_transact) (auto simp: Let_def rbind_eq_Inr_iff)
  then show ?thesis by (simp add: list_at_def snd_map_result split: sum.split)
qed

lemma mark_loop_changes: "changes (snd rs) (snd (mark_loop now ids seen rs))"
proof (induction now ids seen rs rule: mark_loop.induct)
  case (2 now wanted ids seen rs)
  have "store_change (snd rs) (snd (mark_one now wanted rs))"
    by (cases rs) (auto simp: mark_one_def Let_def intro: change_mark)
  with 2 show ?case by (auto intro: converse_rtranclp_into_rtranclp)
qed simp

lemma mark_changes: "changes st (snd (mark_at ids now st))"
proof -
  have "changes st (snd (mark_loop now ids {} (\<lparr>handled_ids = [], not_found_ids = []\<rparr>,
      expire_and_cleanup_at now st)))"
    by (rule changes_after_expire) (use mark_loop_changes in force)
  then show ?thesis by (auto simp: mark_at_def transact_snd split: sum.split prod.split)
qed

lemma distinct_ids: "store_ok st \<Longrightarrow> distinct (map event_id (events st))"
  by (simp add: store_ok_def)

lemma distinct_take_ids:
  assumes "distinct (map event_id es)" and "e \<in> set es" and "set rows \<subseteq> set es"
    and "event_id e \<in> set (map event_id rows)"
  shows "e \<in> set rows"
proof -
  obtain r where r: "r \<in> set rows" "event_id r = event_id e" using assms(4) by auto
  have "r = e"
    by (rule inj_onD [of event_id "set es"]) (use assms r in \<open>auto simp: distinct_map\<close>)
  with r show ?thesis by simp
qed

lemma panel_changes:
  assumes "store_ok st"
  shows "changes st (snd (panel_at now st))"
proof -
  let ?st = "expire_and_cleanup_at now st"
  have ok: "store_ok ?st" using assms by (rule store_ok_expire)
  have sub: "set (panel_rows ?st) \<subseteq> set (filter panel_candidate (events ?st))"
    by (auto simp: panel_rows_def dest: in_set_takeD)
  have "store_change ?st (?st\<lparr>events := map (expose (map event_id (panel_rows ?st))) (events ?st)\<rparr>)"
  proof (rule change_expose, intro ballI impI)
    fix e assume e: "e \<in> set (events ?st)" and id: "event_id e \<in> set (map event_id (panel_rows ?st))"
    have "e \<in> set (panel_rows ?st)"
      by (rule distinct_take_ids [OF distinct_ids [OF ok] e _ id]) (use sub in auto)
    with sub have "e \<in> set (filter panel_candidate (events ?st))" by (rule subsetD)
    then show "panel_candidate e" by simp
  qed
  from changes_after_expire [OF r_into_rtranclp, OF this] show ?thesis
    by (simp add: panel_at_def transact_snd Let_def)
qed

lemma register_changes:
  "changes st (snd (register_internal source p now st))"
proof -
  have "store_change st (st\<lparr>sources := sources st @
      [\<lparr>row_source = source, response_state = AwaitingResponse, settled_at = None, row_policy = p,
        completion = None, notified = False, row_origin = None\<rparr>]\<rparr>)"
    if "find_source source st = None" and "validate_internal_source source = Inr u" for u
    using that
    by (intro change_register) (auto simp: row_ok_def internal_def validate_internal_source_def rbind_eq_Inr_iff)
  then show ?thesis
    by (auto simp: register_internal_def rbind_eq_Inr_iff split: sum.split if_splits intro!: changes_transact)
qed

lemma found_row_ok: "store_ok st \<Longrightarrow> find_source source st = Some r \<Longrightarrow> row_ok r"
  using find_source_SomeD [of source st r] by (auto simp: store_ok_def list_all_iff)

lemma bind_changes:
  assumes "store_ok st"
  shows "changes st (snd (bind_origin source origin st))"
proof -
  have "store_change st (update_source source (\<lambda>r. r\<lparr>row_origin := Some origin\<rparr>) st)"
    if "find_source source st = Some row" and "row_origin row = None" for row
  proof (rule change_row [OF that(1)])
    show "row_le row (row\<lparr>row_origin := Some origin\<rparr>)" using that by (simp add: row_le_def)
    show "row_ok (row\<lparr>row_origin := Some origin\<rparr>)"
      using found_row_ok [OF assms that(1)] by (simp add: row_ok_def split: option.splits prod.splits)
  qed
  then show ?thesis
    by (auto simp: bind_origin_def split: sum.split option.splits if_splits intro!: changes_transact)
qed

definition clear_row :: "internal_row \<Rightarrow> internal_row" where
  "clear_row r = r\<lparr>completion := map_option (\<lambda>(_, _, t). (None, None, t)) (completion r),
     row_policy := default_internal_policy, notified := True\<rparr>"

lemma clear_internal_completion_row:
  "clear_internal_completion source = update_source source clear_row"
  by (simp add: clear_internal_completion_def clear_row_def [abs_def])

lemma update_source_twice:
  assumes "\<And>r. row_source (g r) = row_source r"
  shows "update_source source f (update_source source g st) = update_source source (f \<circ> g) st"
  using assms by (simp add: update_source_def)

lemma update_source_insert:
  "(update_source source f st)\<lparr>events := es\<rparr> = update_source source f (st\<lparr>events := es\<rparr>)"
  by (cases st) (simp add: update_source_def)

lemma fresh_event_update_source [simp]: "fresh_event e (update_source source f st) = fresh_event e st"
  by (simp add: fresh_event_def sources_update_source)

lemma emit_changes:
  assumes found: "find_source source st = Some row" and new: "\<not> notified row"
    and keep: "\<And>r. row_source (g r) = row_source r" and le: "row_le row (clear_row (g row))"
    and ok: "row_ok (clear_row (g row))" and state: "response_state (g row) = AsyncEligible"
    and emit: "emit_internal_completion new_id source p event_type msg t (update_source source g st) = Inr st'"
  shows "changes st (clear_internal_completion source st')"
proof (cases "severity_for p event_type")
  case None
  with emit keep have "clear_internal_completion source st' = update_source source (clear_row \<circ> g) st"
    using update_source_twice [of g source clear_row st]
    by (simp add: emit_internal_completion_def clear_internal_completion_row)
  moreover have "store_change st (update_source source (clear_row \<circ> g) st)"
    by (rule change_row [OF found]) (use le ok in simp_all)
  ultimately show ?thesis by simp
next
  case (Some sev)
  with emit obtain expires row' u
    where "ensure_pending_capacity (update_source source g st) = Inr u"
      and "expiry_for sev (low_ttl_seconds p) t = Inr expires"
      and "insert_event new_id msg sev t source expires (update_source source g st) = Inr (row', st')"
    by (auto simp: emit_internal_completion_def rbind_eq_Inr_iff)
  from insert_event_fresh [OF this(3,2,1)]
  have fresh: "fresh_event row' st" and src: "event_source row' = source"
    and st': "st' = update_source source g (st\<lparr>events := events st @ [row']\<rparr>)"
    by (simp_all add: update_source_insert sources_update_source)
  have "store_change st (update_source source (clear_row \<circ> g) (st\<lparr>events := events st @ [row']\<rparr>))"
  proof (rule change_emit [OF found new])
    show "eligible_row source ((clear_row \<circ> g) row)"
      using state keep find_source_SomeD [OF found] by (simp add: eligible_row_def clear_row_def)
  qed (use le ok fresh src in simp_all)
  then show ?thesis
    using keep st' by (auto simp: clear_internal_completion_row update_source_twice)
qed

definition complete_row :: "rstr \<Rightarrow> rstr \<Rightarrow> int \<Rightarrow> internal_row \<Rightarrow> internal_row" where
  "complete_row event_type msg t r = r\<lparr>completion := Some (Some event_type, Some msg, t)\<rparr>"

definition eligible_at :: "int \<Rightarrow> internal_row \<Rightarrow> internal_row" where
  "eligible_at now r = r\<lparr>response_state := AsyncEligible, settled_at := Some now\<rparr>"

lemma record_completion_changes:
  assumes ok: "store_ok st" and found: "find_source source st = Some row" and new: "completion row = None"
  shows "response_state row = AwaitingResponse \<Longrightarrow>
      changes st (update_source source (complete_row event_type msg t) st)"
    and "response_state row = Suppressed \<Longrightarrow>
      changes st (clear_internal_completion source (update_source source (complete_row event_type msg t) st))"
    and "response_state row = AsyncEligible \<Longrightarrow>
      emit_internal_completion new_id source p event_type msg t
        (update_source source (complete_row event_type msg t) st) = Inr st' \<Longrightarrow>
      changes st (clear_internal_completion source st')"
proof -
  note r_ok = found_row_ok [OF ok found]
  have keep: "row_source (complete_row event_type msg t r) = row_source r" for r
    by (simp add: complete_row_def)
  have le: "row_le row (complete_row event_type msg t row)" "row_le row (clear_row (complete_row event_type msg t row))"
    using new by (simp_all add: row_le_def complete_row_def clear_row_def)
  have cleared: "row_ok (clear_row (complete_row event_type msg t row))"
    if "response_state row \<noteq> AwaitingResponse"
    using r_ok that by (simp add: row_ok_def complete_row_def clear_row_def)
  have "\<not> notified row" using r_ok new by (simp add: row_ok_def)
  show "changes st (update_source source (complete_row event_type msg t) st)"
    if "response_state row = AwaitingResponse"
    using r_ok that le by (intro r_into_rtranclp change_row [OF found]) (simp_all add: row_ok_def complete_row_def)
  show "changes st (clear_internal_completion source (update_source source (complete_row event_type msg t) st))"
    if "response_state row = Suppressed"
    using that le cleared
    by (simp add: clear_internal_completion_row update_source_twice [OF keep] r_into_rtranclp change_row [OF found])
  show "changes st (clear_internal_completion source st')"
    if "response_state row = AsyncEligible" and
      "emit_internal_completion new_id source p event_type msg t
        (update_source source (complete_row event_type msg t) st) = Inr st'"
    by (rule emit_changes [OF found \<open>\<not> notified row\<close> keep le(2) cleared _ that(2)])
      (simp_all add: that complete_row_def)
qed

lemma complete_changes:
  assumes "store_ok st"
  shows "changes st (snd (record_internal_completion new_id source event_type msg at_time now st))"
proof -
  let ?st = "expire_and_cleanup_at now st"
  note cases = record_completion_changes [OF store_ok_expire [OF assms, of now],
      THEN changes_after_expire, unfolded complete_row_def [abs_def]]
  have "changes st st'" if "(case find_source source ?st of
      None \<Rightarrow> Inl SourceNotRegistered
    | Some row \<Rightarrow>
        if completion row \<noteq> None then Inr ((), ?st)
        else
          rbind (validate_event_type event_type) (\<lambda>_.
          rbind (validate_message msg) (\<lambda>_.
          let st2 = update_source source (\<lambda>r. r\<lparr>completion := Some (Some event_type, Some msg, at_time)\<rparr>) ?st
          in case response_state row of
               AwaitingResponse \<Rightarrow> Inr ((), st2)
             | Suppressed \<Rightarrow> Inr ((), clear_internal_completion source st2)
             | AsyncEligible \<Rightarrow>
                 rbind (emit_internal_completion new_id source (row_policy row) event_type msg at_time st2)
                   (\<lambda>st3. Inr ((), clear_internal_completion source st3))))) = Inr (r, st')" for r st'
  proof (cases "find_source source ?st")
    case None
    with that show ?thesis by simp
  next
    case (Some row)
    show ?thesis
    proof (cases "completion row")
      case None
      with that Some cases [OF Some None] show ?thesis
        by (cases "response_state row") (auto simp: rbind_eq_Inr_iff Let_def)
    next
      case (Some c)
      with that \<open>find_source source ?st = Some row\<close> show ?thesis by (auto intro: changes_expire)
    qed
  qed
  then show ?thesis
    unfolding record_internal_completion_def Let_def
    by (auto split: sum.split intro!: changes_transact)
qed

lemma settlement_changes:
  assumes ok: "store_ok st" and found: "find_source source st = Some row"
    and awaiting: "response_state row = AwaitingResponse"
  shows "changes st (update_source source (suppress_row now) st)"
    and "emit_pending_completion new_id source row (update_source source (eligible_at now) st) = Inr st' \<Longrightarrow>
      changes st st'"
proof -
  note r_ok = found_row_ok [OF ok found]
  have new: "\<not> notified row" using r_ok awaiting by (simp add: row_ok_def)
  have keep: "row_source (eligible_at now r) = row_source r" for r
    by (simp add: eligible_at_def)
  show "changes st (update_source source (suppress_row now) st)"
    by (rule r_into_rtranclp, rule change_row [OF found])
      (use r_ok new awaiting in \<open>auto simp: row_ok_def row_le_def suppress_row_def split: option.splits prod.splits\<close>)
  assume emit: "emit_pending_completion new_id source row (update_source source (eligible_at now) st) = Inr st'"
  show "changes st st'"
  proof (cases "completion row")
    case None
    with emit have "st' = update_source source (eligible_at now) st"
      by (simp add: emit_pending_completion_def)
    moreover have "store_change st (update_source source (eligible_at now) st)"
      by (rule change_row [OF found]) (use r_ok awaiting None in \<open>simp_all add: row_ok_def row_le_def eligible_at_def\<close>)
    ultimately show ?thesis by simp
  next
    case (Some c)
    obtain ty m t where c: "c = (ty, m, t)" by (cases c)
    with Some emit obtain ty' m' st'' where "ty = Some ty'" "m = Some m'"
      and st'': "emit_internal_completion new_id source (row_policy row) ty' m' t
        (update_source source (eligible_at now) st) = Inr st''"
      and "st' = clear_internal_completion source st''"
      by (auto simp: emit_pending_completion_def rbind_eq_Inr_iff split: option.splits)
    moreover have "changes st (clear_internal_completion source st'')"
    proof (rule emit_changes [OF found new keep _ _ _ st''])
      show "row_le row (clear_row (eligible_at now row))"
        using awaiting new Some c by (simp add: row_le_def clear_row_def eligible_at_def)
      show "row_ok (clear_row (eligible_at now row))"
        using r_ok Some c by (simp add: row_ok_def clear_row_def eligible_at_def)
    qed (simp add: eligible_at_def)
    ultimately show ?thesis by simp
  qed
qed

lemma settle_inner_changes:
  assumes "store_ok st"
  shows "changes st (snd (settle_response_inner new_id source expected includes_terminal now st))"
proof -
  let ?st = "expire_and_cleanup_at now st"
  note cases = settlement_changes [OF store_ok_expire [OF assms, of now],
      THEN changes_after_expire, unfolded eligible_at_def [abs_def]]
  show ?thesis
  proof (cases "find_source source ?st")
    case None
    then show ?thesis by (simp add: settle_response_inner_def transact_snd Let_def)
  next
    case (Some row)
    have "changes st st'" if "rbind (check_origin expected (row_origin row)) (\<lambda>_.
           if response_state row \<noteq> AwaitingResponse
           then rbind (settled_again (response_state row) expected includes_terminal) (\<lambda>_. Inr ((), ?st))
           else if includes_terminal then Inr ((), update_source source (suppress_row now) ?st)
           else
             rbind (emit_pending_completion new_id source row
                      (update_source source (\<lambda>r. r\<lparr>response_state := AsyncEligible, settled_at := Some now\<rparr>) ?st))
               (\<lambda>st2. Inr ((), st2))) = Inr (u, st')" for u st'
    proof (cases "response_state row = AwaitingResponse")
      case True
      with that cases [OF Some True] show ?thesis by (auto simp: rbind_eq_Inr_iff split: if_splits)
    next
      case False
      with that show ?thesis by (auto simp: rbind_eq_Inr_iff intro: changes_expire)
    qed
    then show ?thesis
      unfolding settle_response_inner_def Let_def using Some by (intro changes_transact) simp
  qed
qed

theorem step_changes: "store_step st st' \<Longrightarrow> store_ok st \<Longrightarrow> changes st st'"
proof (induction rule: store_step.induct)
  case (step_settle st new_id source terminal now)
  then show ?case by (auto simp: settle_response_def settle_inner_changes split: sum.split)
next
  case (step_settle_remote st new_id source origin terminal now)
  then show ?case by (auto simp: settle_remote_response_def settle_inner_changes split: sum.split)
next
  case (step_pending st now)
  then show ?case by (simp add: pending_internal_sources_def transact_snd Let_def changes_expire)
qed (simp_all add: inject_changes get_changes mark_changes panel_changes list_changes register_changes
  bind_changes complete_changes)

subsection \<open>Latches of a source\<close>

definition settlement :: "event_source \<Rightarrow> event_store \<Rightarrow> (response_state \<times> int option) option" where
  "settlement source st =
     (case find_source source st of
        None \<Rightarrow> None
      | Some r \<Rightarrow> if response_state r = AwaitingResponse then None else Some (response_state r, settled_at r))"

definition bound_origin :: "event_source \<Rightarrow> event_store \<Rightarrow> event_origin option" where
  "bound_origin source st = Option.bind (find_source source st) row_origin"

definition completed_at :: "event_source \<Rightarrow> event_store \<Rightarrow> int option" where
  "completed_at source st =
     Option.bind (find_source source st) (\<lambda>r. map_option (snd \<circ> snd) (completion r))"

definition notification :: "event_source \<Rightarrow> event_store \<Rightarrow> unit option" where
  "notification source st =
     (case find_source source st of None \<Rightarrow> None | Some r \<Rightarrow> if notified r then Some () else None)"

definition source_events :: "event_source \<Rightarrow> event_store \<Rightarrow> nat" where
  "source_events source st = length (filter (\<lambda>e. internal source \<and> event_source e = source) (events st))"

lemma find_source_events [simp]: "find_source source (st\<lparr>events := es\<rparr>) = find_source source st"
  by (simp add: find_source_def)

lemma find_source_expire [simp]: "find_source source (expire_and_cleanup_at now st) = find_source source st"
  by (simp add: expire_and_cleanup_at_def)

lemma find_source_update:
  assumes "find_source source' st = Some r'" and "find_source source st = Some r" and "row_source (f r) = source"
    and "store_ok st"
  shows "find_source source' (update_source source f st) = Some (if source' = source then f r' else r')"
proof -
  have "row_source (if row_source x = source then f x else x) = row_source x" if "x \<in> set (sources st)" for x
    using row_is_found [OF assms(4,2) that] assms(3) by auto
  then have "find_source source' (update_source source f st) =
      map_option (\<lambda>r. if row_source r = source then f r else r) (find_source source' st)"
    unfolding find_source_def sources_update_source by (intro find_map) auto
  with assms(1) find_source_SomeD [OF assms(1)] show ?thesis by simp
qed

lemma row_evolves:
  assumes "store_change st st'" and "store_ok st" and "find_source source st = Some r"
  shows "\<exists>r'. find_source source st' = Some r' \<and> row_le r r'"
  using assms
proof (induction rule: store_change.induct)
  case (change_register r' st)
  then show ?case by (auto simp: find_source_def find_append)
next
  case (change_row source' st r1 f)
  have "row_source (f r1) = source'" using change_row.hyps find_source_SomeD by (force simp: row_le_def)
  then show ?case
    using change_row find_source_update [of source st r source' r1 f] by auto
next
  case (change_emit source' st r1 f e)
  have "row_source (f r1) = source'" using change_emit.hyps find_source_SomeD by (force simp: row_le_def)
  then show ?case
    using change_emit find_source_update [of source st r source' r1 f]
    by (auto simp: update_source_insert [symmetric])
qed simp_all

lemma source_events_pos: "0 < source_events source st \<longleftrightarrow> internal source \<and> source \<in> event_source ` set (events st)"
  by (auto simp: source_events_def filter_empty_conv)

lemma at_most_one_if_distinct:
  assumes "distinct (filter P (map f xs))" and "P y"
  shows "length (filter (\<lambda>x. f x = y) xs) \<le> 1"
  using assms
proof (induction xs)
  case (Cons x xs)
  show ?case
  proof (cases "f x = y")
    case True
    with Cons.prems have "filter (\<lambda>x. f x = y) xs = []" by (auto simp: filter_empty_conv image_iff)
    with True show ?thesis by simp
  next
    case False
    with Cons show ?thesis by (auto split: if_splits)
  qed
qed simp

lemma source_events_le_1: "store_ok st \<Longrightarrow> source_events source st \<le> 1"
  using at_most_one_if_distinct [of internal event_source "events st" source]
  by (cases "internal source") (auto simp: store_ok_def source_events_def)

lemma notified_row: "notification source st = Some v \<longleftrightarrow> (\<exists>r. find_source source st = Some r \<and> notified r)"
  by (auto simp: notification_def split: option.splits if_splits)

lemma no_events_without_notification:
  assumes "store_ok st" and "notification source st = None"
  shows "source_events source st = 0"
proof (rule ccontr)
  assume "source_events source st \<noteq> 0"
  then obtain e where "e \<in> set (events st)" "event_source e = source" "internal source"
    using source_events_pos [of source st] by auto
  with assms(1) obtain r where "r \<in> set (sources st)" "eligible_row source r"
    unfolding store_ok_def linked_def by blast
  moreover from this have "find_source source st = Some r"
    using find_source_unique [of st r] assms(1) by (auto simp: store_ok_def eligible_row_def)
  ultimately show False using assms(2) by (auto simp: notification_def eligible_row_def)
qed

lemma notified_events_le:
  assumes "store_change st st'" and "store_ok st" and "notification source st = Some v"
  shows "source_events source st' \<le> source_events source st"
  using assms
proof (induction rule: store_change.induct)
  case (change_expire st now)
  then show ?case
    by (auto simp: source_events_def expire_and_cleanup_at_def expire_row_def filter_map o_def filter_filter
        split: option.split intro!: length_filter_le_if)
next
  case (change_emit source' st r f e)
  then have "source' \<noteq> source" by (auto simp: notified_row)
  with change_emit show ?case by (simp add: source_events_def sources_update_source)
qed (auto simp: source_events_def sources_update_source filter_map o_def mark_row_def expose_def
    intro!: length_filter_le_if)

lemma settlement_kept:
  "store_ok st \<Longrightarrow> store_change st st' \<Longrightarrow> settlement source st = Some v \<Longrightarrow> settlement source st' = Some v"
  using row_evolves [of st st' source]
  by (fastforce simp: settlement_def row_le_def split: option.splits if_splits)

lemma bound_origin_kept:
  "store_ok st \<Longrightarrow> store_change st st' \<Longrightarrow> bound_origin source st = Some v \<Longrightarrow> bound_origin source st' = Some v"
  using row_evolves [of st st' source] by (fastforce simp: bound_origin_def row_le_def bind_eq_Some_conv)

lemma completed_at_kept:
  "store_ok st \<Longrightarrow> store_change st st' \<Longrightarrow> completed_at source st = Some v \<Longrightarrow> completed_at source st' = Some v"
  using row_evolves [of st st' source] by (fastforce simp: completed_at_def row_le_def bind_eq_Some_conv)

lemma notification_kept:
  "store_ok st \<Longrightarrow> store_change st st' \<Longrightarrow> notification source st = Some v \<Longrightarrow> notification source st' = Some v"
  using row_evolves [of st st' source] by (fastforce simp: notified_row row_le_def)

lemma empty_store_ok: "empty_store st \<Longrightarrow> store_ok st"
  by (simp add: empty_store_def store_ok_def pending_count_def linked_def)

interpretation store: transition_system empty_store store_change store_ok
  by unfold_locales (auto intro: empty_store_ok store_ok_change)

interpretation settle: latch empty_store store_change store_ok "settlement source" for source
  by unfold_locales (rule settlement_kept)

interpretation origin: latch empty_store store_change store_ok "bound_origin source" for source
  by unfold_locales (rule bound_origin_kept)

interpretation complete: latch empty_store store_change store_ok "completed_at source" for source
  by unfold_locales (rule completed_at_kept)

interpretation notify: once empty_store store_change store_ok "notification source" "source_events source" for source
proof unfold_locales
  fix st st' v
  show "empty_store st \<Longrightarrow> source_events source st = 0"
    by (simp add: empty_store_def source_events_def)
  show "store_ok st \<Longrightarrow> store_change st st' \<Longrightarrow> source_events source st' \<le> 1"
    by (blast intro: source_events_le_1 store_ok_change)
qed (use notification_kept no_events_without_notification notified_events_le in blast)+

subsection \<open>Properties of every reachable store\<close>

lemma steps_changes: "store_step\<^sup>*\<^sup>* st st' \<Longrightarrow> store_ok st \<Longrightarrow> changes st st'"
proof (induction rule: rtranclp_induct)
  case (step y z)
  then have "changes st y" by simp
  with step show ?case using changes_ok step_changes by (meson rtranclp_trans)
qed simp

lemma reachable_changes: "reachable empty_store store_step st \<Longrightarrow> reachable empty_store store_change st"
proof (induction rule: reachable.induct)
  case (reachable_next s s')
  from reachable_next.hyps(2) store.reachable_inv [OF reachable_next.IH] have "changes s s'" by (rule step_changes)
  then show ?case
    using reachable_next.IH by (induction rule: rtranclp_induct) (auto intro: reachable.reachable_next)
qed (auto intro: reachable.reachable_start)

lemma reachable_ok: "reachable empty_store store_step st \<Longrightarrow> store_ok st"
  by (blast intro: store.reachable_inv reachable_changes)

text \<open>C9.
  The completion of a process or a skill installation is reported by at most one event, in
  any store that the operations reach, and once the source counts as notified no later
  operation adds an event for it, however completions, settlements and restarts are
  repeated or reordered.
\<close>

theorem completion_event_at_most_once:
  assumes "reachable empty_store store_step st" and "store_step\<^sup>*\<^sup>* st st'"
  shows "source_events source st' \<le> 1 \<and>
    (notification source st = Some () \<longrightarrow> source_events source st' \<le> source_events source st)"
proof -
  have st: "reachable empty_store store_change st" by (rule reachable_changes [OF assms(1)])
  have "changes st st'" by (rule steps_changes [OF assms(2) reachable_ok [OF assms(1)]])
  then show ?thesis
    using notify.never_again [OF st] notify.at_most_once [OF reachable_run [OF st]] by blast
qed

text \<open>C28.
  The first settlement of the response of a source is final: whether its completion is
  suppressed or reported, and when that was decided, no later operation changes.
\<close>

theorem settlement_final:
  assumes "reachable empty_store store_step st" and "store_step\<^sup>*\<^sup>* st st'"
    and "settlement source st = Some v"
  shows "settlement source st' = Some v"
  using settle.latched_forever [OF reachable_changes [OF assms(1)]
      steps_changes [OF assms(2) reachable_ok [OF assms(1)]] assms(3)] .

text \<open>
  A source is bound to at most one origin, and its first completion time stands: two readings
  of a source at different times never disagree.
\<close>

theorem origin_and_completion_agree:
  assumes "reachable empty_store store_step st" and "store_step\<^sup>*\<^sup>* st st1" and "store_step\<^sup>*\<^sup>* st1 st2"
  shows "(bound_origin source st1 = Some o1 \<longrightarrow> bound_origin source st2 = Some o2 \<longrightarrow> o1 = o2) \<and>
    (completed_at source st1 = Some t1 \<longrightarrow> completed_at source st2 = Some t2 \<longrightarrow> t1 = t2)"
proof -
  have st: "reachable empty_store store_change st" by (rule reachable_changes [OF assms(1)])
  have ok: "store_ok st" by (rule reachable_ok [OF assms(1)])
  have 1: "changes st st1" by (rule steps_changes [OF assms(2) ok])
  have 2: "changes st1 st2" by (rule steps_changes [OF assms(3) changes_ok [OF 1 ok]])
  show ?thesis
    using origin.latched_agree [OF st 1 2] complete.latched_agree [OF st 1 2] by blast
qed

text \<open>
  No completion is lost or reported twice over: in every reachable store a source counts as
  notified exactly when its completion has come and its response is settled, a completion
  keeps its type and message exactly until then, and an event stands only for a source whose
  response was settled without the completion.
\<close>

theorem completion_delivery_state:
  assumes "reachable empty_store store_step st" and "find_source source st = Some r"
  shows "(notified r \<longleftrightarrow> completion r \<noteq> None \<and> response_state r \<noteq> AwaitingResponse) \<and>
    (\<forall>ty m t. completion r = Some (ty, m, t) \<longrightarrow> (ty = None \<longleftrightarrow> notified r) \<and> (m = None \<longleftrightarrow> notified r)) \<and>
    (0 < source_events source st \<longrightarrow> notified r \<and> response_state r = AsyncEligible)"
proof -
  have ok: "store_ok st" by (rule reachable_ok [OF assms(1)])
  have "notified r \<and> response_state r = AsyncEligible" if "0 < source_events source st"
  proof -
    from that ok obtain r' where "r' \<in> set (sources st)" "eligible_row source r'"
      unfolding source_events_pos store_ok_def linked_def by blast
    then show ?thesis using row_is_found [OF ok assms(2)] by (auto simp: eligible_row_def)
  qed
  with found_row_ok [OF ok assms(2)] show ?thesis by (auto simp: row_ok_def split: option.splits)
qed

text \<open>
  The store stays within its bounds: at most 8192 pending events, identifiers of events and
  sources without duplicates, and a low event shown at most once and a medium one at most
  three times.
\<close>

theorem event_store_bounds:
  assumes "reachable empty_store store_step st"
  shows "pending_count st \<le> 8192 \<and> distinct (map event_id (events st)) \<and>
    distinct (map row_source (sources st)) \<and>
    (\<forall>e \<in> set (events st). (severity e = Low \<longrightarrow> shown_count e \<le> 1) \<and> (severity e = Medium \<longrightarrow> shown_count e \<le> 3))"
  using reachable_ok [OF assms] by (auto simp: store_ok_def max_pending_events_def list_all_iff event_ok_def)

subsection \<open>Completion and settlement in either order\<close>

definition forget_settlement_time :: "event_store \<Rightarrow> event_store" where
  "forget_settlement_time st = st\<lparr>sources := map (\<lambda>r. r\<lparr>settled_at := None\<rparr>) (sources st)\<rparr>"

lemma forget_update_source:
  assumes "\<And>r. (f r)\<lparr>settled_at := None\<rparr> = (g r)\<lparr>settled_at := None\<rparr>"
  shows "forget_settlement_time (update_source source f st) = forget_settlement_time (update_source source g st)"
  using assms by (simp add: forget_settlement_time_def update_source_def)

lemma find_source_same:
  assumes "\<And>r. row_source (f r) = row_source r"
  shows "find_source source (update_source source f st) = map_option f (find_source source st)"
proof -
  have "find_source source (update_source source f st) =
      map_option (\<lambda>r. if row_source r = source then f r else r) (find_source source st)"
    unfolding find_source_def sources_update_source by (rule find_map) (simp add: assms)
  with find_source_SomeD(1) show ?thesis by (cases "find_source source st") fastforce+
qed

lemma expire_update_source:
  "expire_and_cleanup_at now (update_source source f st) = update_source source f (expire_and_cleanup_at now st)"
  by (cases st) (simp add: expire_and_cleanup_at_def update_source_def)

lemma emit_update_source:
  "emit_internal_completion new_id source p ty m t (update_source source' f st) =
    rbind (emit_internal_completion new_id source p ty m t st) (\<lambda>st'. Inr (update_source source' f st'))"
proof -
  have "insert_event new_id m sev t source expires (update_source source' f st) =
      rbind (insert_event new_id m sev t source expires st) (\<lambda>(e, st'). Inr (e, update_source source' f st'))"
    for sev expires
    by (simp add: insert_event_def Let_def update_source_insert sources_update_source)
  moreover have "ensure_pending_capacity (update_source source' f st) = ensure_pending_capacity st"
    by (simp add: ensure_pending_capacity_def sources_update_source)
  ultimately show ?thesis
    by (auto simp: emit_internal_completion_def rbind_def split: option.split sum.split prod.split)
qed

lemma complete_awaiting:
  assumes "find_source source st = Some row" and "response_state row = AwaitingResponse" and "completion row = None"
  shows "record_internal_completion new_id source ty m t now st = (Inr (), st') \<longleftrightarrow>
    (\<exists>u. validate_internal_source source = Inr u) \<and> (\<exists>u. validate_event_type ty = Inr u) \<and>
    (\<exists>u. validate_message m = Inr u) \<and>
    st' = update_source source (complete_row ty m t) (expire_and_cleanup_at now st)"
  using assms
  by (auto simp: record_internal_completion_def transact_def Let_def complete_row_def [abs_def] rbind_def
      split: sum.split)

lemma settle_awaiting:
  assumes "find_source source st = Some row" and "response_state row = AwaitingResponse"
  shows "settle_response new_id source terminal now st = (Inr (), st') \<longleftrightarrow>
    (\<exists>u. validate_internal_source source = Inr u) \<and> row_origin row = None \<and>
    (if terminal then st' = update_source source (suppress_row now) (expire_and_cleanup_at now st)
     else emit_pending_completion new_id source row
       (update_source source (eligible_at now) (expire_and_cleanup_at now st)) = Inr st')"
  using assms
  by (auto simp: settle_response_def settle_response_inner_def transact_def Let_def check_origin_def
      eligible_at_def [abs_def] rbind_def split: sum.split option.split)

lemma complete_settled:
  assumes "find_source source st = Some row" and "completion row = None"
    and "validate_internal_source source = Inr u" "validate_event_type ty = Inr u'" "validate_message m = Inr u''"
  shows "response_state row = Suppressed \<Longrightarrow> record_internal_completion new_id source ty m t now st =
      (Inr (), clear_internal_completion source
        (update_source source (complete_row ty m t) (expire_and_cleanup_at now st)))"
    and "response_state row = AsyncEligible \<Longrightarrow>
      emit_internal_completion new_id source (row_policy row) ty m t
        (update_source source (complete_row ty m t) (expire_and_cleanup_at now st)) = Inr st' \<Longrightarrow>
      record_internal_completion new_id source ty m t now st = (Inr (), clear_internal_completion source st')"
  using assms
  by (simp_all add: record_internal_completion_def transact_def Let_def complete_row_def [abs_def])

lemma complete_then_settle:
  assumes found: "find_source source st = Some row"
    and row: "response_state row = AwaitingResponse" "completion row = None"
    and complete: "record_internal_completion new_id source ty m t n1 st = (Inr (), st1)"
    and settle: "settle_response new_id source terminal n2 st1 = (Inr (), st2)" and "\<not> terminal"
  shows "\<exists>E. emit_internal_completion new_id source (row_policy row) ty m t
      (expire_and_cleanup_at n2 (expire_and_cleanup_at n1 st)) = Inr E \<and>
    st2 = update_source source clear_row (update_source source (eligible_at n2 \<circ> complete_row ty m t) E)"
proof -
  from complete have st1: "st1 = update_source source (complete_row ty m t) (expire_and_cleanup_at n1 st)"
    by (auto simp: complete_awaiting [OF found row])
  have found1: "find_source source st1 = Some (complete_row ty m t row)"
    using found by (simp add: st1 find_source_same complete_row_def)
  note settle' = settle [unfolded settle_awaiting [OF found1, simplified complete_row_def, simplified, OF row(1)]]
  have keep: "row_source (complete_row ty m t r) = row_source r" for r by (simp add: complete_row_def)
  from \<open>\<not> terminal\<close> settle' show ?thesis
    by (auto simp: emit_pending_completion_def complete_row_def [abs_def] st1 expire_update_source
        update_source_twice emit_update_source rbind_eq_Inr_iff clear_internal_completion_row)
qed

text \<open>C37.
  A completion that the response did not carry is reported: when its type has a severity,
  recording it and settling the response without it leaves exactly one event of the source,
  pending, with the message, the severity and the time of the completion.
\<close>

theorem unanswered_completion_reported:
  assumes "reachable empty_store store_step st" and found: "find_source source st = Some row"
    and row: "response_state row = AwaitingResponse" "completion row = None"
    and complete: "record_internal_completion new_id source ty m t n1 st = (Inr (), st1)"
    and settle: "settle_response new_id source False n2 st1 = (Inr (), st2)"
    and sev: "severity_for (row_policy row) ty = Some sev"
  shows "\<exists>e. filter (\<lambda>e. event_source e = source) (events st2) = [e] \<and> event_id e = new_id \<and>
    message e = m \<and> severity e = sev \<and> created_at e = t \<and> status e = Pending"
proof -
  let ?E = "expire_and_cleanup_at n2 (expire_and_cleanup_at n1 st)"
  obtain E where emit: "emit_internal_completion new_id source (row_policy row) ty m t ?E = Inr E"
      and st2: "st2 = update_source source clear_row (update_source source (eligible_at n2 \<circ> complete_row ty m t) E)"
    using complete_then_settle [OF found row complete settle] by auto
  have ok: "store_ok st" by (rule reachable_ok [OF assms(1)])
  have "\<not> notified row" using found_row_ok [OF ok found] row by (simp add: row_ok_def)
  then have "source \<notin> event_source ` set (events ?E)"
    using no_event_before_notification [OF store_ok_expire [OF store_ok_expire [OF ok]], where r = row] found by simp
  then have "filter (\<lambda>e. event_source e = source) (events ?E) = []"
    by (auto simp: filter_empty_conv)
  moreover from emit sev obtain e expires where
      "insert_event new_id m sev t source expires ?E = Inr (e, E)"
    by (auto simp: emit_internal_completion_def rbind_eq_Inr_iff)
  ultimately show ?thesis
    using insert_event_Inr [of new_id m sev t source expires ?E e E] st2
    by (auto simp: sources_update_source)
qed

lemmas row_funs = complete_row_def eligible_at_def suppress_row_def clear_row_def

text \<open>C29.
  The order in which a completion and the settlement of its response arrive does not matter:
  if recording the completion and then settling succeeds, settling first succeeds too and
  leaves the same events and the same sources, up to the time of the settlement.
\<close>

theorem completion_settlement_commute:
  assumes found: "find_source source st = Some row"
    and row: "response_state row = AwaitingResponse" "completion row = None"
    and complete: "record_internal_completion new_id source ty m t n1 st = (Inr (), st1)"
    and settle: "settle_response new_id source terminal n2 st1 = (Inr (), st2)"
  shows "\<exists>st1' st2'. settle_response new_id source terminal n1 st = (Inr (), st1') \<and>
    record_internal_completion new_id source ty m t n2 st1' = (Inr (), st2') \<and>
    forget_settlement_time st2' = forget_settlement_time st2"
proof -
  let ?E = "expire_and_cleanup_at n2 (expire_and_cleanup_at n1 st)"
  from complete obtain u u' u'' where v: "validate_internal_source source = Inr u" "validate_event_type ty = Inr u'"
      "validate_message m = Inr u''"
    and st1: "st1 = update_source source (complete_row ty m t) (expire_and_cleanup_at n1 st)"
    by (auto simp: complete_awaiting [OF found row])
  have found1: "find_source source st1 = Some (complete_row ty m t row)"
    using found by (simp add: st1 find_source_same complete_row_def)
  have keep: "row_source (f r) = row_source r" if "f \<in> {complete_row ty m t, eligible_at n, suppress_row n, clear_row}"
    for f n r using that by (auto simp: row_funs)
  note settle' = settle [unfolded settle_awaiting [OF found1, simplified complete_row_def, simplified, OF row(1)]]
  show ?thesis
  proof (cases terminal)
    case True
    let ?B = "update_source source (suppress_row n1) (expire_and_cleanup_at n1 st)"
    have foundB: "find_source source ?B = Some (suppress_row n1 row)"
      using found by (simp add: find_source_same suppress_row_def)
    have 1: "settle_response new_id source terminal n1 st = (Inr (), ?B)"
      using True v settle' by (simp add: settle_awaiting [OF found row(1)])
    have 2: "record_internal_completion new_id source ty m t n2 ?B =
        (Inr (), update_source source (clear_row \<circ> (complete_row ty m t \<circ> suppress_row n1)) ?E)"
      using complete_settled(1) [OF foundB _ v] row
      by (simp add: suppress_row_def clear_internal_completion_row expire_update_source update_source_twice row_funs)
    have "st2 = update_source source (suppress_row n2 \<circ> complete_row ty m t) ?E"
      using True settle' by (simp add: st1 expire_update_source update_source_twice keep)
    then have "forget_settlement_time (update_source source (clear_row \<circ> (complete_row ty m t \<circ> suppress_row n1)) ?E) =
        forget_settlement_time st2"
      by (simp, intro forget_update_source) (simp add: row_funs)
    with 1 2 show ?thesis by blast
  next
    case False
    let ?B = "update_source source (eligible_at n1) (expire_and_cleanup_at n1 st)"
    have foundB: "find_source source ?B = Some (eligible_at n1 row)"
      using found by (simp add: find_source_same eligible_at_def)
    have 1: "settle_response new_id source terminal n1 st = (Inr (), ?B)"
      using False v settle' row by (simp add: settle_awaiting [OF found row(1)] emit_pending_completion_def)
    from complete_then_settle [OF found row complete settle False] obtain E'
      where emit: "emit_internal_completion new_id source (row_policy row) ty m t ?E = Inr E'"
        and st2: "st2 = update_source source clear_row
          (update_source source (eligible_at n2 \<circ> complete_row ty m t) E')" by auto
    let ?E' = "update_source source (complete_row ty m t \<circ> eligible_at n1) E'"
    have twice: "update_source source (complete_row ty m t) (update_source source (eligible_at n1) E') = ?E'"
      by (rule update_source_twice) (simp add: eligible_at_def)
    have "emit_internal_completion new_id source (row_policy (eligible_at n1 row)) ty m t
        (update_source source (complete_row ty m t) (expire_and_cleanup_at n2 ?B)) = Inr ?E'"
      using emit twice by (simp add: expire_update_source emit_update_source) (simp add: eligible_at_def)
    from complete_settled(2) [OF foundB _ v _ this]
    have 2: "record_internal_completion new_id source ty m t n2 ?B =
        (Inr (), update_source source clear_row ?E')"
      using row by (simp add: eligible_at_def clear_internal_completion_row)
    have "forget_settlement_time (update_source source clear_row ?E') = forget_settlement_time st2"
      unfolding st2 by (simp add: update_source_twice row_funs, intro forget_update_source) (simp add: row_funs)
    with 1 2 show ?thesis by blast
  qed
qed

subsection \<open>A run\<close>

definition sample_source :: event_source where
  "sample_source = \<lparr>source_kind = Process, reference = lit ''p1''\<rparr>"

definition sample_0 :: event_store where "sample_0 = \<lparr>events = [], sources = []\<rparr>"

definition sample_1 :: event_store where
  "sample_1 = snd (register_internal sample_source default_internal_policy 0 sample_0)"

definition sample_2 :: event_store where
  "sample_2 = snd (record_internal_completion (lit ''e1'') sample_source (lit ''exited'') (lit ''done'') 5 5 sample_1)"

definition sample_3 :: event_store where
  "sample_3 = snd (settle_response (lit ''e1'') sample_source False 7 sample_2)"

lemma sample_reachable:
  "reachable empty_store store_step sample_1" "reachable empty_store store_step sample_2"
  "reachable empty_store store_step sample_3"
proof -
  have "reachable empty_store store_step sample_0"
    by (rule reachable_start) (simp add: empty_store_def sample_0_def)
  then show 1: "reachable empty_store store_step sample_1"
    unfolding sample_1_def by (rule reachable_next) (rule step_register)
  then show 2: "reachable empty_store store_step sample_2"
    unfolding sample_2_def by (rule reachable_next) (rule step_complete)
  then show "reachable empty_store store_step sample_3"
    unfolding sample_3_def by (rule reachable_next) (rule step_settle)
qed

lemma sample_row:
  "find_source sample_source sample_1 = Some \<lparr>row_source = sample_source, response_state = AwaitingResponse,
     settled_at = None, row_policy = default_internal_policy, completion = None, notified = False, row_origin = None\<rparr>"
  "record_internal_completion (lit ''e1'') sample_source (lit ''exited'') (lit ''done'') 5 5 sample_1 = (Inr (), sample_2)"
  "settle_response (lit ''e1'') sample_source False 7 sample_2 = (Inr (), sample_3)"
  by code_simp+

lemma completion_event_at_most_once_witness:
  "source_events sample_source sample_3 \<le> 1"
  using completion_event_at_most_once [OF sample_reachable(3) rtranclp.rtrancl_refl] by blast

lemma settlement_final_witness:
  "settlement sample_source (snd (settle_response [] sample_source True 9 sample_3)) = Some (AsyncEligible, Some 7)"
proof (rule settlement_final [OF sample_reachable(3)])
  show "store_step\<^sup>*\<^sup>* sample_3 (snd (settle_response [] sample_source True 9 sample_3))"
    by (blast intro: step_settle)
  show "settlement sample_source sample_3 = Some (AsyncEligible, Some 7)" by code_simp
qed

lemma origin_and_completion_agree_witness:
  "\<forall>t. completed_at sample_source sample_3 = Some t \<longrightarrow> t = 5"
proof (intro allI impI)
  fix t
  have "store_step sample_2 sample_3" unfolding sample_3_def by (rule step_settle)
  moreover have "completed_at sample_source sample_2 = Some 5" by code_simp
  moreover assume "completed_at sample_source sample_3 = Some t"
  ultimately show "t = 5"
    using origin_and_completion_agree [OF sample_reachable(2) rtranclp.rtrancl_refl r_into_rtranclp,
        of sample_3 sample_source _ _ 5 t] by simp
qed

lemma completion_delivery_state_witness:
  "\<not> notified \<lparr>row_source = sample_source, response_state = AwaitingResponse, settled_at = None,
     row_policy = default_internal_policy, completion = None, notified = False, row_origin = None\<rparr>"
  using completion_delivery_state [OF sample_reachable(1) sample_row(1)] by simp

lemma event_store_bounds_witness: "pending_count sample_3 \<le> 8192"
  using event_store_bounds [OF sample_reachable(3)] by blast

lemma unanswered_completion_reported_witness:
  "\<exists>e. filter (\<lambda>e. event_source e = sample_source) (events sample_3) = [e] \<and> event_id e = lit ''e1'' \<and>
    message e = lit ''done'' \<and> severity e = Low \<and> created_at e = 5 \<and> status e = Pending"
  by (rule unanswered_completion_reported [OF sample_reachable(1) sample_row(1) _ _ sample_row(2,3)])
    (simp_all add: severity_for_def default_internal_policy_def)

lemma completion_settlement_commute_witness:
  "\<exists>st1' st2'. settle_response (lit ''e1'') sample_source False 5 sample_1 = (Inr (), st1') \<and>
    record_internal_completion (lit ''e1'') sample_source (lit ''exited'') (lit ''done'') 5 7 st1' = (Inr (), st2') \<and>
    forget_settlement_time st2' = forget_settlement_time sample_3"
  by (rule completion_settlement_commute [OF sample_row(1) _ _ sample_row(2,3)]) simp_all

end
