(* ===== verification/Event_Queries.thy ===== *)
theory Event_Queries
  imports Event_Delivery
begin

text \<open>
  What the readers of the event store get: marking events, the panel of new events, and the
  pages of a listing.
\<close>

subsection \<open>Expiry\<close>

lemma expire_idem:
  "expire_and_cleanup_at now (expire_and_cleanup_at now st) = expire_and_cleanup_at now st"
proof -
  have e: "expire_row now (expire_row now e) = expire_row now e" for e
    by (simp add: expire_row_def split: option.split)
  have "map (expire_row now) (filter (\<lambda>e. \<not> outdated now e) (map (expire_row now) es)) =
      filter (\<lambda>e. \<not> outdated now e) (map (expire_row now) es)" for es
    by (induction es) (simp_all add: e)
  then show ?thesis by (simp add: expire_and_cleanup_at_def)
qed

lemma pending_after_expire:
  assumes "e \<in> set (events (expire_and_cleanup_at now st))" and "status e = Pending"
  shows "\<exists>e' \<in> set (events st). e' = e \<and> (\<forall>t. expires_at e = Some t \<longrightarrow> now < t)"
  using assms by (auto simp: expire_and_cleanup_at_def expire_row_def split: option.splits if_splits)

subsection \<open>Marking\<close>

definition mark_all :: "int \<Rightarrow> rstr set \<Rightarrow> event_row \<Rightarrow> event_row" where
  "mark_all now ids e =
     (if event_id e \<in> ids \<and> status e = Pending then e\<lparr>status := Handled, terminal_at := Some now\<rparr> else e)"

definition handled_in :: "event_row list \<Rightarrow> rstr \<Rightarrow> bool" where
  "handled_in es i \<longleftrightarrow> (\<exists>e \<in> set es. event_id e = i \<and> status e = Handled)"

lemma mark_row_all: "mark_row now i (mark_all now ids e) = mark_all now (insert i ids) e"
  by (auto simp: mark_row_def mark_all_def)

lemma mark_all_simps:
  "event_id (mark_all now ids e) = event_id e"
  "status (mark_all now ids e) = (if event_id e \<in> ids \<and> status e = Pending then Handled else status e)"
  by (simp_all add: mark_all_def)

lemma mark_all_empty [simp]: "mark_all now {} = id"
  by (auto simp: mark_all_def fun_eq_iff)

lemma handled_in_mark_all:
  "handled_in (map (mark_all now ids) es) i \<longleftrightarrow>
    (\<exists>e \<in> set es. event_id e = i \<and> (status e = Handled \<or> (i \<in> ids \<and> status e = Pending)))"
  by (auto simp: handled_in_def mark_all_simps)

fun fresh_ids :: "rstr set \<Rightarrow> rstr list \<Rightarrow> rstr list" where
  "fresh_ids seen [] = []"
| "fresh_ids seen (i # ids) = (if i \<in> seen then fresh_ids seen ids else i # fresh_ids (insert i seen) ids)"

lemma set_fresh_ids: "set (fresh_ids seen ids) = set ids - seen"
  by (induction seen ids rule: fresh_ids.induct) auto

lemma distinct_fresh_ids: "distinct (fresh_ids seen ids)"
  by (induction seen ids rule: fresh_ids.induct) (auto simp: set_fresh_ids)

lemma mark_loop_result:
  "mark_loop now ids seen (r, st\<lparr>events := map (mark_all now seen) es\<rparr>) =
    (r\<lparr>handled_ids := handled_ids r @ filter (handled_in (map (mark_all now (seen \<union> set ids)) es)) (fresh_ids seen ids),
       not_found_ids := not_found_ids r @
         filter (\<lambda>i. \<not> handled_in (map (mark_all now (seen \<union> set ids)) es) i) (fresh_ids seen ids)\<rparr>,
     st\<lparr>events := map (mark_all now (seen \<union> set ids)) es\<rparr>)"
proof (induction ids arbitrary: seen r)
  case (Cons i ids)
  have handled: "handled_in (map (mark_all now (insert i seen)) es) i \<longleftrightarrow>
      handled_in (map (mark_all now (insert i seen \<union> set ids)) es) i"
    by (auto simp: handled_in_mark_all)
  have ex: "list_ex (\<lambda>e. event_id e = i \<and> status e = Handled) es' = handled_in es' i" for es'
    by (auto simp: list_ex_iff handled_in_def)
  have one: "mark_one now i (r, st\<lparr>events := map (mark_all now seen) es\<rparr>) =
      ((if handled_in (map (mark_all now (insert i seen)) es) i
        then r\<lparr>handled_ids := handled_ids r @ [i]\<rparr> else r\<lparr>not_found_ids := not_found_ids r @ [i]\<rparr>),
       st\<lparr>events := map (mark_all now (insert i seen)) es\<rparr>)"
    by (simp add: mark_one_def Let_def ex mark_row_all o_def)
  show ?case
  proof (cases "i \<in> seen")
    case True
    then have "seen \<union> set (i # ids) = seen \<union> set ids" by auto
    with True Cons.IH show ?thesis by simp
  next
    case False
    then show ?thesis using Cons.IH [where seen = "insert i seen"] handled by (simp add: one)
  qed
qed simp

text \<open>
  Marking handles exactly the named pending events: each of them is handled at the time of
  the call and nothing else changes; the response names every identifier once, as handled
  when an event of that identifier is handled afterwards, and as not found otherwise.
\<close>

theorem mark_functional:
  assumes "mark_at ids now st = (Inr r, st')"
  shows "st' = (let st1 = expire_and_cleanup_at now st in st1\<lparr>events := map (mark_all now (set ids)) (events st1)\<rparr>) \<and>
    distinct (handled_ids r @ not_found_ids r) \<and>
    set (handled_ids r) = {i \<in> set ids. handled_in (events st') i} \<and>
    set (not_found_ids r) = {i \<in> set ids. \<not> handled_in (events st') i}"
proof -
  let ?st = "expire_and_cleanup_at now st"
  have "mark_loop now ids {} (\<lparr>handled_ids = [], not_found_ids = []\<rparr>, ?st) = (r, st')"
    using assms by (auto simp: mark_at_def transact_def split: sum.splits prod.splits)
  with mark_loop_result [of now ids "{}" "\<lparr>handled_ids = [], not_found_ids = []\<rparr>" "events ?st" ?st]
  have "r = \<lparr>handled_ids = filter (handled_in (map (mark_all now (set ids)) (events ?st))) (fresh_ids {} ids),
      not_found_ids = filter (\<lambda>i. \<not> handled_in (map (mark_all now (set ids)) (events ?st)) i) (fresh_ids {} ids)\<rparr>"
    and "st' = ?st\<lparr>events := map (mark_all now (set ids)) (events ?st)\<rparr>"
    by auto
  then show ?thesis
    by (auto simp: Let_def set_fresh_ids distinct_fresh_ids)
qed

lemma mark_functional_witness:
  "snd (mark_at [lit ''e1'', lit ''zz'', lit ''e1''] 8 sample_3) =
    (let st1 = expire_and_cleanup_at 8 sample_3 in st1\<lparr>events := map (mark_all 8 (set [lit ''e1'', lit ''zz'', lit ''e1''])) (events st1)\<rparr>)"
proof -
  have "fst (mark_at [lit ''e1'', lit ''zz'', lit ''e1''] 8 sample_3) =
      Inr \<lparr>handled_ids = [lit ''e1''], not_found_ids = [lit ''zz'']\<rparr>"
    by code_simp
  then have "mark_at [lit ''e1'', lit ''zz'', lit ''e1''] 8 sample_3 =
      (Inr \<lparr>handled_ids = [lit ''e1''], not_found_ids = [lit ''zz'']\<rparr>,
       snd (mark_at [lit ''e1'', lit ''zz'', lit ''e1''] 8 sample_3))"
    by (metis prod.collapse)
  from mark_functional [OF this] show ?thesis by blast
qed

subsection \<open>The panel\<close>

lemma sorted_take_le:
  assumes "sorted (map f xs)" and "x \<in> set xs" and "x \<notin> set (take n xs)" and "y \<in> set (take n xs)"
  shows "f y \<le> f x"
proof -
  have "x \<in> set (drop n xs)" using assms(2,3) by (metis Un_iff append_take_drop_id set_append)
  moreover have "sorted (map f (take n xs) @ map f (drop n xs))"
    using assms(1) by (metis append_take_drop_id map_append)
  ultimately show ?thesis using assms(4) by (auto simp: sorted_append)
qed

text \<open>
  The panel shows at most five events, each of them pending and not expired at the time of
  the call, with the counts of all that are pending. An event that could be shown and is not
  gives way to five others, each of a severity at least as high and, within its severity, not
  newer; showing an event counts once for it and changes nothing else.
\<close>

theorem panel_shows_most_severe:
  assumes "panel_at now st = (Inr p, st')"
  shows "\<exists>rows. panel_new p = map (\<lambda>e. (event_id e, summarize (message e), severity e, created_at e)) rows \<and>
    length rows \<le> 5 \<and>
    (\<forall>e \<in> set rows. e \<in> set (events st) \<and> status e = Pending \<and> (\<forall>t. expires_at e = Some t \<longrightarrow> now < t)) \<and>
    (\<forall>e \<in> set (events (expire_and_cleanup_at now st)). panel_candidate e \<longrightarrow> e \<in> set rows \<or>
       (length rows = 5 \<and> (\<forall>f \<in> set rows. severity_rank (severity f) < severity_rank (severity e) \<or>
          (severity f = severity e \<and> created_at f \<le> created_at e)))) \<and>
    events st' = map (\<lambda>e. if event_id e \<in> event_id ` set rows then e\<lparr>shown_count := shown_count e + 1\<rparr> else e)
      (events (expire_and_cleanup_at now st))"
proof (intro exI conjI)
  let ?st = "expire_and_cleanup_at now st"
  let ?sorted = "sort_key panel_key (filter panel_candidate (events ?st))"
  from assms have p: "p = \<lparr>panel_counts = (count_severity Low ?st, count_severity Medium ?st, count_severity High ?st),
      panel_new = map (\<lambda>e. (event_id e, summarize (message e), severity e, created_at e)) (panel_rows ?st)\<rparr>"
    and st': "st' = ?st\<lparr>events := map (expose (map event_id (panel_rows ?st))) (events ?st)\<rparr>"
    by (simp_all add: panel_at_def transact_def Let_def)
  show "panel_new p = map (\<lambda>e. (event_id e, summarize (message e), severity e, created_at e)) (panel_rows ?st)"
    by (simp add: p)
  show "length (panel_rows ?st) \<le> 5" by (simp add: panel_rows_def)
  have sub: "e \<in> set (events ?st) \<and> panel_candidate e" if "e \<in> set (panel_rows ?st)" for e
    using that by (auto simp: panel_rows_def dest: in_set_takeD)
  then show "\<forall>e \<in> set (panel_rows ?st). e \<in> set (events st) \<and> status e = Pending \<and> (\<forall>t. expires_at e = Some t \<longrightarrow> now < t)"
    using pending_after_expire by (fastforce simp: panel_candidate_def)
  have rank: "severity_rank s = severity_rank s' \<longleftrightarrow> s = s'" for s s'
    by (cases s; cases s') (simp_all add: severity_rank_def)
  have "length (panel_rows ?st) = 5 \<and> (\<forall>f \<in> set (panel_rows ?st). panel_key f \<le> panel_key e)"
    if "e \<in> set (events ?st)" "panel_candidate e" "e \<notin> set (panel_rows ?st)" for e
  proof
    have e: "e \<in> set ?sorted" using that by simp
    show "length (panel_rows ?st) = 5"
    proof (rule ccontr)
      assume "length (panel_rows ?st) \<noteq> 5"
      then have "panel_rows ?st = ?sorted" by (simp add: panel_rows_def)
      with e that(3) show False by simp
    qed
    show "\<forall>f \<in> set (panel_rows ?st). panel_key f \<le> panel_key e"
      using sorted_take_le [OF _ e, of panel_key 5] that(3) by (simp add: panel_rows_def)
  qed
  then show "\<forall>e \<in> set (events ?st). panel_candidate e \<longrightarrow> e \<in> set (panel_rows ?st) \<or>
      (length (panel_rows ?st) = 5 \<and> (\<forall>f \<in> set (panel_rows ?st). severity_rank (severity f) < severity_rank (severity e) \<or>
        (severity f = severity e \<and> created_at f \<le> created_at e)))"
    by (fastforce simp: panel_key_def less_eq_prod_def rank)
  show "events st' = map (\<lambda>e. if event_id e \<in> event_id ` set (panel_rows ?st) then e\<lparr>shown_count := shown_count e + 1\<rparr> else e)
      (events ?st)"
    by (simp add: st' expose_def [abs_def])
qed

lemma panel_shows_most_severe_witness:
  "\<exists>rows :: event_row list. [(lit ''e1'', lit ''done'', Low, 5)] =
      map (\<lambda>e. (event_id e, summarize (message e), severity e, created_at e)) rows \<and> length rows \<le> 5"
proof -
  have "panel_at 8 sample_3 = (Inr \<lparr>panel_counts = (1, 0, 0), panel_new = [(lit ''e1'', lit ''done'', Low, 5)]\<rparr>,
      snd (panel_at 8 sample_3))"
    by code_simp
  from panel_shows_most_severe [OF this] show ?thesis
    unfolding event_panel.simps by (elim exE conjE, intro exI conjI)
qed

subsection \<open>Listing page by page\<close>

fun list_all_pages ::
    "nat \<Rightarrow> (cursor_data \<Rightarrow> rstr) \<Rightarrow> (rstr \<Rightarrow> cursor_data option) \<Rightarrow> event_list_request \<Rightarrow> int \<Rightarrow> event_store \<Rightarrow>
     (event_error + event_row list) option" where
  "list_all_pages 0 enc dec request now st = None"
| "list_all_pages (Suc n) enc dec request now st =
     (case list_at enc dec request now st of
        (Inl e, _) \<Rightarrow> Some (Inl e)
      | (Inr response, st') \<Rightarrow>
          (case next_cursor response of
             None \<Rightarrow> Some (Inr (items response))
           | Some c \<Rightarrow>
               map_option (\<lambda>rest. rbind rest (\<lambda>r. Inr (items response @ r)))
                 (list_all_pages n enc dec (request\<lparr>list_cursor := Some c\<rparr>) now st')))"

lemma list_rows_cursor:
  "list_rows request (Some (cursor_of request' e)) st =
    filter (\<lambda>x. list_key x < list_key e) (list_rows request None st)"
proof -
  have "before_cursor (Some (cursor_of request' e)) x \<longleftrightarrow> list_key x < list_key e" for x
    by (simp add: before_cursor_def cursor_of_def list_key_def)
  moreover have "before_cursor None x" for x by (simp add: before_cursor_def)
  ultimately show ?thesis
    by (simp add: list_rows_def filter_sort filter_filter conj_commute flip: rev_filter)
qed

lemma list_rows_descending:
  assumes "distinct (map event_id (events st))"
  shows "sorted_wrt (\<lambda>x y. list_key y < list_key x) (list_rows request cursor st)"
proof -
  let ?xs = "filter (\<lambda>e. list_match request e \<and> before_cursor cursor e) (events st)"
  have "distinct (map event_id ?xs)" using assms by (rule distinct_map_filter)
  then have "distinct (map list_key ?xs)"
    by (auto simp: distinct_map list_key_def inj_on_def)
  then have "distinct (map list_key (sort_key list_key ?xs))"
    by (simp add: distinct_map)
  then have "sorted_wrt (<) (map list_key (sort_key list_key ?xs))"
    by (simp add: strict_sorted_iff)
  then show ?thesis by (simp add: list_rows_def sorted_wrt_rev sorted_wrt_map)
qed

lemma filter_descending:
  assumes "sorted_wrt (\<lambda>x y. f y < f x) xs" and "i < length xs"
  shows "filter (\<lambda>x. f x < (f (xs ! i) :: 'b :: linorder)) xs = drop (Suc i) xs"
  using assms
proof (induction xs arbitrary: i)
  case (Cons x xs)
  show ?case
  proof (cases i)
    case 0
    with Cons.prems show ?thesis by (auto simp: filter_id_conv)
  next
    case (Suc j)
    with Cons.prems have "f (xs ! j) < f x" by simp
    then have "\<not> f x < f (xs ! j)" by simp
    with Suc Cons show ?thesis by simp
  qed
qed simp

lemma rfold_records:
  "\<forall>e \<in> set xs. shown_count e < 2 ^ 32 \<Longrightarrow>
    rfold (\<lambda>e acc. rbind (into_record e) (\<lambda>r. Inr (acc @ [r]))) xs acc = Inr (acc @ xs)"
  by (induction xs arbitrary: acc) (simp_all add: into_record_def)

lemma list_at_page:
  assumes "validate_agent_scope (list_agent_id request) = Inr u"
    and "list_cursor request = None \<and> cursor = None \<or>
      (\<exists>v c. list_cursor request = Some v \<and> decode_cursor dec request v = Inr c \<and> cursor = Some c)"
    and "\<forall>e \<in> set (events (expire_and_cleanup_at now st)). shown_count e < 2 ^ 32"
  shows "list_at enc dec request now st =
    (list_page enc request (take (effective_limit request + 1) (list_rows request cursor (expire_and_cleanup_at now st))),
     expire_and_cleanup_at now st)"
proof -
  let ?st = "expire_and_cleanup_at now st"
  have "set (take n (list_rows request cursor ?st)) \<subseteq> set (events ?st)" for n
    by (auto simp: list_rows_def dest: in_set_takeD)
  then have "rfold (\<lambda>e acc. rbind (into_record e) (\<lambda>r. Inr (acc @ [r])))
      (take (effective_limit request + 1) (list_rows request cursor ?st)) [] =
      Inr (take (effective_limit request + 1) (list_rows request cursor ?st))"
    using assms(3) by (subst rfold_records) auto
  then show ?thesis
    using assms(1,2) by (auto simp: list_at_def transact_def Let_def)
qed

lemma list_page_rows:
  assumes "0 < lim" and "lim = effective_limit request"
    and "\<forall>e \<in> set rows. byte_len (enc (cursor_of request e)) \<le> max_cursor_bytes"
  shows "list_page enc request (take (lim + 1) rows) =
    (if lim < length rows
     then Inr \<lparr>items = take lim rows, next_cursor = Some (enc (cursor_of request (rows ! (lim - 1))))\<rparr>
     else Inr \<lparr>items = rows, next_cursor = None\<rparr>)"
proof (cases "lim < length rows")
  case True
  then have "last (take lim rows) = rows ! (lim - 1)" using assms(1) by (subst last_conv_nth) auto
  moreover have "rows ! (lim - 1) \<in> set rows" using True assms(1) by (auto intro: nth_mem)
  then have "\<not> max_cursor_bytes < byte_len (enc (cursor_of request (rows ! (lim - 1))))"
    using assms(3) by (simp add: not_less)
  ultimately show ?thesis
    using True assms(2) by (simp add: list_page_def Let_def encode_cursor_def min_def)
next
  case False
  then show ?thesis using assms(2) by (simp add: list_page_def Let_def)
qed

lemma effective_limit_pos: "0 < effective_limit request"
  by (simp add: effective_limit_def)

lemma drop_filter_descending:
  assumes "sorted_wrt (\<lambda>x y. f y < f x) xs" and "k + lim < length xs" and "0 < lim"
  shows "filter (\<lambda>x. f x < (f (drop k xs ! (lim - 1)) :: 'b :: linorder)) xs = drop lim (drop k xs)"
proof -
  have "drop k xs ! (lim - 1) = xs ! (k + (lim - 1))" using assms(2) by simp
  then show ?thesis
    using filter_descending [OF assms(1), of "k + (lim - 1)"] assms(2,3) by (simp add: add.commute)
qed

lemma pages_from:
  assumes agent: "validate_agent_scope (list_agent_id request) = Inr u"
    and ids: "distinct (map event_id (events st))" and st: "expire_and_cleanup_at now st0 = st"
    and shown: "\<forall>e \<in> set (events st). shown_count e < 2 ^ 32"
    and codec: "\<forall>e \<in> set (events st). byte_len (enc (cursor_of request e)) \<le> max_cursor_bytes \<and>
      dec (enc (cursor_of request e)) = Some (cursor_of request e) \<and>
      event_id e \<noteq> [] \<and> byte_len (event_id e) \<le> max_reference_bytes"
    and cursor: "list_cursor request' = None \<and> cursor = None \<or>
      (\<exists>v c. list_cursor request' = Some v \<and> decode_cursor dec request' v = Inr c \<and> cursor = Some c)"
    and request': "request' = request\<lparr>list_cursor := list_cursor request'\<rparr>"
    and rows: "list_rows request cursor st = drop k (list_rows request None st)"
    and fuel: "length (list_rows request None st) - k < n"
  shows "list_all_pages n enc dec request' now st0 = Some (Inr (drop k (list_rows request None st)))"
  using st cursor request' rows fuel
proof (induction n arbitrary: request' cursor k st0)
  case (Suc n)
  let ?L = "list_rows request None st" and ?lim = "effective_limit request"
  have same: "effective_limit request' = ?lim" "cursor_of request' = cursor_of request"
      "list_rows request' = list_rows request" "list_agent_id request' = list_agent_id request"
    by (subst Suc.prems(3), simp add: effective_limit_def cursor_of_def effective_status_def fun_eq_iff
        list_rows_def list_match_def)+
  have sub: "set ?L \<subseteq> set (events st)" by (auto simp: list_rows_def)
  have page: "list_at enc dec request' now st0 =
      (list_page enc request' (take (?lim + 1) (drop k ?L)), st)"
    using list_at_page [of request' u cursor dec now st0 enc] agent shown Suc.prems same by simp
  have bytes: "\<forall>e \<in> set (drop k ?L). byte_len (enc (cursor_of request e)) \<le> max_cursor_bytes"
    using codec sub by (blast dest: in_set_dropD)
  have rows: "list_page enc request' (take (?lim + 1) (drop k ?L)) =
      (if ?lim < length (drop k ?L)
       then Inr \<lparr>items = take ?lim (drop k ?L), next_cursor = Some (enc (cursor_of request (drop k ?L ! (?lim - 1))))\<rparr>
       else Inr \<lparr>items = drop k ?L, next_cursor = None\<rparr>)"
    using list_page_rows [where lim = ?lim and request = request' and rows = "drop k ?L" and enc = enc]
      effective_limit_pos [of request] bytes unfolding same by simp
  show ?case
  proof (cases "?lim < length (drop k ?L)")
    case False
    with page rows show ?thesis by simp
  next
    case True
    let ?e = "drop k ?L ! (?lim - 1)"
    let ?c = "cursor_of request ?e"
    let ?next = "request'\<lparr>list_cursor := Some (enc ?c)\<rparr>"
    have "?lim - 1 < length (drop k ?L)" using True by linarith
    then have "?e \<in> set (drop k ?L)" by (rule nth_mem)
    then have e: "?e \<in> set (events st)" using sub by (auto dest: in_set_dropD)
    have next_req: "?next = request\<lparr>list_cursor := list_cursor ?next\<rparr>"
      by (subst Suc.prems(3)) simp
    have dec: "decode_cursor dec ?next (enc ?c) = Inr ?c"
      using codec e by (subst next_req) (simp add: decode_cursor_def cursor_of_def effective_status_def)
    have drop: "list_rows request (Some ?c) st = drop (k + ?lim) ?L"
      using drop_filter_descending [OF list_rows_descending [OF ids], of k ?lim request None] True
        effective_limit_pos [of request]
      by (simp add: list_rows_cursor add.commute)
    have "list_all_pages n enc dec ?next now st = Some (Inr (drop (k + ?lim) ?L))"
    proof (rule Suc.IH [OF _ _ next_req drop])
      show "expire_and_cleanup_at now st = st" using Suc.prems(1) expire_idem by metis
      show "length ?L - (k + ?lim) < n" using Suc.prems(5) True effective_limit_pos [of request] by auto
    qed (use dec in simp)
    moreover have "drop (k + ?lim) ?L = drop ?lim (drop k ?L)" by (simp add: add.commute)
    ultimately show ?thesis
      using page rows True by (simp del: drop_drop)
  qed
qed simp

text \<open>C38.
  Following the cursors lists every matching event exactly once, newest first, and comes to
  an end: whatever the page size, the pages together are the rows that match the request in
  the order of their time and identifier.
\<close>

theorem pagination_complete:
  assumes "validate_agent_scope (list_agent_id request) = Inr u" and "list_cursor request = None"
    and "distinct (map event_id (events st))"
    and "\<forall>e \<in> set (events st). shown_count e < 2 ^ 32 \<and> event_id e \<noteq> [] \<and> byte_len (event_id e) \<le> max_reference_bytes"
    and "\<forall>e. dec (enc (cursor_of request e)) = Some (cursor_of request e)"
    and "\<forall>e \<in> set (events (expire_and_cleanup_at now st)). byte_len (enc (cursor_of request e)) \<le> max_cursor_bytes"
    and "length (events st) < n"
  shows "list_all_pages n enc dec request now st =
    Some (Inr (rev (sort_key list_key (filter (list_match request) (events (expire_and_cleanup_at now st))))))"
proof -
  let ?st = "expire_and_cleanup_at now st"
  have keep: "\<exists>e' \<in> set (events st). event_id e' = event_id e \<and> shown_count e' = shown_count e"
    if "e \<in> set (events ?st)" for e
    using that by (auto simp: expire_and_cleanup_at_def expire_row_def split: option.splits)
  have "map event_id (map (expire_row now) (events st)) = map event_id (events st)"
    by (simp add: expire_row_def split: option.split)
  then have "distinct (map event_id (map (expire_row now) (events st)))" using assms(3) by metis
  then have ids: "distinct (map event_id (events ?st))"
    by (simp add: expire_and_cleanup_at_def distinct_map_filter del: map_map)
  have "length (list_rows request None ?st) \<le> length (events ?st)" by (simp add: list_rows_def)
  also have "\<dots> \<le> length (events st)"
    using length_filter_le [of _ "map (expire_row now) (events st)"] by (simp add: expire_and_cleanup_at_def)
  finally have "length (list_rows request None ?st) - 0 < n" using assms(7) by simp
  moreover have "\<forall>e \<in> set (events ?st). byte_len (enc (cursor_of request e)) \<le> max_cursor_bytes \<and>
      dec (enc (cursor_of request e)) = Some (cursor_of request e) \<and>
      event_id e \<noteq> [] \<and> byte_len (event_id e) \<le> max_reference_bytes"
    using assms(4,5,6) keep by (metis (no_types, lifting))
  moreover have "\<forall>e \<in> set (events ?st). shown_count e < 2 ^ 32" using assms(4) keep by metis
  ultimately have "list_all_pages n enc dec request now st = Some (Inr (drop 0 (list_rows request None ?st)))"
    using assms(2) by (intro pages_from [OF assms(1) ids refl, where cursor = None and k = 0]) simp_all
  then show ?thesis by (simp add: list_rows_def before_cursor_def)
qed

text \<open>A codec for the cursors of the run: the identifier stands for its event.\<close>

definition sample_request :: event_list_request where
  "sample_request = \<lparr>list_agent_id = lit ''a'', list_status = None, list_severity = None, list_limit = Some 1,
     list_cursor = None\<rparr>"

definition sample_event :: "rstr \<Rightarrow> int \<Rightarrow> event_row" where
  "sample_event i t = \<lparr>event_id = i, message = lit ''hi'', severity = High, created_at = t, status = Pending,
     event_source = \<lparr>source_kind = External, reference = lit ''r''\<rparr>, shown_count = 0, expires_at = None,
     terminal_at = None\<rparr>"

definition sample_store :: event_store where
  "sample_store = \<lparr>events = [sample_event (lit ''e1'') 5, sample_event (lit ''e3'') 9, sample_event (lit ''e2'') 9],
     sources = []\<rparr>"

definition sample_enc :: "cursor_data \<Rightarrow> rstr" where
  "sample_enc c = cursor_created_at c # cursor_event_id c"

definition sample_dec :: "rstr \<Rightarrow> cursor_data option" where
  "sample_dec v = (case v of [] \<Rightarrow> None
     | t # i \<Rightarrow> Some \<lparr>cursor_version = 1, cursor_agent_id = lit ''a'', cursor_status = Pending, cursor_severity = None,
                  cursor_created_at = t, cursor_event_id = i\<rparr>)"

lemma pagination_complete_witness:
  "list_all_pages 4 sample_enc sample_dec sample_request 10 sample_store =
    Some (Inr (rev (sort_key list_key (filter (list_match sample_request) (events (expire_and_cleanup_at 10 sample_store))))))"
proof (rule pagination_complete)
  show "validate_agent_scope (list_agent_id sample_request) = Inr ()" by code_simp
  show "list_cursor sample_request = None" by code_simp
  show "distinct (map event_id (events sample_store))" by code_simp
  have "\<forall>e \<in> set (events sample_store). shown_count e \<le> 1 \<and> event_id e \<noteq> [] \<and>
      byte_len (event_id e) \<le> max_reference_bytes" by code_simp
  then show "\<forall>e \<in> set (events sample_store). shown_count e < 2 ^ 32 \<and> event_id e \<noteq> [] \<and>
      byte_len (event_id e) \<le> max_reference_bytes"
    by (meson le_less_trans one_less_numeral_iff one_less_power semiring_norm(76) zero_less_numeral)
  show "\<forall>e. sample_dec (sample_enc (cursor_of sample_request e)) = Some (cursor_of sample_request e)"
    by (simp add: sample_dec_def sample_enc_def cursor_of_def sample_request_def effective_status_def)
  show "\<forall>e \<in> set (events (expire_and_cleanup_at 10 sample_store)).
      byte_len (sample_enc (cursor_of sample_request e)) \<le> max_cursor_bytes" by code_simp
  show "length (events sample_store) < 4" by code_simp
qed

end
