(* ===== verification/Transport_Ledger.thy ===== *)
theory Transport_Ledger
  imports Prelude
begin

text \<open>
  The ledger of the commands that the hub sends to an agent
  (\<^verbatim>\<open>crates/agentic-gpt/src/storage/transport_ledger.rs\<close>): a file of lines, each the
  encoding of a record, that is scanned before and appended to by every operation, all under
  one lock. The model keeps the bytes of the file, of its recovery file and of its backup;
  the encoding of a record (JSON) and the digest of a byte string (SHA-256) are arguments,
  gathered in a record. Commands and results are values the ledger only stores. Failures of
  the file system and its permission checks are not modelled.
\<close>

subsection \<open>Records and files\<close>

record ('c, 'v) ledger_record =
  run_id :: rstr
  request_id :: rstr
  command_hash :: rstr
  status :: rstr
  agent_id :: "rstr option"
  command :: "'c option"
  stored_result :: "'v option"
  reason :: "rstr option"
  conflict :: "'v option"

text \<open>The fields of an envelope that the ledger reads.\<close>

record 'c envelope =
  env_event :: rstr
  env_run :: rstr
  env_request :: rstr
  env_hash :: rstr
  env_command :: 'c

datatype 'v accept_outcome =
  FirstAccepted | DuplicateAccepted | DuplicateStarted | AcceptCompleted 'v
| HashMismatch | AcceptOwnerMismatch | LegacyUnowned

datatype 'v claim_outcome =
  Claimed | AlreadyStarted | ClaimCompleted 'v | Missing | Unowned | ClaimOwnerMismatch

datatype completion_outcome = Persisted | AlreadyCompleted

datatype ledger_error =
  IdentityMissing | TornLine | CorruptLine | CompletedResultMissing | StatusUnusable
| ClaimStatusUnusable | RecordMissing | CompletionIdentityMismatch | CompletionOwnerMismatch
| CompletionResultConflict

type_synonym bytes = "int list"

record ledger_files =
  ledger :: "bytes option"
  recovery :: "bytes option"
  backup :: "bytes option"

record ('c, 'v) ledger_codec =
  encode :: "('c, 'v) ledger_record \<Rightarrow> bytes"
  decode :: "bytes \<Rightarrow> ('c, 'v) ledger_record option"
  record_value :: "('c, 'v) ledger_record \<Rightarrow> 'v"
  digest_hex :: "bytes \<Rightarrow> bytes"

type_synonym ('c, 'v) ledger_view = "rstr \<rightharpoonup> ('c, 'v) ledger_record"

definition newline :: int where "newline = 10"

definition compaction_bytes :: nat where "compaction_bytes = 262144"

subsection \<open>Recovery evidence\<close>

fun decimal :: "nat \<Rightarrow> bytes" where
  "decimal n = (if n < 10 then [48 + int n] else decimal (n div 10) @ [48 + int (n mod 10)])"

fun contains_window :: "bytes \<Rightarrow> bytes \<Rightarrow> bool" where
  "contains_window m [] = (m = [])"
| "contains_window m (x # xs) = (starts_with m (x # xs) \<or> contains_window m xs)"

definition recovery_marker :: "('c, 'v) ledger_codec \<Rightarrow> bytes \<Rightarrow> bytes \<Rightarrow> bytes" where
  "recovery_marker k raw why = lit ''recovery hash='' @ digest_hex k raw @ lit '' reason='' @ why"

definition preserve_recovery ::
    "('c, 'v) ledger_codec \<Rightarrow> bytes \<Rightarrow> bytes \<Rightarrow> ledger_files \<Rightarrow> ledger_files" where
  "preserve_recovery k raw why f =
     (let marker = recovery_marker k raw why;
          existing = (case recovery f of None \<Rightarrow> [] | Some b \<Rightarrow> b)
      in if recovery f \<noteq> None \<and> contains_window marker existing then f
         else f\<lparr>recovery := Some (existing @ marker @ lit '' bytes='' @ decimal (length raw) @ [newline]
                                 @ raw @ [newline])\<rparr>)"

subsection \<open>Scanning and appending\<close>

definition conflict_status :: rstr where "conflict_status = lit ''conflict''"
definition accepted_status :: rstr where "accepted_status = lit ''accepted''"
definition started_status :: rstr where "started_status = lit ''started''"
definition running_status :: rstr where "running_status = lit ''running''"
definition completed_status :: rstr where "completed_status = lit ''completed''"

text \<open>A conflict is evidence and does not replace the record of its run.\<close>

definition see_record :: "('c, 'v) ledger_record \<Rightarrow> ('c, 'v) ledger_view \<Rightarrow> ('c, 'v) ledger_view" where
  "see_record r v = (if status r \<noteq> conflict_status then v(run_id r \<mapsto> r) else v)"

text \<open>The loop over the lines, with the offset of the line for the error.\<close>

fun scan_lines ::
    "('c, 'v) ledger_codec \<Rightarrow> nat \<Rightarrow> bytes list \<Rightarrow> ('c, 'v) ledger_view \<Rightarrow>
     (bytes \<times> nat) + ('c, 'v) ledger_view" where
  "scan_lines k offset [] v = Inr v"
| "scan_lines k offset (line # ls) v =
     (if line = [] then scan_lines k (offset + length line + 1) ls v
      else (case decode k line of
              None \<Rightarrow> Inl (line, offset)
            | Some r \<Rightarrow> scan_lines k (offset + length line + 1) ls (see_record r v)))"

definition ends_with_newline :: "bytes \<Rightarrow> bool" where
  "ends_with_newline b \<longleftrightarrow> ends_with [newline] b"

type_synonym ('a, 'c, 'v) ledger_op = "ledger_files \<Rightarrow> (ledger_error + 'a) \<times> ledger_files"

definition scan_locked ::
    "('c, 'v) ledger_codec \<Rightarrow> ledger_files \<Rightarrow> (ledger_error + ('c, 'v) ledger_view) \<times> ledger_files" where
  "scan_locked k f =
     (case ledger f of
        None \<Rightarrow> (Inr Map.empty, f)
      | Some b \<Rightarrow>
          if b = [] then (Inr Map.empty, f)
          else if \<not> ends_with_newline b then (Inl TornLine, preserve_recovery k b (lit ''torn_final_line'') f)
          else (case scan_lines k 0 (split_on newline b) Map.empty of
                  Inl (line, offset) \<Rightarrow>
                    (Inl CorruptLine, preserve_recovery k line (lit ''invalid_json_at_'' @ decimal offset) f)
                | Inr v \<Rightarrow> (Inr v, f)))"

definition latest_records ::
    "('c, 'v) ledger_codec \<Rightarrow> ledger_files \<Rightarrow> (ledger_error + ('c, 'v) ledger_view) \<times> ledger_files" where
  "latest_records k f = scan_locked k f"

definition append_locked ::
    "('c, 'v) ledger_codec \<Rightarrow> ('c, 'v) ledger_record \<Rightarrow> ledger_files \<Rightarrow> ledger_files" where
  "append_locked k r f =
     f\<lparr>ledger := Some ((case ledger f of None \<Rightarrow> [] | Some b \<Rightarrow> b) @ encode k r @ [newline])\<rparr>"

record ('c, 'v) conflict_details =
  con_run :: rstr
  con_request :: rstr
  con_hash :: rstr
  con_agent :: rstr
  con_command :: "'c option"
  con_result :: "'v option"
  con_reason :: rstr

definition append_conflict_locked ::
    "('c, 'v) ledger_codec \<Rightarrow> ('c, 'v) ledger_record \<Rightarrow> ('c, 'v) conflict_details \<Rightarrow> ledger_files \<Rightarrow> ledger_files" where
  "append_conflict_locked k canonical d f =
     append_locked k
       \<lparr>run_id = con_run d, request_id = con_request d, command_hash = con_hash d, status = conflict_status,
        agent_id = Some (con_agent d), command = con_command d, stored_result = con_result d,
        reason = Some (con_reason d), conflict = Some (record_value k canonical)\<rparr> f"

definition validate_identity :: "rstr \<Rightarrow> rstr \<Rightarrow> rstr \<Rightarrow> rstr \<Rightarrow> bool" where
  "validate_identity run request hash agent \<longleftrightarrow>
     trim run \<noteq> [] \<and> trim request \<noteq> [] \<and> trim hash \<noteq> [] \<and> trim agent \<noteq> []"

text \<open>Every operation scans the ledger first and fails when that fails.\<close>

definition with_scan ::
    "('c, 'v) ledger_codec \<Rightarrow> (('c, 'v) ledger_view \<Rightarrow> ledger_files \<Rightarrow> (ledger_error + 'a) \<times> ledger_files) \<Rightarrow>
     ledger_files \<Rightarrow> (ledger_error + 'a) \<times> ledger_files" where
  "with_scan k body f =
     (case scan_locked k f of (Inl e, f') \<Rightarrow> (Inl e, f') | (Inr v, f') \<Rightarrow> body v f')"

subsection \<open>Compaction\<close>

definition terminal_record :: "('c, 'v) ledger_record \<Rightarrow> bool" where
  "terminal_record r \<longleftrightarrow> status r = completed_status \<and> agent_id r \<noteq> None \<and> stored_result r \<noteq> None"

definition identity :: "('c, 'v) ledger_record \<Rightarrow> (rstr \<times> rstr \<times> rstr \<times> rstr) option" where
  "identity r = map_option (\<lambda>a. (run_id r, request_id r, command_hash r, a)) (agent_id r)"

fun decode_entries ::
    "('c, 'v) ledger_codec \<Rightarrow> bytes list \<Rightarrow> bytes + (bytes \<times> ('c, 'v) ledger_record) list" where
  "decode_entries k [] = Inr []"
| "decode_entries k (line # ls) =
     (if line = [] then decode_entries k ls
      else (case decode k line of
              None \<Rightarrow> Inl line
            | Some r \<Rightarrow> rbind (decode_entries k ls) (\<lambda>es. Inr ((line, r) # es))))"

text \<open>The last index at which a completed record of an identity, or a line, stands.\<close>

fun last_completed ::
    "nat \<Rightarrow> (bytes \<times> ('c, 'v) ledger_record) list \<Rightarrow> (rstr \<times> rstr \<times> rstr \<times> rstr \<rightharpoonup> nat) \<times> (bytes \<rightharpoonup> nat) \<Rightarrow>
     (rstr \<times> rstr \<times> rstr \<times> rstr \<rightharpoonup> nat) \<times> (bytes \<rightharpoonup> nat)" where
  "last_completed i [] m = m"
| "last_completed i ((line, r) # es) (by_key, by_line) =
     last_completed (Suc i) es
       (if terminal_record r
        then (case identity r of None \<Rightarrow> (by_key, by_line)
              | Some key \<Rightarrow> (by_key(key \<mapsto> i), by_line(line \<mapsto> i)))
        else (by_key, by_line))"

definition keep_entry ::
    "(rstr \<times> rstr \<times> rstr \<times> rstr \<rightharpoonup> nat) \<times> (bytes \<rightharpoonup> nat) \<Rightarrow> nat \<Rightarrow> bytes \<times> ('c, 'v) ledger_record \<Rightarrow> bool" where
  "keep_entry m i e =
     (case e of (line, r) \<Rightarrow>
        if terminal_record r then snd m line = Some i
        else if status r \<in> {accepted_status, started_status, running_status} then
          (case identity r of None \<Rightarrow> True
           | Some key \<Rightarrow> (case fst m key of None \<Rightarrow> True | Some l \<Rightarrow> l \<le> i))
        else True)"

fun kept_entries ::
    "(rstr \<times> rstr \<times> rstr \<times> rstr \<rightharpoonup> nat) \<times> (bytes \<rightharpoonup> nat) \<Rightarrow> nat \<Rightarrow> (bytes \<times> ('c, 'v) ledger_record) list \<Rightarrow>
     (bytes \<times> ('c, 'v) ledger_record) list" where
  "kept_entries m i [] = []"
| "kept_entries m i (e # es) =
     (if keep_entry m i e then e # kept_entries m (Suc i) es else kept_entries m (Suc i) es)"

definition compacted ::
    "(bytes \<times> ('c, 'v) ledger_record) list \<Rightarrow> (bytes \<times> ('c, 'v) ledger_record) list" where
  "compacted es = kept_entries (last_completed 0 es (Map.empty, Map.empty)) 0 es"

definition compact_locked ::
    "('c, 'v) ledger_codec \<Rightarrow> ledger_files \<Rightarrow> (ledger_error + unit) \<times> ledger_files" where
  "compact_locked k f =
     (case ledger f of
        None \<Rightarrow> (Inr (), f)
      | Some raw \<Rightarrow>
          if raw = [] then (Inr (), f)
          else if \<not> ends_with_newline raw then (Inl TornLine, preserve_recovery k raw (lit ''torn_final_line'') f)
          else (case decode_entries k (split_on newline raw) of
                  Inl line \<Rightarrow> (Inl CorruptLine, preserve_recovery k line (lit ''invalid_json_during_compaction'') f)
                | Inr es \<Rightarrow>
                    if length (compacted es) = length es then (Inr (), f)
                    else (Inr (), f\<lparr>backup := Some raw,
                                    ledger := Some (concat (map (\<lambda>(line, _). line @ [newline]) (compacted es)))\<rparr>)))"

definition maybe_compact_locked ::
    "('c, 'v) ledger_codec \<Rightarrow> ledger_files \<Rightarrow> (ledger_error + unit) \<times> ledger_files" where
  "maybe_compact_locked k f =
     (case ledger f of None \<Rightarrow> (Inr (), f)
      | Some b \<Rightarrow> if length b < compaction_bytes then (Inr (), f) else compact_locked k f)"

subsection \<open>The operations\<close>

definition claim_conflict ::
    "rstr \<Rightarrow> rstr \<Rightarrow> rstr \<Rightarrow> rstr \<Rightarrow> 'c option \<Rightarrow> 'v option \<Rightarrow> string \<Rightarrow> ('c, 'v) conflict_details" where
  "claim_conflict run request hash agent cmd res why =
     \<lparr>con_run = run, con_request = request, con_hash = hash, con_agent = agent, con_command = cmd,
      con_result = res, con_reason = lit why\<rparr>"

definition envelope_conflict :: "'c envelope \<Rightarrow> rstr \<Rightarrow> string \<Rightarrow> ('c, 'v) conflict_details" where
  "envelope_conflict env agent why =
     claim_conflict (env_run env) (env_request env) (env_hash env) agent (Some (env_command env)) None why"

definition accept_status :: "('c, 'v) ledger_record \<Rightarrow> ledger_error + 'v accept_outcome" where
  "accept_status r =
     (if status r = completed_status
      then rbind (ok_or CompletedResultMissing (stored_result r)) (\<lambda>v. Inr (AcceptCompleted v))
      else if status r = started_status \<or> status r = running_status then Inr DuplicateStarted
      else if status r = accepted_status then Inr DuplicateAccepted
      else Inl StatusUnusable)"

definition accept ::
    "('c, 'v) ledger_codec \<Rightarrow> 'c envelope \<Rightarrow> rstr \<Rightarrow> ledger_files \<Rightarrow>
     (ledger_error + 'v accept_outcome) \<times> ledger_files" where
  "accept k env agent f =
     (if \<not> validate_identity (env_run env) (env_request env) (env_hash env) agent then (Inl IdentityMissing, f)
      else with_scan k (\<lambda>latest f.
        case latest (env_run env) of
          None \<Rightarrow>
            (Inr FirstAccepted, append_locked k
               \<lparr>run_id = env_run env, request_id = env_request env, command_hash = env_hash env,
                status = accepted_status, agent_id = Some agent, command = Some (env_command env),
                stored_result = None, reason = None, conflict = None\<rparr> f)
        | Some existing \<Rightarrow>
            if request_id existing \<noteq> env_request env \<or> command_hash existing \<noteq> env_hash env then
              (Inr HashMismatch, append_conflict_locked k existing
                 (envelope_conflict env agent ''transport_identity_mismatch'') f)
            else (case agent_id existing of
                    None \<Rightarrow> (Inr LegacyUnowned, f)
                  | Some owner \<Rightarrow>
                      if owner \<noteq> agent then
                        (Inr AcceptOwnerMismatch, append_conflict_locked k existing
                           (envelope_conflict env agent ''transport_owner_mismatch'') f)
                      else (accept_status existing, f))) f)"

definition claim_started ::
    "('c, 'v) ledger_codec \<Rightarrow> rstr \<Rightarrow> rstr \<Rightarrow> rstr \<Rightarrow> rstr \<Rightarrow> ledger_files \<Rightarrow>
     (ledger_error + 'v claim_outcome) \<times> ledger_files" where
  "claim_started k run request hash agent f =
     (if \<not> validate_identity run request hash agent then (Inl IdentityMissing, f)
      else with_scan k (\<lambda>latest f.
        case latest run of
          None \<Rightarrow> (Inr Missing, f)
        | Some existing \<Rightarrow>
            if request_id existing \<noteq> request \<or> command_hash existing \<noteq> hash then
              (Inr ClaimOwnerMismatch, append_conflict_locked k existing
                 (claim_conflict run request hash agent None None ''transport_claim_identity_mismatch'') f)
            else (case agent_id existing of
                    None \<Rightarrow> (Inr Unowned, f)
                  | Some owner \<Rightarrow>
                      if owner \<noteq> agent then
                        (Inr ClaimOwnerMismatch, append_conflict_locked k existing
                           (claim_conflict run request hash agent None None ''transport_claim_owner_mismatch'') f)
                      else if status existing = accepted_status then
                        (Inr Claimed, append_locked k (existing\<lparr>status := started_status\<rparr>) f)
                      else if status existing = started_status \<or> status existing = running_status then
                        (Inr AlreadyStarted, f)
                      else if status existing = completed_status then
                        (rbind (ok_or CompletedResultMissing (stored_result existing)) (\<lambda>v. Inr (ClaimCompleted v)), f)
                      else (Inl ClaimStatusUnusable, f))) f)"

definition mark_completed ::
    "('c, 'v) ledger_codec \<Rightarrow> rstr \<Rightarrow> rstr \<Rightarrow> rstr \<Rightarrow> rstr \<Rightarrow> 'v \<Rightarrow> ledger_files \<Rightarrow>
     (ledger_error + completion_outcome) \<times> ledger_files" where
  "mark_completed k run request hash agent res f =
     (if \<not> validate_identity run request hash agent then (Inl IdentityMissing, f)
      else with_scan k (\<lambda>latest f.
        case latest run of
          None \<Rightarrow> (Inl RecordMissing, f)
        | Some existing \<Rightarrow>
            let con = (\<lambda>why. append_conflict_locked k existing
                  (claim_conflict run request hash agent (command existing) (Some res) why) f)
            in if request_id existing \<noteq> request \<or> command_hash existing \<noteq> hash then
                 (Inl CompletionIdentityMismatch, con ''transport_completion_identity_mismatch'')
               else if agent_id existing \<noteq> Some agent then
                 (Inl CompletionOwnerMismatch, con ''transport_completion_owner_mismatch'')
               else if status existing = completed_status then
                 (if stored_result existing = Some res then (Inr AlreadyCompleted, f)
                  else (Inl CompletionResultConflict, con ''transport_completion_result_conflict''))
               else
                 (case maybe_compact_locked k (append_locked k
                         (existing\<lparr>status := completed_status, stored_result := Some res, reason := None,
                                   conflict := None\<rparr>) f) of
                    (Inl e, f') \<Rightarrow> (Inl e, f')
                  | (Inr _, f') \<Rightarrow> (Inr Persisted, f'))) f)"

subsection \<open>Handling a delivered command\<close>

text \<open>
  The handler of a delivered envelope (\<^verbatim>\<open>handle_reliable_envelope\<close> in
  \<^verbatim>\<open>crates/agentic-gpt/src/ingress/hub.rs\<close>), in two parts: it accepts the command,
  and unless that settles the matter it claims it and, if the claim succeeds, starts it.
  What it sends is a list of messages; the event sources of a stored result are an argument
  that fails with \<open>None\<close>.
\<close>

datatype ('s, 'v) agent_message =
  TransportAck rstr rstr rstr rstr
| TransportRunStatus rstr rstr string string
| ResponseMessage rstr rstr 's 'v

definition ack_message :: "'c envelope \<Rightarrow> ('s, 'v) agent_message" where
  "ack_message env = TransportAck (env_event env) (env_run env) (env_request env) (env_hash env)"

definition status_message :: "'c envelope \<Rightarrow> string \<Rightarrow> string \<Rightarrow> ('s, 'v) agent_message" where
  "status_message env st why = TransportRunStatus (env_run env) (env_request env) st why"

definition replay :: "('c \<Rightarrow> 'v \<Rightarrow> 's option) \<Rightarrow> 'c envelope \<Rightarrow> 'v \<Rightarrow> ('s, 'v) agent_message list" where
  "replay dispositions env res =
     (case dispositions (env_command env) res of
        None \<Rightarrow> []
      | Some ss \<Rightarrow> [ack_message env, ResponseMessage (env_run env) (env_request env) ss res])"

text \<open>\<open>None\<close>: go on to the claim.\<close>

definition after_accept ::
    "('c \<Rightarrow> 'v \<Rightarrow> 's option) \<Rightarrow> 'c envelope \<Rightarrow> ledger_error + 'v accept_outcome \<Rightarrow>
     ('s, 'v) agent_message list option" where
  "after_accept dispositions env outcome =
     (case outcome of
        Inl _ \<Rightarrow> Some []
      | Inr HashMismatch \<Rightarrow> Some [status_message env ''failed'' ''command_hash_mismatch'']
      | Inr AcceptOwnerMismatch \<Rightarrow> Some [status_message env ''unknown'' ''transport_owner_mismatch'']
      | Inr LegacyUnowned \<Rightarrow> Some [status_message env ''unknown'' ''legacy_transport_record_unowned'']
      | Inr (AcceptCompleted res) \<Rightarrow> Some (replay dispositions env res)
      | Inr _ \<Rightarrow> None)"

text \<open>The messages, and whether the command is started.\<close>

definition after_claim ::
    "('c \<Rightarrow> 'v \<Rightarrow> 's option) \<Rightarrow> 'c envelope \<Rightarrow> ledger_error + 'v claim_outcome \<Rightarrow>
     ('s, 'v) agent_message list \<times> bool" where
  "after_claim dispositions env outcome =
     (case outcome of
        Inl _ \<Rightarrow> ([status_message env ''unknown'' ''transport_claim_failed''], False)
      | Inr Claimed \<Rightarrow> ([ack_message env], True)
      | Inr AlreadyStarted \<Rightarrow> ([ack_message env], False)
      | Inr (ClaimCompleted res) \<Rightarrow> (replay dispositions env res, False)
      | Inr _ \<Rightarrow> ([status_message env ''unknown'' ''transport_claim_not_owned''], False))"

definition handle_reliable_envelope ::
    "('c, 'v) ledger_codec \<Rightarrow> ('c \<Rightarrow> 'v \<Rightarrow> 's option) \<Rightarrow> rstr \<Rightarrow> 'c envelope \<Rightarrow> ledger_files \<Rightarrow>
     ('s, 'v) agent_message list \<times> bool \<times> ledger_files" where
  "handle_reliable_envelope k dispositions agent env f =
     (case accept k env agent f of (outcome, f1) \<Rightarrow>
        (case after_accept dispositions env outcome of
           Some messages \<Rightarrow> (messages, False, f1)
         | None \<Rightarrow>
             (case claim_started k (env_run env) (env_request env) (env_hash env) agent f1 of (claim, f2) \<Rightarrow>
                (case after_claim dispositions env claim of (messages, start) \<Rightarrow> (messages, start, f2)))))"

end
