(* ===== verification/Ledger_Refinement.thy ===== *)
theory Ledger_Refinement
  imports Transport_Ledger State_Machine
begin

text \<open>
  The ledger file implements a map from runs to records: scanning, appending and compacting
  the bytes are operations on that map, conflicts are invisible in it, and a crash in the
  middle of a line leaves it alone and stops the ledger. On this view the phases of a run are
  latches.
\<close>

subsection \<open>The view of a file\<close>

definition codec_ok :: "('c, 'v) ledger_codec \<Rightarrow> bool" where
  "codec_ok k \<longleftrightarrow> (\<forall>r. decode k (encode k r) = Some r \<and> encode k r \<noteq> [] \<and> newline \<notin> set (encode k r))"

text \<open>The lines that are terminated and not empty.\<close>

definition ledger_lines :: "bytes \<Rightarrow> bytes list" where
  "ledger_lines b = filter (\<lambda>l. l \<noteq> []) (butlast (split_on newline b))"

definition see_records :: "('c, 'v) ledger_record list \<Rightarrow> ('c, 'v) ledger_view" where
  "see_records rs = fold see_record rs Map.empty"

definition file_bytes :: "ledger_files \<Rightarrow> bytes" where
  "file_bytes f = (case ledger f of None \<Rightarrow> [] | Some b \<Rightarrow> b)"

definition file_ok :: "('c, 'v) ledger_codec \<Rightarrow> ledger_files \<Rightarrow> bool" where
  "file_ok k f \<longleftrightarrow> (\<forall>l \<in> set (ledger_lines (file_bytes f)). decode k l \<noteq> None)"

definition torn :: "ledger_files \<Rightarrow> bool" where
  "torn f \<longleftrightarrow> file_bytes f \<noteq> [] \<and> \<not> ends_with_newline (file_bytes f)"

definition view :: "('c, 'v) ledger_codec \<Rightarrow> ledger_files \<Rightarrow> ('c, 'v) ledger_view" where
  "view k f = see_records (map (the \<circ> decode k) (ledger_lines (file_bytes f)))"

lemma ends_with_newline_iff: "ends_with_newline b \<longleftrightarrow> (\<exists>b'. b = b' @ [newline])"
  by (simp add: ends_with_newline_def ends_with_iff)

lemma split_terminated: "split_on newline (b @ [newline]) = split_on newline b @ [[]]"
  using split_on_append [of newline b "[]"] by simp

lemma ledger_lines_terminated:
  "ledger_lines (b @ [newline]) = filter (\<lambda>l. l \<noteq> []) (split_on newline b)"
  by (simp add: ledger_lines_def split_terminated)

lemma ledger_lines_Nil [simp]: "ledger_lines [] = []"
  by (simp add: ledger_lines_def)

lemma untorn_cases:
  assumes "b = [] \<or> ends_with_newline b"
  obtains "b = []" | b' where "b = b' @ [newline]"
  using assms by (auto simp: ends_with_newline_iff)

lemma split_untorn:
  assumes "b = [] \<or> ends_with_newline b"
  shows "filter (\<lambda>l. l \<noteq> []) (split_on newline b) = ledger_lines b"
  using assms by (rule untorn_cases) (simp_all add: ledger_lines_terminated split_terminated)

text \<open>What follows the last newline does not count.\<close>

lemma ledger_lines_torn:
  assumes "b = [] \<or> ends_with_newline b" and "newline \<notin> set t"
  shows "ledger_lines (b @ t) = ledger_lines b"
  using assms(1)
proof (rule untorn_cases)
  assume "b = []"
  then show ?thesis using assms(2) by (simp add: ledger_lines_def split_on_notin)
next
  fix b' assume "b = b' @ [newline]"
  then show ?thesis
    using assms(2) split_on_append [of newline b' t] by (simp add: ledger_lines_def split_on_notin butlast_append split_terminated)
qed

lemma ledger_lines_append:
  assumes "b = [] \<or> ends_with_newline b" and "newline \<notin> set l" and "l \<noteq> []"
  shows "ledger_lines (b @ l @ [newline]) = ledger_lines b @ [l]"
  using assms(1)
proof (rule untorn_cases)
  assume "b = []"
  then show ?thesis using assms(2,3) by (simp add: ledger_lines_terminated split_on_notin)
next
  fix b' assume b: "b = b' @ [newline]"
  then have "split_on newline (b' @ newline # l) = split_on newline b' @ [l]"
    using assms(2) by (simp add: split_on_append split_on_notin)
  then show ?thesis using b assms(3) ledger_lines_terminated [of "b' @ newline # l"]
    by (simp add: ledger_lines_terminated)
qed

lemma ledger_lines_concat:
  assumes "\<forall>l \<in> set ls. l \<noteq> [] \<and> newline \<notin> set l"
  shows "ledger_lines (concat (map (\<lambda>l. l @ [newline]) ls)) = ls"
proof -
  have "split_on newline (concat (map (\<lambda>l. l @ [newline]) ls)) = ls @ [[]]"
    using assms by (induction ls) (simp_all add: split_on_append split_on_notin)
  then show ?thesis using assms by (simp add: ledger_lines_def filter_id_conv)
qed

lemma scan_lines_ok:
  assumes "\<forall>l \<in> set (filter (\<lambda>l. l \<noteq> []) ls). decode k l \<noteq> None"
  shows "scan_lines k n ls v = Inr (fold see_record (map (the \<circ> decode k) (filter (\<lambda>l. l \<noteq> []) ls)) v)"
  using assms
proof (induction ls arbitrary: n v)
  case (Cons line ls)
  then show ?case by (cases "line = []") (auto split: option.splits)
qed simp

lemma scan_ok:
  assumes "file_ok k f"
  shows "scan_locked k f =
    (if torn f then (Inl TornLine, preserve_recovery k (file_bytes f) (lit ''torn_final_line'') f)
     else (Inr (view k f), f))"
proof (cases "ledger f")
  case None
  then show ?thesis by (simp add: scan_locked_def torn_def view_def file_bytes_def see_records_def)
next
  case (Some b)
  show ?thesis
  proof (cases "b = [] \<or> ends_with_newline b")
    case True
    have lines: "filter (\<lambda>l. l \<noteq> []) (split_on newline b) = ledger_lines b"
      by (rule split_untorn [OF True])
    have "scan_lines k 0 (split_on newline b) Map.empty = Inr (view k f)"
      using assms Some
      by (subst scan_lines_ok) (simp_all add: lines file_ok_def file_bytes_def view_def see_records_def)
    with True Some show ?thesis
      by (auto simp: scan_locked_def torn_def file_bytes_def view_def see_records_def)
  next
    case False
    with Some show ?thesis by (simp add: scan_locked_def torn_def file_bytes_def)
  qed
qed

lemma untorn_bytes: "\<not> torn f \<Longrightarrow> file_bytes f = [] \<or> ends_with_newline (file_bytes f)"
  by (auto simp: torn_def)

lemma file_bytes_append: "file_bytes (append_locked k r f) = file_bytes f @ encode k r @ [newline]"
  by (simp add: append_locked_def file_bytes_def)

lemma append_ok:
  assumes "codec_ok k" and "file_ok k f" and "\<not> torn f"
  shows "file_ok k (append_locked k r f) \<and> \<not> torn (append_locked k r f) \<and>
    view k (append_locked k r f) = see_record r (view k f)"
proof -
  have "ledger_lines (file_bytes (append_locked k r f)) = ledger_lines (file_bytes f) @ [encode k r]"
    unfolding file_bytes_append
    by (rule ledger_lines_append [OF untorn_bytes [OF assms(3)]]) (use assms(1) in \<open>auto simp: codec_ok_def\<close>)
  moreover have "ends_with_newline (file_bytes (append_locked k r f))"
    by (simp add: file_bytes_append ends_with_newline_iff)
  ultimately show ?thesis
    using assms(1,2) by (simp add: file_ok_def torn_def view_def see_records_def codec_ok_def)
qed

lemma see_conflict: "status r = conflict_status \<Longrightarrow> see_record r v = v"
  by (simp add: see_record_def)

lemma append_conflict_ok:
  assumes "codec_ok k" and "file_ok k f" and "\<not> torn f"
  shows "file_ok k (append_conflict_locked k c d f) \<and> \<not> torn (append_conflict_locked k c d f) \<and>
    view k (append_conflict_locked k c d f) = view k f"
  unfolding append_conflict_locked_def using append_ok [OF assms] by (simp add: see_conflict)

subsection \<open>Compaction\<close>

lemma see_records_apply:
  "see_records rs run = List.find (\<lambda>r. run_id r = run \<and> status r \<noteq> conflict_status) (rev rs)"
proof (induction rs rule: rev_induct)
  case (snoc r rs)
  then show ?case by (auto simp: see_records_def see_record_def)
qed (simp add: see_records_def)

lemma decode_entries_ok:
  assumes "\<forall>l \<in> set (filter (\<lambda>l. l \<noteq> []) ls). decode k l \<noteq> None"
  shows "decode_entries k ls = Inr (map (\<lambda>l. (l, the (decode k l))) (filter (\<lambda>l. l \<noteq> []) ls))"
  using assms
proof (induction ls)
  case (Cons line ls)
  then show ?case by (cases "line = []") (auto split: option.splits)
qed simp

lemma last_completed_append:
  "last_completed i (xs @ ys) m = last_completed (i + length xs) ys (last_completed i xs m)"
  by (induction i xs m rule: last_completed.induct) simp_all

lemma last_completed_line:
  "\<forall>(l, r) \<in> set es. l \<noteq> line \<or> \<not> terminal_record r \<Longrightarrow> snd (last_completed i es m) line = snd m line"
  by (induction i es m rule: last_completed.induct) (auto split: option.splits)

lemma last_completed_key:
  "\<forall>(l, r) \<in> set es. terminal_record r \<longrightarrow> identity r \<noteq> Some key \<Longrightarrow> fst (last_completed i es m) key = fst m key"
  by (induction i es m rule: last_completed.induct) (auto split: option.splits)

lemma last_completed_bound:
  assumes "\<forall>l. fst m key = Some l \<longrightarrow> l < i + length es" and "fst (last_completed i es m) key = Some l"
  shows "l < i + length es"
  using assms by (induction i es m rule: last_completed.induct) (auto split: option.splits if_splits)

lemma terminal_identity: "terminal_record r \<Longrightarrow> identity r \<noteq> None"
  by (simp add: terminal_record_def identity_def)

lemma kept_entries_append:
  "kept_entries m i (xs @ ys) = kept_entries m i xs @ kept_entries m (i + length xs) ys"
  by (induction m i xs rule: kept_entries.induct) simp_all

lemma kept_entries_subset: "set (kept_entries m i es) \<subseteq> set es"
  by (induction m i es rule: kept_entries.induct) auto

text \<open>The last entry of a run stays.\<close>

lemma keep_last:
  assumes functional: "\<forall>(l, r) \<in> set (pre @ [(line, r0)] @ post). decode k l = Some r"
    and later: "\<forall>(l, r) \<in> set post. \<not> (run_id r = run_id r0 \<and> status r \<noteq> conflict_status)"
    and "status r0 \<noteq> conflict_status"
  shows "keep_entry (last_completed 0 (pre @ [(line, r0)] @ post) (Map.empty, Map.empty)) (length pre) (line, r0)"
proof -
  let ?m = "last_completed 0 pre (Map.empty, Map.empty)"
  have "r = r0" if "(line, r) \<in> set post" for r
    using functional that by force
  then have no_line: "\<forall>(l, r) \<in> set post. l \<noteq> line \<or> \<not> terminal_record r"
    using later assms(3) by auto
  have key: "\<forall>(l, r) \<in> set post. terminal_record r \<longrightarrow> identity r \<noteq> identity r0" if "identity r0 \<noteq> None"
    using later that
    by (fastforce simp: identity_def terminal_record_def completed_status_def conflict_status_def)
  show ?thesis
  proof (cases "terminal_record r0")
    case True
    with terminal_identity obtain key0 where "identity r0 = Some key0" by blast
    with True last_completed_line [OF no_line] show ?thesis
      by (cases ?m) (simp add: keep_entry_def last_completed_append)
  next
    case False
    have "l \<le> length pre"
      if "identity r0 = Some key0" "fst (last_completed 0 (pre @ [(line, r0)] @ post) (Map.empty, Map.empty)) key0 = Some l"
      for key0 l
    proof -
      have "fst (last_completed 0 (pre @ [(line, r0)] @ post) (Map.empty, Map.empty)) key0 = fst ?m key0"
        using False key that(1) last_completed_key [of post key0]
        by (cases ?m) (simp add: last_completed_append)
      with that(2) last_completed_bound [of "(Map.empty, Map.empty)" key0 0 pre l] show ?thesis by simp
    qed
    with False show ?thesis by (auto simp: keep_entry_def split: option.splits)
  qed
qed

lemma compacted_view:
  assumes "\<forall>(l, r) \<in> set es. decode k l = Some r"
  shows "see_records (map snd (compacted es)) = see_records (map snd es)"
proof
  fix run
  let ?P = "\<lambda>r. run_id r = run \<and> status r \<noteq> conflict_status" and ?m = "last_completed 0 es (Map.empty, Map.empty)"
  show "see_records (map snd (compacted es)) run = see_records (map snd es) run"
  proof (cases "List.find ?P (rev (map snd es))")
    case None
    then have "\<forall>e \<in> set (compacted es). \<not> ?P (snd e)"
      using kept_entries_subset [of ?m 0 es] unfolding find_rev_None_iff compacted_def by auto
    then have "List.find ?P (rev (map snd (compacted es))) = None" unfolding find_rev_None_iff by auto
    with None show ?thesis by (simp add: see_records_apply)
  next
    case (Some r0)
    then obtain e where e: "List.find (?P \<circ> snd) (rev es) = Some e"
      by (auto simp: find_comp rev_map)
    obtain line r where e': "e = (line, r)" by (cases e)
    from find_rev_Some [OF e, unfolded e'] obtain pre post where es: "es = pre @ [(line, r)] @ post"
      and P: "?P r" and post: "\<forall>y \<in> set post. \<not> ?P (snd y)"
      unfolding comp_apply snd_conv by blast
    have keep: "keep_entry ?m (length pre) (line, r)"
      unfolding es
    proof (rule keep_last)
      show "\<forall>(l, r) \<in> set (pre @ [(line, r)] @ post). decode k l = Some r"
        using assms unfolding es .
      show "\<forall>(l, r') \<in> set post. \<not> (run_id r' = run_id r \<and> status r' \<noteq> conflict_status)"
        using post P by (auto simp: case_prod_unfold)
      show "status r \<noteq> conflict_status" using P by simp
    qed
    have "compacted es = kept_entries ?m 0 pre @ (line, r) # kept_entries ?m (Suc (length pre)) post"
      using keep by (simp add: compacted_def kept_entries_append es)
    moreover have "\<forall>y \<in> set (kept_entries ?m (Suc (length pre)) post). \<not> ?P (snd y)"
      using post kept_entries_subset [of ?m _ post] by blast
    moreover have hit: "List.find ?P (rev (map snd (as @ (line, r) # bs))) = Some r"
      if "\<forall>y \<in> set bs. \<not> ?P (snd y)" for as bs
    proof -
      have "List.find ?P (rev (map snd bs)) = None" using that by (auto simp: find_None_iff)
      with P show ?thesis by (simp add: find_append)
    qed
    ultimately have "List.find ?P (rev (map snd (compacted es))) = Some r" by simp
    moreover have "List.find ?P (rev (map snd es)) = Some r" using hit [OF post, of pre] es by simp
    ultimately show ?thesis by (simp add: see_records_apply)
  qed
qed

lemma ledger_preserve_recovery [simp]: "ledger (preserve_recovery k raw why f) = ledger f"
  by (simp add: preserve_recovery_def Let_def)

lemma split_lines_clean: "l \<in> set (split_on newline b) \<Longrightarrow> newline \<notin> set l"
  by (rule split_on_no_sep)

lemma compact_cases:
  assumes "\<not> torn f" and "decode_entries k (split_on newline (file_bytes f)) = Inr es"
  shows "compact_locked k f = (Inr (), f) \<or>
    compact_locked k f = (Inr (), f\<lparr>backup := ledger f,
      ledger := Some (concat (map (\<lambda>(line, _). line @ [newline]) (compacted es)))\<rparr>)"
  using assms by (cases "ledger f") (auto simp: compact_locked_def torn_def file_bytes_def)

lemma compaction_view:
  assumes "file_ok k f" and "compact_locked k f = (r, f')"
  shows "if torn f then r = Inl TornLine \<and> ledger f' = ledger f
    else r = Inr () \<and> view k f' = view k f \<and> file_ok k f' \<and> \<not> torn f' \<and>
      (f' = f \<or> backup f' = ledger f)"
proof (cases "torn f")
  case True
  then obtain raw where raw: "ledger f = Some raw" "raw \<noteq> []" "\<not> ends_with_newline raw"
    by (auto simp: torn_def file_bytes_def split: option.splits)
  then have "compact_locked k f = (Inl TornLine, preserve_recovery k raw (lit ''torn_final_line'') f)"
    by (simp add: compact_locked_def)
  with assms(2) True show ?thesis by (auto simp: ledger_preserve_recovery)
next
  case False
  let ?b = "file_bytes f"
  let ?es = "map (\<lambda>l. (l, the (decode k l))) (ledger_lines ?b)"
  have lines: "filter (\<lambda>l. l \<noteq> []) (split_on newline ?b) = ledger_lines ?b"
    by (rule split_untorn [OF untorn_bytes [OF False]])
  have dec: "decode_entries k (split_on newline ?b) = Inr ?es"
    using assms(1) by (subst decode_entries_ok) (simp_all add: lines file_ok_def)
  have ok: "\<forall>(l, r) \<in> set ?es. decode k l = Some r" using assms(1) by (auto simp: file_ok_def)
  have view: "view k f = see_records (map snd ?es)" by (simp add: view_def o_def)
  have clean: "\<forall>l \<in> set (ledger_lines ?b). l \<noteq> [] \<and> newline \<notin> set l"
    using split_lines_clean [of _ ?b] by (auto simp flip: lines)
  have unchanged: "file_ok k f" "\<not> torn f" by fact+
  show ?thesis
  proof (cases "f' = f")
    case True
    with compact_cases [OF False dec] assms(2) unchanged show ?thesis by auto
  next
    case changed: False
    let ?new = "concat (map (\<lambda>(line, _). line @ [newline]) (compacted ?es))"
    from compact_cases [OF False dec] assms(2) changed
    have f': "r = Inr ()" "f' = f\<lparr>backup := ledger f, ledger := Some ?new\<rparr>" by auto
    have sub: "set (compacted ?es) \<subseteq> set ?es" unfolding compacted_def by (rule kept_entries_subset)
    have new: "?new = concat (map (\<lambda>l. l @ [newline]) (map fst (compacted ?es)))"
      by (simp add: case_prod_unfold o_def)
    have "\<forall>l \<in> set (map fst (compacted ?es)). l \<noteq> [] \<and> newline \<notin> set l"
      using sub clean by auto
    then have l': "ledger_lines ?new = map fst (compacted ?es)" unfolding new by (rule ledger_lines_concat)
    have ok': "decode k l = Some r" if "(l, r) \<in> set (compacted ?es)" for l r using sub ok that by blast
    then have "map (the \<circ> decode k) (map fst (compacted ?es)) = map snd (compacted ?es)" by auto
    moreover have fb: "file_bytes f' = ?new" by (simp add: f' file_bytes_def)
    ultimately have "view k f' = see_records (map snd (compacted ?es))"
      unfolding view_def fb l' by (simp del: map_map)
    then have "view k f' = view k f" using compacted_view [OF ok] view by simp
    moreover have "file_ok k f'" unfolding file_ok_def fb l' using ok' by auto
    moreover have "\<not> torn f'" unfolding torn_def fb
      by (cases "compacted ?es" rule: rev_cases) (auto simp: ends_with_newline_iff)
    ultimately show ?thesis using False f' by simp
  qed
qed

text \<open>C30.
  Compacting the ledger keeps what it says: however many completed duplicates and superseded
  entries the compaction removes, every run has the same latest record as before, the file
  stays well formed, and the replaced bytes are in the backup.
\<close>

theorem compaction_preserves_view:
  assumes "file_ok k f" and "compact_locked k f = (r, f')"
  shows "if torn f then r = Inl TornLine \<and> ledger f' = ledger f
    else r = Inr () \<and> view k f' = view k f \<and> file_ok k f' \<and> \<not> torn f' \<and>
      (f' = f \<or> backup f' = ledger f)"
  using compaction_view [OF assms] .

subsection \<open>The operations on the view\<close>

text \<open>What the operations promise, without bytes, conflicts and compaction.\<close>

definition spec_accept ::
    "'c envelope \<Rightarrow> rstr \<Rightarrow> ('c, 'v) ledger_view \<Rightarrow> (ledger_error + 'v accept_outcome) \<times> ('c, 'v) ledger_view" where
  "spec_accept env agent v =
     (if \<not> validate_identity (env_run env) (env_request env) (env_hash env) agent then (Inl IdentityMissing, v)
      else case v (env_run env) of
        None \<Rightarrow> (Inr FirstAccepted, v(env_run env \<mapsto>
          \<lparr>run_id = env_run env, request_id = env_request env, command_hash = env_hash env,
           status = accepted_status, agent_id = Some agent, command = Some (env_command env),
           stored_result = None, reason = None, conflict = None\<rparr>))
      | Some r \<Rightarrow>
          ((if request_id r \<noteq> env_request env \<or> command_hash r \<noteq> env_hash env then Inr HashMismatch
            else case agent_id r of None \<Rightarrow> Inr LegacyUnowned
              | Some owner \<Rightarrow> if owner \<noteq> agent then Inr AcceptOwnerMismatch else accept_status r), v))"

definition spec_claim ::
    "rstr \<Rightarrow> rstr \<Rightarrow> rstr \<Rightarrow> rstr \<Rightarrow> ('c, 'v) ledger_view \<Rightarrow> (ledger_error + 'v claim_outcome) \<times> ('c, 'v) ledger_view" where
  "spec_claim run request hash agent v =
     (if \<not> validate_identity run request hash agent then (Inl IdentityMissing, v)
      else case v run of None \<Rightarrow> (Inr Missing, v)
      | Some r \<Rightarrow>
          if request_id r \<noteq> request \<or> command_hash r \<noteq> hash then (Inr ClaimOwnerMismatch, v)
          else if agent_id r = None then (Inr Unowned, v)
          else if agent_id r \<noteq> Some agent then (Inr ClaimOwnerMismatch, v)
          else if status r = accepted_status then (Inr Claimed, v(run \<mapsto> r\<lparr>status := started_status\<rparr>))
          else if status r = started_status \<or> status r = running_status then (Inr AlreadyStarted, v)
          else if status r = completed_status then
            (case stored_result r of None \<Rightarrow> Inl CompletedResultMissing | Some res \<Rightarrow> Inr (ClaimCompleted res), v)
          else (Inl ClaimStatusUnusable, v))"

definition spec_complete ::
    "rstr \<Rightarrow> rstr \<Rightarrow> rstr \<Rightarrow> rstr \<Rightarrow> 'v \<Rightarrow> ('c, 'v) ledger_view \<Rightarrow>
     (ledger_error + completion_outcome) \<times> ('c, 'v) ledger_view" where
  "spec_complete run request hash agent res v =
     (if \<not> validate_identity run request hash agent then (Inl IdentityMissing, v)
      else case v run of None \<Rightarrow> (Inl RecordMissing, v)
      | Some r \<Rightarrow>
          if request_id r \<noteq> request \<or> command_hash r \<noteq> hash then (Inl CompletionIdentityMismatch, v)
          else if agent_id r \<noteq> Some agent then (Inl CompletionOwnerMismatch, v)
          else if status r = completed_status then
            ((if stored_result r = Some res then Inr AlreadyCompleted else Inl CompletionResultConflict), v)
          else (Inr Persisted, v(run \<mapsto> r\<lparr>status := completed_status, stored_result := Some res, reason := None,
                                          conflict := None\<rparr>)))"

lemma view_SomeD:
  assumes "view k f run = Some r"
  shows "run_id r = run" and "status r \<noteq> conflict_status"
  using assms by (auto simp: view_def see_records_apply find_Some_iff)

text \<open>An operation keeps the file well formed and is \<open>o'\<close> on its view.\<close>

definition implements ::
    "('c, 'v) ledger_codec \<Rightarrow> (ledger_error + 'a) \<times> ledger_files \<Rightarrow> (ledger_error + 'a) \<times> ('c, 'v) ledger_view \<Rightarrow> bool" where
  "implements k ro sv \<longleftrightarrow> fst ro = fst sv \<and> view k (snd ro) = snd sv \<and> file_ok k (snd ro) \<and> \<not> torn (snd ro)"

lemma maybe_compact_ok:
  assumes "file_ok k f" and "\<not> torn f" and "maybe_compact_locked k f = (r, f')"
  shows "r = Inr () \<and> view k f' = view k f \<and> file_ok k f' \<and> \<not> torn f'"
proof (cases "f' = f \<and> r = Inr ()")
  case False
  with assms(3) have "compact_locked k f = (r, f')"
    by (auto simp: maybe_compact_locked_def split: option.splits if_splits)
  from compaction_view [OF assms(1) this] assms(2) show ?thesis by simp
qed (use assms in auto)

lemma with_scan_ok:
  assumes "file_ok k f" and "\<not> torn f"
  shows "with_scan k body f = body (view k f) f"
  using scan_ok [OF assms(1)] assms(2) by (simp add: with_scan_def)

lemma status_distinct [simp]:
  "accepted_status \<noteq> conflict_status" "started_status \<noteq> conflict_status" "completed_status \<noteq> conflict_status"
  "started_status \<noteq> accepted_status" "completed_status \<noteq> accepted_status" "running_status \<noteq> accepted_status"
  "accepted_status \<noteq> started_status" "accepted_status \<noteq> completed_status" "accepted_status \<noteq> running_status"
  by (simp_all add: accepted_status_def conflict_status_def started_status_def completed_status_def running_status_def)

lemma accept_implements:
  assumes "codec_ok k" and "file_ok k f" and "\<not> torn f"
  shows "implements k (accept k env agent f) (spec_accept env agent (view k f))"
  using append_ok [OF assms] append_conflict_ok [OF assms] assms(2,3)
  by (auto simp: implements_def accept_def spec_accept_def with_scan_ok see_record_def split: option.split)

lemma claim_implements:
  assumes "codec_ok k" and "file_ok k f" and "\<not> torn f"
  shows "implements k (claim_started k run request hash agent f) (spec_claim run request hash agent (view k f))"
  using append_ok [OF assms] append_conflict_ok [OF assms] assms(2,3) view_SomeD [of k f run]
  by (auto simp: implements_def claim_started_def spec_claim_def with_scan_ok see_record_def split: option.split)

lemma complete_implements:
  assumes "codec_ok k" and "file_ok k f" and "\<not> torn f"
  shows "implements k (mark_completed k run request hash agent res f) (spec_complete run request hash agent res (view k f))"
proof (cases "view k f run")
  case None
  then show ?thesis
    using assms(2,3) by (simp add: implements_def mark_completed_def spec_complete_def with_scan_ok)
next
  case (Some r)
  let ?r = "r\<lparr>status := completed_status, stored_result := Some res, reason := None, conflict := None\<rparr>"
  obtain o' f' where c: "maybe_compact_locked k (append_locked k ?r f) = (o', f')" by fastforce
  have a: "file_ok k (append_locked k ?r f)" "\<not> torn (append_locked k ?r f)"
    "view k (append_locked k ?r f) = see_record ?r (view k f)" using append_ok [OF assms] by blast+
  from maybe_compact_ok [OF a(1,2) c] a(3)
  have "o' = Inr ()" "view k f' = see_record ?r (view k f)" "file_ok k f'" "\<not> torn f'" by simp_all
  then show ?thesis
    using append_conflict_ok [OF assms] assms(2,3) view_SomeD [OF Some] Some c
    by (auto simp: implements_def mark_completed_def spec_complete_def with_scan_ok see_record_def Let_def)
qed

text \<open>C21.
  The ledger is a map from runs to records: on a well-formed file each operation has the
  outcome and the effect of the abstract operation on the view of the file, conflicts and
  compaction change nothing in it, and the file stays well formed.
\<close>

theorem ledger_refines_map:
  assumes "codec_ok k" and "file_ok k f" and "\<not> torn f"
  shows "implements k (accept k env agent f) (spec_accept env agent (view k f)) \<and>
    implements k (claim_started k run request hash agent f) (spec_claim run request hash agent (view k f)) \<and>
    implements k (mark_completed k run request hash agent res f) (spec_complete run request hash agent res (view k f))"
  by (intro conjI accept_implements claim_implements complete_implements assms)

subsection \<open>A codec\<close>

text \<open>Strings with their length in front, shifted to leave out the newline.\<close>

definition put :: "rstr \<Rightarrow> bytes" where "put s = int (length s) # s"

definition put_opt :: "rstr option \<Rightarrow> bytes" where
  "put_opt x = (case x of None \<Rightarrow> [0] | Some s \<Rightarrow> 1 # put s)"

fun get_str :: "bytes \<Rightarrow> (rstr \<times> bytes) option" where
  "get_str [] = None"
| "get_str (n # b) = (if 0 \<le> n \<and> nat n \<le> length b then Some (take (nat n) b, drop (nat n) b) else None)"

fun get_opt :: "bytes \<Rightarrow> (rstr option \<times> bytes) option" where
  "get_opt [] = None"
| "get_opt (t # b) = (if t = 0 then Some (None, b) else map_option (\<lambda>(s, r). (Some s, r)) (get_str b))"

definition sample_encode :: "(rstr, rstr) ledger_record \<Rightarrow> bytes" where
  "sample_encode r = map (\<lambda>c. if newline \<le> c then c + 1 else c)
     (put (run_id r) @ put (request_id r) @ put (command_hash r) @ put (status r) @ put_opt (agent_id r) @
      put_opt (command r) @ put_opt (stored_result r) @ put_opt (reason r) @ put_opt (conflict r))"

definition sample_decode :: "bytes \<Rightarrow> (rstr, rstr) ledger_record option" where
  "sample_decode b0 =
     Option.bind (get_str (map (\<lambda>c. if newline < c then c - 1 else c) b0)) (\<lambda>(run, b).
     Option.bind (get_str b) (\<lambda>(request, b).
     Option.bind (get_str b) (\<lambda>(hash, b).
     Option.bind (get_str b) (\<lambda>(st, b).
     Option.bind (get_opt b) (\<lambda>(agent, b).
     Option.bind (get_opt b) (\<lambda>(cmd, b).
     Option.bind (get_opt b) (\<lambda>(res, b).
     Option.bind (get_opt b) (\<lambda>(why, b).
     Option.bind (get_opt b) (\<lambda>(con, b).
       Some \<lparr>run_id = run, request_id = request, command_hash = hash, status = st, agent_id = agent, command = cmd,
             stored_result = res, reason = why, conflict = con\<rparr>)))))))))"

definition sample_codec :: "(rstr, rstr) ledger_codec" where
  "sample_codec = \<lparr>encode = sample_encode, decode = sample_decode, record_value = (\<lambda>r. run_id r), digest_hex = (\<lambda>b. [])\<rparr>"

lemma get_put: "get_str (put s @ b) = Some (s, b)"
  by (simp add: put_def)

lemma get_put_opt: "get_opt (put_opt x @ b) = Some (x, b)"
  using get_put by (cases x) (simp_all add: put_opt_def)

lemma sample_codec_ok: "codec_ok sample_codec"
proof -
  have unshift: "map (\<lambda>c. if newline < c then c - 1 else c) (map (\<lambda>c. if newline \<le> c then c + 1 else c) b) = b" for b
    by (induction b) auto
  have "sample_decode (sample_encode r) = Some r" for r
    using get_put_opt [of "conflict r" "[]"]
    by (simp only: sample_decode_def sample_encode_def unshift) (simp add: get_put get_put_opt)
  moreover have "newline \<notin> set (sample_encode r)" for r by (auto simp: sample_encode_def)
  moreover have "sample_encode r \<noteq> []" for r by (simp add: sample_encode_def put_def)
  ultimately show ?thesis by (simp add: codec_ok_def sample_codec_def)
qed

definition empty_files :: ledger_files where
  "empty_files = \<lparr>ledger = None, recovery = None, backup = None\<rparr>"

definition sample_envelope :: "rstr envelope" where
  "sample_envelope = \<lparr>env_event = lit ''e'', env_run = lit ''r1'', env_request = lit ''q1'', env_hash = lit ''h1'',
     env_command = lit ''cmd''\<rparr>"

lemma empty_files_ok: "file_ok k empty_files" "\<not> torn empty_files"
  by (simp_all add: file_ok_def torn_def file_bytes_def empty_files_def)

lemma ledger_refines_map_witness:
  "implements sample_codec (accept sample_codec sample_envelope (lit ''a'') empty_files)
     (spec_accept sample_envelope (lit ''a'') (view sample_codec empty_files))"
  using ledger_refines_map [OF sample_codec_ok empty_files_ok, of sample_envelope "lit ''a''"] by blast

definition sample_accepted :: ledger_files where
  "sample_accepted = snd (accept sample_codec sample_envelope (lit ''a'') empty_files)"

definition sample_started :: ledger_files where
  "sample_started = snd (claim_started sample_codec (lit ''r1'') (lit ''q1'') (lit ''h1'') (lit ''a'') sample_accepted)"

definition sample_completed :: ledger_files where
  "sample_completed =
     snd (mark_completed sample_codec (lit ''r1'') (lit ''q1'') (lit ''h1'') (lit ''a'') (lit ''ok'') sample_started)"

lemma sample_files_ok:
  "file_ok sample_codec sample_completed" "\<not> torn sample_completed"
proof -
  note imp = accept_implements claim_implements complete_implements
  have 1: "file_ok sample_codec sample_accepted \<and> \<not> torn sample_accepted"
    using accept_implements [OF sample_codec_ok empty_files_ok] by (simp add: implements_def sample_accepted_def)
  then have 2: "file_ok sample_codec sample_started \<and> \<not> torn sample_started"
    using claim_implements [OF sample_codec_ok] by (simp add: implements_def sample_started_def)
  then show "file_ok sample_codec sample_completed" "\<not> torn sample_completed"
    using complete_implements [OF sample_codec_ok] by (simp_all add: implements_def sample_completed_def)
qed

lemma compaction_preserves_view_witness:
  "view sample_codec (snd (compact_locked sample_codec sample_completed)) = view sample_codec sample_completed"
proof -
  have "compact_locked sample_codec sample_completed =
      (fst (compact_locked sample_codec sample_completed), snd (compact_locked sample_codec sample_completed))"
    by simp
  from compaction_preserves_view [OF sample_files_ok(1) this] sample_files_ok(2) show ?thesis by simp
qed

end
