(* ===== verification/Ledger_Runs.thy ===== *)
theory Ledger_Runs
  imports Ledger_Refinement
begin

text \<open>
  Runs over any interleaving of the operations on the ledger and of crashes: a run is claimed at
  most once, and its identity and its result never change.
\<close>

subsection \<open>Steps\<close>

text \<open>
  The files and the runs that were started. Two deliveries of one command, or of the same
  run by another connection, interleave between their two ledger operations; a crash leaves
  any part of a line at the end of the file.
\<close>

type_synonym ledger_state = "ledger_files \<times> rstr list"

inductive ledger_step :: "('c, 'v) ledger_codec \<Rightarrow> ledger_state \<Rightarrow> ledger_state \<Rightarrow> bool"
  for k :: "('c, 'v) ledger_codec" where
  step_accept: "ledger_step k (f, x) (snd (accept k env agent f), x)"
| step_claim:
    "claim_started k run request hash agent f = (outcome, f') \<Longrightarrow>
     ledger_step k (f, x) (f', if outcome = Inr Claimed then run # x else x)"
| step_complete: "ledger_step k (f, x) (snd (mark_completed k run request hash agent res f), x)"
| step_scan: "ledger_step k (f, x) (snd (latest_records k f), x)"
| step_crash: "\<not> torn f \<Longrightarrow> newline \<notin> set t \<Longrightarrow> ledger_step k (f, x) (f\<lparr>ledger := Some (file_bytes f @ t)\<rparr>, x)"

inductive_cases ledger_stepE: "ledger_step k s s'"

definition no_runs :: "ledger_state \<Rightarrow> bool" where
  "no_runs s \<longleftrightarrow> ledger (fst s) = None \<and> snd s = []"

text \<open>What may become of the record of a run.\<close>

inductive record_step :: "('c, 'v) ledger_record option \<Rightarrow> ('c, 'v) ledger_record option \<Rightarrow> bool" where
  record_same: "record_step r r"
| record_new: "status r = accepted_status \<Longrightarrow> record_step None (Some r)"
| record_start: "status r = accepted_status \<Longrightarrow> record_step (Some r) (Some (r\<lparr>status := started_status\<rparr>))"
| record_done:
    "status r \<noteq> completed_status \<Longrightarrow>
     record_step (Some r)
       (Some (r\<lparr>status := completed_status, stored_result := Some res, reason := None, conflict := None\<rparr>))"

inductive_cases record_stepE: "record_step r r'"

lemma spec_accept_step: "record_step (v run) (snd (spec_accept env agent v) run)"
  by (auto simp: spec_accept_def split: option.split intro: record_step.intros)

lemma spec_claim_step: "record_step (v run) (snd (spec_claim run' request hash agent v) run)"
  by (auto simp: spec_claim_def split: option.split intro: record_step.intros)

lemma spec_complete_step: "record_step (v run) (snd (spec_complete run' request hash agent res v) run)"
  by (auto simp: spec_complete_def split: option.split intro: record_step.intros)

lemma spec_claim_Claimed:
  assumes "fst (spec_claim run request hash agent v) = Inr Claimed"
  shows "(\<exists>r. v run = Some r \<and> status r = accepted_status) \<and>
    (\<exists>r. snd (spec_claim run request hash agent v) run = Some r \<and> status r = started_status)"
  using assms by (auto simp: spec_claim_def split: option.splits if_splits)

subsection \<open>A torn file\<close>

lemma scan_torn:
  "file_ok k f \<Longrightarrow> torn f \<Longrightarrow> scan_locked k f =
    (Inl TornLine, preserve_recovery k (file_bytes f) (lit ''torn_final_line'') f)"
  by (simp add: scan_ok)

lemma view_preserve_recovery [simp]:
  "view k (preserve_recovery k raw why f) = view k f" "file_ok k (preserve_recovery k raw why f) = file_ok k f"
  "torn (preserve_recovery k raw why f) = torn f"
  by (simp_all add: view_def file_ok_def torn_def file_bytes_def)

lemma torn_operations:
  assumes "file_ok k f" and "torn f"
  shows torn_accept: "fst (accept k env agent f) \<in> {Inl IdentityMissing, Inl TornLine} \<and>
      ledger (snd (accept k env agent f)) = ledger f"
    and torn_claim: "fst (claim_started k run request hash agent f) \<in> {Inl IdentityMissing, Inl TornLine} \<and>
      ledger (snd (claim_started k run request hash agent f)) = ledger f"
    and torn_complete: "fst (mark_completed k run request hash agent res f) \<in> {Inl IdentityMissing, Inl TornLine} \<and>
      ledger (snd (mark_completed k run request hash agent res f)) = ledger f"
  using scan_torn [OF assms] by (simp_all add: accept_def claim_started_def mark_completed_def with_scan_def)

lemma view_ledger: "ledger f' = ledger f \<Longrightarrow> view k f' = view k f \<and> file_ok k f' = file_ok k f \<and> torn f' = torn f"
  by (simp add: view_def file_ok_def torn_def file_bytes_def)

lemma crash_view:
  assumes "\<not> torn f" and "newline \<notin> set t"
  shows "view k (f\<lparr>ledger := Some (file_bytes f @ t)\<rparr>) = view k f \<and>
    file_ok k (f\<lparr>ledger := Some (file_bytes f @ t)\<rparr>) = file_ok k f"
proof -
  have "file_bytes (f\<lparr>ledger := Some (file_bytes f @ t)\<rparr>) = file_bytes f @ t" by (simp add: file_bytes_def)
  then show ?thesis
    unfolding view_def file_ok_def
    using ledger_lines_torn [OF untorn_bytes [OF assms(1)] assms(2)] by simp
qed

subsection \<open>Every step\<close>

lemma implements_snd:
  assumes "implements k ro sv"
  shows "view k (snd ro) = snd sv" "file_ok k (snd ro)" "fst ro = fst sv"
  using assms by (simp_all add: implements_def)

lemma claim_step_cases:
  assumes "codec_ok k" and "file_ok k f" and "claim_started k run request hash agent f = (outcome, f')"
  shows "file_ok k f' \<and> record_step (view k f run') (view k f' run') \<and>
    (outcome = Inr Claimed \<longrightarrow> (\<exists>r. view k f run = Some r \<and> status r = accepted_status) \<and>
       (\<exists>r. view k f' run = Some r \<and> status r = started_status))"
proof (cases "torn f")
  case True
  from torn_claim [OF assms(2) True, of run request hash agent] assms(3)
  have "outcome \<noteq> Inr Claimed" "ledger f' = ledger f" by auto
  then show ?thesis using assms(2) view_ledger [of f' f k] by (auto intro: record_same)
next
  case False
  from implements_snd [OF claim_implements [OF assms(1,2) False, of run request hash agent], unfolded assms(3)]
  show ?thesis
    using spec_claim_Claimed [of run request hash agent "view k f"] spec_claim_step [of "view k f" run' run request hash agent]
    by simp
qed

lemma ledger_step_view:
  assumes "codec_ok k" and "ledger_step k s s'" and "file_ok k (fst s)"
  shows "file_ok k (fst s') \<and> record_step (view k (fst s) run) (view k (fst s') run)"
  using assms(2,3)
proof (cases rule: ledger_step.cases)
  case (step_accept f x env agent)
  show ?thesis
  proof (cases "torn f")
    case True
    with torn_accept [of k f env agent] view_ledger [of "snd (accept k env agent f)" f k] assms(3) step_accept
    show ?thesis by (auto intro: record_same)
  next
    case False
    with accept_implements [OF assms(1), of f env agent, THEN implements_snd(1)]
      accept_implements [OF assms(1), of f env agent, THEN implements_snd(2)] assms(3) step_accept
    show ?thesis by (simp add: spec_accept_step)
  qed
next
  case (step_claim run' request hash agent f outcome f' x)
  with claim_step_cases [OF assms(1) _ step_claim(3)] assms(3) show ?thesis by simp
next
  case (step_complete f x run' request hash agent res)
  show ?thesis
  proof (cases "torn f")
    case True
    with torn_complete [of k f run' request hash agent res]
      view_ledger [of "snd (mark_completed k run' request hash agent res f)" f k] assms(3) step_complete
    show ?thesis by (auto intro: record_same)
  next
    case False
    with complete_implements [OF assms(1), of f run' request hash agent res, THEN implements_snd(1)]
      complete_implements [OF assms(1), of f run' request hash agent res, THEN implements_snd(2)] assms(3) step_complete
    show ?thesis by (simp add: spec_complete_step)
  qed
next
  case (step_scan f x)
  with assms(3) show ?thesis by (auto simp: latest_records_def scan_ok intro: record_same)
next
  case (step_crash f t x)
  with assms(3) crash_view [OF step_crash(3,4)] show ?thesis by (auto intro: record_same)
qed

subsection \<open>Latches of a run\<close>

definition run_started :: "('c, 'v) ledger_codec \<Rightarrow> rstr \<Rightarrow> ledger_state \<Rightarrow> unit option" where
  "run_started k run s =
     (case view k (fst s) run of None \<Rightarrow> None | Some r \<Rightarrow> if status r = accepted_status then None else Some ())"

definition run_identity :: "('c, 'v) ledger_codec \<Rightarrow> rstr \<Rightarrow> ledger_state \<Rightarrow> (rstr \<times> rstr \<times> rstr option \<times> 'c option) option" where
  "run_identity k run s =
     map_option (\<lambda>r. (request_id r, command_hash r, agent_id r, command r)) (view k (fst s) run)"

definition run_result :: "('c, 'v) ledger_codec \<Rightarrow> rstr \<Rightarrow> ledger_state \<Rightarrow> 'v option option" where
  "run_result k run s =
     (case view k (fst s) run of None \<Rightarrow> None
      | Some r \<Rightarrow> if status r = completed_status then Some (stored_result r) else None)"

definition run_starts :: "rstr \<Rightarrow> ledger_state \<Rightarrow> nat" where
  "run_starts run s = count_list (snd s) run"

definition ledger_inv :: "('c, 'v) ledger_codec \<Rightarrow> ledger_state \<Rightarrow> bool" where
  "ledger_inv k s \<longleftrightarrow> codec_ok k \<and> file_ok k (fst s) \<and>
     (\<forall>run. run \<in> set (snd s) \<longrightarrow> run_started k run s \<noteq> None) \<and> distinct (snd s)"

definition fresh_ledger :: "('c, 'v) ledger_codec \<Rightarrow> ledger_state \<Rightarrow> bool" where
  "fresh_ledger k s \<longleftrightarrow> codec_ok k \<and> no_runs s"

lemma fresh_ledger_inv: "fresh_ledger k s \<Longrightarrow> ledger_inv k s"
  by (simp add: fresh_ledger_def no_runs_def ledger_inv_def file_ok_def file_bytes_def)

lemma run_started_kept:
  assumes "record_step (view k f run) (view k f' run)" and "run_started k run (f, x) = Some v"
  shows "run_started k run (f', x') = Some v"
  using assms by (cases rule: record_step.cases) (auto simp: run_started_def split: option.splits if_splits)

lemma run_identity_kept:
  assumes "record_step (view k f run) (view k f' run)" and "run_identity k run (f, x) = Some v"
  shows "run_identity k run (f', x') = Some v"
  using assms by (cases rule: record_step.cases) (auto simp: run_identity_def)

lemma run_result_kept:
  assumes "record_step (view k f run) (view k f' run)" and "run_result k run (f, x) = Some v"
  shows "run_result k run (f', x') = Some v"
  using assms by (cases rule: record_step.cases) (auto simp: run_result_def split: option.splits if_splits)

text \<open>A step starts nothing, or one run that was accepted before it and is started after it.\<close>

lemma step_starts:
  assumes "codec_ok k" and "ledger_step k s s'" and "file_ok k (fst s)"
  shows "snd s' = snd s \<or> (\<exists>run. snd s' = run # snd s \<and> run_started k run s = None \<and> run_started k run s' \<noteq> None)"
  using assms(2,3)
proof (cases rule: ledger_step.cases)
  case (step_claim run request hash agent f outcome f' x)
  with claim_step_cases [OF assms(1) _ step_claim(3), where run' = run] assms(3) show ?thesis
    by (cases "outcome = Inr Claimed") (auto simp: run_started_def)
qed simp_all

lemma ledger_inv_step:
  assumes "ledger_inv k s" and "ledger_step k s s'"
  shows "ledger_inv k s'"
proof -
  have k: "codec_ok k" and f: "file_ok k (fst s)" using assms(1) by (simp_all add: ledger_inv_def)
  have kept: "run_started k run s' \<noteq> None" if "run_started k run s \<noteq> None" for run
    using run_started_kept [of k "fst s" run "fst s'" "snd s" _ "snd s'"] ledger_step_view [OF k assms(2) f, of run] that
    by auto
  from step_starts [OF k assms(2) f] show ?thesis
  proof
    assume "snd s' = snd s"
    with kept assms(1) ledger_step_view [OF k assms(2) f] show ?thesis by (auto simp: ledger_inv_def)
  next
    assume "\<exists>run. snd s' = run # snd s \<and> run_started k run s = None \<and> run_started k run s' \<noteq> None"
    with kept assms(1) ledger_step_view [OF k assms(2) f] show ?thesis by (auto simp: ledger_inv_def)
  qed
qed

interpretation runs: transition_system "fresh_ledger k" "ledger_step k" "ledger_inv k"
  for k :: "('c, 'v) ledger_codec"
  by unfold_locales (auto intro: fresh_ledger_inv ledger_inv_step)

lemma ledger_latch_step:
  assumes "ledger_inv k s" and "ledger_step k s s'"
  shows "record_step (view k (fst s) run) (view k (fst s') run)"
  using ledger_step_view [OF _ assms(2)] assms(1) by (simp add: ledger_inv_def)

interpretation run_ids: latch "fresh_ledger k" "ledger_step k" "ledger_inv k" "run_identity k run"
  for k :: "('c, 'v) ledger_codec" and run
  by unfold_locales (metis ledger_latch_step run_identity_kept prod.collapse)

interpretation run_results: latch "fresh_ledger k" "ledger_step k" "ledger_inv k" "run_result k run"
  for k :: "('c, 'v) ledger_codec" and run
  by unfold_locales (metis ledger_latch_step run_result_kept prod.collapse)

lemma run_starts_step:
  assumes "ledger_inv k s" and "ledger_step k s s'"
  shows "run_starts run s' = run_starts run s \<or> (run_started k run s = None \<and> run_starts run s' = 1)"
proof -
  have k: "codec_ok k" and f: "file_ok k (fst s)" using assms(1) by (simp_all add: ledger_inv_def)
  have unstarted: "run \<notin> set (snd s)" if "run_started k run s = None" for run
    using that assms(1) by (auto simp: ledger_inv_def)
  from step_starts [OF k assms(2) f] show ?thesis
    using unstarted by (auto simp: run_starts_def count_list_0_iff split: if_splits)
qed

interpretation starts: once "fresh_ledger k" "ledger_step k" "ledger_inv k" "run_started k run" "run_starts run"
  for k :: "('c, 'v) ledger_codec" and run
proof unfold_locales
  fix s s' v
  show "fresh_ledger k s \<Longrightarrow> run_starts run s = 0"
    by (simp add: fresh_ledger_def no_runs_def run_starts_def)
  show zero: "ledger_inv k s \<Longrightarrow> run_started k run s = None \<Longrightarrow> run_starts run s = 0" for s
    by (auto simp: ledger_inv_def run_starts_def count_list_0_iff)
  show "ledger_inv k s \<Longrightarrow> ledger_step k s s' \<Longrightarrow> run_started k run s = Some v \<Longrightarrow> run_started k run s' = Some v"
    by (metis ledger_latch_step run_started_kept prod.collapse)
  show "ledger_inv k s \<Longrightarrow> ledger_step k s s' \<Longrightarrow> run_started k run s = None \<Longrightarrow> run_starts run s' \<le> 1"
    using run_starts_step [of k s s' run] zero [of s] by auto
  show "ledger_inv k s \<Longrightarrow> ledger_step k s s' \<Longrightarrow> run_started k run s = Some v \<Longrightarrow> run_starts run s' \<le> run_starts run s"
    using run_starts_step [of k s s' run] by auto
qed

subsection \<open>Properties\<close>

text \<open>
  The ledger hands out every run at most once, and never again once it was started. That the
  handlers start a command exactly when they were handed its run is in \<open>Command_Starts\<close>.
\<close>

lemma claimed_at_most_once:
  assumes "reachable (fresh_ledger k) (ledger_step k) s" and "(ledger_step k)\<^sup>*\<^sup>* s s'"
  shows "run_starts run s' \<le> 1 \<and> (run_started k run s = Some () \<longrightarrow> run_starts run s' \<le> run_starts run s)"
  using starts.at_most_once [OF reachable_run [OF assms]] starts.never_again [OF assms] by blast

lemma reachable_ledger:
  assumes "reachable (fresh_ledger k) (ledger_step k) (f, x)"
  shows "codec_ok k" "file_ok k f"
  using runs.reachable_inv [OF assms] by (simp_all add: ledger_inv_def)

lemma completion_persisted:
  assumes "codec_ok k" "file_ok k f" and "mark_completed k run request hash agent res f = (Inr Persisted, f')"
  shows "validate_identity run request hash agent \<and>
    (\<exists>r. view k f' run = Some r \<and> request_id r = request \<and> command_hash r = hash \<and> agent_id r = Some agent \<and>
       status r = completed_status \<and> stored_result r = Some res)"
proof (cases "torn f")
  case True
  with torn_complete [OF assms(2) True, of run request hash agent res] assms(3) show ?thesis by simp
next
  case False
  from implements_snd [OF complete_implements [OF assms(1,2) False, of run request hash agent res], unfolded assms(3)]
  show ?thesis by (auto simp: spec_complete_def split: option.splits if_splits)
qed

lemma accept_completed:
  assumes "codec_ok k" "file_ok k f" "\<not> torn f" and "view k f (env_run env) = Some r"
    and "validate_identity (env_run env) (env_request env) (env_hash env) agent"
    and "request_id r = env_request env" "command_hash r = env_hash env" "agent_id r = Some agent"
    and "status r = completed_status" "stored_result r = Some res"
  shows "accept k env agent f = (Inr (AcceptCompleted res), f)"
  using assms by (simp add: accept_def with_scan_ok accept_status_def)

text \<open>C22.
  A delivery of a completed command starts nothing and answers with the stored result: once
  the completion of a run was persisted, whatever happens afterwards, the handler replays
  exactly that result for the same command and agent, as long as the ledger can be read, and
  leaves the ledger alone.
\<close>

theorem completed_command_replayed:
  assumes "reachable (fresh_ledger k) (ledger_step k) (f, x)"
    and persisted: "mark_completed k (env_run env) (env_request env) (env_hash env) agent res f = (Inr Persisted, f1)"
    and later: "(ledger_step k)\<^sup>*\<^sup>* (f1, x) (f2, x2)" and "\<not> torn f2"
  shows "handle_reliable_envelope k dispositions agent env f2 = (replay dispositions env res, False, f2)"
proof -
  note ok = reachable_ledger [OF assms(1)]
  from completion_persisted [OF ok persisted] obtain r where valid: "validate_identity (env_run env) (env_request env) (env_hash env) agent"
    and r: "view k f1 (env_run env) = Some r" "request_id r = env_request env" "command_hash r = env_hash env"
      "agent_id r = Some agent" "status r = completed_status" "stored_result r = Some res" by blast
  have "ledger_step k (f, x) (f1, x)"
    using step_complete [of k f x "env_run env" "env_request env" "env_hash env" agent res] persisted by simp
  with assms(1) have f1: "reachable (fresh_ledger k) (ledger_step k) (f1, x)" by (rule reachable_next)
  have "run_result k (env_run env) (f1, x) = Some (Some res)" using r by (simp add: run_result_def)
  then have result: "run_result k (env_run env) (f2, x2) = Some (Some res)"
    by (rule run_results.latched_forever [OF f1 later])
  have "run_identity k (env_run env) (f1, x) = Some (env_request env, env_hash env, Some agent, command r)"
    using r by (simp add: run_identity_def)
  then have "run_identity k (env_run env) (f2, x2) = Some (env_request env, env_hash env, Some agent, command r)"
    by (rule run_ids.latched_forever [OF f1 later])
  with result obtain r2 where "view k f2 (env_run env) = Some r2" "request_id r2 = env_request env"
    "command_hash r2 = env_hash env" "agent_id r2 = Some agent" "status r2 = completed_status" "stored_result r2 = Some res"
    by (auto simp: run_result_def run_identity_def split: option.splits if_splits)
  moreover have "file_ok k f2" using reachable_ledger [OF reachable_run [OF f1 later]] by simp
  ultimately have "accept k env agent f2 = (Inr (AcceptCompleted res), f2)"
    using accept_completed ok(1) assms(4) valid by metis
  then show ?thesis by (simp add: handle_reliable_envelope_def after_accept_def)
qed

lemma contains_window_middle: "contains_window m (a @ m @ b)"
proof (induction a)
  case Nil
  have "starts_with m (m @ b)" by (auto simp: starts_with_iff)
  then show ?case by (cases "m @ b") simp_all
qed simp

text \<open>C31.
  A torn ledger stops everything and loses nothing: when a crash has left part of a line, a
  delivered command is neither accepted nor started and nothing is sent, the ledger is left
  byte for byte, and the recovery file holds the evidence.
\<close>

theorem torn_ledger_fails_closed:
  assumes "file_ok k f" and "torn f" and "handle_reliable_envelope k dispositions agent env f = (messages, start, f')"
  shows "messages = [] \<and> \<not> start \<and> ledger f' = ledger f \<and>
    (validate_identity (env_run env) (env_request env) (env_hash env) agent \<longrightarrow>
      (\<exists>b. recovery f' = Some b \<and> contains_window (recovery_marker k (file_bytes f) (lit ''torn_final_line'')) b))"
proof -
  obtain outcome f1 where a: "accept k env agent f = (outcome, f1)" by fastforce
  with torn_accept [OF assms(1,2), of env agent] obtain e where e: "outcome = Inl e" and "ledger f1 = ledger f" by auto
  have "\<exists>b. recovery f1 = Some b \<and> contains_window (recovery_marker k (file_bytes f) (lit ''torn_final_line'')) b"
    if "validate_identity (env_run env) (env_request env) (env_hash env) agent"
  proof -
    have "f1 = preserve_recovery k (file_bytes f) (lit ''torn_final_line'') f"
      using a that scan_torn [OF assms(1,2)] by (simp add: accept_def with_scan_def)
    then show ?thesis
      using contains_window_middle
      by (auto simp: preserve_recovery_def Let_def split: option.splits)
  qed
  with a e \<open>ledger f1 = ledger f\<close> assms(3) show ?thesis
    by (auto simp: handle_reliable_envelope_def after_accept_def)
qed

text \<open>
  The identity of a run is fixed by the first delivery that is accepted: its request, its
  command, the hash of the command and its agent are the same in every later state, whatever
  conflicting deliveries, claims and completions arrive.
\<close>

theorem run_identity_fixed:
  assumes "reachable (fresh_ledger k) (ledger_step k) s" and "(ledger_step k)\<^sup>*\<^sup>* s s1" and "(ledger_step k)\<^sup>*\<^sup>* s1 s2"
    and "run_identity k run s1 = Some v" and "run_identity k run s2 = Some w"
  shows "v = w"
  by (rule run_ids.latched_agree [OF assms])

subsection \<open>A run\<close>

lemma sample_fresh: "reachable (fresh_ledger sample_codec) (ledger_step sample_codec) (empty_files, [])"
  by (rule reachable_start) (simp add: fresh_ledger_def no_runs_def sample_codec_ok empty_files_def)

lemma sample_accepted_reachable:
  "reachable (fresh_ledger sample_codec) (ledger_step sample_codec) (sample_accepted, [])"
  unfolding sample_accepted_def by (rule reachable_next [OF sample_fresh step_accept])

lemma run_identity_fixed_witness:
  "(lit ''q1'', lit ''h1'', Some (lit ''a''), Some (lit ''cmd'')) = (lit ''q1'', lit ''h1'', Some (lit ''a''), Some (lit ''cmd''))"
proof -
  have "run_identity sample_codec (lit ''r1'') (sample_accepted, []) =
      Some (lit ''q1'', lit ''h1'', Some (lit ''a''), Some (lit ''cmd''))"
    by code_simp
  from run_identity_fixed [OF sample_accepted_reachable rtranclp.rtrancl_refl rtranclp.rtrancl_refl this this]
  show ?thesis .
qed

lemma sample_chain:
  "reachable (fresh_ledger sample_codec) (ledger_step sample_codec) (sample_started, [lit ''r1''])"
  "mark_completed sample_codec (lit ''r1'') (lit ''q1'') (lit ''h1'') (lit ''a'') (lit ''ok'') sample_started =
    (Inr Persisted, sample_completed)"
proof -
  have "fst (claim_started sample_codec (lit ''r1'') (lit ''q1'') (lit ''h1'') (lit ''a'') sample_accepted) = Inr Claimed"
    by code_simp
  then have "claim_started sample_codec (lit ''r1'') (lit ''q1'') (lit ''h1'') (lit ''a'') sample_accepted = (Inr Claimed, sample_started)"
    unfolding sample_started_def by (metis prod.collapse)
  from reachable_next [OF sample_accepted_reachable step_claim [OF this]]
  show r: "reachable (fresh_ledger sample_codec) (ledger_step sample_codec) (sample_started, [lit ''r1''])" by simp
  have "fst (spec_complete (lit ''r1'') (lit ''q1'') (lit ''h1'') (lit ''a'') (lit ''ok'') (view sample_codec sample_started)) =
      Inr Persisted" by code_simp
  moreover have "file_ok sample_codec sample_started" "\<not> torn sample_started"
    using reachable_ledger [OF r] by simp (code_simp)
  ultimately show "mark_completed sample_codec (lit ''r1'') (lit ''q1'') (lit ''h1'') (lit ''a'') (lit ''ok'') sample_started =
      (Inr Persisted, sample_completed)"
    using complete_implements [OF sample_codec_ok, of sample_started "lit ''r1''" "lit ''q1''" "lit ''h1''" "lit ''a''" "lit ''ok''"]
    unfolding implements_def sample_completed_def by (metis prod.collapse)
qed

lemma completed_command_replayed_witness:
  "handle_reliable_envelope sample_codec (\<lambda>_ _. Some ()) (lit ''a'') sample_envelope sample_completed =
    (replay (\<lambda>_ _. Some ()) sample_envelope (lit ''ok''), False, sample_completed)"
  by (rule completed_command_replayed [OF sample_chain(1) _ rtranclp.rtrancl_refl sample_files_ok(2)])
    (use sample_chain(2) in \<open>simp add: sample_envelope_def\<close>)

definition sample_torn :: ledger_files where
  "sample_torn = sample_accepted\<lparr>ledger := Some (file_bytes sample_accepted @ [7, 7])\<rparr>"

lemma torn_ledger_fails_closed_witness:
  "ledger (snd (snd (handle_reliable_envelope sample_codec (\<lambda>_ _. Some ()) (lit ''a'') sample_envelope sample_torn))) =
    ledger sample_torn"
proof -
  have "\<not> torn sample_accepted" by code_simp
  moreover have "newline \<notin> set [7, 7]" by (simp add: newline_def)
  ultimately have "file_ok sample_codec sample_torn"
    using crash_view [of sample_accepted "[7, 7]" sample_codec] reachable_ledger [OF sample_accepted_reachable]
    by (simp add: sample_torn_def)
  moreover have "torn sample_torn" by code_simp
  ultimately show ?thesis
    using torn_ledger_fails_closed [of sample_codec sample_torn "\<lambda>_ _. Some ()" "lit ''a''" sample_envelope] by (metis prod.collapse)
qed

end
