(* ===== verification/Legacy_Commands.thy ===== *)
theory Legacy_Commands
  imports Prelude
begin

text \<open>
  The retired process commands. The ledger of the agent
  (\<^verbatim>\<open>crates/agentic-gpt/src/storage/transport_ledger.rs\<close>) and the run table of the hub
  (\<^verbatim>\<open>crates/agentic-gpt-hub/src/storage/runs.rs\<close>) each recognise the old wire form of a
  command by its JSON shape. A JSON value is a datatype with the cases of the format; the
  keys of an object are distinct, as in the map that the code reads.
\<close>

datatype json_number = PosInt nat | NegInt int | Float rstr

datatype json =
  JNull
| JBool bool
| JNumber json_number
| JString rstr
| JArray "json list"
| JObject "(rstr \<times> json) list"

definition get :: "rstr \<Rightarrow> (rstr \<times> json) list \<Rightarrow> json option" where
  "get field object = map_of object field"

definition get_value :: "rstr \<Rightarrow> json \<Rightarrow> json option" where
  "get_value field v = (case v of JObject object \<Rightarrow> get field object | _ \<Rightarrow> None)"

definition is_string :: "json \<Rightarrow> bool" where
  "is_string v = (case v of JString _ \<Rightarrow> True | _ \<Rightarrow> False)"

definition is_boolean :: "json \<Rightarrow> bool" where
  "is_boolean v = (case v of JBool _ \<Rightarrow> True | _ \<Rightarrow> False)"

definition is_null :: "json \<Rightarrow> bool" where
  "is_null v = (case v of JNull \<Rightarrow> True | _ \<Rightarrow> False)"

definition as_u64 :: "json \<Rightarrow> nat option" where
  "as_u64 v = (case v of JNumber (PosInt n) \<Rightarrow> Some n | _ \<Rightarrow> None)"

definition is_some_and :: "'a option \<Rightarrow> ('a \<Rightarrow> bool) \<Rightarrow> bool" where
  "is_some_and x P = (case x of None \<Rightarrow> False | Some a \<Rightarrow> P a)"

definition is_none_or :: "'a option \<Rightarrow> ('a \<Rightarrow> bool) \<Rightarrow> bool" where
  "is_none_or x P = (case x of None \<Rightarrow> True | Some a \<Rightarrow> P a)"

subsection \<open>The agent\<close>

datatype retired_process_operation = RetiredExec | RetiredBatch | RetiredStatus | RetiredOutput | RetiredResult

definition operation_name :: "retired_process_operation \<Rightarrow> rstr" where
  "operation_name r =
     (case r of RetiredExec \<Rightarrow> lit ''process.exec'' | RetiredBatch \<Rightarrow> lit ''process.batch''
      | RetiredStatus \<Rightarrow> lit ''process.status'' | RetiredOutput \<Rightarrow> lit ''process.output''
      | RetiredResult \<Rightarrow> lit ''process.result'')"

definition has_only_fields :: "(rstr \<times> json) list \<Rightarrow> rstr list \<Rightarrow> bool" where
  "has_only_fields object allowed = list_all (\<lambda>(field, _). field \<in> set allowed) object"

definition optional_string_field :: "(rstr \<times> json) list \<Rightarrow> rstr \<Rightarrow> bool" where
  "optional_string_field object field = is_none_or (get field object) (\<lambda>v. is_null v \<or> is_string v)"

definition optional_u64_field :: "(rstr \<times> json) list \<Rightarrow> rstr \<Rightarrow> bool" where
  "optional_u64_field object field = is_none_or (get field object) (\<lambda>v. is_null v \<or> as_u64 v \<noteq> None)"

definition is_string_array :: "json \<Rightarrow> bool" where
  "is_string_array v = (case v of JArray vs \<Rightarrow> list_all is_string vs | _ \<Rightarrow> False)"

definition stored_process_payload :: "json \<Rightarrow> json option" where
  "stored_process_payload v =
     (case v of
        JObject command \<Rightarrow>
          if \<not> has_only_fields command [lit ''type'', lit ''requestId'', lit ''payload'']
             \<or> \<not> is_some_and (get (lit ''requestId'') command) is_string
          then None else get (lit ''payload'') command
      | _ \<Rightarrow> None)"

definition is_legacy_process_exec_payload :: "json \<Rightarrow> bool" where
  "is_legacy_process_exec_payload v =
     (case v of
        JObject payload \<Rightarrow>
          has_only_fields payload
            [lit ''agentId'', lit ''group'', lit ''program'', lit ''args'', lit ''needConfirm'',
             lit ''confirmMethod'', lit ''workingDirectory'', lit ''waitSeconds'']
          \<and> is_some_and (get (lit ''agentId'') payload) is_string
          \<and> is_some_and (get (lit ''program'') payload) is_string
          \<and> is_some_and (get (lit ''args'') payload) is_string_array
          \<and> is_some_and (get (lit ''needConfirm'') payload) is_boolean
          \<and> optional_string_field payload (lit ''group'')
          \<and> optional_string_field payload (lit ''confirmMethod'')
          \<and> optional_string_field payload (lit ''workingDirectory'')
          \<and> optional_u64_field payload (lit ''waitSeconds'')
      | _ \<Rightarrow> False)"

definition is_legacy_process_exec_element :: "json \<Rightarrow> bool" where
  "is_legacy_process_exec_element v =
     (case v of
        JObject element \<Rightarrow>
          has_only_fields element [lit ''program'', lit ''args'', lit ''workingDirectory'']
          \<and> is_some_and (get (lit ''program'') element) is_string
          \<and> is_some_and (get (lit ''args'') element) is_string_array
          \<and> optional_string_field element (lit ''workingDirectory'')
      | _ \<Rightarrow> False)"

definition is_legacy_process_batch_payload :: "json \<Rightarrow> bool" where
  "is_legacy_process_batch_payload v =
     (case v of
        JObject payload \<Rightarrow>
          (case get (lit ''elements'') payload of
             Some (JArray elements) \<Rightarrow>
               (elements \<noteq> [] \<or> get (lit ''workingDirectory'') payload \<noteq> None)
               \<and> has_only_fields payload
                 [lit ''agentId'', lit ''group'', lit ''elements'', lit ''needConfirm'',
                  lit ''confirmMethod'', lit ''workingDirectory'', lit ''waitSeconds'']
               \<and> is_some_and (get (lit ''agentId'') payload) is_string
               \<and> is_some_and (get (lit ''needConfirm'') payload) is_boolean
               \<and> optional_string_field payload (lit ''group'')
               \<and> optional_string_field payload (lit ''confirmMethod'')
               \<and> optional_string_field payload (lit ''workingDirectory'')
               \<and> optional_u64_field payload (lit ''waitSeconds'')
               \<and> list_all is_legacy_process_exec_element elements
           | _ \<Rightarrow> False)
      | _ \<Rightarrow> False)"

definition retired_process_operation :: "json \<Rightarrow> retired_process_operation option" where
  "retired_process_operation v =
     (case get_value (lit ''type'') v of
        Some (JString t) \<Rightarrow>
          if t = lit ''process.status'' then Some RetiredStatus
          else if t = lit ''process.output'' then Some RetiredOutput
          else if t = lit ''process.result'' then Some RetiredResult
          else if t = lit ''process.exec'' \<and> is_some_and (stored_process_payload v) is_legacy_process_exec_payload
          then Some RetiredExec
          else if t = lit ''process.batch'' \<and> is_some_and (stored_process_payload v) is_legacy_process_batch_payload
          then Some RetiredBatch
          else None
      | _ \<Rightarrow> None)"

subsection \<open>The hub\<close>

definition is_legacy_argv_element :: "json \<Rightarrow> bool" where
  "is_legacy_argv_element v =
     (case v of
        JObject element \<Rightarrow>
          has_only_fields element [lit ''program'', lit ''args'', lit ''workingDirectory'']
          \<and> is_some_and (get (lit ''program'') element) is_string
          \<and> is_some_and (get (lit ''args'') element) is_string_array
          \<and> optional_string_field element (lit ''workingDirectory'')
      | _ \<Rightarrow> False)"

definition is_legacy_argv_process_command :: "rstr \<Rightarrow> json \<Rightarrow> bool" where
  "is_legacy_argv_process_command ctype v =
     (case v of
        JObject envelope \<Rightarrow>
          if get (lit ''type'') envelope \<noteq> Some (JString ctype)
             \<or> \<not> has_only_fields envelope [lit ''type'', lit ''requestId'', lit ''payload'']
             \<or> \<not> is_some_and (get (lit ''requestId'') envelope) is_string
          then False
          else
            (case get (lit ''payload'') envelope of
               Some (JObject payload) \<Rightarrow>
                 if ctype = lit ''process.exec'' then
                   has_only_fields payload
                     [lit ''agentId'', lit ''group'', lit ''program'', lit ''args'', lit ''needConfirm'',
                      lit ''confirmMethod'', lit ''workingDirectory'', lit ''waitSeconds'']
                   \<and> is_some_and (get (lit ''agentId'') payload) is_string
                   \<and> is_some_and (get (lit ''program'') payload) is_string
                   \<and> is_some_and (get (lit ''args'') payload) is_string_array
                   \<and> is_some_and (get (lit ''needConfirm'') payload) is_boolean
                   \<and> optional_string_field payload (lit ''group'')
                   \<and> optional_string_field payload (lit ''confirmMethod'')
                   \<and> optional_string_field payload (lit ''workingDirectory'')
                   \<and> optional_u64_field payload (lit ''waitSeconds'')
                 else if ctype = lit ''process.batch'' then
                   (case get (lit ''elements'') payload of
                      Some (JArray elements) \<Rightarrow>
                        (elements \<noteq> [] \<or> get (lit ''workingDirectory'') payload \<noteq> None)
                        \<and> has_only_fields payload
                          [lit ''agentId'', lit ''group'', lit ''elements'', lit ''needConfirm'',
                           lit ''confirmMethod'', lit ''workingDirectory'', lit ''waitSeconds'']
                        \<and> is_some_and (get (lit ''agentId'') payload) is_string
                        \<and> is_some_and (get (lit ''needConfirm'') payload) is_boolean
                        \<and> optional_string_field payload (lit ''group'')
                        \<and> optional_string_field payload (lit ''confirmMethod'')
                        \<and> optional_string_field payload (lit ''workingDirectory'')
                        \<and> optional_u64_field payload (lit ''waitSeconds'')
                        \<and> list_all is_legacy_argv_element elements
                    | _ \<Rightarrow> False)
                 else False
             | _ \<Rightarrow> False)
      | _ \<Rightarrow> False)"

subsection \<open>Agreement\<close>

lemma legacy_argv_type:
  assumes "ctype \<noteq> lit ''process.exec''" and "ctype \<noteq> lit ''process.batch''"
  shows "\<not> is_legacy_argv_process_command ctype v"
proof (cases v)
  case (JObject envelope)
  show ?thesis
    using assms by (auto simp: JObject is_legacy_argv_process_command_def split: option.split json.split)
qed (simp_all add: is_legacy_argv_process_command_def)

text \<open>
  The agent and the hub retire the same commands: the hub takes a stored command of a type
  for a retired argv command exactly when the agent reads it as the retired operation of that
  type.
\<close>

theorem retirement_agrees:
  "is_legacy_argv_process_command ctype v \<longleftrightarrow>
    (\<exists>r \<in> {RetiredExec, RetiredBatch}. ctype = operation_name r \<and> retired_process_operation v = Some r)"
proof -
  have elements: "is_legacy_argv_element = is_legacy_process_exec_element"
    by (simp add: fun_eq_iff is_legacy_argv_element_def is_legacy_process_exec_element_def)
  show ?thesis
  proof (cases v)
    case (JObject envelope)
    have exec: "is_legacy_argv_process_command (lit ''process.exec'') v \<longleftrightarrow>
        get (lit ''type'') envelope = Some (JString (lit ''process.exec'')) \<and>
        is_some_and (stored_process_payload v) is_legacy_process_exec_payload"
      by (auto simp: JObject is_legacy_argv_process_command_def stored_process_payload_def is_some_and_def
          is_legacy_process_exec_payload_def split: option.splits json.splits)
    have batch: "is_legacy_argv_process_command (lit ''process.batch'') v \<longleftrightarrow>
        get (lit ''type'') envelope = Some (JString (lit ''process.batch'')) \<and>
        is_some_and (stored_process_payload v) is_legacy_process_batch_payload"
      by (auto simp: JObject is_legacy_argv_process_command_def stored_process_payload_def is_some_and_def
          is_legacy_process_batch_payload_def elements split: option.splits json.splits)
    have "retired_process_operation v = Some RetiredExec \<longleftrightarrow>
        get (lit ''type'') envelope = Some (JString (lit ''process.exec'')) \<and>
        is_some_and (stored_process_payload v) is_legacy_process_exec_payload"
      by (auto simp: JObject retired_process_operation_def get_value_def split: option.splits json.splits if_splits)
    moreover have "retired_process_operation v = Some RetiredBatch \<longleftrightarrow>
        get (lit ''type'') envelope = Some (JString (lit ''process.batch'')) \<and>
        is_some_and (stored_process_payload v) is_legacy_process_batch_payload"
      by (auto simp: JObject retired_process_operation_def get_value_def split: option.splits json.splits if_splits)
    moreover have "\<not> is_legacy_argv_process_command ctype v"
      if "ctype \<noteq> lit ''process.exec''" "ctype \<noteq> lit ''process.batch''"
      using that by (rule legacy_argv_type)
    ultimately show ?thesis
      using exec batch by (auto simp: operation_name_def)
  qed (simp_all add: is_legacy_argv_process_command_def retired_process_operation_def get_value_def)
qed

end
