(* ===== verification/Reconciliation.thy ===== *)
theory Reconciliation
  imports Ledger_Runs Legacy_Commands
begin

text \<open>
  What an agent does with its ledger when it has connected to the hub
  (\<^verbatim>\<open>reconcile_transport_runs\<close> in \<^verbatim>\<open>crates/agentic-gpt/src/ingress/hub.rs\<close>):
  completed runs are answered again, accepted ones are claimed and started, runs that were
  interrupted are reported as unknown. The records come from a hash map, in any order: the
  order is an argument. The event sources announced before the records are left out.
\<close>

subsection \<open>The loop over the records\<close>

text \<open>The JSON value of a retired command is only kept.\<close>

datatype ('c, 'j) stored_command = Current 'c | RetiredProcessCommand retired_process_operation 'j

text \<open>
  The response of a completed record: nothing without a result; an error, with no message,
  when its event sources (an argument) cannot be read.
\<close>

definition completed_response ::
    "(rstr \<Rightarrow> 'v \<Rightarrow> 's list option) \<Rightarrow> ('c \<Rightarrow> rstr) \<Rightarrow> (('c, 'j) stored_command, 'v) ledger_record \<Rightarrow>
     ('s list, 'v) agent_message list" where
  "completed_response dispositions command_name r =
     (case stored_result r of
        None \<Rightarrow> []
      | Some data \<Rightarrow>
          (case (case command r of
                   None \<Rightarrow> Some []
                 | Some (Current c) \<Rightarrow> dispositions (command_name c) data
                 | Some (RetiredProcessCommand op _) \<Rightarrow> dispositions (operation_name op) data) of
             None \<Rightarrow> []
           | Some sources \<Rightarrow> [ResponseMessage (run_id r) (request_id r) sources data]))"

definition run_unknown :: "('c, 'v) ledger_record \<Rightarrow> string \<Rightarrow> ('s, 'v) agent_message" where
  "run_unknown r why = TransportRunStatus (run_id r) (request_id r) ''unknown'' why"

text \<open>The messages, the command that is started if any, and the files after one record.\<close>

definition reconcile_record ::
    "(('c, 'j) stored_command, 'v) ledger_codec \<Rightarrow> (rstr \<Rightarrow> 'v \<Rightarrow> 's list option) \<Rightarrow> ('c \<Rightarrow> rstr) \<Rightarrow> rstr \<Rightarrow>
     (('c, 'j) stored_command, 'v) ledger_record \<Rightarrow> ledger_files \<Rightarrow>
     ('s list, 'v) agent_message list \<times> (rstr \<times> 'c) list \<times> ledger_files" where
  "reconcile_record k dispositions command_name agent r f =
     (if agent_id r \<noteq> Some agent then ([], [], f)
      else if status r = completed_status then (completed_response dispositions command_name r, [], f)
      else if status r = accepted_status then
        (case command r of
           Some (Current c) \<Rightarrow>
             (case claim_started k (run_id r) (request_id r) (command_hash r) agent f of
                (Inr Claimed, f') \<Rightarrow> ([], [(run_id r, c)], f')
              | (_, f') \<Rightarrow> ([], [], f'))
         | Some (RetiredProcessCommand _ _) \<Rightarrow> ([run_unknown r ''transport_command_retired''], [], f)
         | None \<Rightarrow> ([run_unknown r ''transport_command_missing''], [], f))
      else if status r = started_status \<or> status r = running_status then
        ([run_unknown r (case command r of
            Some (RetiredProcessCommand _ _) \<Rightarrow> ''transport_command_retired''
          | _ \<Rightarrow> ''agent_restarted_before_completion'')], [], f)
      else ([], [], f))"

fun reconcile_records ::
    "(('c, 'j) stored_command, 'v) ledger_codec \<Rightarrow> (rstr \<Rightarrow> 'v \<Rightarrow> 's list option) \<Rightarrow> ('c \<Rightarrow> rstr) \<Rightarrow> rstr \<Rightarrow>
     (('c, 'j) stored_command, 'v) ledger_record list \<Rightarrow> ledger_files \<Rightarrow>
     ('s list, 'v) agent_message list \<times> (rstr \<times> 'c) list \<times> ledger_files" where
  "reconcile_records k dispositions command_name agent [] f = ([], [], f)"
| "reconcile_records k dispositions command_name agent (r # rs) f =
     (case reconcile_record k dispositions command_name agent r f of (m, x, f') \<Rightarrow>
        (case reconcile_records k dispositions command_name agent rs f' of (ms, xs, f'') \<Rightarrow>
           (m @ ms, x @ xs, f'')))"

definition reconcile_transport_runs ::
    "(('c, 'j) stored_command, 'v) ledger_codec \<Rightarrow> (rstr \<Rightarrow> 'v \<Rightarrow> 's list option) \<Rightarrow> ('c \<Rightarrow> rstr) \<Rightarrow> rstr \<Rightarrow>
     ((('c, 'j) stored_command, 'v) ledger_view \<Rightarrow> (('c, 'j) stored_command, 'v) ledger_record list) \<Rightarrow> ledger_files \<Rightarrow>
     ('s list, 'v) agent_message list \<times> (rstr \<times> 'c) list \<times> ledger_files" where
  "reconcile_transport_runs k dispositions command_name agent into_values f =
     (case latest_records k f of
        (Inl _, f') \<Rightarrow> ([], [], f')
      | (Inr v, f') \<Rightarrow> reconcile_records k dispositions command_name agent (into_values v) f')"

subsection \<open>What is started\<close>

text \<open>The records that are resumed, and the runs and commands they stand for.\<close>

definition resumable :: "rstr \<Rightarrow> (('c, 'j) stored_command, 'v) ledger_record \<Rightarrow> bool" where
  "resumable agent r \<longleftrightarrow> agent_id r = Some agent \<and> status r = accepted_status \<and>
     validate_identity (run_id r) (request_id r) (command_hash r) agent \<and>
     (case command r of Some (Current _) \<Rightarrow> True | _ \<Rightarrow> False)"

definition resumed :: "rstr \<Rightarrow> (('c, 'j) stored_command, 'v) ledger_record list \<Rightarrow> (rstr \<times> 'c) list" where
  "resumed agent rs = concat (map (\<lambda>r.
     case command r of Some (Current c) \<Rightarrow> if resumable agent r then [(run_id r, c)] else [] | _ \<Rightarrow> []) rs)"

definition message_run :: "('s, 'v) agent_message \<Rightarrow> rstr" where
  "message_run m = (case m of TransportAck _ run _ _ \<Rightarrow> run | TransportRunStatus run _ _ _ \<Rightarrow> run | ResponseMessage run _ _ _ \<Rightarrow> run)"

lemma claim_outcome_accepted:
  assumes "codec_ok k" "file_ok k f" "\<not> torn f" and "view k f (run_id r) = Some r"
    and "agent_id r = Some agent" "status r = accepted_status"
  shows "\<exists>o' f'. claim_started k (run_id r) (request_id r) (command_hash r) agent f = (o', f') \<and>
     (o' = Inr Claimed \<longleftrightarrow> validate_identity (run_id r) (request_id r) (command_hash r) agent) \<and>
     file_ok k f' \<and> \<not> torn f' \<and>
     view k f' = (if validate_identity (run_id r) (request_id r) (command_hash r) agent
       then (view k f)(run_id r \<mapsto> r\<lparr>status := started_status\<rparr>) else view k f)"
proof -
  obtain o' f' where c: "claim_started k (run_id r) (request_id r) (command_hash r) agent f = (o', f')" by fastforce
  from claim_implements [OF assms(1-3), of "run_id r" "request_id r" "command_hash r" agent, unfolded c] assms(4-)
  show ?thesis unfolding c by (auto simp: implements_def spec_claim_def)
qed

lemma reconcile_record_ok:
  assumes "codec_ok k" "file_ok k f" "\<not> torn f" and "view k f (run_id r) = Some r"
    and "reconcile_record k dispositions command_name agent r f = (m, x, f')"
  shows "x = resumed agent [r] \<and> file_ok k f' \<and> \<not> torn f' \<and>
     view k f' = (if resumable agent r then (view k f)(run_id r \<mapsto> r\<lparr>status := started_status\<rparr>) else view k f) \<and>
     (\<forall>y \<in> set m. message_run y = run_id r \<and> agent_id r = Some agent \<and> \<not> resumable agent r)"
proof (cases "agent_id r = Some agent \<and> status r = accepted_status \<and> (\<exists>c. command r = Some (Current c))")
  case True
  then obtain c where c: "command r = Some (Current c)" by blast
  from claim_outcome_accepted [OF assms(1-4), of agent] True
  obtain o' f1 where "claim_started k (run_id r) (request_id r) (command_hash r) agent f = (o', f1)"
     "o' = Inr Claimed \<longleftrightarrow> validate_identity (run_id r) (request_id r) (command_hash r) agent"
     "file_ok k f1" "\<not> torn f1"
     "view k f1 = (if validate_identity (run_id r) (request_id r) (command_hash r) agent
       then (view k f)(run_id r \<mapsto> r\<lparr>status := started_status\<rparr>) else view k f)" by blast
  then show ?thesis using True c assms(5)
    by (auto simp: reconcile_record_def resumed_def resumable_def split: sum.splits claim_outcome.splits)
next
  case False
  then have "\<not> resumable agent r" by (auto simp: resumable_def split: option.splits stored_command.splits)
  with False assms show ?thesis
    by (auto simp: reconcile_record_def resumed_def run_unknown_def message_run_def completed_response_def
        split: if_splits option.splits stored_command.splits)
qed

lemma resumed_Cons: "resumed agent (r # rs) = resumed agent [r] @ resumed agent rs"
  by (simp add: resumed_def)

lemma reconcile_records_ok:
  assumes "codec_ok k" "file_ok k f" "\<not> torn f" and "\<And>r. r \<in> set rs \<Longrightarrow> view k f (run_id r) = Some r"
    and "distinct (map run_id rs)"
    and "reconcile_records k dispositions command_name agent rs f = (m, x, f')"
  shows "x = resumed agent rs \<and> file_ok k f' \<and> \<not> torn f' \<and>
     view k f' = (\<lambda>run. case view k f run of None \<Rightarrow> None
       | Some r \<Rightarrow> Some (if r \<in> set rs \<and> resumable agent r then r\<lparr>status := started_status\<rparr> else r)) \<and>
     (\<forall>y \<in> set m. \<exists>r \<in> set rs. message_run y = run_id r \<and> agent_id r = Some agent \<and> \<not> resumable agent r)"
  using assms(2-)
proof (induction rs arbitrary: f m x f')
  case Nil
  then show ?case by (auto simp: resumed_def fun_eq_iff split: option.split)
next
  case (Cons r rs)
  obtain m1 x1 f1 where one: "reconcile_record k dispositions command_name agent r f = (m1, x1, f1)"
    by (metis surj_pair)
  obtain ms xs f2 where rest: "reconcile_records k dispositions command_name agent rs f1 = (ms, xs, f2)"
    by (metis surj_pair)
  have eq: "m = m1 @ ms" "x = x1 @ xs" "f' = f2" using Cons.prems(5) one rest by auto
  from reconcile_record_ok [OF assms(1) Cons.prems(1,2) _ one] Cons.prems(3)
  have r: "x1 = resumed agent [r]" "file_ok k f1" "\<not> torn f1"
     "view k f1 = (if resumable agent r then (view k f)(run_id r \<mapsto> r\<lparr>status := started_status\<rparr>) else view k f)"
     "\<forall>y \<in> set m1. message_run y = run_id r \<and> agent_id r = Some agent \<and> \<not> resumable agent r" by auto
  have later: "view k f1 (run_id r') = Some r'" if "r' \<in> set rs" for r'
  proof -
    have "run_id r' \<noteq> run_id r" using Cons.prems(4) that by (metis distinct.simps(2) image_eqI list.set_map list.simps(9))
    then show ?thesis using Cons.prems(3) [of r'] that by (simp add: r(4))
  qed
  from Cons.IH [OF r(2,3) later _ rest] Cons.prems(4)
  have IH: "xs = resumed agent rs" "file_ok k f2" "\<not> torn f2"
     "view k f2 = (\<lambda>run. case view k f1 run of None \<Rightarrow> None
       | Some r \<Rightarrow> Some (if r \<in> set rs \<and> resumable agent r then r\<lparr>status := started_status\<rparr> else r))"
     "\<forall>y \<in> set ms. \<exists>r \<in> set rs. message_run y = run_id r \<and> agent_id r = Some agent \<and> \<not> resumable agent r"
    by auto
  have "view k f2 run = (case view k f run of None \<Rightarrow> None
       | Some r' \<Rightarrow> Some (if r' \<in> set (r # rs) \<and> resumable agent r' then r'\<lparr>status := started_status\<rparr> else r'))" for run
  proof (cases "resumable agent r \<and> run = run_id r")
    case True
    have "\<not> resumable agent (r\<lparr>status := started_status\<rparr>)" by (simp add: resumable_def)
    then show ?thesis using True Cons.prems(3) [of r] by (simp add: IH(4) r(4))
  next
    case False
    then have "view k f1 run = view k f run" by (auto simp: r(4))
    moreover have "r' \<noteq> r \<or> \<not> resumable agent r" if "view k f run = Some r'" for r'
      using view_SomeD(1) [OF that] False by auto
    ultimately show ?thesis by (auto simp: IH(4) split: option.split)
  qed
  with IH r(1,5) show ?case by (auto simp: eq resumed_Cons [of agent r rs])
qed

lemma resumed_distinct: "distinct (map run_id rs) \<Longrightarrow> distinct (map fst (resumed agent rs))"
proof (induction rs)
  case (Cons r rs)
  have "set (map fst (resumed agent rs)) \<subseteq> set (map run_id rs)"
    by (auto simp: resumed_def split: option.splits stored_command.splits if_splits)
  with Cons show ?case
    by (subst resumed_Cons) (auto simp: resumed_def split: option.split stored_command.split)
qed (simp add: resumed_def)



subsection \<open>A restart\<close>

fun stored_text :: "(rstr, rstr) stored_command \<Rightarrow> rstr" where
  "stored_text (Current c) = 0 # c"
| "stored_text (RetiredProcessCommand op j) =
     (case op of RetiredExec \<Rightarrow> 1 | RetiredBatch \<Rightarrow> 2 | RetiredStatus \<Rightarrow> 3 | RetiredOutput \<Rightarrow> 4 | RetiredResult \<Rightarrow> 5) # j"

fun text_stored :: "rstr \<Rightarrow> (rstr, rstr) stored_command" where
  "text_stored (n # c) =
     (if n = 1 then RetiredProcessCommand RetiredExec c else if n = 2 then RetiredProcessCommand RetiredBatch c
      else if n = 3 then RetiredProcessCommand RetiredStatus c else if n = 4 then RetiredProcessCommand RetiredOutput c
      else if n = 5 then RetiredProcessCommand RetiredResult c else Current c)"
| "text_stored [] = Current []"

lemma text_stored_text [simp]: "text_stored (stored_text c) = c"
  by (cases c) (auto split: retired_process_operation.split)

definition map_command :: "('c \<Rightarrow> 'd) \<Rightarrow> ('c, 'v) ledger_record \<Rightarrow> ('d, 'v) ledger_record" where
  "map_command g r =
     \<lparr>run_id = run_id r, request_id = request_id r, command_hash = command_hash r, status = status r,
      agent_id = agent_id r, command = map_option g (command r), stored_result = stored_result r,
      reason = reason r, conflict = conflict r\<rparr>"

definition stored_codec :: "((rstr, rstr) stored_command, rstr) ledger_codec" where
  "stored_codec = \<lparr>encode = (\<lambda>r. sample_encode (map_command stored_text r)),
     decode = (\<lambda>b. map_option (map_command text_stored) (sample_decode b)), record_value = run_id, digest_hex = (\<lambda>b. [])\<rparr>"

lemma stored_codec_ok: "codec_ok stored_codec"
proof -
  have "map_command text_stored (map_command stored_text r) = r" for r :: "((rstr, rstr) stored_command, rstr) ledger_record"
    by (simp add: map_command_def option.map_comp comp_def option.map_ident)
  then show ?thesis using sample_codec_ok by (simp add: codec_ok_def sample_codec_def stored_codec_def)
qed

definition restarted :: ledger_files where
  "restarted = snd (accept stored_codec \<lparr>env_event = lit ''e'', env_run = lit ''r1'', env_request = lit ''q1'',
     env_hash = lit ''h1'', env_command = Current (lit ''cmd'')\<rparr> (lit ''a'') empty_files)"

definition restarted_record :: "((rstr, rstr) stored_command, rstr) ledger_record" where
  "restarted_record = \<lparr>run_id = lit ''r1'', request_id = lit ''q1'', command_hash = lit ''h1'', status = accepted_status,
     agent_id = Some (lit ''a''), command = Some (Current (lit ''cmd'')), stored_result = None, reason = None,
     conflict = None\<rparr>"

lemma restarted_ok:
  "file_ok stored_codec restarted" "\<not> torn restarted" "view stored_codec restarted = [lit ''r1'' \<mapsto> restarted_record]"
proof -
  have "view stored_codec empty_files = Map.empty"
    by (simp add: view_def file_bytes_def empty_files_def see_records_def)
  moreover have "validate_identity (lit ''r1'') (lit ''q1'') (lit ''h1'') (lit ''a'')" by code_simp
  ultimately show "file_ok stored_codec restarted" "\<not> torn restarted"
      "view stored_codec restarted = [lit ''r1'' \<mapsto> restarted_record]"
    using accept_implements [OF stored_codec_ok empty_files_ok, of
      "\<lparr>env_event = lit ''e'', env_run = lit ''r1'', env_request = lit ''q1'', env_hash = lit ''h1'', env_command = Current (lit ''cmd'')\<rparr>" "lit ''a''"]
    by (simp_all add: restarted_def restarted_record_def implements_def spec_accept_def del: lit_simps)
qed


end
