(* ===== verification/Command_Starts.thy ===== *)
theory Command_Starts
  imports Reconciliation
begin

text \<open>
  The handlers that start commands, over the ledger they share: any number of handlers of delivered
  envelopes (\<^verbatim>\<open>handle_reliable_envelope\<close>), each of which may be anywhere between its two
  operations on the ledger, and reconciliations after a connection
  (\<^verbatim>\<open>reconcile_transport_runs\<close>), each of which may be anywhere in its loop. What is started is
  what the handlers decide to spawn. The steps simulate the operations on the ledger, where a run
  is handed out at most once.
\<close>

subsection \<open>Steps of the handlers\<close>

record ('c, 'j, 'v) deliveries =
  dl_files :: ledger_files
  dl_waiting :: "(('c, 'j) stored_command envelope \<times> rstr) list"
  dl_records :: "(rstr \<times> (('c, 'j) stored_command, 'v) ledger_record) list"
  dl_starts :: "rstr list"

text \<open>
  A delivery is accepted and its handler goes on or is done; a handler claims, and starts the
  command or not; a reconciliation reads the records, in any order, and handles one; a run is
  completed; the agent stops, at worst in the middle of writing a line, and its handlers are gone.
\<close>

inductive delivery_step ::
    "(('c, 'j) stored_command, 'v) ledger_codec \<Rightarrow> (('c, 'j) stored_command \<Rightarrow> 'v \<Rightarrow> 's option) \<Rightarrow>
     (rstr \<Rightarrow> 'v \<Rightarrow> 's list option) \<Rightarrow> ('c \<Rightarrow> rstr) \<Rightarrow> ('c, 'j, 'v) deliveries \<Rightarrow> ('c, 'j, 'v) deliveries \<Rightarrow> bool"
  for k sources_of dispositions command_name where
  delivery_accepted:
    "accept k env agent (dl_files s) = (outcome, f) \<Longrightarrow> after_accept sources_of env outcome = None \<Longrightarrow>
     delivery_step k sources_of dispositions command_name s (s\<lparr>dl_files := f, dl_waiting := (env, agent) # dl_waiting s\<rparr>)"
| delivery_answered:
    "accept k env agent (dl_files s) = (outcome, f) \<Longrightarrow> after_accept sources_of env outcome = Some messages \<Longrightarrow>
     delivery_step k sources_of dispositions command_name s (s\<lparr>dl_files := f\<rparr>)"
| delivery_claimed:
    "dl_waiting s = before @ (env, agent) # behind \<Longrightarrow>
     claim_started k (env_run env) (env_request env) (env_hash env) agent (dl_files s) = (claim, f) \<Longrightarrow>
     after_claim sources_of env claim = (messages, start) \<Longrightarrow>
     delivery_step k sources_of dispositions command_name s
       (s\<lparr>dl_files := f, dl_waiting := before @ behind, dl_starts := (if start then env_run env # dl_starts s else dl_starts s)\<rparr>)"
| records_read:
    "latest_records k (dl_files s) = (outcome, f) \<Longrightarrow> set rs \<subseteq> (case outcome of Inl _ \<Rightarrow> {} | Inr v \<Rightarrow> ran v) \<Longrightarrow>
     delivery_step k sources_of dispositions command_name s (s\<lparr>dl_files := f, dl_records := map (Pair agent) rs @ dl_records s\<rparr>)"
| record_reconciled:
    "dl_records s = before @ (agent, r) # behind \<Longrightarrow>
     reconcile_record k dispositions command_name agent r (dl_files s) = (messages, started, f) \<Longrightarrow>
     delivery_step k sources_of dispositions command_name s
       (s\<lparr>dl_files := f, dl_records := before @ behind, dl_starts := map fst started @ dl_starts s\<rparr>)"
| run_completed:
    "delivery_step k sources_of dispositions command_name s
       (s\<lparr>dl_files := snd (mark_completed k run request hash agent res (dl_files s))\<rparr>)"
| agent_stopped:
    "f = dl_files s \<or> \<not> torn (dl_files s) \<and> newline \<notin> set t \<and> f = (dl_files s)\<lparr>ledger := Some (file_bytes (dl_files s) @ t)\<rparr> \<Longrightarrow>
     delivery_step k sources_of dispositions command_name s (s\<lparr>dl_files := f, dl_waiting := [], dl_records := []\<rparr>)"

definition fresh_deliveries :: "(('c, 'j) stored_command, 'v) ledger_codec \<Rightarrow> ('c, 'j, 'v) deliveries \<Rightarrow> bool" where
  "fresh_deliveries k s \<longleftrightarrow> codec_ok k \<and> ledger (dl_files s) = None \<and> dl_waiting s = [] \<and> dl_records s = [] \<and> dl_starts s = []"

definition as_ledger :: "('c, 'j, 'v) deliveries \<Rightarrow> ledger_state" where
  "as_ledger s = (dl_files s, dl_starts s)"

subsection \<open>They simulate the ledger\<close>

text \<open>A handler starts the command exactly when it was handed the run.\<close>

lemma after_claim_starts: "snd (after_claim sources_of env claim) \<longleftrightarrow> claim = Inr Claimed"
  by (auto simp: after_claim_def split: sum.split claim_outcome.split)

lemma reconcile_record_cases:
  assumes "reconcile_record k dispositions command_name agent r f = (messages, started, f')"
  shows "started = [] \<and> f' = f \<or>
    (\<exists>outcome. claim_started k (run_id r) (request_id r) (command_hash r) agent f = (outcome, f') \<and>
       map fst started = (if outcome = Inr Claimed then [run_id r] else []))"
  using assms by (auto simp: reconcile_record_def split: if_splits option.splits stored_command.splits prod.splits sum.splits claim_outcome.splits)

lemma delivery_simulates:
  assumes "delivery_step k sources_of dispositions command_name s s'"
  shows "(ledger_step k)\<^sup>*\<^sup>* (as_ledger s) (as_ledger s')"
  using assms
proof (cases rule: delivery_step.cases)
  case (delivery_accepted env agent outcome f)
  then show ?thesis using step_accept [of k "dl_files s" "dl_starts s" env agent] by (auto simp: as_ledger_def)
next
  case (delivery_answered env agent outcome f messages)
  then show ?thesis using step_accept [of k "dl_files s" "dl_starts s" env agent] by (auto simp: as_ledger_def)
next
  case (delivery_claimed before env agent behind claim f messages start)
  have "start \<longleftrightarrow> claim = Inr Claimed" using after_claim_starts [of sources_of env claim] delivery_claimed(4) by simp
  then show ?thesis using delivery_claimed(1) step_claim [OF delivery_claimed(3), of "dl_starts s"] by (auto simp: as_ledger_def)
next
  case (records_read outcome f rs agent)
  then show ?thesis using step_scan [of k "dl_files s" "dl_starts s"] by (auto simp: as_ledger_def)
next
  case (record_reconciled before agent r behind messages started f)
  from reconcile_record_cases [OF record_reconciled(3)] show ?thesis
  proof (elim disjE conjE exE)
    assume "started = []" "f = dl_files s"
    then show ?thesis using record_reconciled(1) by (simp add: as_ledger_def)
  next
    fix outcome
    assume c: "claim_started k (run_id r) (request_id r) (command_hash r) agent (dl_files s) = (outcome, f)"
      and "map fst started = (if outcome = Inr Claimed then [run_id r] else [])"
    then show ?thesis using record_reconciled(1) step_claim [OF c, of "dl_starts s"] by (auto simp: as_ledger_def)
  qed
next
  case (run_completed run request hash agent res)
  then show ?thesis using step_complete [of k "dl_files s" "dl_starts s" run request hash agent res] by (auto simp: as_ledger_def)
next
  case (agent_stopped f t)
  then show ?thesis using step_crash [of "dl_files s" t k "dl_starts s"] by (auto simp: as_ledger_def)
qed

lemma deliveries_simulate:
  "(delivery_step k sources_of dispositions command_name)\<^sup>*\<^sup>* s s' \<Longrightarrow> (ledger_step k)\<^sup>*\<^sup>* (as_ledger s) (as_ledger s')"
  by (induction rule: rtranclp_induct) (auto dest: delivery_simulates)

interpretation deliveries: transition_system "fresh_deliveries k" "delivery_step k sources_of dispositions command_name"
    "\<lambda>s. reachable (fresh_ledger k) (ledger_step k) (as_ledger s)"
  for k sources_of dispositions command_name
proof unfold_locales
  fix s s'
  show "fresh_deliveries k s \<Longrightarrow> reachable (fresh_ledger k) (ledger_step k) (as_ledger s)"
    by (rule reachable_start) (simp add: fresh_deliveries_def fresh_ledger_def no_runs_def as_ledger_def)
  show "reachable (fresh_ledger k) (ledger_step k) (as_ledger s) \<Longrightarrow> delivery_step k sources_of dispositions command_name s s' \<Longrightarrow>
      reachable (fresh_ledger k) (ledger_step k) (as_ledger s')"
    by (rule reachable_run [OF _ delivery_simulates])
qed

text \<open>A whole handler, undisturbed, is its two steps.\<close>

lemma handler_simulates:
  assumes "handle_reliable_envelope k sources_of agent env f = (messages, start, f')"
  shows "(ledger_step k)\<^sup>*\<^sup>* (f, x) (f', if start then env_run env # x else x)"
proof -
  obtain outcome f1 where a: "accept k env agent f = (outcome, f1)" by fastforce
  have one: "ledger_step k (f, x) (f1, x)" using step_accept [of k f x env agent] a by simp
  show ?thesis
  proof (cases "after_accept sources_of env outcome")
    case (Some ms)
    with assms a one show ?thesis by (auto simp: handle_reliable_envelope_def)
  next
    case None
    obtain claim f2 where c: "claim_started k (env_run env) (env_request env) (env_hash env) agent f1 = (claim, f2)" by fastforce
    with assms a None have "f' = f2" "start = snd (after_claim sources_of env claim)"
      by (auto simp: handle_reliable_envelope_def split: prod.splits)
    then have "ledger_step k (f1, x) (f', if start then env_run env # x else x)"
      using step_claim [OF c, of x] by (simp add: after_claim_starts)
    with one show ?thesis by (meson rtranclp.rtrancl_refl rtranclp.rtrancl_into_rtrancl)
  qed
qed

subsection \<open>A command is started at most once\<close>

text \<open>C10.
  A command is started at most once: over any interleaving of the handlers of deliveries, for any
  number of connections and agents, of reconciliations, completions, and stops of the agent that
  may tear the ledger, a run is started by at most one handler. Once the ledger has it as started
  it is not started again, and a handler of a further delivery of a run that was started starts
  nothing.
\<close>

theorem command_started_at_most_once:
  assumes "reachable (fresh_deliveries k) (delivery_step k sources_of dispositions command_name) s"
    and "(delivery_step k sources_of dispositions command_name)\<^sup>*\<^sup>* s s'"
  shows "count_list (dl_starts s') run \<le> 1 \<and>
    (run_started k run (dl_files s, dl_starts s) = Some () \<longrightarrow> count_list (dl_starts s') run \<le> count_list (dl_starts s) run) \<and>
    (run \<in> set (dl_starts s') \<longrightarrow> env_run env = run \<longrightarrow>
       \<not> fst (snd (handle_reliable_envelope k sources_of agent env (dl_files s'))))"
proof (intro conjI impI)
  note start = deliveries.reachable_inv [OF assms(1)]
  note steps = deliveries_simulate [OF assms(2)]
  from claimed_at_most_once [OF start steps, of run]
  show "count_list (dl_starts s') run \<le> 1"
    and "run_started k run (dl_files s, dl_starts s) = Some () \<Longrightarrow> count_list (dl_starts s') run \<le> count_list (dl_starts s) run"
    by (simp_all add: run_starts_def as_ledger_def)
  assume before: "run \<in> set (dl_starts s')" and env: "env_run env = run"
  obtain messages again f where h: "handle_reliable_envelope k sources_of agent env (dl_files s') = (messages, again, f)"
    by (metis surj_pair)
  from claimed_at_most_once [OF reachable_run [OF start steps] handler_simulates [OF h, of "dl_starts s'", folded as_ledger_def], of run]
  have "run_starts run (f, if again then env_run env # dl_starts s' else dl_starts s') \<le> 1" by simp
  moreover have "count_list (dl_starts s') run \<noteq> 0" using before by (simp add: count_list_0_iff)
  ultimately show "\<not> fst (snd (handle_reliable_envelope k sources_of agent env (dl_files s')))"
    using env h by (auto simp: run_starts_def split: if_splits)
qed

subsection \<open>A delivery\<close>

definition sample_delivery :: "(rstr, rstr) stored_command envelope" where
  "sample_delivery = \<lparr>env_event = lit ''e'', env_run = lit ''r1'', env_request = lit ''q1'', env_hash = lit ''h1'',
     env_command = Current (lit ''cmd'')\<rparr>"

definition delivered :: "ledger_files \<Rightarrow> ((rstr, rstr) stored_command envelope \<times> rstr) list \<Rightarrow> rstr list \<Rightarrow> (rstr, rstr, rstr) deliveries" where
  "delivered f waiting starts = \<lparr>dl_files = f, dl_waiting = waiting, dl_records = [], dl_starts = starts\<rparr>"

lemma sample_accept: "accept stored_codec sample_delivery (lit ''a'') empty_files = (Inr FirstAccepted, restarted)"
proof -
  have view: "view stored_codec empty_files = Map.empty"
    by (simp add: view_def file_bytes_def empty_files_def see_records_def)
  have "validate_identity (lit ''r1'') (lit ''q1'') (lit ''h1'') (lit ''a'')" by code_simp
  with accept_implements [OF stored_codec_ok empty_files_ok, of sample_delivery "lit ''a''"] view
  have "fst (accept stored_codec sample_delivery (lit ''a'') empty_files) = Inr FirstAccepted"
    by (simp add: implements_def spec_accept_def sample_delivery_def del: lit_simps)
  then show ?thesis unfolding restarted_def sample_delivery_def by (metis prod.collapse)
qed

lemma sample_delivery_runs:
  obtains f where "reachable (fresh_deliveries stored_codec)
      (delivery_step stored_codec (\<lambda>_ _. Some ()) (\<lambda>_ _. Some ([] :: unit list)) (\<lambda>c. c)) (delivered f [] [lit ''r1''])"
proof -
  let ?step = "delivery_step stored_codec (\<lambda>_ _. Some ()) (\<lambda>_ _. Some ([] :: unit list)) (\<lambda>c. c)"
  have identity: "validate_identity (lit ''r1'') (lit ''q1'') (lit ''h1'') (lit ''a'')" by code_simp
  have accepted: "view stored_codec restarted (run_id restarted_record) = Some restarted_record"
    "agent_id restarted_record = Some (lit ''a'')" "status restarted_record = accepted_status"
    "run_id restarted_record = lit ''r1''" "request_id restarted_record = lit ''q1''" "command_hash restarted_record = lit ''h1''"
    by (simp_all add: restarted_ok(3) restarted_record_def del: lit_simps)
  obtain f where claim: "claim_started stored_codec (lit ''r1'') (lit ''q1'') (lit ''h1'') (lit ''a'') restarted = (Inr Claimed, f)"
    using claim_outcome_accepted [OF stored_codec_ok restarted_ok(1,2) accepted(1,2,3)] identity unfolding accepted(4-6) by auto
  have "fresh_deliveries stored_codec (delivered empty_files [] [])"
    by (simp add: fresh_deliveries_def delivered_def stored_codec_ok empty_files_def)
  then have r0: "reachable (fresh_deliveries stored_codec) ?step (delivered empty_files [] [])" by (rule reachable_start)
  have "?step (delivered empty_files [] []) (delivered restarted [(sample_delivery, lit ''a'')] [])"
    using delivery_accepted [of stored_codec sample_delivery "lit ''a''" "delivered empty_files [] []" "Inr FirstAccepted" restarted]
      sample_accept by (simp add: delivered_def after_accept_def)
  with r0 have r1: "reachable (fresh_deliveries stored_codec) ?step (delivered restarted [(sample_delivery, lit ''a'')] [])"
    by (rule reachable_next)
  have "?step (delivered restarted [(sample_delivery, lit ''a'')] []) (delivered f [] [lit ''r1''])"
    using delivery_claimed [of "delivered restarted [(sample_delivery, lit ''a'')] []" "[]" sample_delivery "lit ''a''" "[]"
        stored_codec "Inr Claimed" f "\<lambda>_ _. Some ()" "[ack_message sample_delivery]" True] claim
    by (simp add: delivered_def after_claim_def sample_delivery_def del: lit_simps)
  with r1 have "reachable (fresh_deliveries stored_codec) ?step (delivered f [] [lit ''r1''])" by (rule reachable_next)
  then show ?thesis by (rule that)
qed

lemma command_started_at_most_once_witness:
  "\<exists>f. reachable (fresh_deliveries stored_codec)
      (delivery_step stored_codec (\<lambda>_ _. Some ()) (\<lambda>_ _. Some ([] :: unit list)) (\<lambda>c. c)) (delivered f [] [lit ''r1'']) \<and>
    \<not> fst (snd (handle_reliable_envelope stored_codec (\<lambda>_ _. Some ()) (lit ''a'') sample_delivery f))"
proof -
  obtain f where r: "reachable (fresh_deliveries stored_codec)
      (delivery_step stored_codec (\<lambda>_ _. Some ()) (\<lambda>_ _. Some ([] :: unit list)) (\<lambda>c. c)) (delivered f [] [lit ''r1''])"
    by (rule sample_delivery_runs)
  have "env_run sample_delivery = lit ''r1''" by (simp add: sample_delivery_def del: lit_simps)
  then have "\<not> fst (snd (handle_reliable_envelope stored_codec (\<lambda>_ _. Some ()) (lit ''a'') sample_delivery f))"
    using command_started_at_most_once [OF r rtranclp.rtrancl_refl, of "lit ''r1''" sample_delivery "lit ''a''"]
    by (simp add: delivered_def del: lit_simps)
  with r show ?thesis by blast
qed

end
