(* ===== verification/Hub_Runs.thy ===== *)
theory Hub_Runs
  imports Legacy_Commands
begin

text \<open>
  The run table of the hub (\<^verbatim>\<open>crates/agentic-gpt-hub/src/storage/runs.rs\<close>): one row for
  each command sent to an agent, and the updates of its status, acknowledgement and result.
  A table is a list of rows in the order of their insertion; each operation is one or two
  statements under the lock of the database. The clock, new identifiers, the digest (SHA-256)
  and the JSON texts of values are arguments. Failures of the database are not modelled.
\<close>

subsection \<open>Rows\<close>

datatype run_status =
  Created | Dispatched | TimeoutWaitingResult | Acked | Started | Running | Failed | Unknown | Completed | NotSent

definition parse_run_status :: "rstr \<Rightarrow> run_status option" where
  "parse_run_status s =
     (if s = lit ''started'' then Some Started else if s = lit ''running'' then Some Running
      else if s = lit ''failed'' then Some Failed else if s = lit ''unknown'' then Some Unknown
      else if s = lit ''completed'' then Some Completed else None)"

record run_row =
  row_run :: rstr
  row_request :: rstr
  row_agent :: rstr
  row_type :: rstr
  row_command :: rstr
  row_hash :: rstr
  row_status :: run_status
  row_acked_at :: "int option"
  result_json :: "rstr option"
  result_hash :: "rstr option"
  conflict_json :: "rstr option"
  row_reason :: "rstr option"
  row_created :: int
  row_updated :: int
  row_expires :: "int option"
  row_source :: "rstr option"
  row_profile :: "rstr option"
  row_detail :: "rstr option"
  row_process_id :: "rstr option"
  row_duration :: "nat option"
  row_exit_code :: "int option"
  arguments_json :: "rstr option"
  process_json :: "rstr option"

type_synonym run_table = "run_row list"

record prepared_run =
  prepared_id :: rstr
  prepared_request :: rstr
  prepared_hash :: rstr

datatype store_result_outcome = Stored rstr rstr | Duplicate rstr rstr | ResultConflict | Unmatched

datatype run_error =
  RunInsertFailed | CommandTextInvalid | InvalidAgentRunReport | InvalidAgentRunStatus | InvalidAgentRunDetail
| AgentRunOwnerMismatch | AgentRunRequestMismatch

definition run_ttl :: int where "run_ttl = 24 * 3600000000000"

definition update_where :: "(run_row \<Rightarrow> bool) \<Rightarrow> (run_row \<Rightarrow> run_row) \<Rightarrow> run_table \<Rightarrow> run_table" where
  "update_where P f t = map (\<lambda>r. if P r then f r else r) t"

definition select_first :: "(run_row \<Rightarrow> bool) \<Rightarrow> run_table \<Rightarrow> run_row option" where
  "select_first P t = List.find P t"

subsection \<open>Creating and replaying runs\<close>

definition prepare_run_in_transaction ::
    "(rstr \<Rightarrow> rstr) \<Rightarrow> rstr \<Rightarrow> rstr \<Rightarrow> rstr \<Rightarrow> rstr \<Rightarrow> rstr \<Rightarrow> int \<Rightarrow> run_table \<Rightarrow>
     run_error + prepared_run \<times> run_table" where
  "prepare_run_in_transaction sha new_id agent request ctype command now t =
     (let hash = sha command in
      if new_id \<in> row_run ` set t then Inl RunInsertFailed
      else Inr (\<lparr>prepared_id = new_id, prepared_request = request, prepared_hash = hash\<rparr>,
        t @ [\<lparr>row_run = new_id, row_request = request, row_agent = agent, row_type = ctype, row_command = command,
              row_hash = hash, row_status = Created, row_acked_at = None, result_json = None, result_hash = None,
              conflict_json = None, row_reason = None, row_created = now, row_updated = now,
              row_expires = Some (now + run_ttl), row_source = None, row_profile = None, row_detail = None,
              row_process_id = None, row_duration = None, row_exit_code = None, arguments_json = None,
              process_json = None\<rparr>]))"

definition retired_reads :: "rstr list" where
  "retired_reads = [lit ''process.status'', lit ''process.output'', lit ''process.result'']"

text \<open>A run whose command has neither been acknowledged nor answered.\<close>

definition unacked :: "run_row \<Rightarrow> bool" where
  "unacked r \<longleftrightarrow> row_acked_at r = None \<and> result_json r = None \<and>
     row_status r \<in> {Created, Dispatched, TimeoutWaitingResult}"

definition add_reason :: "rstr \<Rightarrow> rstr option \<Rightarrow> rstr option" where
  "add_reason why r =
     (case r of None \<Rightarrow> Some why | Some old \<Rightarrow> if old = [] then Some why else Some (old @ lit '';'' @ why))"

definition retire_row :: "rstr \<Rightarrow> int \<Rightarrow> run_row \<Rightarrow> run_row" where
  "retire_row why now r = r\<lparr>row_status := Unknown, row_reason := add_reason why (row_reason r), row_updated := now\<rparr>"

text \<open>The loop over the selected rows; \<open>parse\<close> reads a command text as JSON.\<close>

fun retire_loop ::
    "(rstr \<Rightarrow> json option) \<Rightarrow> rstr \<Rightarrow> int \<Rightarrow> run_row list \<Rightarrow> run_table \<Rightarrow> (run_error + unit) \<times> run_table" where
  "retire_loop parse agent now [] t = (Inr (), t)"
| "retire_loop parse agent now (r # rs) t =
     (case parse (row_command r) of
        None \<Rightarrow> (Inl CommandTextInvalid, t)
      | Some command \<Rightarrow>
          if \<not> is_legacy_argv_process_command (row_type r) command then retire_loop parse agent now rs t
          else retire_loop parse agent now rs
            (update_where (\<lambda>x. row_run x = row_run r \<and> row_agent x = agent \<and> unacked x)
               (retire_row (lit ''retired_process_command'') now) t))"

definition retire_pending_legacy_argv_commands ::
    "(rstr \<Rightarrow> json option) \<Rightarrow> rstr \<Rightarrow> int \<Rightarrow> run_table \<Rightarrow> (run_error + unit) \<times> run_table" where
  "retire_pending_legacy_argv_commands parse agent now t =
     retire_loop parse agent now
       (sort_key row_created (filter (\<lambda>r. row_agent r = agent \<and> unacked r
          \<and> row_type r \<in> {lit ''process.exec'', lit ''process.batch''}) t)) t"

record 'c pending_replay =
  replay_run :: rstr
  replay_request :: rstr
  replay_hash :: rstr
  replay_command :: 'c

fun read_replays :: "(rstr \<Rightarrow> 'c option) \<Rightarrow> run_row list \<Rightarrow> run_error + 'c pending_replay list" where
  "read_replays read [] = Inr []"
| "read_replays read (r # rs) =
     (case read (row_command r) of
        None \<Rightarrow> Inl CommandTextInvalid
      | Some c \<Rightarrow> rbind (read_replays read rs) (\<lambda>ps. Inr
          (\<lparr>replay_run = row_run r, replay_request = row_request r, replay_hash = row_hash r, replay_command = c\<rparr> # ps)))"

text \<open>The statements are not in a transaction: what was retired before an error stays so.\<close>

definition pending_unacked ::
    "(rstr \<Rightarrow> json option) \<Rightarrow> (rstr \<Rightarrow> 'c option) \<Rightarrow> rstr \<Rightarrow> int \<Rightarrow> int \<Rightarrow> run_table \<Rightarrow>
     (run_error + 'c pending_replay list) \<times> run_table" where
  "pending_unacked parse read agent now later t =
     (let t1 = update_where (\<lambda>r. row_agent r = agent \<and> row_type r \<in> set retired_reads \<and> unacked r)
                 (retire_row (lit ''retired_process_read_command'') now) t
      in case retire_pending_legacy_argv_commands parse agent later t1 of
           (Inl e, t2) \<Rightarrow> (Inl e, t2)
         | (Inr _, t2) \<Rightarrow>
             (read_replays read (sort_key row_created
                (filter (\<lambda>r. row_agent r = agent \<and> unacked r \<and> row_type r \<notin> set retired_reads) t2)), t2))"

subsection \<open>Status updates\<close>

definition mark_dispatched :: "rstr \<Rightarrow> int \<Rightarrow> run_table \<Rightarrow> run_table" where
  "mark_dispatched run now =
     update_where (\<lambda>r. row_run r = run \<and> result_json r = None \<and> row_status r = Created)
       (\<lambda>r. r\<lparr>row_status := Dispatched, row_updated := now\<rparr>)"

definition ackable :: "run_row \<Rightarrow> bool" where
  "ackable r \<longleftrightarrow> result_json r = None \<and> row_status r \<in> {Created, Dispatched, TimeoutWaitingResult}"

definition ack_row :: "int \<Rightarrow> run_row \<Rightarrow> run_row" where
  "ack_row now r =
     r\<lparr>row_status := (if ackable r then Acked else row_status r),
       row_acked_at := (case row_acked_at r of None \<Rightarrow> Some now | Some t \<Rightarrow> Some t),
       row_updated := (if ackable r then now else row_updated r)\<rparr>"

definition mark_acked :: "rstr \<Rightarrow> rstr \<Rightarrow> rstr \<Rightarrow> rstr \<Rightarrow> int \<Rightarrow> run_table \<Rightarrow> bool \<times> run_table" where
  "mark_acked agent run request hash now t =
     (let matches = (\<lambda>r. row_run r = run \<and> row_request r = request \<and> row_agent r = agent \<and> row_hash r = hash)
      in (list_ex matches t, update_where matches (ack_row now) t))"

definition should_update :: "run_status \<Rightarrow> run_status \<Rightarrow> bool" where
  "should_update current new =
     (case current of
        Created \<Rightarrow> True | Dispatched \<Rightarrow> True | TimeoutWaitingResult \<Rightarrow> True | Acked \<Rightarrow> True
      | Started \<Rightarrow> new \<in> {Running, Failed, Unknown}
      | Running \<Rightarrow> new \<in> {Failed, Unknown}
      | _ \<Rightarrow> False)"

definition mark_status ::
    "rstr \<Rightarrow> rstr \<Rightarrow> rstr \<Rightarrow> rstr \<Rightarrow> rstr option \<Rightarrow> int \<Rightarrow> run_table \<Rightarrow> bool \<times> run_table" where
  "mark_status agent run request status_text why now t =
     (case parse_run_status status_text of
        None \<Rightarrow> (False, t)
      | Some new \<Rightarrow>
          if new = Completed then (False, t)
          else
            let matches = (\<lambda>r. row_run r = run \<and> row_request r = request \<and> row_agent r = agent)
            in case select_first matches t of
                 None \<Rightarrow> (False, t)
               | Some r \<Rightarrow>
                   if result_json r \<noteq> None then (True, t)
                   else if \<not> should_update (row_status r) new then (True, t)
                   else (True, update_where (\<lambda>r. matches r \<and> result_json r = None)
                          (\<lambda>r. r\<lparr>row_status := new, row_reason := why, row_updated := now\<rparr>) t))"

definition mark_waiting :: "run_status \<Rightarrow> rstr \<Rightarrow> rstr \<Rightarrow> int \<Rightarrow> run_table \<Rightarrow> run_table" where
  "mark_waiting new run why now =
     update_where (\<lambda>r. row_run r = run \<and> result_json r = None \<and> row_status r \<in> {Created, Dispatched})
       (\<lambda>r. r\<lparr>row_status := new, row_reason := Some why, row_updated := now\<rparr>)"

definition mark_timeout :: "rstr \<Rightarrow> rstr \<Rightarrow> int \<Rightarrow> run_table \<Rightarrow> run_table" where
  "mark_timeout = mark_waiting TimeoutWaitingResult"

definition mark_not_sent :: "rstr \<Rightarrow> rstr \<Rightarrow> int \<Rightarrow> run_table \<Rightarrow> run_table" where
  "mark_not_sent = mark_waiting NotSent"

subsection \<open>Results\<close>

definition canonical_hash :: "(rstr \<Rightarrow> rstr) \<Rightarrow> run_row \<Rightarrow> rstr option" where
  "canonical_hash sha r = (case result_hash r of Some h \<Rightarrow> Some h | None \<Rightarrow> map_option sha (result_json r))"

definition store_result ::
    "(rstr \<Rightarrow> rstr) \<Rightarrow> rstr \<Rightarrow> rstr \<Rightarrow> rstr \<Rightarrow> rstr \<Rightarrow> int \<Rightarrow> run_table \<Rightarrow> store_result_outcome \<times> run_table" where
  "store_result sha agent run request text now t =
     (let matches = (\<lambda>r. row_run r = run \<and> row_request r = request \<and> row_agent r = agent)
      in case select_first matches t of
           None \<Rightarrow> (Unmatched, t)
         | Some r \<Rightarrow>
             (case canonical_hash sha r of
                Some h \<Rightarrow>
                  if h = sha text then (Duplicate (row_hash r) (row_type r), t)
                  else (ResultConflict, update_where matches
                          (\<lambda>r. r\<lparr>conflict_json := Some text, row_updated := now\<rparr>) t)
              | None \<Rightarrow>
                  (Stored (row_hash r) (row_type r),
                   update_where (\<lambda>r. matches r \<and> result_json r = None)
                     (\<lambda>r. r\<lparr>row_status := Completed, result_json := Some text, result_hash := Some (sha text),
                            row_updated := now\<rparr>) t)))"

subsection \<open>Reports of an agent\<close>

record run_report =
  report_run :: rstr
  report_request :: rstr
  report_tool :: rstr
  report_source :: rstr
  report_profile :: rstr
  report_detail :: rstr
  report_status :: rstr
  report_started :: int
  report_updated :: int
  report_duration :: "nat option"
  report_process_id :: "rstr option"
  report_exit_code :: "int option"
  report_reason :: "rstr option"
  report_arguments :: "rstr option"
  report_result :: "rstr option"
  report_process :: "rstr option"

text \<open>The values of a report are their JSON texts; they are used when the report is full.\<close>

definition full_only :: "run_report \<Rightarrow> rstr option \<Rightarrow> rstr option" where
  "full_only p x = (if report_detail p = lit ''full'' then x else None)"

definition check_report :: "run_report \<Rightarrow> run_error + run_status" where
  "check_report p =
     (if trim (report_run p) = [] \<or> trim (report_request p) = [] then Inl InvalidAgentRunReport
      else (case parse_run_status (report_status p) of
              None \<Rightarrow> Inl InvalidAgentRunStatus
            | Some s \<Rightarrow>
                if s \<notin> {Started, Completed, Failed} then Inl InvalidAgentRunStatus
                else if report_detail p \<noteq> lit ''metadata'' \<and> report_detail p \<noteq> lit ''full''
                then Inl InvalidAgentRunDetail
                else Inr s))"

definition coalesce :: "'a option \<Rightarrow> 'a option \<Rightarrow> 'a option" where
  "coalesce x y = (case x of None \<Rightarrow> y | Some a \<Rightarrow> Some a)"

definition report_row ::
    "(rstr \<Rightarrow> rstr) \<Rightarrow> rstr \<Rightarrow> rstr \<Rightarrow> run_report \<Rightarrow> run_status \<Rightarrow> int \<Rightarrow> run_row" where
  "report_row sha agent command p new now =
     \<lparr>row_run = report_run p, row_request = report_request p, row_agent = agent, row_type = report_tool p,
      row_command = command, row_hash = sha command, row_status = new, row_acked_at = None,
      result_json = full_only p (report_result p), result_hash = map_option sha (full_only p (report_result p)),
      conflict_json = None, row_reason = report_reason p, row_created = report_started p,
      row_updated = max (report_updated p) now, row_expires = Some (report_started p + run_ttl),
      row_source = Some (report_source p), row_profile = Some (report_profile p), row_detail = Some (report_detail p),
      row_process_id = report_process_id p, row_duration = report_duration p, row_exit_code = report_exit_code p,
      arguments_json = full_only p (report_arguments p), process_json = full_only p (report_process p)\<rparr>"

text \<open>\<^verbatim>\<open>on conflict(run_id) do update\<close>.\<close>

definition merge_row :: "run_row \<Rightarrow> run_row \<Rightarrow> run_row" where
  "merge_row e r =
     r\<lparr>row_status := row_status e, result_json := coalesce (result_json e) (result_json r),
       result_hash := coalesce (result_hash e) (result_hash r), row_reason := row_reason e,
       row_updated := row_updated e, row_process_id := row_process_id e, row_duration := row_duration e,
       row_exit_code := row_exit_code e, arguments_json := coalesce (arguments_json e) (arguments_json r),
       process_json := coalesce (process_json e) (process_json r)\<rparr>"

definition upsert :: "run_row \<Rightarrow> run_table \<Rightarrow> run_table" where
  "upsert e t =
     (if list_ex (\<lambda>r. row_run r = row_run e) t
      then update_where (\<lambda>r. row_run r = row_run e) (merge_row e) t else t @ [e])"

definition report_ignored :: "run_status \<Rightarrow> run_status \<Rightarrow> bool" where
  "report_ignored existing new \<longleftrightarrow>
     existing \<in> {Unknown, NotSent} \<or> (existing = Completed \<and> new \<noteq> Completed)
     \<or> (existing \<in> {Completed, Failed} \<and> new = Started)"

text \<open>\<open>command\<close> is the JSON text of the source, the tool and the profile of the report.\<close>

definition upsert_agent_report ::
    "(rstr \<Rightarrow> rstr) \<Rightarrow> rstr \<Rightarrow> rstr \<Rightarrow> run_report \<Rightarrow> int \<Rightarrow> run_table \<Rightarrow> (run_error + unit) \<times> run_table" where
  "upsert_agent_report sha agent command p now t =
     (case check_report p of
        Inl e \<Rightarrow> (Inl e, t)
      | Inr new \<Rightarrow>
          let incoming = full_only p (report_result p) in
          (case select_first (\<lambda>r. row_run r = report_run p) t of
             None \<Rightarrow> (Inr (), upsert (report_row sha agent command p new now) t)
           | Some r \<Rightarrow>
               if row_agent r \<noteq> agent then (Inl AgentRunOwnerMismatch, t)
               else if row_request r \<noteq> report_request p then (Inl AgentRunRequestMismatch, t)
               else (case canonical_hash sha r of
                       Some h \<Rightarrow>
                         (Inr (), if incoming \<noteq> None \<and> map_option sha incoming \<noteq> Some h
                                  then update_where (\<lambda>r. row_run r = report_run p)
                                    (\<lambda>r. r\<lparr>conflict_json := incoming, row_updated := now\<rparr>) t
                                  else t)
                     | None \<Rightarrow>
                         if report_ignored (row_status r) new then (Inr (), t)
                         else (Inr (), upsert (report_row sha agent command p new now) t))))"

subsection \<open>Reading, ageing and pruning\<close>

record agent_run =
  run_row_of :: run_row
  result_retained :: bool
  result_omitted :: bool

definition get_run :: "rstr \<Rightarrow> int \<Rightarrow> run_table \<Rightarrow> agent_run option" where
  "get_run run now t =
     map_option (\<lambda>r.
       \<lparr>run_row_of = r, result_retained = (result_json r \<noteq> None),
        result_omitted = (result_json r = None \<and> result_hash r \<noteq> None \<and> row_status r = Completed
          \<and> (case row_expires r of None \<Rightarrow> False | Some e \<Rightarrow> e \<le> now))\<rparr>)
       (select_first (\<lambda>r. row_run r = run) t)"

fun list_loop ::
    "(agent_run \<Rightarrow> bool) \<Rightarrow> nat \<Rightarrow> int \<Rightarrow> run_table \<Rightarrow> rstr list \<Rightarrow> agent_run list \<Rightarrow> agent_run list" where
  "list_loop P limit now t [] found = found"
| "list_loop P limit now t (i # ids) found =
     (case get_run i now t of
        None \<Rightarrow> list_loop P limit now t ids found
      | Some run \<Rightarrow>
          if \<not> P run then list_loop P limit now t ids found
          else if limit \<le> length (found @ [run]) then found @ [run]
          else list_loop P limit now t ids (found @ [run]))"

definition list_runs ::
    "rstr option \<Rightarrow> rstr option \<Rightarrow> run_status option \<Rightarrow> int option \<Rightarrow> nat \<Rightarrow> int \<Rightarrow> run_table \<Rightarrow> agent_run list" where
  "list_runs agent source wanted since limit now t =
     list_loop (\<lambda>run. is_none_or agent (\<lambda>a. row_agent (run_row_of run) = a)
         \<and> is_none_or source (\<lambda>s. row_source (run_row_of run) = Some s)
         \<and> is_none_or wanted (\<lambda>s. row_status (run_row_of run) = s)
         \<and> is_none_or since (\<lambda>s. s \<le> row_created (run_row_of run)))
       limit now t (map row_run (take 1000 (rev (sort_key row_created t)))) []"

definition mark_stale_acked_unknown :: "int \<Rightarrow> int \<Rightarrow> run_table \<Rightarrow> nat \<times> run_table" where
  "mark_stale_acked_unknown older_than now t =
     (let stale = (\<lambda>r. row_acked_at r \<noteq> None \<and> result_json r = None
            \<and> row_status r \<in> {Acked, Started, Running} \<and> row_updated r < older_than)
      in (length (filter stale t),
          update_where stale
            (\<lambda>r. r\<lparr>row_status := Unknown, row_reason := Some (lit ''acked_result_timeout''), row_updated := now\<rparr>) t))"

definition expired_result :: "int \<Rightarrow> run_row \<Rightarrow> bool" where
  "expired_result now r \<longleftrightarrow>
     (case row_expires r of None \<Rightarrow> False | Some e \<Rightarrow> e \<le> now) \<and> row_status r = Completed
     \<and> result_json r \<noteq> None \<and> result_hash r \<noteq> None \<and> conflict_json r = None"

text \<open>The count and the update read the clock separately.\<close>

definition prune_expired :: "int \<Rightarrow> int \<Rightarrow> run_table \<Rightarrow> nat \<times> run_table" where
  "prune_expired now later t =
     (if filter (expired_result now) t = [] then (0, t)
      else (length (filter (expired_result later) t),
            update_where (expired_result later)
              (\<lambda>r. r\<lparr>result_json := None, arguments_json := None, process_json := None\<rparr>) t))"

end
