(* ===== verification/Hub_Run_States.thy ===== *)
theory Hub_Run_States
  imports Hub_Runs State_Machine
begin

text \<open>
  What the hub's run table promises over any sequence of its operations: a result is final,
  a command is not replayed once it was acknowledged or answered, the status of a run only
  advances, an agent changes only its own runs, and pruning keeps what is needed to
  recognise duplicates.
\<close>

subsection \<open>The operations as steps\<close>

inductive hub_step :: "(rstr \<Rightarrow> rstr) \<Rightarrow> run_table \<Rightarrow> run_table \<Rightarrow> bool" for sha where
  hub_prepare: "prepare_run_in_transaction sha new_id agent request ctype command now t = Inr (p, t') \<Longrightarrow> hub_step sha t t'"
| hub_pending: "hub_step sha t (snd (pending_unacked parse (read :: rstr \<Rightarrow> json option) agent now later t))"
| hub_dispatched: "hub_step sha t (mark_dispatched run now t)"
| hub_acked: "hub_step sha t (snd (mark_acked agent run request hash now t))"
| hub_status: "hub_step sha t (snd (mark_status agent run request status why now t))"
| hub_timeout: "hub_step sha t (mark_timeout run why' now t)"
| hub_not_sent: "hub_step sha t (mark_not_sent run why' now t)"
| hub_store: "hub_step sha t (snd (store_result sha agent run request text now t))"
| hub_report: "hub_step sha t (snd (upsert_agent_report sha agent command p now t))"
| hub_stale: "hub_step sha t (snd (mark_stale_acked_unknown older now t))"
| hub_prune: "hub_step sha t (snd (prune_expired now later t))"

subsection \<open>Rows over time\<close>

definition status_rank :: "run_status \<Rightarrow> nat" where
  "status_rank s =
     (case s of Created \<Rightarrow> 0 | Dispatched \<Rightarrow> 1 | TimeoutWaitingResult \<Rightarrow> 2 | Acked \<Rightarrow> 3 | Started \<Rightarrow> 4
      | Running \<Rightarrow> 4 | Failed \<Rightarrow> 5 | Unknown \<Rightarrow> 5 | NotSent \<Rightarrow> 5 | Completed \<Rightarrow> 6)"

definition row_id :: "run_row \<Rightarrow> rstr \<times> rstr \<times> rstr \<times> rstr \<times> rstr \<times> rstr" where
  "row_id r = (row_run r, row_request r, row_agent r, row_type r, row_command r, row_hash r)"

definition hub_row_ok :: "(rstr \<Rightarrow> rstr) \<Rightarrow> run_row \<Rightarrow> bool" where
  "hub_row_ok sha r \<longleftrightarrow>
     (\<forall>j. result_json r = Some j \<longrightarrow> result_hash r = Some (sha j)) \<and>
     (result_hash r \<noteq> None \<longrightarrow> row_status r \<noteq> Created \<and> row_status r \<noteq> Dispatched \<and> row_status r \<noteq> TimeoutWaitingResult)"

definition hub_row_le :: "(rstr \<Rightarrow> rstr) \<Rightarrow> run_row \<Rightarrow> run_row \<Rightarrow> bool" where
  "hub_row_le sha r r' \<longleftrightarrow>
     row_id r' = row_id r \<and> status_rank (row_status r) \<le> status_rank (row_status r') \<and>
     (\<forall>h. canonical_hash sha r = Some h \<longrightarrow> canonical_hash sha r' = Some h \<and>
        (result_json r' = result_json r \<or> result_json r' = None)) \<and>
     (unacked r' \<longrightarrow> unacked r) \<and>
     (\<forall>t. row_acked_at r = Some t \<longrightarrow> row_acked_at r' = Some t)"

definition hub_ok :: "(rstr \<Rightarrow> rstr) \<Rightarrow> run_table \<Rightarrow> bool" where
  "hub_ok sha t \<longleftrightarrow> distinct (map row_run t) \<and> list_all (hub_row_ok sha) t"

lemma hub_row_le_refl [simp]: "hub_row_le sha r r"
  by (simp add: hub_row_le_def)

lemma hub_row_le_trans: "hub_row_le sha r r' \<Longrightarrow> hub_row_le sha r' r'' \<Longrightarrow> hub_row_le sha r r''"
  unfolding hub_row_le_def by (metis le_trans)

text \<open>Every operation updates rows in place and may add one.\<close>

definition evolves :: "(rstr \<Rightarrow> rstr) \<Rightarrow> run_table \<Rightarrow> run_table \<Rightarrow> bool" where
  "evolves sha t t' \<longleftrightarrow>
     (\<exists>f new. t' = map f t @ new \<and> (\<forall>r \<in> set t. hub_row_le sha r (f r) \<and> hub_row_ok sha (f r)) \<and>
        list_all (hub_row_ok sha) new \<and> distinct (map row_run new) \<and>
        set (map row_run new) \<inter> set (map row_run t) = {})"

lemma evolves_ok:
  assumes "evolves sha t t'" and "hub_ok sha t"
  shows "hub_ok sha t'"
proof -
  obtain f new where t': "t' = map f t @ new" and le: "\<forall>r \<in> set t. hub_row_le sha r (f r) \<and> hub_row_ok sha (f r)"
    and new: "list_all (hub_row_ok sha) new" "distinct (map row_run new)" "set (map row_run new) \<inter> set (map row_run t) = {}"
    using assms(1) unfolding evolves_def by blast
  have "map row_run (map f t) = map row_run t" using le by (auto simp: hub_row_le_def row_id_def)
  then have "distinct (map row_run t')" using assms(2) new t' by (auto simp del: map_map simp: hub_ok_def)
  then show ?thesis using le new t' by (auto simp: hub_ok_def list_all_iff)
qed

lemma evolves_refl: "hub_ok sha t \<Longrightarrow> evolves sha t t"
  unfolding evolves_def by (rule exI [of _ id], rule exI [of _ "[]"]) (simp add: hub_ok_def list_all_iff)

lemma evolves_update:
  assumes "hub_ok sha t" and "\<And>r. r \<in> set t \<Longrightarrow> P r \<Longrightarrow> hub_row_le sha r (f r) \<and> hub_row_ok sha (f r)"
  shows "evolves sha t (update_where P f t)"
  unfolding evolves_def update_where_def
  by (rule exI [of _ "\<lambda>r. if P r then f r else r"], rule exI [of _ "[]"])
    (use assms in \<open>auto simp: hub_ok_def list_all_iff\<close>)

lemma evolves_add:
  assumes "hub_ok sha t" and "hub_row_ok sha r" and "row_run r \<notin> row_run ` set t"
  shows "evolves sha t (t @ [r])"
  unfolding evolves_def by (rule exI [of _ id], rule exI [of _ "[r]"]) (use assms in \<open>auto simp: hub_ok_def list_all_iff\<close>)

lemma select_run_evolves:
  assumes "evolves sha t t'" and "select_first (\<lambda>r. row_run r = run) t = Some r"
  shows "\<exists>r'. select_first (\<lambda>r. row_run r = run) t' = Some r' \<and> hub_row_le sha r r'"
proof -
  obtain f new where t': "t' = map f t @ new" and le: "\<forall>r \<in> set t. hub_row_le sha r (f r)"
    using assms(1) unfolding evolves_def by blast
  have "List.find (\<lambda>r. row_run r = run) (map f t) = map_option f (List.find (\<lambda>r. row_run r = run) t)"
    by (rule find_map) (use le in \<open>auto simp: hub_row_le_def row_id_def\<close>)
  moreover have "r \<in> set t" using assms(2) by (auto simp: select_first_def find_Some_iff)
  ultimately show ?thesis using assms(2) le by (auto simp: select_first_def t' find_append)
qed

subsection \<open>Each operation\<close>

lemma row_in_ok: "hub_ok sha t \<Longrightarrow> r \<in> set t \<Longrightarrow> hub_row_ok sha r"
  by (simp add: hub_ok_def list_all_iff)

lemmas row_defs = hub_row_le_def hub_row_ok_def row_id_def canonical_hash_def unacked_def status_rank_def

lemma retire_row_le:
  assumes "hub_row_ok sha r" and "unacked r"
  shows "hub_row_le sha r (retire_row why now r) \<and> hub_row_ok sha (retire_row why now r)"
  using assms by (auto simp: row_defs retire_row_def split: option.splits)

lemma ack_row_le:
  assumes "hub_row_ok sha r"
  shows "hub_row_le sha r (ack_row now r) \<and> hub_row_ok sha (ack_row now r)"
  using assms by (auto simp: row_defs ack_row_def ackable_def split: option.splits run_status.splits)

lemma status_row_le:
  assumes "hub_row_ok sha r" and "result_json r = None" and "should_update (row_status r) new"
    and "new \<in> {Started, Running, Failed, Unknown}"
  shows "hub_row_le sha r (r\<lparr>row_status := new, row_reason := why, row_updated := now\<rparr>) \<and>
    hub_row_ok sha (r\<lparr>row_status := new, row_reason := why, row_updated := now\<rparr>)"
  using assms by (auto simp: row_defs should_update_def split: option.splits run_status.splits)

lemma store_row_le:
  assumes "hub_row_ok sha r" and "canonical_hash sha r = None"
  shows "hub_row_le sha r (r\<lparr>row_status := Completed, result_json := Some text, result_hash := Some (sha text), row_updated := now\<rparr>) \<and>
    hub_row_ok sha (r\<lparr>row_status := Completed, result_json := Some text, result_hash := Some (sha text), row_updated := now\<rparr>)"
  using assms by (auto simp: row_defs split: option.splits run_status.splits)

lemma conflict_row_le:
  assumes "hub_row_ok sha r"
  shows "hub_row_le sha r (r\<lparr>conflict_json := c, row_updated := now\<rparr>) \<and> hub_row_ok sha (r\<lparr>conflict_json := c, row_updated := now\<rparr>)"
  using assms by (auto simp: row_defs split: option.splits)

lemma merge_row_le:
  assumes "hub_row_ok sha r" and "canonical_hash sha r = None" and "\<not> report_ignored (row_status r) new"
    and "new \<in> {Started, Completed, Failed}" and "row_run r = report_run p"
  shows "hub_row_le sha r (merge_row (report_row sha agent command p new now) r) \<and>
    hub_row_ok sha (merge_row (report_row sha agent command p new now) r)"
  using assms
  by (auto simp: row_defs merge_row_def report_row_def coalesce_def report_ignored_def split: option.splits run_status.splits)


lemma prune_row_le:
  assumes "hub_row_ok sha r" and "result_hash r \<noteq> None"
  shows "hub_row_le sha r (r\<lparr>result_json := None, arguments_json := None, process_json := None\<rparr>) \<and>
    hub_row_ok sha (r\<lparr>result_json := None, arguments_json := None, process_json := None\<rparr>)"
  using assms by (auto simp: row_defs split: option.splits)

lemma waiting_row_le:
  assumes "hub_row_ok sha r" and "result_json r = None" and "row_status r \<in> {Created, Dispatched}"
    and "new \<in> {TimeoutWaitingResult, NotSent}"
  shows "hub_row_le sha r (r\<lparr>row_status := new, row_reason := why, row_updated := now\<rparr>) \<and>
    hub_row_ok sha (r\<lparr>row_status := new, row_reason := why, row_updated := now\<rparr>)"
  using assms by (auto simp: row_defs split: option.splits)

lemma dispatched_row_le:
  assumes "hub_row_ok sha r" and "row_status r = Created"
  shows "hub_row_le sha r (r\<lparr>row_status := Dispatched, row_updated := now\<rparr>) \<and>
    hub_row_ok sha (r\<lparr>row_status := Dispatched, row_updated := now\<rparr>)"
  using assms by (auto simp: row_defs split: option.splits)

lemma report_row_ok: "new \<in> {Started, Completed, Failed} \<Longrightarrow> hub_row_ok sha (report_row sha agent command p new now)"
  by (auto simp: hub_row_ok_def report_row_def)

lemma check_report_status: "check_report p = Inr new \<Longrightarrow> new \<in> {Started, Completed, Failed}"
  by (auto simp: check_report_def split: if_splits option.splits)

lemma evolves_trans:
  assumes "evolves sha t t'" and "evolves sha t' t''"
  shows "evolves sha t t''"
proof -
  obtain f new where t': "t' = map f t @ new" and f: "\<forall>r \<in> set t. hub_row_le sha r (f r) \<and> hub_row_ok sha (f r)"
    and new: "list_all (hub_row_ok sha) new" "distinct (map row_run new)" "set (map row_run new) \<inter> set (map row_run t) = {}"
    using assms(1) unfolding evolves_def by blast
  obtain g more where t'': "t'' = map g t' @ more" and g: "\<forall>r \<in> set t'. hub_row_le sha r (g r) \<and> hub_row_ok sha (g r)"
    and more: "list_all (hub_row_ok sha) more" "distinct (map row_run more)" "set (map row_run more) \<inter> set (map row_run t') = {}"
    using assms(2) unfolding evolves_def by blast
  have gid: "row_run (g r) = row_run r" if "r \<in> set t'" for r using g that by (simp add: hub_row_le_def row_id_def)
  have fid: "row_run (f r) = row_run r" if "r \<in> set t" for r using f that by (simp add: hub_row_le_def row_id_def)
  have ids: "map row_run t' = map row_run t @ map row_run new" using fid by (simp add: t')
  have names: "map row_run (map g new) = map row_run new" using gid by (simp add: t')
  have "t'' = map (g \<circ> f) t @ (map g new @ more)" by (simp add: t' t'')
  moreover have "\<forall>r \<in> set t. hub_row_le sha r ((g \<circ> f) r) \<and> hub_row_ok sha ((g \<circ> f) r)"
    using f g hub_row_le_trans by (fastforce simp: t')
  moreover have "list_all (hub_row_ok sha) (map g new @ more)"
    using g more(1) by (auto simp: t' list_all_iff)
  moreover have "distinct (map row_run (map g new @ more))"
    using new(2) more(2,3) unfolding map_append names ids by auto
  moreover have "set (map row_run (map g new @ more)) \<inter> set (map row_run t) = {}"
    using new(3) more(3) unfolding map_append names ids by auto
  ultimately show ?thesis unfolding evolves_def by blast
qed

lemma evolves_retire_loop:
  "hub_ok sha t \<Longrightarrow> evolves sha t (snd (retire_loop parse agent now rs t))"
proof (induction rs arbitrary: t)
  case (Cons r rs)
  define t1 where "t1 = update_where (\<lambda>x. row_run x = row_run r \<and> row_agent x = agent \<and> unacked x)
     (retire_row (lit ''retired_process_command'') now) t"
  have t1: "evolves sha t t1" unfolding t1_def
    by (rule evolves_update [OF Cons.prems], rule retire_row_le) (use Cons.prems in \<open>auto intro: row_in_ok\<close>)
  have "evolves sha t (snd (retire_loop parse agent now rs t1))"
    using t1 Cons.IH [OF evolves_ok [OF t1 Cons.prems]] by (rule evolves_trans)
  then show ?case using Cons.IH [OF Cons.prems] Cons.prems
    by (auto simp: t1_def evolves_refl split: option.split)
qed (simp add: evolves_refl)

lemma evolves_pending:
  assumes "hub_ok sha t"
  shows "evolves sha t (snd (pending_unacked parse read agent now later t))"
proof -
  define t1 where "t1 = update_where (\<lambda>r. row_agent r = agent \<and> row_type r \<in> set retired_reads \<and> unacked r)
                 (retire_row (lit ''retired_process_read_command'') now) t"
  have t1: "evolves sha t t1" unfolding t1_def
    by (rule evolves_update [OF assms], rule retire_row_le) (use assms in \<open>auto intro: row_in_ok\<close>)
  have "evolves sha t (snd (retire_pending_legacy_argv_commands parse agent later t1))"
    unfolding retire_pending_legacy_argv_commands_def
    by (rule evolves_trans [OF t1 evolves_retire_loop [OF evolves_ok [OF t1 assms]]])
  then show ?thesis
    by (auto simp: pending_unacked_def t1_def split: prod.split sum.split)
qed

lemma evolves_prepare:
  assumes "hub_ok sha t"
    and "prepare_run_in_transaction sha new_id agent request ctype command now t = Inr (p, t')"
  shows "evolves sha t t'"
  using assms by (auto simp: prepare_run_in_transaction_def Let_def hub_row_ok_def split: if_splits intro!: evolves_add)

lemma evolves_mark_status:
  assumes "hub_ok sha t"
  shows "evolves sha t (snd (mark_status agent run request status why now t))"
proof (cases "parse_run_status status")
  case (Some new)
  show ?thesis
  proof (cases "new = Completed")
    case False
    have new: "new \<in> {Started, Running, Failed, Unknown}"
      using Some False by (auto simp: parse_run_status_def split: if_splits)
    let ?m = "\<lambda>r. row_run r = run \<and> row_request r = request \<and> row_agent r = agent"
    show ?thesis
    proof (cases "select_first ?m t")
      case (Some r)
      have r: "r \<in> set t" "?m r" using Some by (auto simp: select_first_def find_Some_iff)
      have same: "x = r" if "x \<in> set t" "?m x" for x
        using assms r that unfolding hub_ok_def distinct_map inj_on_def by blast
      have "evolves sha t (update_where (\<lambda>r. ?m r \<and> result_json r = None)
              (\<lambda>r. r\<lparr>row_status := new, row_reason := why, row_updated := now\<rparr>) t)"
        if "should_update (row_status r) new"
        by (rule evolves_update [OF assms], rule status_row_le)
          (use same new that assms in \<open>auto intro: row_in_ok\<close>)
      then show ?thesis using \<open>parse_run_status status = Some new\<close> Some False assms
        by (simp add: mark_status_def evolves_refl)
    qed (use Some False assms in \<open>simp add: mark_status_def evolves_refl\<close>)
  qed (use Some assms in \<open>simp add: mark_status_def evolves_refl\<close>)
qed (use assms in \<open>simp add: mark_status_def evolves_refl\<close>)


lemma evolves_store:
  assumes "hub_ok sha t"
  shows "evolves sha t (snd (store_result sha agent run request text now t))"
proof -
  let ?m = "\<lambda>r. row_run r = run \<and> row_request r = request \<and> row_agent r = agent"
  show ?thesis
  proof (cases "select_first ?m t")
    case (Some r)
    have r: "r \<in> set t" "?m r" using Some by (auto simp: select_first_def find_Some_iff)
    have same: "x = r" if "x \<in> set t" "?m x" for x
      using assms r that unfolding hub_ok_def distinct_map inj_on_def by blast
    show ?thesis
    proof (cases "canonical_hash sha r")
      case None
      have "evolves sha t (update_where (\<lambda>r. ?m r \<and> result_json r = None)
              (\<lambda>r. r\<lparr>row_status := Completed, result_json := Some text, result_hash := Some (sha text), row_updated := now\<rparr>) t)"
        by (rule evolves_update [OF assms], rule store_row_le) (use same None assms in \<open>auto intro: row_in_ok\<close>)
      then show ?thesis using Some None by (simp add: store_result_def)
    next
      case (Some h)
      have "evolves sha t (update_where ?m (\<lambda>r. r\<lparr>conflict_json := Some text, row_updated := now\<rparr>) t)"
        by (rule evolves_update [OF assms], rule conflict_row_le) (use assms in \<open>auto intro: row_in_ok\<close>)
      then show ?thesis using Some \<open>select_first ?m t = Some r\<close> assms by (simp add: store_result_def evolves_refl)
    qed
  qed (use assms in \<open>simp add: store_result_def evolves_refl\<close>)
qed

lemma evolves_report:
  assumes "hub_ok sha t"
  shows "evolves sha t (snd (upsert_agent_report sha agent command p now t))"
proof (cases "check_report p")
  case (Inr new)
  note new = check_report_status [OF Inr]
  let ?e = "report_row sha agent command p new now"
  show ?thesis
  proof (cases "select_first (\<lambda>r. row_run r = report_run p) t")
    case None
    have "report_run p \<notin> row_run ` set t" using None by (auto simp: select_first_def find_None_iff)
    then have "upsert ?e t = t @ [?e]" "row_run ?e \<notin> row_run ` set t"
      by (force simp: upsert_def report_row_def list_ex_iff)+
    then have "evolves sha t (upsert ?e t)" using evolves_add [OF assms report_row_ok [OF new]] by simp
    then show ?thesis using Inr None by (simp add: upsert_agent_report_def Let_def)
  next
    case (Some r)
    have r: "r \<in> set t" "row_run r = report_run p" using Some by (auto simp: select_first_def find_Some_iff)
    have same: "x = r" if "x \<in> set t" "row_run x = report_run p" for x
      using assms r that unfolding hub_ok_def distinct_map inj_on_def by metis
    have conflict: "evolves sha t (update_where (\<lambda>r. row_run r = report_run p) (\<lambda>r. r\<lparr>conflict_json := c, row_updated := now\<rparr>) t)" for c
      by (rule evolves_update [OF assms], rule conflict_row_le) (use assms in \<open>auto intro: row_in_ok\<close>)
    have eq: "upsert ?e t = update_where (\<lambda>r. row_run r = report_run p) (merge_row ?e) t"
      using r by (auto simp: upsert_def report_row_def list_ex_iff)
    have merge: "evolves sha t (upsert ?e t)"
      if "canonical_hash sha r = None" "\<not> report_ignored (row_status r) new"
      unfolding eq
      by (rule evolves_update [OF assms], rule merge_row_le) (use same that new assms in \<open>auto intro: row_in_ok\<close>)
    show ?thesis using Inr Some conflict merge evolves_refl [OF assms]
      by (auto simp: upsert_agent_report_def Let_def split: option.split)
  qed
qed (use assms in \<open>simp add: upsert_agent_report_def evolves_refl\<close>)

lemma evolves_mark_waiting:
  "hub_ok sha t \<Longrightarrow> new \<in> {TimeoutWaitingResult, NotSent} \<Longrightarrow> evolves sha t (mark_waiting new run why' now t)"
  unfolding mark_waiting_def by (rule evolves_update, assumption, rule waiting_row_le) (auto intro: row_in_ok)

lemma stale_row_le:
  assumes "hub_row_ok sha r" and "result_json r = None" and "row_status r \<in> {Acked, Started, Running}"
  shows "hub_row_le sha r (r\<lparr>row_status := Unknown, row_reason := why, row_updated := now\<rparr>) \<and>
    hub_row_ok sha (r\<lparr>row_status := Unknown, row_reason := why, row_updated := now\<rparr>)"
  using assms by (auto simp: row_defs split: option.splits)

theorem hub_step_evolves:
  assumes "hub_ok sha t" and "hub_step sha t t'"
  shows "evolves sha t t'"
  using assms(2)
proof cases
  case hub_dispatched
  show ?thesis unfolding hub_dispatched mark_dispatched_def
    by (rule evolves_update [OF assms(1)], rule dispatched_row_le) (use assms(1) in \<open>auto intro: row_in_ok\<close>)
next
  case hub_acked
  show ?thesis unfolding hub_acked mark_acked_def Let_def snd_conv
    by (rule evolves_update [OF assms(1)], rule ack_row_le) (use assms(1) in \<open>auto intro: row_in_ok\<close>)
next
  case hub_stale
  show ?thesis unfolding hub_stale mark_stale_acked_unknown_def Let_def snd_conv
    by (rule evolves_update [OF assms(1)], rule stale_row_le) (use assms(1) in \<open>auto intro: row_in_ok\<close>)
next
  case (hub_prune now later)
  have "evolves sha t (update_where (expired_result later)
              (\<lambda>r. r\<lparr>result_json := None, arguments_json := None, process_json := None\<rparr>) t)"
    by (rule evolves_update [OF assms(1)], rule prune_row_le) (use assms(1) in \<open>auto intro: row_in_ok simp: expired_result_def\<close>)
  then show ?thesis using assms(1) by (simp add: hub_prune prune_expired_def evolves_refl)
qed (use assms(1) in \<open>auto simp: mark_timeout_def mark_not_sent_def
  intro: evolves_pending evolves_prepare evolves_mark_status evolves_mark_waiting evolves_store evolves_report\<close>)


subsection \<open>Invariants of the reachable tables\<close>

definition no_hub_runs :: "run_table \<Rightarrow> bool" where "no_hub_runs t \<longleftrightarrow> t = []"

definition run_of :: "rstr \<Rightarrow> run_table \<Rightarrow> run_row option" where
  "run_of run t = select_first (\<lambda>r. row_run r = run) t"

interpretation hub_runs: transition_system no_hub_runs "hub_step sha" "hub_ok sha" for sha
proof unfold_locales
  show "hub_ok sha t'" if "hub_ok sha t" "hub_step sha t t'" for t t'
    using hub_step_evolves [OF that] that(1) by (rule evolves_ok)
qed (simp add: no_hub_runs_def hub_ok_def)

lemma run_of_evolves:
  assumes "evolves sha t t'" and "run_of run t = Some r"
  shows "\<exists>r'. run_of run t' = Some r' \<and> hub_row_le sha r r'"
  using select_run_evolves [OF assms(1)] assms(2) by (simp add: run_of_def)

interpretation hub_results: latch no_hub_runs "hub_step sha" "hub_ok sha" "\<lambda>t. Option.bind (run_of run t) (canonical_hash sha)"
  for sha run
proof unfold_locales
  fix t t' v
  assume "hub_ok sha t" "hub_step sha t t'" and v: "Option.bind (run_of run t) (canonical_hash sha) = Some v"
  then obtain r where r: "run_of run t = Some r" "canonical_hash sha r = Some v" by (auto simp: bind_eq_Some_conv)
  from run_of_evolves [OF hub_step_evolves [OF \<open>hub_ok sha t\<close> \<open>hub_step sha t t'\<close>] r(1)] r(2)
  show "Option.bind (run_of run t') (canonical_hash sha) = Some v"
    by (auto simp: hub_row_le_def)
qed

text \<open>Once a run is not waiting for its acknowledgement any more, it never waits again.\<close>

definition settled_run :: "rstr \<Rightarrow> run_table \<Rightarrow> unit option" where
  "settled_run run t = (case run_of run t of None \<Rightarrow> None | Some r \<Rightarrow> if unacked r then None else Some ())"

interpretation hub_settled: latch no_hub_runs "hub_step sha" "hub_ok sha" "settled_run run" for sha run
proof unfold_locales
  fix t t' v
  assume "hub_ok sha t" "hub_step sha t t'" and v: "settled_run run t = Some v"
  then obtain r where r: "run_of run t = Some r" "\<not> unacked r" by (auto simp: settled_run_def split: option.splits if_splits)
  from run_of_evolves [OF hub_step_evolves [OF \<open>hub_ok sha t\<close> \<open>hub_step sha t t'\<close>] r(1)] r(2)
  show "settled_run run t' = Some v"
    by (auto simp: settled_run_def hub_row_le_def)
qed

lemma hub_steps_evolve:
  assumes "(hub_step sha)\<^sup>*\<^sup>* t t'" and "hub_ok sha t"
  shows "evolves sha t t'"
  using assms
proof (induction rule: rtranclp_induct)
  case (step y z)
  then show ?case using evolves_trans hub_step_evolves evolves_ok by blast
qed (rule evolves_refl)

lemma run_of_Some: "run_of run t = Some r \<Longrightarrow> r \<in> set t \<and> row_run r = run"
  by (auto simp: run_of_def select_first_def find_Some_iff)

lemma run_ofI:
  assumes "hub_ok sha t" and "r \<in> set t"
  shows "run_of (row_run r) t = Some r"
proof (cases "run_of (row_run r) t")
  case None
  with assms(2) show ?thesis by (auto simp: run_of_def select_first_def find_None_iff)
next
  case (Some r')
  then show ?thesis using run_of_Some [OF Some] assms unfolding hub_ok_def distinct_map inj_on_def by blast
qed

text \<open>A search for a row by run, request and agent finds the row of the run.\<close>

lemma select_matches:
  assumes "hub_ok sha t"
  shows "select_first (\<lambda>r. row_run r = run \<and> row_request r = request \<and> row_agent r = agent) t
     = (case run_of run t of None \<Rightarrow> None
        | Some r \<Rightarrow> if row_request r = request \<and> row_agent r = agent then Some r else None)" (is "?l = ?r")
proof (cases ?l)
  case None
  then show ?thesis using run_of_Some by (fastforce simp: select_first_def find_None_iff split: option.split)
next
  case (Some r)
  then have "r \<in> set t" "row_run r = run" "row_request r = request" "row_agent r = agent"
    by (auto simp: select_first_def find_Some_iff)
  then show ?thesis using run_ofI [OF assms, of r] Some by simp
qed

lemma run_of_update:
  assumes "\<And>r. r \<in> set t \<Longrightarrow> row_run (f r) = row_run r"
  shows "run_of run (update_where P f t) = map_option (\<lambda>r. if P r then f r else r) (run_of run t)"
  unfolding run_of_def select_first_def update_where_def
  by (rule find_map) (use assms in auto)

subsection \<open>Results are final\<close>

lemma stored_row:
  assumes "hub_ok sha t" and "store_result sha agent run request text now t = (Stored h ct, t1)"
  shows "\<exists>r. run_of run t1 = Some r \<and> row_status r = Completed \<and> result_json r = Some text \<and>
    result_hash r = Some (sha text) \<and> row_request r = request \<and> row_agent r = agent \<and> row_hash r = h \<and> row_type r = ct"
proof -
  obtain r where r: "run_of run t = Some r" "row_request r = request" "row_agent r = agent"
      "canonical_hash sha r = None" "row_hash r = h" "row_type r = ct"
    and t1: "t1 = update_where (\<lambda>r. (row_run r = run \<and> row_request r = request \<and> row_agent r = agent) \<and> result_json r = None)
       (\<lambda>r. r\<lparr>row_status := Completed, result_json := Some text, result_hash := Some (sha text), row_updated := now\<rparr>) t"
    using assms(2) unfolding store_result_def Let_def select_matches [OF assms(1)]
    by (auto split: option.splits if_splits)
  then show ?thesis using run_of_Some [OF r(1)] unfolding t1
    by (subst run_of_update) (auto simp: canonical_hash_def split: option.splits)
qed


subsection \<open>What is replayed\<close>

lemma retire_loop_unretired:
  assumes "retire_loop parse agent now rs t = (Inr u, t')" and "x \<in> set t'" and "unacked x"
  shows "x \<in> set t \<and> (\<forall>r \<in> set rs. row_run x = row_run r \<longrightarrow> row_agent x = agent \<longrightarrow>
     (\<exists>c. parse (row_command r) = Some c \<and> \<not> is_legacy_argv_process_command (row_type r) c))"
  using assms
proof (induction rs arbitrary: t)
  case (Cons r rs)
  obtain c where c: "parse (row_command r) = Some c" using Cons.prems(1) by (auto split: option.splits)
  show ?case
  proof (cases "is_legacy_argv_process_command (row_type r) c")
    case False
    then show ?thesis using Cons c by auto
  next
    case True
    let ?P = "\<lambda>x. row_run x = row_run r \<and> row_agent x = agent \<and> unacked x"
    have IH: "x \<in> set (update_where ?P (retire_row (lit ''retired_process_command'') now) t) \<and>
      (\<forall>r \<in> set rs. row_run x = row_run r \<longrightarrow> row_agent x = agent \<longrightarrow>
       (\<exists>c. parse (row_command r) = Some c \<and> \<not> is_legacy_argv_process_command (row_type r) c))"
      using Cons.IH Cons.prems c True by (simp del: lit_simps)
    moreover have "x \<in> set t \<and> \<not> ?P x"
      using IH \<open>unacked x\<close> by (auto simp: update_where_def unacked_def retire_row_def simp del: lit_simps split: if_splits)
    ultimately show ?thesis using \<open>unacked x\<close> by auto
  qed
qed simp


lemma read_replays_rows:
  "read_replays read rs = Inr ps \<Longrightarrow> p \<in> set ps \<Longrightarrow>
     \<exists>r \<in> set rs. replay_run p = row_run r \<and> replay_request p = row_request r \<and> replay_hash p = row_hash r \<and>
       read (row_command r) = Some (replay_command p)"
  by (induction rs arbitrary: ps) (auto split: option.splits sum.splits simp: rbind_def)

lemma read_replays_runs: "read_replays read rs = Inr ps \<Longrightarrow> map replay_run ps = map row_run rs"
  by (induction rs arbitrary: ps) (auto split: option.splits sum.splits simp: rbind_def)

lemma retire_loop_keeps:
  assumes "retire_loop parse agent now rs t = (u, t')" and "x \<in> set t"
    and "\<And>r. r \<in> set rs \<Longrightarrow> row_run r = row_run x \<Longrightarrow> \<not> (\<exists>c. parse (row_command r) = Some c \<and> is_legacy_argv_process_command (row_type r) c)"
  shows "x \<in> set t'"
  using assms
proof (induction rs arbitrary: t)
  case (Cons r rs)
  show ?case
  proof (cases "\<exists>c. parse (row_command r) = Some c \<and> is_legacy_argv_process_command (row_type r) c")
    case False
    then show ?thesis using Cons.prems Cons.IH [of t] by (auto split: option.splits)
  next
    case True
    then obtain c where c: "parse (row_command r) = Some c" "is_legacy_argv_process_command (row_type r) c" by blast
    let ?t1 = "update_where (\<lambda>x. row_run x = row_run r \<and> row_agent x = agent \<and> unacked x)
                 (retire_row (lit ''retired_process_command'') now) t"
    have "row_run x \<noteq> row_run r" using True Cons.prems(3) [of r] by auto
    with Cons.prems(2) have "x \<in> set ?t1" by (force simp: update_where_def image_iff simp del: lit_simps)
    then show ?thesis using Cons.IH [of ?t1] Cons.prems c by (simp del: lit_simps)
  qed
qed simp

text \<open>The rows that are to be sent again: pending, and of a command that is still in use.\<close>

definition replayable :: "(rstr \<Rightarrow> json option) \<Rightarrow> rstr \<Rightarrow> run_row \<Rightarrow> bool" where
  "replayable parse agent r \<longleftrightarrow> row_agent r = agent \<and> unacked r \<and> row_type r \<notin> set retired_reads \<and>
     \<not> (\<exists>c. parse (row_command r) = Some c \<and> is_legacy_argv_process_command (row_type r) c)"

lemma pending_rows:
  assumes ok: "hub_ok sha t" and pending: "pending_unacked parse read agent now later t = (Inr ps, t')"
  obtains rs where "read_replays read rs = Inr ps" and "distinct (map row_run rs)"
    and "set rs = {r \<in> set t. replayable parse agent r}"
proof -
  define t1 where "t1 = update_where (\<lambda>r. row_agent r = agent \<and> row_type r \<in> set retired_reads \<and> unacked r)
                 (retire_row (lit ''retired_process_read_command'') now) t"
  define rs where "rs = sort_key row_created (filter (\<lambda>r. row_agent r = agent \<and> unacked r
          \<and> row_type r \<in> {lit ''process.exec'', lit ''process.batch''}) t1)"
  define left where "left = sort_key row_created
                (filter (\<lambda>r. row_agent r = agent \<and> unacked r \<and> row_type r \<notin> set retired_reads) t')"
  obtain u where loop: "retire_loop parse agent later rs t1 = (Inr u, t')" and read: "read_replays read left = Inr ps"
    using pending unfolding pending_unacked_def Let_def retire_pending_legacy_argv_commands_def
      t1_def [symmetric] rs_def [symmetric] left_def
    by (auto split: prod.splits sum.splits)
  have t1: "evolves sha t t1" unfolding t1_def
    by (rule evolves_update [OF ok], rule retire_row_le) (use ok in \<open>auto intro: row_in_ok\<close>)
  have ok1: "hub_ok sha t1" by (rule evolves_ok [OF t1 ok])
  have ok2: "hub_ok sha t'"
    using evolves_ok [OF evolves_retire_loop [OF ok1] ok1, of parse agent later rs] loop by simp
  have unacked1: "x \<in> set t" if "x \<in> set t1" "unacked x" for x
    using that by (auto simp: t1_def update_where_def retire_row_def unacked_def simp del: lit_simps split: if_splits)
  have "set left = {r \<in> set t. replayable parse agent r}"
  proof (rule set_eqI)
    fix x
    show "x \<in> set left \<longleftrightarrow> x \<in> {r \<in> set t. replayable parse agent r}"
    proof
      assume "x \<in> set left"
      then have x: "x \<in> set t'" "row_agent x = agent" "unacked x" "row_type x \<notin> set retired_reads"
        by (auto simp: left_def)
      note kept = retire_loop_unretired [OF loop x(1,3)]
      then have "\<not> (\<exists>c. parse (row_command x) = Some c \<and> is_legacy_argv_process_command (row_type x) c)"
        using x legacy_argv_type [of "row_type x"] by (fastforce simp: rs_def simp del: lit_simps)
      with x kept unacked1 show "x \<in> {r \<in> set t. replayable parse agent r}" by (auto simp: replayable_def)
    next
      assume x: "x \<in> {r \<in> set t. replayable parse agent r}"
      then have "x \<in> set t1" by (force simp: t1_def update_where_def replayable_def image_iff simp del: lit_simps)
      moreover have "r = x" if "r \<in> set rs" "row_run r = row_run x" for r
        using that ok1 \<open>x \<in> set t1\<close> unfolding rs_def hub_ok_def distinct_map inj_on_def by auto
      ultimately have "x \<in> set t'" using retire_loop_keeps [OF loop, of x] x by (auto simp: replayable_def)
      with x show "x \<in> set left" by (auto simp: left_def replayable_def)
    qed
  qed
  moreover have "distinct (map row_run left)"
    using ok2 by (auto simp: left_def hub_ok_def distinct_map inj_on_def)
  ultimately show ?thesis using that read by blast
qed

text \<open>
  What is pending for an agent: exactly the commands that wait for its acknowledgement, each once
  and with its identity, and none of a retired kind.
\<close>

lemma pending_unacked_rows:
  assumes "reachable no_hub_runs (hub_step sha) t" and "pending_unacked parse read agent now later t = (Inr ps, t')"
  shows "(\<forall>p \<in> set ps. \<exists>r \<in> set t. replayable parse agent r \<and> replay_run p = row_run r \<and>
       replay_request p = row_request r \<and> replay_hash p = row_hash r \<and> read (row_command r) = Some (replay_command p)) \<and>
     (\<forall>r \<in> set t. replayable parse agent r \<longrightarrow> row_run r \<in> replay_run ` set ps) \<and> distinct (map replay_run ps)"
proof -
  obtain rs where rs: "read_replays read rs = Inr ps" "distinct (map row_run rs)"
    "set rs = {r \<in> set t. replayable parse agent r}"
    using pending_rows [OF hub_runs.reachable_inv [OF assms(1)] assms(2)] .
  have "replay_run ` set ps = row_run ` set rs"
    using read_replays_runs [OF rs(1)] by (metis list.set_map)
  then show ?thesis using read_replays_rows [OF rs(1)] read_replays_runs [OF rs(1)] rs(2,3) by fastforce
qed

text \<open>C24.
  Once an agent acknowledged a command the hub never sends it again, whatever happens later.
\<close>

theorem acked_run_never_replayed:
  assumes "reachable no_hub_runs (hub_step sha) t" and "mark_acked agent run request hash now t = (True, t1)"
    and "(hub_step sha)\<^sup>*\<^sup>* t1 t2" and "pending_unacked parse read agent' now' later t2 = (Inr ps, t3)"
  shows "run \<notin> replay_run ` set ps"
proof
  assume run: "run \<in> replay_run ` set ps"
  have step: "hub_step sha t t1" using hub_acked [of sha t agent run request hash now] assms(2) by simp
  have r1: "reachable no_hub_runs (hub_step sha) t1" using assms(1) step by (rule reachable_next)
  have r2: "reachable no_hub_runs (hub_step sha) t2" by (rule reachable_run [OF r1 assms(3)])
  note ok1 = hub_runs.reachable_inv [OF r1] and ok2 = hub_runs.reachable_inv [OF r2]
  obtain x where x: "x \<in> set t1" "row_run x = run" "row_acked_at x \<noteq> None"
  proof -
    let ?m = "\<lambda>r. row_run r = run \<and> row_request r = request \<and> row_agent r = agent \<and> row_hash r = hash"
    from assms(2) obtain y where "y \<in> set t" "?m y" and t1: "t1 = update_where ?m (ack_row now) t"
      by (auto simp: mark_acked_def list_ex_iff Let_def)
    then have "ack_row now y \<in> set t1" by (auto simp: update_where_def image_iff intro!: bexI [of _ y])
    then show ?thesis using that [of "ack_row now y"] \<open>?m y\<close> by (auto simp: ack_row_def split: option.split)
  qed
  have "settled_run run t1 = Some ()"
    using run_ofI [OF ok1 x(1)] x by (simp add: settled_run_def unacked_def)
  from hub_settled.latched_forever [OF r1 assms(3) this] have settled: "settled_run run t2 = Some ()" .
  obtain rs where rs: "read_replays read rs = Inr ps" "set rs = {r \<in> set t2. replayable parse agent' r}"
    using pending_rows [OF ok2 assms(4)] by metis
  then obtain y where "y \<in> set t2" "row_run y = run" "unacked y"
    using run read_replays_rows [OF rs(1)] by (fastforce simp: replayable_def)
  with settled run_ofI [OF ok2, of y] show False by (simp add: settled_run_def)
qed


subsection \<open>Agents are isolated\<close>

inductive agent_request :: "(rstr \<Rightarrow> rstr) \<Rightarrow> rstr \<Rightarrow> run_table \<Rightarrow> run_table \<Rightarrow> bool" for sha agent where
  by_ack: "agent_request sha agent t (snd (mark_acked agent run request hash now t))"
| by_status: "agent_request sha agent t (snd (mark_status agent run request status why now t))"
| by_result: "agent_request sha agent t (snd (store_result sha agent run request text now t))"
| by_report: "agent_request sha agent t (snd (upsert_agent_report sha agent command p now t))"

definition others :: "rstr \<Rightarrow> run_table \<Rightarrow> run_table" where
  "others agent t = filter (\<lambda>r. row_agent r \<noteq> agent) t"

lemma others_update:
  assumes "\<And>r. r \<in> set t \<Longrightarrow> P r \<Longrightarrow> row_agent r = agent" and "\<And>r. row_agent (f r) = row_agent r"
  shows "others agent (update_where P f t) = others agent t"
  using assms(1) by (induction t) (auto simp: others_def update_where_def assms(2))

lemma others_report:
  assumes "hub_ok sha t"
  shows "others agent (snd (upsert_agent_report sha agent command p now t)) = others agent t"
proof (cases "check_report p")
  case (Inr new)
  let ?e = "report_row sha agent command p new now"
  show ?thesis
  proof (cases "select_first (\<lambda>r. row_run r = report_run p) t")
    case None
    then have "upsert ?e t = t @ [?e]"
      by (force simp: upsert_def report_row_def list_ex_iff select_first_def find_None_iff)
    then show ?thesis using Inr None
      by (simp add: upsert_agent_report_def Let_def others_def) (simp add: report_row_def)
  next
    case (Some r)
    have r: "r \<in> set t" "row_run r = report_run p" using Some by (auto simp: select_first_def find_Some_iff)
    have same: "row_agent x = agent" if "row_agent r = agent" "x \<in> set t" "row_run x = report_run p" for x
      using assms r that unfolding hub_ok_def distinct_map inj_on_def by metis
    have eq: "upsert ?e t = update_where (\<lambda>r. row_run r = report_run p) (merge_row ?e) t"
      using r by (auto simp: upsert_def report_row_def list_ex_iff)
    have keep: "others agent (update_where (\<lambda>r. row_run r = report_run p) f t) = others agent t"
      if "row_agent r = agent" "\<And>r. row_agent (f r) = row_agent r" for f
      using same that by (intro others_update) auto
    show ?thesis using Inr Some keep
      by (auto simp: upsert_agent_report_def Let_def eq merge_row_def split: option.split)
  qed
qed (simp add: upsert_agent_report_def)

text \<open>C33.
  What an agent sends to the hub - an acknowledgement, a status, a result or a report, with
  any run identifier - leaves the runs of every other agent as they are.
\<close>

theorem agents_are_isolated:
  assumes "reachable no_hub_runs (hub_step sha) t" and "agent_request sha agent t t'"
  shows "others agent t' = others agent t"
  using assms(2)
proof cases
  case by_ack
  show ?thesis unfolding by_ack mark_acked_def Let_def snd_conv
    by (rule others_update) (auto simp: ack_row_def)
next
  case by_status
  then show ?thesis
    by (auto simp: mark_status_def Let_def intro!: others_update split: option.split)
next
  case by_result
  then show ?thesis
    by (auto simp: store_result_def Let_def intro!: others_update split: option.split)
next
  case by_report
  with others_report [OF hub_runs.reachable_inv [OF assms(1)]] show ?thesis by simp
qed

subsection \<open>An example\<close>

definition sample_prepared :: run_table where
  "sample_prepared = (case prepare_run_in_transaction (\<lambda>x. x) (lit ''r1'') (lit ''a'') (lit ''q'') (lit ''file.read'')
     (lit ''{}'') 0 [] of Inr (p, t) \<Rightarrow> t | Inl _ \<Rightarrow> [])"

lemma sample_prepared_reachable: "reachable no_hub_runs (hub_step (\<lambda>x. x)) sample_prepared"
proof -
  have "prepare_run_in_transaction (\<lambda>x. x) (lit ''r1'') (lit ''a'') (lit ''q'') (lit ''file.read'') (lit ''{}'') 0 [] =
    Inr (\<lparr>prepared_id = lit ''r1'', prepared_request = lit ''q'', prepared_hash = lit ''{}''\<rparr>, sample_prepared)"
    by (simp add: sample_prepared_def prepare_run_in_transaction_def Let_def)
  then show ?thesis
    using reachable_next [OF reachable_start [of no_hub_runs "[]"] hub_prepare] by (simp add: no_hub_runs_def)
qed


lemma acked_run_never_replayed_witness:
  "lit ''r1'' \<notin> replay_run ` set ([] :: unit pending_replay list)"
proof -
  let ?t = "snd (mark_acked (lit ''a'') (lit ''r1'') (lit ''q'') (lit ''{}'') 3 sample_prepared)"
  have acked: "mark_acked (lit ''a'') (lit ''r1'') (lit ''q'') (lit ''{}'') 3 sample_prepared = (True, ?t)"
    by (simp add: sample_prepared_def prepare_run_in_transaction_def Let_def mark_acked_def)
  have "pending_unacked (\<lambda>_. None) (\<lambda>_. Some ()) (lit ''a'') 4 5 ?t = (Inr [], ?t)"
    by (simp add: sample_prepared_def prepare_run_in_transaction_def Let_def pending_unacked_def retired_reads_def
        retire_pending_legacy_argv_commands_def unacked_def update_where_def mark_acked_def ack_row_def ackable_def)
  from acked_run_never_replayed [OF sample_prepared_reachable acked rtranclp.rtrancl_refl this] show ?thesis .
qed

lemma agents_are_isolated_witness:
  "others (lit ''b'') (snd (store_result (\<lambda>x. x) (lit ''b'') (lit ''r1'') (lit ''q'') (lit ''[1]'') 5 sample_prepared)) =
   others (lit ''b'') sample_prepared \<and> others (lit ''b'') sample_prepared \<noteq> []"
  using agents_are_isolated [OF sample_prepared_reachable by_result, of "lit ''b''" "lit ''r1''" "lit ''q''" "lit ''[1]''" 5]
  by (simp add: sample_prepared_def prepare_run_in_transaction_def Let_def others_def)

end
