(* ===== verification/Hub_Replay.thy ===== *)
theory Hub_Replay
  imports Hub_Run_States Transport_Ledger
begin

text \<open>
  What the hub sends to an agent that has connected (\<^verbatim>\<open>send_pending_replays\<close> in
  \<^verbatim>\<open>crates/agentic-gpt-hub/src/agents/dispatch.rs\<close>): the pending commands of its run table, in the
  envelopes that \<open>Transport_Ledger\<close> handles on the other side. A command that creates event
  sources is withheld when the feedback records of its kind cannot be repaired first. The type
  of a command, the JSON text of an envelope, new event identifiers and the outcome of the repair
  are arguments.
\<close>

definition creation_commands :: "rstr list" where
  "creation_commands = [lit ''process.exec'', lit ''process.batch'', lit ''mcp.callTool'', lit ''mcp.batch'',
     lit ''skills.run'', lit ''skills.install'']"

definition is_creation_command :: "('c \<Rightarrow> rstr) \<Rightarrow> 'c \<Rightarrow> bool" where
  "is_creation_command command_type c \<longleftrightarrow> command_type c \<in> set creation_commands"

definition replay_envelope :: "(rstr \<Rightarrow> rstr) \<Rightarrow> 'c pending_replay \<Rightarrow> 'c envelope" where
  "replay_envelope new_event p = \<lparr>env_event = new_event (replay_run p), env_run = replay_run p,
     env_request = replay_request p, env_hash = replay_hash p, env_command = replay_command p\<rparr>"

text \<open>The envelopes that are sent, with their texts; one that cannot be encoded is left out.\<close>

definition send_pending_replays ::
    "(rstr \<Rightarrow> json option) \<Rightarrow> (rstr \<Rightarrow> 'c option) \<Rightarrow> ('c \<Rightarrow> rstr) \<Rightarrow> (rstr \<Rightarrow> rstr) \<Rightarrow> ('c envelope \<Rightarrow> rstr option) \<Rightarrow> bool \<Rightarrow>
     rstr \<Rightarrow> int \<Rightarrow> int \<Rightarrow> run_table \<Rightarrow> ('c envelope \<times> rstr) list \<times> run_table" where
  "send_pending_replays parse read command_type new_event to_text repaired agent now later t =
     (case pending_unacked parse read agent now later t of
        (Inl _, t') \<Rightarrow> ([], t')
      | (Inr pending, t') \<Rightarrow>
          let has_creation_runs = list_ex (\<lambda>p. is_creation_command command_type (replay_command p)) pending;
              creation_repair_succeeded = (if has_creation_runs then repaired else True) in
          (List.map_filter (\<lambda>p.
             if is_creation_command command_type (replay_command p) \<and> \<not> creation_repair_succeeded then None
             else let e = replay_envelope new_event p in map_option (Pair e) (to_text e)) pending, t'))"

lemma map_filter_same:
  assumes "\<And>x. x \<in> set xs \<Longrightarrow> f x = g x"
  shows "List.map_filter f xs = List.map_filter g xs"
  using assms by (induction xs) (auto simp: List.map_filter_simps split: option.split)

text \<open>C32.
  When an agent connects and its pending commands can be read, it is sent exactly those that
  still wait for its acknowledgement, each once and with its identity, and none of a retired
  kind. The only ones left out are those that create event sources, when the repair of the
  feedback records failed, and those whose envelope cannot be encoded. When the pending commands
  cannot be read, nothing is sent.
\<close>

theorem pending_replays_exactly:
  assumes "reachable no_hub_runs (hub_step sha) t"
    and "send_pending_replays parse read command_type new_event to_text repaired agent now later t = (sent, t')"
  shows "case fst (pending_unacked parse read agent now later t) of
      Inl _ \<Rightarrow> sent = []
    | Inr _ \<Rightarrow>
        (\<forall>(e, x) \<in> set sent. to_text e = Some x \<and> (is_creation_command command_type (env_command e) \<longrightarrow> repaired) \<and>
           (\<exists>r \<in> set t. replayable parse agent r \<and> env_run e = row_run r \<and> env_request e = row_request r \<and>
              env_hash e = row_hash r \<and> read (row_command r) = Some (env_command e))) \<and>
        (\<forall>r \<in> set t. replayable parse agent r \<longrightarrow> row_run r \<in> (env_run \<circ> fst) ` set sent \<or>
           (\<exists>e. env_run e = row_run r \<and> env_request e = row_request r \<and> env_hash e = row_hash r \<and>
              read (row_command r) = Some (env_command e) \<and>
              (is_creation_command command_type (env_command e) \<and> \<not> repaired \<or> to_text e = None))) \<and>
        distinct (map (env_run \<circ> fst) sent)"
proof (cases "pending_unacked parse read agent now later t")
  case (Pair outcome t1)
  show ?thesis
  proof (cases outcome)
    case (Inl e)
    with Pair assms(2) show ?thesis by (simp add: send_pending_replays_def)
  next
    case (Inr ps)
    let ?creation = "is_creation_command command_type"
    define out where "out = (\<lambda>p. if ?creation (replay_command p) \<and> \<not> repaired then None
      else map_option (Pair (replay_envelope new_event p)) (to_text (replay_envelope new_event p)))"
    have same: "List.map_filter (\<lambda>p. if ?creation (replay_command p) \<and>
          \<not> (if list_ex (\<lambda>p. ?creation (replay_command p)) ps then repaired else True) then None
        else map_option (Pair (replay_envelope new_event p)) (to_text (replay_envelope new_event p))) ps = List.map_filter out ps"
      by (rule map_filter_same) (auto simp: out_def list_ex_iff)
    have sent: "sent = List.map_filter out ps"
      using assms(2) Pair Inr same unfolding send_pending_replays_def Let_def by simp
    note pending = pending_unacked_rows [OF assms(1), of parse read agent now later ps t1] Pair Inr
    have rows: "\<exists>r \<in> set t. replayable parse agent r \<and> replay_run p = row_run r \<and> replay_request p = row_request r \<and>
        replay_hash p = row_hash r \<and> read (row_command r) = Some (replay_command p)" if "p \<in> set ps" for p
      using pending that by blast
    have all: "row_run r \<in> replay_run ` set ps" if "r \<in> set t" "replayable parse agent r" for r using pending that by blast
    have unique: "distinct (map replay_run ps)" using pending by blast
    have in_sent: "ex \<in> set sent \<longleftrightarrow> (\<exists>p \<in> set ps. out p = Some ex)" for ex
      by (force simp: sent List.map_filter_def)
    have key: "env_run (fst ex) = replay_run p" if "out p = Some ex" for p ex
      using that by (auto simp: out_def replay_envelope_def split: if_splits)
    have runs: "map (env_run \<circ> fst) (List.map_filter out qs) = map replay_run (filter (\<lambda>p. out p \<noteq> None) qs)" for qs
      by (induction qs) (auto simp: List.map_filter_simps key split: option.split)
    have one: "\<exists>x. to_text e = Some x \<and> (e, x) \<in> set sent \<or> ?creation (env_command e) \<and> \<not> repaired \<or> to_text e = None"
      if "p \<in> set ps" "e = replay_envelope new_event p" for p e
      using that by (cases "to_text e") (auto simp: in_sent out_def replay_envelope_def)
    have "to_text e = Some x \<and> (?creation (env_command e) \<longrightarrow> repaired) \<and>
        (\<exists>r \<in> set t. replayable parse agent r \<and> env_run e = row_run r \<and> env_request e = row_request r \<and>
           env_hash e = row_hash r \<and> read (row_command r) = Some (env_command e))" if "(e, x) \<in> set sent" for e x
    proof -
      from that obtain p where p: "p \<in> set ps" "out p = Some (e, x)" by (auto simp: in_sent)
      then have "e = replay_envelope new_event p" "to_text e = Some x" "?creation (replay_command p) \<longrightarrow> repaired"
        by (auto simp: out_def split: if_splits)
      with rows [OF p(1)] show ?thesis by (simp add: replay_envelope_def)
    qed
    moreover have "row_run r \<in> (env_run \<circ> fst) ` set sent \<or> (\<exists>e. env_run e = row_run r \<and> env_request e = row_request r \<and> env_hash e = row_hash r \<and>
              read (row_command r) = Some (env_command e) \<and>
        (?creation (env_command e) \<and> \<not> repaired \<or> to_text e = None))" if r: "r \<in> set t" "replayable parse agent r" for r
    proof -
      from all [OF r] obtain p where p: "p \<in> set ps" "replay_run p = row_run r" by force
      from rows [OF p(1)] obtain r' where r': "r' \<in> set t" "row_run r' = row_run r" "read (row_command r') = Some (replay_command p)"
          "replay_request p = row_request r'" "replay_hash p = row_hash r'"
        using p(2) by metis
      have "distinct (map row_run t)" using hub_runs.reachable_inv [OF assms(1)] by (simp add: hub_ok_def)
      with r(1) r'(1,2) have "r' = r" by (auto simp: distinct_map inj_on_def)
      moreover have "env_run (replay_envelope new_event p) = row_run r" "env_request (replay_envelope new_event p) = replay_request p"
        "env_hash (replay_envelope new_event p) = replay_hash p" "env_command (replay_envelope new_event p) = replay_command p"
        using p(2) by (simp_all add: replay_envelope_def)
      ultimately show ?thesis using one [OF p(1) refl] r'(3-5) by force
    qed
    moreover have "distinct (map (env_run \<circ> fst) sent)"
      unfolding sent runs using unique by (rule distinct_map_filter)
    ultimately show ?thesis using Pair Inr by auto
  qed
qed

lemma pending_replays_exactly_witness:
  "\<exists>sent t'. send_pending_replays (\<lambda>_. None) (\<lambda>_. Some ()) (\<lambda>_. lit ''file.read'') (\<lambda>run. run) (\<lambda>_. Some []) False
      (lit ''a'') 1 2 sample_prepared = (sent, t') \<and> lit ''r1'' \<in> (env_run \<circ> fst) ` set sent"
proof -
  let ?go = "send_pending_replays (\<lambda>_. None) (\<lambda>_. Some ()) (\<lambda>_. lit ''file.read'') (\<lambda>run. run) (\<lambda>_. Some []) False
      (lit ''a'') 1 2 sample_prepared"
  have pending: "pending_unacked (\<lambda>_. None) (\<lambda>_. Some ()) (lit ''a'') 1 2 sample_prepared =
    (Inr [\<lparr>replay_run = lit ''r1'', replay_request = lit ''q'', replay_hash = lit ''{}'', replay_command = ()\<rparr>],
     sample_prepared)"
    by (simp add: sample_prepared_def prepare_run_in_transaction_def Let_def pending_unacked_def retired_reads_def
        retire_pending_legacy_argv_commands_def unacked_def update_where_def)
  have "\<exists>r \<in> set sample_prepared. replayable (\<lambda>_. None) (lit ''a'') r \<and> row_run r = lit ''r1''"
    by (simp add: sample_prepared_def prepare_run_in_transaction_def Let_def replayable_def unacked_def retired_reads_def)
  then obtain r where r: "r \<in> set sample_prepared" "replayable (\<lambda>_. None) (lit ''a'') r" "row_run r = lit ''r1''" by blast
  have not_creation: "\<not> is_creation_command (\<lambda>_. lit ''file.read'') c" for c :: unit
    by (simp add: is_creation_command_def creation_commands_def)
  have "?go = (fst ?go, snd ?go)" by simp
  note exact = pending_replays_exactly [OF sample_prepared_reachable this, unfolded pending fst_conv sum.case]
  from exact r(1,2) have "row_run r \<in> (env_run \<circ> fst) ` set (fst ?go)" using not_creation by blast
  then have "lit ''r1'' \<in> (env_run \<circ> fst) ` set (fst ?go)" unfolding r(3) .
  then show ?thesis by (intro exI [of _ "fst ?go"] exI [of _ "snd ?go"]) simp
qed

end
