(* ===== verification/Process_Types.thy ===== *)
theory Process_Types
  imports Process_Output
begin

text \<open>
  The data of managed processes (\<^verbatim>\<open>agentic-gpt-protocol/src/process.rs\<close>,
  \<^verbatim>\<open>process/model.rs\<close>): kinds and states, what is known of a process, its error and
  detail, the bounds on stored texts, the name of a group and the event a process ends with.
  Times are integers; the JSON value an MCP call returns is the list of its bytes.
\<close>

subsection \<open>States\<close>

datatype process_kind = Command | Skill | Mcp

datatype process_state =
    Queued | WaitingConfirmation | Starting | Running | Completed | Failed | Rejected
  | CancelRequested | Cancelled | TimedOut | Detached | UnknownAfterRestart | Skipped

definition is_active :: "process_state \<Rightarrow> bool" where
  "is_active s \<longleftrightarrow> s \<in> {Queued, WaitingConfirmation, Starting, Running, CancelRequested}"

definition is_terminal :: "process_state \<Rightarrow> bool" where
  "is_terminal s \<longleftrightarrow> \<not> is_active s"

fun state_label :: "process_state \<Rightarrow> rstr" where
  "state_label Queued = lit ''queued''"
| "state_label WaitingConfirmation = lit ''waiting_confirmation''"
| "state_label Starting = lit ''starting''"
| "state_label Running = lit ''running''"
| "state_label Completed = lit ''completed''"
| "state_label Failed = lit ''failed''"
| "state_label Rejected = lit ''rejected''"
| "state_label CancelRequested = lit ''cancel_requested''"
| "state_label Cancelled = lit ''cancelled''"
| "state_label TimedOut = lit ''timed_out''"
| "state_label Detached = lit ''detached''"
| "state_label UnknownAfterRestart = lit ''unknown_after_restart''"
| "state_label Skipped = lit ''skipped''"

text \<open>What a process is about; it is fixed when the process is registered.\<close>

record process_subject =
  sub_group :: "rstr option"
  sub_batch_id :: "rstr option"
  sub_batch_call_id :: "rstr option"
  sub_batch_index :: "nat option"
  sub_program :: "rstr option"
  sub_args :: "rstr list"
  sub_directory :: "rstr option"
  sub_preview :: "rstr option"
  sub_skill_id :: "rstr option"
  sub_skill_path :: "rstr option"
  sub_digest :: "rstr option"
  sub_server :: "rstr option"
  sub_tool :: "rstr option"

record process_info =
  i_id :: rstr
  i_subject :: process_subject
  i_kind :: process_kind
  i_state :: process_state
  i_created :: int
  i_started :: "int option"
  i_updated :: int
  i_finished :: "int option"
  i_exit :: "int option"
  i_reason :: "rstr option"
  i_cancel_requested :: bool
  i_cancel_outcome :: "rstr option"
  i_evidence :: "rstr option"
  i_capture :: capture_status
  i_capture_error :: "rstr option"

record process_error =
  error_code :: rstr
  error_message :: rstr

record process_detail =
  d_process :: process_info
  d_available :: bool
  d_result :: "int list option"
  d_error :: "process_error option"
  d_result_available :: bool
  d_result_bytes :: "nat option"
  d_result_sha256 :: "rstr option"
  d_result_preview :: "rstr option"

subsection \<open>Numbers and texts\<close>

text \<open>\<^verbatim>\<open>Display\<close> of integers.\<close>

fun dec_nat :: "nat \<Rightarrow> rstr" where
  "dec_nat n = (if n < 10 then [48 + int n] else dec_nat (n div 10) @ [48 + int (n mod 10)])"

definition dec_int :: "int \<Rightarrow> rstr" where
  "dec_int n = (if n < 0 then 45 # dec_nat (nat (- n)) else dec_nat (nat n))"

text \<open>The loop goes down to the nearest character boundary; zero is one.\<close>

fun char_end :: "rstr \<Rightarrow> nat \<Rightarrow> rstr" where
  "char_end s 0 = []"
| "char_end s (Suc n) = (case split_bytes (Suc n) s of Some (a, _) \<Rightarrow> a | None \<Rightarrow> char_end s n)"

definition utf8_prefix :: "rstr \<Rightarrow> nat \<Rightarrow> rstr" where
  "utf8_prefix s n = (if byte_len s \<le> n then s else char_end s n)"

definition max_process_error_bytes :: nat where "max_process_error_bytes = 8 * 1024"

definition truncated_suffix :: rstr where "truncated_suffix = lit ''...[truncated]''"

definition bounded_error_message :: "rstr \<Rightarrow> rstr" where
  "bounded_error_message s =
     (if byte_len s \<le> max_process_error_bytes then s
      else utf8_prefix s (max_process_error_bytes - byte_len truncated_suffix) @ truncated_suffix)"

definition truncate_text :: "rstr \<Rightarrow> nat \<Rightarrow> rstr" where
  "truncate_text s n = (if byte_len s \<le> n then s else char_end s n)"

definition max_error_bytes :: nat where "max_error_bytes = 8 * 1024"

definition bounded_subject :: "process_subject \<Rightarrow> process_subject" where
  "bounded_subject s =
     (let long = map_option (\<lambda>t. truncate_text t (64 * 1024)) in
      s\<lparr>sub_group := long (sub_group s), sub_batch_id := long (sub_batch_id s),
        sub_batch_call_id := long (sub_batch_call_id s), sub_program := long (sub_program s),
        sub_args := map (\<lambda>t. truncate_text t (4 * 1024)) (take 128 (sub_args s)),
        sub_directory := long (sub_directory s),
        sub_preview := map_option (\<lambda>t. truncate_text t (8 * 1024)) (sub_preview s),
        sub_skill_id := long (sub_skill_id s), sub_skill_path := long (sub_skill_path s),
        sub_digest := long (sub_digest s), sub_server := long (sub_server s), sub_tool := long (sub_tool s)\<rparr>)"

definition bounded_error_text :: "rstr option \<Rightarrow> rstr option" where
  "bounded_error_text = map_option (\<lambda>t. truncate_text t max_error_bytes)"

definition bounded_info :: "process_info \<Rightarrow> process_info" where
  "bounded_info i =
     i\<lparr>i_id := truncate_text (i_id i) (64 * 1024), i_subject := bounded_subject (i_subject i),
       i_reason := bounded_error_text (i_reason i), i_cancel_outcome := bounded_error_text (i_cancel_outcome i),
       i_evidence := bounded_error_text (i_evidence i), i_capture_error := bounded_error_text (i_capture_error i)\<rparr>"

definition bounded_detail :: "process_detail \<Rightarrow> process_detail" where
  "bounded_detail d =
     (let d1 = d\<lparr>d_process := bounded_info (d_process d),
          d_error := map_option (\<lambda>e. \<lparr>error_code = truncate_text (error_code e) 256,
             error_message = truncate_text (error_message e) max_error_bytes\<rparr>) (d_error d),
          d_result_preview := map_option (\<lambda>t. truncate_text t (8 * 1024)) (d_result_preview d)\<rparr> in
      case d_result d1 of
        Some bytes \<Rightarrow> if length bytes > 512 * 1024 then d1\<lparr>d_result := None, d_result_available := False\<rparr> else d1
      | None \<Rightarrow> d1)"

subsection \<open>Groups and completion events\<close>

datatype group_error = GroupEmpty | GroupTooLong | GroupControlCharacter

definition process_group_max_chars :: nat where "process_group_max_chars = 32"

definition normalize_process_group :: "rstr option \<Rightarrow> group_error + rstr option" where
  "normalize_process_group given =
     (case given of
        None \<Rightarrow> Inr None
      | Some g \<Rightarrow>
          let trimmed = trim g in
          if trimmed = [] then Inl GroupEmpty
          else if length trimmed > process_group_max_chars then Inl GroupTooLong
          else if list_ex is_control trimmed then Inl GroupControlCharacter
          else Inr (Some trimmed))"

fun group_message :: "group_error \<Rightarrow> rstr" where
  "group_message GroupEmpty = lit ''group must not be empty after trimming''"
| "group_message GroupTooLong = lit ''group must contain at most 32 Unicode characters''"
| "group_message GroupControlCharacter = lit ''group must not contain control characters''"

definition validated_group :: "rstr option \<Rightarrow> rstr + rstr option" where
  "validated_group given =
     (case normalize_process_group given of
        Inl e \<Rightarrow> Inl (lit ''process_group_invalid: '' @ group_message e)
      | Inr g \<Rightarrow> Inr g)"

text \<open>The event of a terminal state; \<open>None\<close> is the \<^verbatim>\<open>unreachable!\<close> of an active one.\<close>

fun process_event_type :: "process_state \<Rightarrow> rstr option" where
  "process_event_type Completed = Some (lit ''process.completed'')"
| "process_event_type Failed = Some (lit ''process.failed'')"
| "process_event_type Rejected = Some (lit ''process.rejected'')"
| "process_event_type Cancelled = Some (lit ''process.cancelled'')"
| "process_event_type TimedOut = Some (lit ''process.timed_out'')"
| "process_event_type Detached = Some (lit ''process.detached'')"
| "process_event_type UnknownAfterRestart = Some (lit ''process.unknown_after_restart'')"
| "process_event_type Skipped = Some (lit ''process.skipped'')"
| "process_event_type _ = None"

record completion_details =
  c_type :: rstr
  c_message :: rstr
  c_at :: int

definition process_completion_details :: "process_info \<Rightarrow> completion_details option" where
  "process_completion_details i =
     (if is_active (i_state i) then None
      else map_option (\<lambda>t. \<lparr>c_type = t,
          c_message = lit ''Managed process '' @ i_id i @ lit '' ended with state '' @ state_label (i_state i) @ lit ''.'',
          c_at = i_updated i\<rparr>) (process_event_type (i_state i)))"

subsection \<open>Facts\<close>

lemma terminal_not_active [simp]: "is_terminal s \<longleftrightarrow> \<not> is_active s"
  by (simp add: is_terminal_def)

lemma active_states [simp]:
  "is_active Queued" "is_active WaitingConfirmation" "is_active Starting" "is_active Running" "is_active CancelRequested"
  "\<not> is_active Completed" "\<not> is_active Failed" "\<not> is_active Rejected" "\<not> is_active Cancelled" "\<not> is_active TimedOut"
  "\<not> is_active Detached" "\<not> is_active UnknownAfterRestart" "\<not> is_active Skipped"
  by (simp_all add: is_active_def)

lemma event_type_terminal: "process_event_type s = None \<longleftrightarrow> is_active s"
  by (cases s) simp_all

text \<open>Every terminal process has a completion: the \<^verbatim>\<open>unreachable!\<close> is not reached.\<close>

lemma completion_of_terminal: "process_completion_details i = None \<longleftrightarrow> is_active (i_state i)"
  by (simp add: process_completion_details_def event_type_terminal)

lemma completion_names_state:
  "process_completion_details i = Some d \<Longrightarrow> \<not> is_active (i_state i) \<and> process_event_type (i_state i) = Some (c_type d)"
  by (cases "process_event_type (i_state i)")
    (auto simp: process_completion_details_def event_type_terminal [symmetric])

lemma char_end_prefix: "\<exists>b. s = char_end s n @ b" and char_end_bound: "byte_len (char_end s n) \<le> n"
proof (induction n)
  case (Suc n)
  { case 1 show ?case using Suc(1) by (auto split: option.splits dest: split_bytes_SomeD) }
  { case 2 show ?case using Suc(2) by (auto split: option.splits dest: split_bytes_SomeD) }
qed simp_all

text \<open>The cut is the longest one: the next character would not fit.\<close>

lemma char_end_longest:
  assumes "s = a @ b" and "byte_len a \<le> n"
  shows "byte_len a \<le> byte_len (char_end s n)"
  using assms
proof (induction n)
  case (Suc n)
  show ?case
  proof (cases "split_bytes (Suc n) s")
    case None
    then have "byte_len a \<noteq> Suc n" using split_bytes_append [of a b] Suc.prems by auto
    with Suc.IH Suc.prems None show ?thesis by simp
  next
    case (Some p)
    then show ?thesis using Suc.prems by (cases p) (auto dest: split_bytes_SomeD)
  qed
qed simp

lemma truncate_text_bound: "byte_len (truncate_text s n) \<le> n"
  by (simp add: truncate_text_def char_end_bound)

lemma truncate_text_short: "byte_len s \<le> n \<Longrightarrow> truncate_text s n = s"
  by (simp add: truncate_text_def)

lemma bounded_error_message_bound: "byte_len (bounded_error_message s) \<le> max_process_error_bytes"
proof -
  have "byte_len truncated_suffix \<le> max_process_error_bytes"
    by (simp add: truncated_suffix_def max_process_error_bytes_def char_utf8_len_def byte_len_def lit_def)
  with char_end_bound [of s "max_process_error_bytes - byte_len truncated_suffix"]
  show ?thesis by (auto simp: bounded_error_message_def utf8_prefix_def)
qed

lemma bounded_info_simps [simp]:
  "i_state (bounded_info i) = i_state i" "i_kind (bounded_info i) = i_kind i"
  "i_created (bounded_info i) = i_created i" "i_started (bounded_info i) = i_started i"
  "i_updated (bounded_info i) = i_updated i" "i_finished (bounded_info i) = i_finished i"
  "i_exit (bounded_info i) = i_exit i" "i_capture (bounded_info i) = i_capture i"
  "i_reason (bounded_info i) = bounded_error_text (i_reason i)"
  "i_id (bounded_info i) = truncate_text (i_id i) (64 * 1024)"
  by (simp_all add: bounded_info_def)

lemma bounded_detail_process [simp]: "d_process (bounded_detail d) = bounded_info (d_process d)"
  by (simp add: bounded_detail_def Let_def split: option.split)

text \<open>A normalised group is trimmed, and normalising it again changes nothing.\<close>

lemma trim_trim: "trim (trim s) = trim s"
proof (cases "trim s = []")
  case True
  show ?thesis unfolding True by (simp add: trim_def trim_start_def trim_end_def)
next
  case False
  have "\<not> is_whitespace (hd (trim s))"
    using False hd_dropWhile [of is_whitespace "trim_end s"] by (simp add: trim_def trim_start_def)
  moreover have "\<not> is_whitespace (last (trim s))"
  proof -
    have ne: "trim_end s \<noteq> []" using False by (auto simp: trim_def trim_start_def)
    have "trim_end s = takeWhile is_whitespace (trim_end s) @ trim s" by (simp add: trim_def trim_start_def)
    then have "last (trim s) = last (trim_end s)" using False by (metis last_appendR)
    moreover have "\<not> is_whitespace (last (trim_end s))"
      using ne hd_dropWhile [of is_whitespace "rev s"] by (simp add: trim_end_def last_rev)
    ultimately show ?thesis by simp
  qed
  ultimately show ?thesis using False by (simp add: trim_id)
qed

lemma normalize_process_group_idem:
  assumes "normalize_process_group g = Inr g'"
  shows "normalize_process_group g' = Inr g'"
  using assms by (auto simp: normalize_process_group_def Let_def trim_trim split: option.splits if_splits)

end
