(* ===== verification/Process_History.thy ===== *)
theory Process_History
  imports Process_Types "HOL-Library.List_Lexorder"
begin

text \<open>
  The history of processes in SQLite (\<^verbatim>\<open>storage/process_history.rs\<close>): the table of
  processes with the columns its queries read, the table of completions that are still to be
  delivered, admission, start, the terminal snapshot, recovery after a restart and retention.
  A statement can fail, which rolls its transaction back; the sizes of JSON texts are
  arguments. Times are stored as RFC 3339 texts, whose order is the order of the times.
\<close>

subsection \<open>Tables\<close>

datatype write_outcome = Persisted | Deferred rstr | WriteFailed rstr

definition is_persisted :: "write_outcome \<Rightarrow> bool" where
  "is_persisted w \<longleftrightarrow> w = Persisted"

fun outcome_error :: "write_outcome \<Rightarrow> rstr option" where
  "outcome_error Persisted = None"
| "outcome_error (Deferred e) = Some e"
| "outcome_error (WriteFailed e) = Some e"

record output_snapshot =
  s_stdout :: "int list \<times> nat \<times> nat"
  s_stderr :: "int list \<times> nat \<times> nat"

definition no_output :: output_snapshot where
  "no_output = \<lparr>s_stdout = ([], 0, 0), s_stderr = ([], 0, 0)\<rparr>"

text \<open>
  The columns are copies of what is in \<^verbatim>\<open>info_json\<close>, made when the row is written; the two
  that nothing reads (\<^verbatim>\<open>started_at\<close>, \<^verbatim>\<open>capture_error\<close>) are left out.
\<close>

record history_row =
  r_id :: rstr
  r_group :: "rstr option"
  r_kind :: process_kind
  r_state :: process_state
  r_created :: int
  r_updated :: int
  r_finished :: "int option"
  r_info :: process_info
  r_detail :: "process_detail option"
  r_output :: output_snapshot
  r_capture :: capture_status

record history =
  h_rows :: "history_row list"
  h_completions :: "(rstr \<times> completion_details option) list"
  h_degraded :: bool
  h_error :: "rstr option"
  h_last_cleanup :: "int option"

definition row_of :: "rstr \<Rightarrow> history \<Rightarrow> history_row option" where
  "row_of pid h = find (\<lambda>r. r_id r = pid) (h_rows h)"

definition failed :: "rstr \<Rightarrow> history \<Rightarrow> write_outcome \<times> history" where
  "failed e h = (let m = truncate_text e max_error_bytes in
     (WriteFailed m, h\<lparr>h_degraded := True, h_error := Some m\<rparr>))"

definition healthy :: "history \<Rightarrow> history" where
  "healthy h = h\<lparr>h_degraded := False, h_error := None\<rparr>"

definition max_info_json_bytes :: nat where "max_info_json_bytes = 256 * 1024"
definition max_detail_json_bytes :: nat where "max_detail_json_bytes = 1024 * 1024"
definition max_admission_info_json_bytes :: nat where
  "max_admission_info_json_bytes = max_info_json_bytes - (8 * 1024 * 2 * 6 + 1024)"

text \<open>
  The sizes of JSON texts in bytes, which the limits of a write are about, and their lengths in
  characters, which SQLite counts for the retention.
\<close>

record json_sizes =
  info_size :: "process_info \<Rightarrow> nat"
  detail_size :: "process_detail \<Rightarrow> nat"
  info_length :: "process_info \<Rightarrow> nat"
  detail_length :: "process_detail \<Rightarrow> nat"

subsection \<open>Writes\<close>

definition new_row :: "process_info \<Rightarrow> process_detail option \<Rightarrow> output_snapshot \<Rightarrow> history_row" where
  "new_row i d out = \<lparr>r_id = i_id i, r_group = sub_group (i_subject i), r_kind = i_kind i, r_state = i_state i,
     r_created = i_created i, r_updated = i_updated i, r_finished = i_finished i, r_info = i, r_detail = d,
     r_output = out, r_capture = i_capture i\<rparr>"

definition update_row :: "rstr \<Rightarrow> (history_row \<Rightarrow> history_row) \<Rightarrow> history_row list \<Rightarrow> history_row list" where
  "update_row pid f rs = map (\<lambda>r. if r_id r = pid then f r else r) rs"

definition insert_or_ignore :: "process_info \<Rightarrow> history_row list \<Rightarrow> history_row list" where
  "insert_or_ignore i rs =
     (if list_ex (\<lambda>r. r_id r = i_id i) rs then rs else rs @ [new_row i None no_output])"

definition track :: "process_info \<Rightarrow> (rstr \<times> completion_details option) list \<Rightarrow> (rstr \<times> completion_details option) list" where
  "track i cs = (if list_ex (\<lambda>c. fst c = i_id i) cs then cs else cs @ [(i_id i, None)])"

definition insert_admissions ::
    "json_sizes \<Rightarrow> rstr option \<Rightarrow> bool \<Rightarrow> process_info list \<Rightarrow> history \<Rightarrow> write_outcome \<times> history" where
  "insert_admissions sz fault track_events infos h =
     (let admissions = map bounded_info infos in
      if list_ex (\<lambda>i. info_size sz i > max_admission_info_json_bytes) admissions
      then (WriteFailed (lit ''process_history_admission_metadata_too_large''), h)
      else case fault of
        Some e \<Rightarrow> failed e h
      | None \<Rightarrow> (Persisted, healthy (h\<lparr>h_rows := fold insert_or_ignore admissions (h_rows h),
          h_completions := (if track_events then fold track admissions (h_completions h) else h_completions h)\<rparr>)))"

definition mark_started_row :: "json_sizes \<Rightarrow> rstr option \<Rightarrow> process_info \<Rightarrow> history \<Rightarrow> write_outcome \<times> history" where
  "mark_started_row sz fault info h =
     (let i = bounded_info info in
      if info_size sz i > max_admission_info_json_bytes
      then (WriteFailed (lit ''process_history_admission_metadata_too_large''), h)
      else case fault of
        Some e \<Rightarrow> failed e h
      | None \<Rightarrow>
          (case row_of (i_id i) h of
             Some r \<Rightarrow>
               if is_active (r_state r)
               then (Persisted, healthy (h\<lparr>h_rows := update_row (i_id i) (\<lambda>r. r\<lparr>r_state := i_state i,
                 r_updated := i_updated i, r_info := i, r_capture := i_capture i\<rparr>) (h_rows h)\<rparr>))
               else failed (lit ''history_admission_missing'') h
           | None \<Rightarrow> failed (lit ''history_admission_missing'') h))"

definition persist_completion ::
    "process_info \<Rightarrow> (rstr \<times> completion_details option) list \<Rightarrow> (rstr \<times> completion_details option) list" where
  "persist_completion i cs =
     (case process_completion_details i of
        None \<Rightarrow> cs
      | Some d \<Rightarrow> map (\<lambda>(pid, x). if pid = i_id i \<and> x = None then (pid, Some d) else (pid, x)) cs)"

definition history_retention :: int where "history_retention = 30 * 86400 * 1000000000"
definition cleanup_interval :: int where "cleanup_interval = 3600 * 1000000000"
definition history_cap_bytes :: nat where "history_cap_bytes = 512 * 1024 * 1024"

definition row_size :: "json_sizes \<Rightarrow> history_row \<Rightarrow> nat" where
  "row_size sz r = info_length sz (r_info r) + (case r_detail r of None \<Rightarrow> 0 | Some d \<Rightarrow> detail_length sz d)
     + length (fst (s_stdout (r_output r))) + length (fst (s_stderr (r_output r)))"

text \<open>
  The rows that finished first, a tenth of all rows and at least one. A failure of the
  retention comes before or after the first of its two deletions.
\<close>

definition oldest_finished :: "history_row list \<Rightarrow> rstr list" where
  "oldest_finished rs = map r_id (take (max (length rs div 10) 1)
     (sort_key (\<lambda>r. the (r_finished r)) (filter (\<lambda>r. r_finished r \<noteq> None) rs)))"

definition maybe_cleanup :: "json_sizes \<Rightarrow> (bool \<times> rstr) option \<Rightarrow> int \<Rightarrow> history \<Rightarrow> history" where
  "maybe_cleanup sz fault now h =
     (if (case h_last_cleanup h of Some t \<Rightarrow> now - t < cleanup_interval | None \<Rightarrow> False) then h
      else let h1 = h\<lparr>h_last_cleanup := Some now\<rparr>;
          kept = filter (\<lambda>r. case r_finished r of Some t \<Rightarrow> t \<ge> now - history_retention | None \<Rightarrow> True) (h_rows h) in
        case fault of
          Some (first_done, e) \<Rightarrow> snd (failed e (if first_done then h1\<lparr>h_rows := kept\<rparr> else h1))
        | None \<Rightarrow>
            if sum_list (map (row_size sz) kept) > history_cap_bytes
            then h1\<lparr>h_rows := filter (\<lambda>r. r_id r \<notin> set (oldest_finished kept)) kept\<rparr>
            else h1\<lparr>h_rows := kept\<rparr>)"

text \<open>The first terminal snapshot stays: a row that is terminal is left as it is.\<close>

definition upsert_rows :: "process_detail \<Rightarrow> output_snapshot \<Rightarrow> history \<Rightarrow> history_row list" where
  "upsert_rows d out h =
     (let i = d_process d in
      case row_of (i_id i) h of
        None \<Rightarrow> h_rows h @ [new_row i (Some d) out]
      | Some r \<Rightarrow> if is_active (r_state r) then update_row (i_id i) (\<lambda>_. new_row i (Some d) out) (h_rows h) else h_rows h)"

definition upsert_terminal ::
    "json_sizes \<Rightarrow> rstr option \<Rightarrow> (bool \<times> rstr) option \<Rightarrow> int \<Rightarrow> process_detail \<Rightarrow> output_snapshot \<Rightarrow> history \<Rightarrow> write_outcome \<times> history" where
  "upsert_terminal sz fault cleanup_fault now detail out h =
     (let d = bounded_detail detail; i = d_process d in
      if info_size sz i > max_info_json_bytes \<or> detail_size sz d > max_detail_json_bytes
      then failed (lit ''process_history_snapshot_too_large'') h
      else case fault of
        Some e \<Rightarrow> failed e h
      | None \<Rightarrow> (Persisted, maybe_cleanup sz cleanup_fault now (healthy
          (h\<lparr>h_rows := upsert_rows d out h, h_completions := persist_completion i (h_completions h)\<rparr>))))"

definition record_terminal_event :: "rstr option \<Rightarrow> process_info \<Rightarrow> history \<Rightarrow> write_outcome \<times> history" where
  "record_terminal_event fault i h =
     (if is_active (i_state i) then (WriteFailed (lit ''process_event_requires_terminal_state''), h)
      else case fault of
        Some e \<Rightarrow> failed e h
      | None \<Rightarrow> (Persisted, healthy (h\<lparr>h_completions := persist_completion i (h_completions h)\<rparr>)))"

definition acknowledge_event_completion :: "rstr option \<Rightarrow> rstr \<Rightarrow> history \<Rightarrow> bool \<times> history" where
  "acknowledge_event_completion fault pid h =
     (case fault of Some _ \<Rightarrow> (False, h)
      | None \<Rightarrow> (True, h\<lparr>h_completions := filter (\<lambda>c. fst c \<noteq> pid) (h_completions h)\<rparr>))"

subsection \<open>Reads\<close>

definition retry_pending :: "history \<Rightarrow> nat" where "retry_pending h = 0"

definition terminal_pending :: "history \<Rightarrow> rstr \<Rightarrow> bool" where "terminal_pending h pid = False"

definition terminal_snapshot_matches :: "rstr option \<Rightarrow> rstr \<Rightarrow> int \<Rightarrow> history \<Rightarrow> bool" where
  "terminal_snapshot_matches fault pid updated h =
     (fault = None \<and> (case row_of pid h of None \<Rightarrow> False | Some r \<Rightarrow> r_updated r = updated \<and> r_finished r \<noteq> None))"

definition pending_event_completions :: "history \<Rightarrow> (rstr \<times> completion_details) list" where
  "pending_event_completions h =
     sort_key (\<lambda>(pid, d). c_at d) (sort_key fst (List.map_filter (\<lambda>(pid, x). map_option (Pair pid) x) (h_completions h)))"

record status_record =
  t_info :: process_info
  t_error :: "process_error option"
  t_kind :: process_kind
  t_state :: process_state
  t_capture :: capture_status
  t_output :: "(nat \<times> nat) \<times> nat \<times> nat"

definition get_record :: "rstr \<Rightarrow> history \<Rightarrow> (process_info \<times> process_detail option \<times> output_snapshot) option" where
  "get_record pid h = map_option (\<lambda>r. (r_info r, r_detail r, r_output r)) (row_of pid h)"

definition status_record_of :: "rstr \<Rightarrow> history \<Rightarrow> status_record option" where
  "status_record_of pid h = map_option (\<lambda>r. \<lparr>t_info = r_info r, t_error = Option.bind (r_detail r) d_error,
     t_kind = r_kind r, t_state = r_state r, t_capture = r_capture r,
     t_output = (snd (s_stdout (r_output r)), snd (s_stderr (r_output r)))\<rparr>) (row_of pid h)"

subsection \<open>Recovery\<close>

definition recovered_info :: "int \<Rightarrow> process_info \<Rightarrow> process_info" where
  "recovered_info now i =
     (let lost = i_kind i \<noteq> Mcp in
      i\<lparr>i_state := UnknownAfterRestart, i_updated := now, i_finished := Some now,
        i_capture := (if lost then StatusIncomplete else StatusNotApplicable),
        i_capture_error := (if lost then Some (lit ''agent_restarted_before_output_capture_completed'') else None),
        i_evidence := Some (lit ''agent_restart'')\<rparr>)"

definition recovered_detail :: "process_info \<Rightarrow> process_detail" where
  "recovered_detail i = \<lparr>d_process = i, d_available = False, d_result = None, d_error = None,
     d_result_available = False, d_result_bytes = None, d_result_sha256 = None, d_result_preview = None\<rparr>"

text \<open>The column \<^verbatim>\<open>capture_status\<close> is written as a constant for every kind.\<close>

definition recover_row :: "int \<Rightarrow> process_info \<Rightarrow> history_row list \<Rightarrow> history_row list" where
  "recover_row now i rs = update_row (i_id i) (\<lambda>r. r\<lparr>r_state := i_state i, r_updated := now, r_finished := Some now,
     r_info := i, r_detail := Some (recovered_detail i), r_capture := StatusIncomplete\<rparr>) rs"

definition recover_active :: "rstr option \<Rightarrow> int \<Rightarrow> history \<Rightarrow> (rstr + nat) \<times> history" where
  "recover_active fault now h =
     (case fault of
        Some e \<Rightarrow> (Inl e, h)
      | None \<Rightarrow>
          let recovered = map (\<lambda>r. recovered_info now (r_info r)) (filter (\<lambda>r. is_active (r_state r)) (h_rows h)) in
          (Inr (length recovered), h\<lparr>h_rows := fold (recover_row now) recovered (h_rows h),
            h_completions := fold persist_completion recovered (h_completions h)\<rparr>))"

subsection \<open>Rows\<close>

text \<open>
  Identifiers are unique, the state column is the state of the stored information, only what is
  terminal has an end, and identifiers are short enough to be stored as they are.
\<close>

definition row_ok :: "history_row \<Rightarrow> bool" where
  "row_ok r \<longleftrightarrow> r_state r = i_state (r_info r) \<and> (r_finished r \<noteq> None \<longrightarrow> \<not> is_active (r_state r)) \<and> i_id (r_info r) = r_id r"

definition history_ok :: "history \<Rightarrow> bool" where
  "history_ok h \<longleftrightarrow> distinct (map r_id (h_rows h)) \<and> list_all row_ok (h_rows h)"

lemma row_of_SomeD: "row_of pid h = Some r \<Longrightarrow> r \<in> set (h_rows h) \<and> r_id r = pid"
  unfolding row_of_def by (auto simp: find_Some_iff)

lemma row_of_SomeI:
  assumes "distinct (map r_id (h_rows h))" and "r \<in> set (h_rows h)"
  shows "row_of (r_id r) h = Some r"
proof -
  have "find (\<lambda>x. r_id x = r_id r) rs = Some r" if "distinct (map r_id rs)" "r \<in> set rs" for rs
    using that by (induction rs) (auto simp: image_iff)
  with assms show ?thesis by (simp add: row_of_def)
qed

lemma row_of_None_iff: "row_of pid h = None \<longleftrightarrow> pid \<notin> r_id ` set (h_rows h)"
  by (auto simp: row_of_def find_None_iff)

lemma row_of_ok: "history_ok h \<Longrightarrow> row_of pid h = Some r \<Longrightarrow> row_ok r"
  unfolding history_ok_def by (auto dest!: row_of_SomeD simp: list_all_iff)

lemma row_of_cong [simp]:
  "row_of pid (healthy h) = row_of pid h" "row_of pid (snd (failed e h)) = row_of pid h"
  "row_of pid (h\<lparr>h_completions := cs\<rparr>) = row_of pid h" "row_of pid (h\<lparr>h_last_cleanup := t\<rparr>) = row_of pid h"
  by (simp_all add: row_of_def healthy_def failed_def Let_def)

lemma history_ok_cong [simp]:
  "history_ok (healthy h) = history_ok h" "history_ok (snd (failed e h)) = history_ok h"
  "history_ok (h\<lparr>h_completions := cs\<rparr>) = history_ok h" "history_ok (h\<lparr>h_last_cleanup := t\<rparr>) = history_ok h"
  by (simp_all add: history_ok_def healthy_def failed_def Let_def)

lemma failed_result:
  assumes "failed e h = (outcome, h')" and "history_ok h"
  shows "outcome \<noteq> Persisted \<and> history_ok h' \<and> (\<forall>q. row_of q h' = row_of q h)"
proof -
  have "outcome \<noteq> Persisted" using assms(1) by (auto simp: failed_def Let_def)
  moreover have "h' = snd (failed e h)" using assms(1) by simp
  ultimately show ?thesis using assms(2) by simp
qed

lemma row_of_append:
  "row_of pid (h\<lparr>h_rows := h_rows h @ [r]\<rparr>) =
     (case row_of pid h of Some x \<Rightarrow> Some x | None \<Rightarrow> if r_id r = pid then Some r else None)"
  by (auto simp: row_of_def find_append split: option.split)

lemma row_of_update:
  fixes f
  assumes "\<And>r. r_id r = k \<Longrightarrow> r_id (f r) = k"
  shows "row_of pid (h\<lparr>h_rows := update_row k f (h_rows h)\<rparr>) = map_option (\<lambda>r. if k = pid then f r else r) (row_of pid h)"
proof -
  have "find (\<lambda>r. r_id r = pid) (update_row k f rs) = map_option (\<lambda>r. if k = pid then f r else r) (find (\<lambda>r. r_id r = pid) rs)" for rs
    using assms by (induction rs) (auto simp: update_row_def)
  then show ?thesis by (simp add: row_of_def)
qed

lemma history_ok_append:
  assumes "history_ok h" and "row_ok r" and "row_of (r_id r) h = None"
  shows "history_ok (h\<lparr>h_rows := h_rows h @ [r]\<rparr>)"
  using assms by (auto simp: history_ok_def row_of_None_iff)

lemma history_ok_update:
  assumes "history_ok h" and "\<And>r. r \<in> set (h_rows h) \<Longrightarrow> r_id r = k \<Longrightarrow> r_id (f r) = k \<and> row_ok (f r)"
  shows "history_ok (h\<lparr>h_rows := update_row k f (h_rows h)\<rparr>)"
proof -
  have ids: "map r_id (update_row k f (h_rows h)) = map r_id (h_rows h)"
    using assms(2) by (auto simp: update_row_def)
  have "list_all row_ok (update_row k f (h_rows h))"
    using assms by (auto simp: history_ok_def list_all_iff update_row_def)
  with ids assms(1) show ?thesis by (simp add: history_ok_def)
qed

lemma find_filter_distinct:
  assumes "distinct (map r_id rs)"
  shows "find (\<lambda>r. r_id r = pid) (filter Q rs) = (case find (\<lambda>r. r_id r = pid) rs of Some r \<Rightarrow> if Q r then Some r else None | None \<Rightarrow> None)"
  using assms
proof (induction rs)
  case (Cons r rs)
  show ?case
  proof (cases "r_id r = pid")
    case True
    with Cons.prems have "r_id x \<noteq> pid" if "x \<in> set rs" for x using that by (auto simp: image_iff)
    then have "find (\<lambda>r. r_id r = pid) (filter Q rs) = None" by (auto simp: find_None_iff)
    with True show ?thesis by simp
  qed (use Cons in auto)
qed simp

lemma row_of_filter:
  assumes "history_ok h"
  shows "row_of pid (h\<lparr>h_rows := filter Q (h_rows h)\<rparr>) \<in> {row_of pid h, None}"
  using assms by (auto simp: row_of_def history_ok_def find_filter_distinct split: option.split)

lemma history_ok_filter: "history_ok h \<Longrightarrow> history_ok (h\<lparr>h_rows := filter Q (h_rows h)\<rparr>)"
  by (auto simp: history_ok_def list_all_iff distinct_map inj_on_def)

subsection \<open>What a write does to the rows\<close>

lemma cleanup_rows: "\<exists>Q. h_rows (maybe_cleanup sz fault now h) = filter Q (h_rows h)"
proof (cases "case h_last_cleanup h of Some t \<Rightarrow> now - t < cleanup_interval | None \<Rightarrow> False")
  case True
  then have "h_rows (maybe_cleanup sz fault now h) = filter (\<lambda>_. True) (h_rows h)" by (simp add: maybe_cleanup_def)
  then show ?thesis by blast
next
  case False
  define Q :: "history_row \<Rightarrow> bool" where "Q = (\<lambda>r. case r_finished r of Some t \<Rightarrow> t \<ge> now - history_retention | None \<Rightarrow> True)"
  define kept where "kept = filter Q (h_rows h)"
  have "h_rows (maybe_cleanup sz fault now h) \<in>
      {h_rows h, kept, filter (\<lambda>r. r_id r \<notin> set (oldest_finished kept)) kept}"
    using False unfolding maybe_cleanup_def Q_def kept_def by (auto simp: Let_def failed_def split: option.split)
  then consider "h_rows (maybe_cleanup sz fault now h) = filter (\<lambda>_. True) (h_rows h)"
    | "h_rows (maybe_cleanup sz fault now h) = kept"
    | "h_rows (maybe_cleanup sz fault now h) = filter (\<lambda>r. r_id r \<notin> set (oldest_finished kept)) kept"
    by force
  then show ?thesis unfolding kept_def filter_filter by cases blast+
qed

lemma cleanup_row_of:
  assumes "history_ok h"
  shows "history_ok (maybe_cleanup sz fault now h)"
    and "row_of pid (maybe_cleanup sz fault now h) \<in> {row_of pid h, None}"
proof -
  obtain Q where Q: "h_rows (maybe_cleanup sz fault now h) = filter Q (h_rows h)" using cleanup_rows by blast
  have "history_ok (maybe_cleanup sz fault now h) = history_ok (h\<lparr>h_rows := filter Q (h_rows h)\<rparr>)"
    by (simp add: history_ok_def Q)
  then show "history_ok (maybe_cleanup sz fault now h)" using history_ok_filter [OF assms] by simp
  have "row_of pid (maybe_cleanup sz fault now h) = row_of pid (h\<lparr>h_rows := filter Q (h_rows h)\<rparr>)"
    by (simp add: row_of_def Q)
  then show "row_of pid (maybe_cleanup sz fault now h) \<in> {row_of pid h, None}" using row_of_filter [OF assms] by simp
qed

text \<open>The frame of a write for one process: other rows stay or fall to the retention.\<close>

definition rows_frame :: "rstr \<Rightarrow> history \<Rightarrow> history \<Rightarrow> bool" where
  "rows_frame pid h h' \<longleftrightarrow> history_ok h' \<and> (\<forall>q. q \<noteq> pid \<longrightarrow> row_of q h' \<in> {row_of q h, None}) \<and>
     (\<forall>r. row_of pid h = Some r \<longrightarrow> \<not> is_active (r_state r) \<longrightarrow> row_of pid h' \<in> {Some r, None})"

lemma rows_frame_refl: "history_ok h \<Longrightarrow> rows_frame pid h h"
  by (simp add: rows_frame_def)

lemma rows_frame_same: "history_ok h \<Longrightarrow> history_ok h' \<Longrightarrow> (\<And>q. row_of q h' = row_of q h) \<Longrightarrow> rows_frame pid h h'"
  by (simp add: rows_frame_def)

lemma new_row_ok: "(i_finished i \<noteq> None \<Longrightarrow> \<not> is_active (i_state i)) \<Longrightarrow> row_ok (new_row i d out)"
  by (auto simp: row_ok_def new_row_def)

lemma upsert_rows_of:
  fixes out
  assumes ok: "history_ok h" and d: "d_process d = i" and ended: "\<not> is_active (i_state i)"
  defines "h' \<equiv> h\<lparr>h_rows := upsert_rows d out h\<rparr>"
  shows "history_ok h'"
    and "row_of q h' = (case row_of q h of
        Some r \<Rightarrow> if q = i_id i \<and> is_active (r_state r) then Some (new_row i (Some d) out) else Some r
      | None \<Rightarrow> if q = i_id i then Some (new_row i (Some d) out) else None)"
proof -
  have new: "row_ok (new_row i (Some d) out)" using ended by (simp add: new_row_ok)
  have nid: "r_id (new_row i (Some d) out) = i_id i" by (simp add: new_row_def)
  show "history_ok h'"
  proof (cases "row_of (i_id i) h")
    case None
    then show ?thesis using ok new nid d by (simp add: h'_def upsert_rows_def Let_def history_ok_append)
  next
    case (Some r)
    then show ?thesis using ok new nid d by (auto simp: h'_def upsert_rows_def Let_def intro: history_ok_update)
  qed
  show "row_of q h' = (case row_of q h of
        Some r \<Rightarrow> if q = i_id i \<and> is_active (r_state r) then Some (new_row i (Some d) out) else Some r
      | None \<Rightarrow> if q = i_id i then Some (new_row i (Some d) out) else None)"
  proof (cases "row_of (i_id i) h")
    case None
    then show ?thesis using d nid
      by (auto simp: h'_def upsert_rows_def Let_def row_of_append split: option.split)
  next
    case (Some r)
    then show ?thesis using d nid
      by (auto simp: h'_def upsert_rows_def Let_def row_of_update split: option.split)
  qed
qed

text \<open>
  A terminal snapshot: what was terminal before stays, whatever is written; otherwise the row is
  the new one. Only a failed write leaves an active row.
\<close>

definition id_fits :: "rstr \<Rightarrow> bool" where
  "id_fits pid \<longleftrightarrow> byte_len pid \<le> 64 * 1024"

lemma truncate_id [simp]: "id_fits pid \<Longrightarrow> truncate_text pid 65536 = pid"
  by (simp add: id_fits_def truncate_text_short)

lemma upsert_terminal_rows:
  assumes ok: "history_ok h" and ended: "\<not> is_active (i_state (d_process d))" and fits: "id_fits (i_id (d_process d))"
    and u: "upsert_terminal sz fault cleanup_fault now d out h = (outcome, h')"
  defines "pid \<equiv> i_id (d_process d)"
  shows "rows_frame pid h h'"
    and "\<not> is_persisted outcome \<Longrightarrow> row_of pid h' = row_of pid h"
    and "is_persisted outcome \<Longrightarrow> row_of pid h' = Some r \<Longrightarrow>
      \<not> is_active (r_state r) \<and> (row_of pid h = Some r \<or> r_info r = bounded_info (d_process d))"
proof -
  let ?d = "bounded_detail d"
  let ?h1 = "h\<lparr>h_rows := upsert_rows ?d out h\<rparr>"
  let ?h2 = "healthy (?h1\<lparr>h_completions := persist_completion (d_process ?d) (h_completions h)\<rparr>)"
  have id: "i_id (bounded_info (d_process d)) = pid" using fits by (simp add: pid_def)
  note rows = upsert_rows_of [where d = ?d and i = "bounded_info (d_process d)" and out = out, OF ok bounded_detail_process]
  from rows(1) ended have ok1: "history_ok ?h1" by simp
  have row1: "row_of q ?h1 = (case row_of q h of
      Some r \<Rightarrow> if q = pid \<and> is_active (r_state r) then Some (new_row (bounded_info (d_process d)) (Some ?d) out) else Some r
    | None \<Rightarrow> if q = pid then Some (new_row (bounded_info (d_process d)) (Some ?d) out) else None)" for q
    using rows(2) [of q] ended unfolding id by simp
  have clean: "history_ok (maybe_cleanup sz cleanup_fault now ?h2)"
    "row_of q (maybe_cleanup sz cleanup_fault now ?h2) \<in> {row_of q ?h1, None}" for q
  proof -
    have "history_ok ?h2" using ok1 by simp
    note c = cleanup_row_of [where sz = sz and fault = cleanup_fault and now = now, OF this]
    show "history_ok (maybe_cleanup sz cleanup_fault now ?h2)" by (rule c(1))
    have "row_of q ?h2 = row_of q ?h1" by simp
    with c(2) [where pid = q] show "row_of q (maybe_cleanup sz cleanup_fault now ?h2) \<in> {row_of q ?h1, None}" by (simp only:)
  qed
  have cases: "(\<not> is_persisted outcome \<and> history_ok h' \<and> (\<forall>q. row_of q h' = row_of q h)) \<or>
      (outcome = Persisted \<and> h' = maybe_cleanup sz cleanup_fault now ?h2)"
  proof -
    show ?thesis using u unfolding upsert_terminal_def Let_def
      by (auto split: if_splits option.splits dest!: failed_result [OF _ ok] simp: is_persisted_def)
  qed
  show "rows_frame pid h h'"
  proof (cases "is_persisted outcome")
    case False
    with cases show ?thesis by (auto simp: rows_frame_def is_persisted_def)
  next
    case True
    with cases have h': "h' = maybe_cleanup sz cleanup_fault now ?h2" by (auto simp: is_persisted_def)
    show ?thesis unfolding rows_frame_def h'
    proof (intro conjI allI impI)
      show "history_ok (maybe_cleanup sz cleanup_fault now ?h2)" by (rule clean(1))
      fix q assume "q \<noteq> pid"
      then have "row_of q ?h1 = row_of q h" using row1 [of q] by (simp split: option.split)
      with clean(2) [of q] show "row_of q (maybe_cleanup sz cleanup_fault now ?h2) \<in> {row_of q h, None}" by (simp only:)
    next
      fix r assume "row_of pid h = Some r" "\<not> is_active (r_state r)"
      then have "row_of pid ?h1 = Some r" using row1 [of pid] by simp
      with clean(2) [of pid] show "row_of pid (maybe_cleanup sz cleanup_fault now ?h2) \<in> {Some r, None}" by (simp only:)
    qed
  qed
  show "\<not> is_persisted outcome \<Longrightarrow> row_of pid h' = row_of pid h"
    using cases by (auto simp: is_persisted_def)
  assume "is_persisted outcome" and r: "row_of pid h' = Some r"
  with cases have "h' = maybe_cleanup sz cleanup_fault now ?h2" by (auto simp: is_persisted_def)
  with clean(2) [of pid] r have "row_of pid ?h1 = Some r" by auto
  with row1 [of pid] ended show "\<not> is_active (r_state r) \<and> (row_of pid h = Some r \<or> r_info r = bounded_info (d_process d))"
    by (auto simp: new_row_def split: option.splits if_splits)
qed

lemma mark_started_rows:
  assumes ok: "history_ok h" and active: "is_active (i_state i)" and fits: "id_fits (i_id i)"
    and m: "mark_started_row sz fault i h = (outcome, h')"
  shows "history_ok h'" and "(row_of q h' = None) = (row_of q h = None)"
    and "row_of q h' = Some r \<Longrightarrow> \<not> is_active (r_state r) \<Longrightarrow> row_of q h = Some r"
    and "row_of q h = Some r \<Longrightarrow> \<not> is_active (r_state r) \<Longrightarrow> row_of q h' = Some r"
proof -
  let ?f = "\<lambda>r. r\<lparr>r_state := i_state i, r_updated := i_updated i, r_info := bounded_info i, r_capture := i_capture i\<rparr>"
  let ?h1 = "h\<lparr>h_rows := update_row (i_id i) ?f (h_rows h)\<rparr>"
  have row1: "row_of q ?h1 = map_option (\<lambda>r. if i_id i = q then ?f r else r) (row_of q h)" for q
    by (rule row_of_update) simp
  have good: "history_ok ?h1" if r: "row_of (i_id i) h = Some r" "is_active (r_state r)" for r
  proof (rule history_ok_update [OF ok])
    fix x assume x: "x \<in> set (h_rows h)" "r_id x = i_id i"
    with ok row_of_SomeI [of h x] r have "x = r" by (simp add: history_ok_def)
    with row_of_ok [OF ok r(1)] r(2) x fits active show "r_id (?f x) = i_id i \<and> row_ok (?f x)"
      by (auto simp: row_ok_def)
  qed
  have cases: "(history_ok h' \<and> (\<forall>q. row_of q h' = row_of q h)) \<or>
      (\<exists>r. row_of (i_id i) h = Some r \<and> is_active (r_state r) \<and> h' = healthy ?h1)"
    using m ok fits unfolding mark_started_row_def Let_def
    by (auto split: if_splits option.splits dest!: failed_result [OF _ ok])
  show "history_ok h'" using cases good by auto
  show "(row_of q h' = None) = (row_of q h = None)" using cases row1 [of q] by auto
  show "row_of q h' = Some r \<Longrightarrow> \<not> is_active (r_state r) \<Longrightarrow> row_of q h = Some r"
    using cases row1 [of q] active by (auto split: if_splits)
  show "row_of q h = Some r \<Longrightarrow> \<not> is_active (r_state r) \<Longrightarrow> row_of q h' = Some r"
    using cases row1 [of q] by (auto split: if_splits)
qed

lemma mark_started_others:
  assumes "mark_started_row sz fault i h = (outcome, h')" and "q \<noteq> i_id i" and "id_fits (i_id i)"
  shows "row_of q h' = row_of q h"
proof -
  let ?f = "\<lambda>r. r\<lparr>r_state := i_state i, r_updated := i_updated i, r_info := bounded_info i, r_capture := i_capture i\<rparr>"
  have row1: "row_of q (h\<lparr>h_rows := update_row (i_id i) ?f (h_rows h)\<rparr>) = row_of q h"
    using row_of_update [of "i_id i" ?f q h] assms(2) by (simp add: option.map_ident)
  have bad: "failed e h = (outcome, h') \<Longrightarrow> row_of q h' = row_of q h" for e
    using row_of_cong(2) [of q e h] by simp
  show ?thesis using assms(1,3) row1 unfolding mark_started_row_def Let_def
    by (auto split: if_splits option.splits dest: bad)
qed

lemma insert_or_ignore_rows:
  fixes i
  assumes ok: "history_ok h" and active: "is_active (i_state i)" "i_finished i = None"
  defines "h' \<equiv> h\<lparr>h_rows := insert_or_ignore i (h_rows h)\<rparr>"
  shows "history_ok h'" and "row_of q h' = (case row_of q h of Some r \<Rightarrow> Some r
      | None \<Rightarrow> if q = i_id i then Some (new_row i None no_output) else None)"
proof -
  have nid: "r_id (new_row i None no_output) = i_id i" by (simp add: new_row_def)
  have has: "list_ex (\<lambda>r. r_id r = i_id i) (h_rows h) \<longleftrightarrow> row_of (i_id i) h \<noteq> None"
    unfolding row_of_None_iff list_ex_iff by (auto simp: image_iff) metis
  show "history_ok h'"
  proof (cases "row_of (i_id i) h")
    case None
    have "row_ok (new_row i None no_output)" by (rule new_row_ok) (simp add: active)
    then show ?thesis using None ok nid has history_ok_append [of h "new_row i None no_output"]
      by (simp add: h'_def insert_or_ignore_def)
  next
    case (Some r)
    then show ?thesis using ok has by (simp add: h'_def insert_or_ignore_def)
  qed
  show "row_of q h' = (case row_of q h of Some r \<Rightarrow> Some r
      | None \<Rightarrow> if q = i_id i then Some (new_row i None no_output) else None)"
    using has nid by (cases "row_of (i_id i) h"; cases "row_of q h")
      (auto simp: h'_def insert_or_ignore_def row_of_append simp del: not_None_eq)
qed

lemma insert_all_rows:
  fixes infos
  assumes "history_ok h" and "\<forall>i \<in> set infos. is_active (i_state i) \<and> i_finished i = None"
  defines "h' \<equiv> h\<lparr>h_rows := fold insert_or_ignore infos (h_rows h)\<rparr>"
  shows "history_ok h' \<and> (\<forall>q r. row_of q h = Some r \<longrightarrow> row_of q h' = Some r) \<and>
      (\<forall>q r. row_of q h' = Some r \<longrightarrow> \<not> is_active (r_state r) \<longrightarrow> row_of q h = Some r) \<and>
      (\<forall>i \<in> set infos. row_of (i_id i) h' \<noteq> None)"
  using assms(1,2) unfolding h'_def
proof (induction infos arbitrary: h)
  case (Cons i infos)
  let ?g = "h\<lparr>h_rows := insert_or_ignore i (h_rows h)\<rparr>"
  let ?g' = "?g\<lparr>h_rows := fold insert_or_ignore infos (h_rows ?g)\<rparr>"
  have i: "is_active (i_state i)" "i_finished i = None" using Cons.prems(2) by auto
  note step = insert_or_ignore_rows [OF Cons.prems(1) i]
  have IH: "history_ok ?g'" "\<And>q r. row_of q ?g = Some r \<Longrightarrow> row_of q ?g' = Some r"
    "\<And>q r. row_of q ?g' = Some r \<Longrightarrow> \<not> is_active (r_state r) \<Longrightarrow> row_of q ?g = Some r"
    "\<And>j. j \<in> set infos \<Longrightarrow> row_of (i_id j) ?g' \<noteq> None"
  proof -
    have "\<forall>i \<in> set infos. is_active (i_state i) \<and> i_finished i = None" using Cons.prems(2) by simp
    note ih = Cons.IH [OF step(1) this]
    show "history_ok ?g'" by (rule conjunct1 [OF ih])
    show "\<And>q r. row_of q ?g = Some r \<Longrightarrow> row_of q ?g' = Some r"
      using conjunct1 [OF conjunct2 [OF ih]] by blast
    show "\<And>q r. row_of q ?g' = Some r \<Longrightarrow> \<not> is_active (r_state r) \<Longrightarrow> row_of q ?g = Some r"
      using conjunct1 [OF conjunct2 [OF conjunct2 [OF ih]]] by blast
    show "\<And>j. j \<in> set infos \<Longrightarrow> row_of (i_id j) ?g' \<noteq> None"
      using conjunct2 [OF conjunct2 [OF conjunct2 [OF ih]]] by blast
  qed
  have row: "row_of q ?g = Some r \<Longrightarrow> \<not> is_active (r_state r) \<Longrightarrow> row_of q h = Some r" for q r
    using step(2) [of q] i by (auto simp: new_row_def split: option.splits if_splits)
  have keep: "row_of q h = Some r \<Longrightarrow> row_of q ?g = Some r" for q r
    using step(2) [of q] by simp
  have new: "row_of (i_id i) ?g \<noteq> None" using step(2) [of "i_id i"] by (simp split: option.splits)
  have eq: "h\<lparr>h_rows := fold insert_or_ignore (i # infos) (h_rows h)\<rparr> = ?g'" by simp
  show ?case unfolding eq
  proof (intro conjI allI impI ballI)
    show "history_ok ?g'" by (rule IH(1))
    show "row_of q ?g' = Some r" if "row_of q h = Some r" for q r by (rule IH(2) [OF keep [OF that]])
    show "row_of q h = Some r" if "row_of q ?g' = Some r" "\<not> is_active (r_state r)" for q r
      by (rule row [OF IH(3) [OF that] that(2)])
    fix j assume "j \<in> set (i # infos)"
    then consider "j = i" | "j \<in> set infos" by auto
    then show "row_of (i_id j) ?g' \<noteq> None"
    proof cases
      case 1
      from new obtain r where "row_of (i_id i) ?g = Some r" by blast
      with IH(2) 1 show ?thesis by blast
    qed (rule IH(4))
  qed
qed simp

lemma insert_admissions_rows:
  assumes ok: "history_ok h"
    and infos: "\<And>i. i \<in> set infos \<Longrightarrow> is_active (i_state i) \<and> i_finished i = None \<and> id_fits (i_id i)"
    and a: "insert_admissions sz fault tracked infos h = (outcome, h')"
  shows "history_ok h'" and "\<And>q r. row_of q h = Some r \<Longrightarrow> row_of q h' = Some r"
    and "\<And>q r. row_of q h' = Some r \<Longrightarrow> \<not> is_active (r_state r) \<Longrightarrow> row_of q h = Some r"
    and "is_persisted outcome \<Longrightarrow> i \<in> set infos \<Longrightarrow> row_of (i_id i) h' \<noteq> None"
proof -
  let ?i = "map bounded_info infos"
  have act: "\<forall>i \<in> set ?i. is_active (i_state i) \<and> i_finished i = None" using infos by auto
  let ?h1 = "h\<lparr>h_rows := fold insert_or_ignore ?i (h_rows h)\<rparr>"
  have cases: "(\<not> is_persisted outcome \<and> history_ok h' \<and> (\<forall>q. row_of q h' = row_of q h)) \<or>
      (\<exists>cs. h' = healthy (?h1\<lparr>h_completions := cs\<rparr>))"
  proof (cases "list_ex (\<lambda>i. info_size sz i > max_admission_info_json_bytes) ?i")
    case True
    then show ?thesis using a ok by (auto simp: insert_admissions_def is_persisted_def)
  next
    case False
    show ?thesis
    proof (cases fault)
      case None
      then have "h' = healthy (?h1\<lparr>h_completions := if tracked then fold track ?i (h_completions h) else h_completions h\<rparr>)"
        using a False unfolding insert_admissions_def Let_def by simp
      then show ?thesis by blast
    next
      case (Some e)
      then have "failed e h = (outcome, h')" using a False unfolding insert_admissions_def Let_def by simp
      from failed_result [OF this ok] show ?thesis by (simp add: is_persisted_def)
    qed
  qed
  note f = insert_all_rows [OF ok act]
  have f1: "history_ok ?h1" by (rule conjunct1 [OF f])
  have f2: "row_of q h = Some r \<Longrightarrow> row_of q ?h1 = Some r" for q r
    using conjunct1 [OF conjunct2 [OF f]] by blast
  have f3: "row_of q ?h1 = Some r \<Longrightarrow> \<not> is_active (r_state r) \<Longrightarrow> row_of q h = Some r" for q r
    using conjunct1 [OF conjunct2 [OF conjunct2 [OF f]]] by blast
  have f4: "j \<in> set ?i \<Longrightarrow> row_of (i_id j) ?h1 \<noteq> None" for j
    using conjunct2 [OF conjunct2 [OF conjunct2 [OF f]]] by blast
  from cases have cases': "(\<not> is_persisted outcome \<and> history_ok h' \<and> (\<forall>q. row_of q h' = row_of q h)) \<or>
      (history_ok h' \<and> (\<forall>q. row_of q h' = row_of q ?h1))"
  proof
    assume "\<exists>cs. h' = healthy (?h1\<lparr>h_completions := cs\<rparr>)"
    then obtain cs where "h' = healthy (?h1\<lparr>h_completions := cs\<rparr>)" by blast
    then have "history_ok h' = history_ok ?h1" and "\<And>q. row_of q h' = row_of q ?h1" by simp_all
    with f1 show ?thesis by simp
  qed simp
  show "history_ok h'" using cases' ok by blast
  show "\<And>q r. row_of q h = Some r \<Longrightarrow> row_of q h' = Some r" using cases' f2 by (elim disjE) metis+
  show "\<And>q r. row_of q h' = Some r \<Longrightarrow> \<not> is_active (r_state r) \<Longrightarrow> row_of q h = Some r"
    using cases' f3 by (elim disjE) metis+
  assume p: "is_persisted outcome" and i: "i \<in> set infos"
  have "bounded_info i \<in> set ?i" using i by simp
  from f4 [OF this] have "row_of (i_id i) ?h1 \<noteq> None" using infos [OF i] by simp
  with cases' p show "row_of (i_id i) h' \<noteq> None" by metis
qed

lemma insert_admissions_others:
  assumes "insert_admissions sz fault tracked infos h = (outcome, h')"
    and "\<And>i. i \<in> set infos \<Longrightarrow> id_fits (i_id i) \<and> i_id i \<noteq> q"
  shows "row_of q h' = row_of q h"
proof -
  have fold: "find (\<lambda>r. r_id r = q) (fold insert_or_ignore is rs) = find (\<lambda>r. r_id r = q) rs"
    if "\<forall>i \<in> set is. i_id i \<noteq> q" for "is" rs
    using that by (induction "is" arbitrary: rs) (auto simp: insert_or_ignore_def find_append new_row_def split: option.split)
  have "\<forall>i \<in> set (map bounded_info infos). i_id i \<noteq> q" using assms(2) by auto
  from fold [OF this] assms(1) show ?thesis unfolding insert_admissions_def
    by (auto simp: Let_def row_of_def healthy_def failed_def split: if_splits option.splits)
qed

lemma event_rows:
  assumes "history_ok h"
  shows "history_ok (snd (record_terminal_event fault i h))" "row_of q (snd (record_terminal_event fault i h)) = row_of q h"
    and "history_ok (snd (acknowledge_event_completion fault' pid h))"
      "row_of q (snd (acknowledge_event_completion fault' pid h)) = row_of q h"
  using assms by (simp_all add: record_terminal_event_def acknowledge_event_completion_def split: option.split)

end
