(* ===== verification/Process_Table.thy ===== *)
theory Process_Table
  imports Process_History
begin

text \<open>
  The table of managed processes (\<^verbatim>\<open>process/managed.rs\<close>): what is kept of a process,
  how its end is noticed, recorded and reported, admission under a limit, the steps of its
  worker, cancellation, and pruning. An operation here is what the code does while it holds the
  lock of the table; what the operating system, the event store and the history answer
  meanwhile is the argument \<open>w\<close>, with one reading of the clock. A hash map is a list of
  its entries. Notifications of waiting tasks change nothing and are left out.
\<close>

subsection \<open>State\<close>

record exit_status =
  x_code :: "int option"
  x_success :: bool

datatype startup_status = StartupReady | InitFailed "int option" | StartupFailed

record managed_detail =
  v_result :: "int list option"
  v_error :: "process_error option"
  v_result_available :: bool
  v_result_bytes :: "nat option"
  v_result_sha256 :: "rstr option"
  v_result_preview :: "rstr option"

text \<open>Tasks and handles are there or not; a lease of a skill is held or not.\<close>

record process_runtime =
  u_child :: bool
  u_group :: "int option"
  u_exit :: "exit_status option"
  u_cancel_evidence :: "rstr option"
  u_startup_reader :: bool
  u_stdout :: output_ring
  u_stderr :: output_ring
  u_stdout_reader :: bool
  u_stderr_reader :: bool
  u_waiters :: "nat option"
  u_lease :: bool

record mcp_runtime =
  mcp_peer :: "rstr option"
  mcp_request :: "rstr option"

datatype process_runtime_kind = ProcessRuntime process_runtime | McpRuntime mcp_runtime

record audit_context =
  au_source :: rstr
  au_need_confirm :: bool
  au_policy_decision :: rstr
  au_confirmation :: "rstr option"
  au_hook :: bool

record managed_process =
  m_info :: process_info
  m_detail :: managed_detail
  m_runtime :: process_runtime_kind
  m_cancel :: bool
  m_audit :: "audit_context option"
  m_snapshot :: "int option"
  m_event_recorded :: bool

text \<open>
  What the table writes to: the history, the event store (the completions it took, in order)
  and the reports of finished processes (audit record, hub, hook).
\<close>

record process_report =
  rep_context :: audit_context
  rep_info :: process_info
  rep_truncated :: bool

record services =
  v_history :: history
  v_delivered :: "(rstr \<times> completion_details) list"
  v_reports :: "process_report list"

record agent =
  a_table :: "(rstr \<times> managed_process) list"
  a_services :: services

record world =
  w_now :: int
  w_boot_generation :: rstr
  w_exists :: "int \<Rightarrow> bool"
  w_exit :: "rstr \<Rightarrow> exit_status option"
  w_startup :: "rstr \<Rightarrow> startup_status"
  w_locked :: "rstr \<Rightarrow> bool"
  w_sizes :: json_sizes
  w_admission_fault :: "rstr option"
  w_registration_fault :: "rstr \<Rightarrow> rstr option"
  w_start_fault :: "rstr \<Rightarrow> rstr option"
  w_event_fault :: "rstr \<Rightarrow> rstr option"
  w_delivery_fault :: "rstr \<Rightarrow> rstr option"
  w_acknowledge_fault :: "rstr \<Rightarrow> rstr option"
  w_upsert_fault :: "rstr \<Rightarrow> rstr option"
  w_cleanup_fault :: "rstr \<Rightarrow> (bool \<times> rstr) option"
  w_match_fault :: "rstr \<Rightarrow> rstr option"

definition terminal_hot_cache :: int where "terminal_hot_cache = 5 * 60 * 1000000000"
definition max_terminal_processes :: nat where "max_terminal_processes = 100"

subsection \<open>Process groups\<close>

definition process_group_exists :: "world \<Rightarrow> int \<Rightarrow> bool" where
  "process_group_exists w g \<longleftrightarrow> 0 < g \<and> w_exists w g"

definition observe_process_group_id :: "world \<Rightarrow> int option \<Rightarrow> bool \<times> int option" where
  "observe_process_group_id w g =
     (case g of None \<Rightarrow> (False, None) | Some i \<Rightarrow> if process_group_exists w i then (True, Some i) else (False, None))"

definition observe_group :: "world \<Rightarrow> process_runtime \<Rightarrow> bool \<times> process_runtime" where
  "observe_group w u = (case observe_process_group_id w (u_group u) of (alive, g) \<Rightarrow> (alive, u\<lparr>u_group := g\<rparr>))"

subsection \<open>The end of a process\<close>

definition refresh_capture_status :: "managed_process \<Rightarrow> managed_process" where
  "refresh_capture_status p =
     (case m_runtime p of
        McpRuntime _ \<Rightarrow> p\<lparr>m_info := (m_info p)\<lparr>i_capture := StatusNotApplicable, i_capture_error := None\<rparr>\<rparr>
      | ProcessRuntime u \<Rightarrow>
          (case capture_summary (u_stdout u) (u_stderr u) of (status, err) \<Rightarrow>
             p\<lparr>m_info := (m_info p)\<lparr>i_capture := status, i_capture_error := map_option bounded_error_message err\<rparr>\<rparr>))"

definition process_output_snapshot :: "managed_process \<Rightarrow> output_snapshot" where
  "process_output_snapshot p =
     (case m_runtime p of
        McpRuntime _ \<Rightarrow> no_output
      | ProcessRuntime u \<Rightarrow> \<lparr>s_stdout = ring_snapshot (u_stdout u), s_stderr = ring_snapshot (u_stderr u)\<rparr>)"

definition process_detail_of :: "managed_process \<Rightarrow> process_detail" where
  "process_detail_of p =
     \<lparr>d_process = m_info p, d_available = True, d_result = v_result (m_detail p), d_error = v_error (m_detail p),
      d_result_available = v_result_available (m_detail p), d_result_bytes = v_result_bytes (m_detail p),
      d_result_sha256 = v_result_sha256 (m_detail p), d_result_preview = v_result_preview (m_detail p)\<rparr>"

definition record_process_completion :: "world \<Rightarrow> process_info \<Rightarrow> services \<Rightarrow> bool \<times> services" where
  "record_process_completion w i v =
     (case process_completion_details i of
        None \<Rightarrow> (True, v)
      | Some d \<Rightarrow>
          (case w_delivery_fault w (i_id i) of
             Some _ \<Rightarrow> (False, v)
           | None \<Rightarrow>
               (case acknowledge_event_completion (w_acknowledge_fault w (i_id i)) (i_id i) (v_history v) of (ok, h) \<Rightarrow>
                  (ok, v\<lparr>v_history := h, v_delivered := v_delivered v @ [(i_id i, d)]\<rparr>))))"

definition persist_and_deliver_completion :: "world \<Rightarrow> process_info \<Rightarrow> services \<Rightarrow> bool \<times> services" where
  "persist_and_deliver_completion w i v =
     (case record_terminal_event (w_event_fault w (i_id i)) i (v_history v) of (out, h) \<Rightarrow>
        if \<not> is_persisted out then (False, v\<lparr>v_history := h\<rparr>)
        else record_process_completion w i (v\<lparr>v_history := h\<rparr>))"

definition record_completion_once :: "world \<Rightarrow> managed_process \<Rightarrow> services \<Rightarrow> managed_process \<times> services" where
  "record_completion_once w p v =
     (if m_event_recorded p then (p, v)
      else case persist_and_deliver_completion w (m_info p) v of (ok, v') \<Rightarrow> (p\<lparr>m_event_recorded := ok\<rparr>, v'))"

definition persist_snapshot :: "world \<Rightarrow> managed_process \<Rightarrow> services \<Rightarrow> managed_process \<times> services" where
  "persist_snapshot w p v =
     (let pid = i_id (m_info p) in
      case upsert_terminal (w_sizes w) (w_upsert_fault w pid) (w_cleanup_fault w pid) (w_now w) (process_detail_of p)
          (process_output_snapshot p) (v_history v) of (out, h) \<Rightarrow>
        (p\<lparr>m_snapshot := (if is_persisted out then Some (i_updated (m_info p)) else None)\<rparr>, v\<lparr>v_history := h\<rparr>))"

definition output_truncated :: "managed_process \<Rightarrow> bool" where
  "output_truncated p =
     (let out = process_output_snapshot p in
      fst (snd (s_stdout out)) > 0 \<or> fst (snd (s_stderr out)) > 0 \<or>
      (i_kind (m_info p) = Mcp \<and> \<not> v_result_available (m_detail p)))"

definition report_finished :: "managed_process \<Rightarrow> services \<Rightarrow> managed_process \<times> services" where
  "report_finished p v =
     (case m_audit p of
        None \<Rightarrow> (p, v)
      | Some c \<Rightarrow> (p\<lparr>m_audit := None\<rparr>,
          v\<lparr>v_reports := v_reports v @ [\<lparr>rep_context = c, rep_info = m_info p, rep_truncated = output_truncated p\<rparr>]\<rparr>))"

definition finalize_process :: "world \<Rightarrow> managed_process \<times> services \<Rightarrow> managed_process \<times> services" where
  "finalize_process w pv =
     (if \<not> is_terminal (i_state (m_info (fst pv))) then pv
      else case record_completion_once w (fst pv) (snd pv) of (p, v) \<Rightarrow>
        let p1 = refresh_capture_status p;
            settled = i_capture (m_info p1) \<notin> {StatusNotStarted, StatusCapturing};
            persist = (settled \<and> m_snapshot p1 \<noteq> Some (i_updated (m_info p1))) in
        if \<not> persist \<and> m_audit p1 = None then (p1, v)
        else case (if persist then persist_snapshot w p1 v else (p1, v)) of (p2, v2) \<Rightarrow> report_finished p2 v2)"

text \<open>How a process that exited has ended.\<close>

definition end_with_startup :: "exit_status \<Rightarrow> startup_status option \<Rightarrow> managed_process \<Rightarrow> managed_process" where
  "end_with_startup x startup p =
     (let i = m_info p;
          by_status = (if x_success x then Completed else Failed);
          fail = (\<lambda>code message. p\<lparr>m_info := i\<lparr>i_state := Failed, i_reason := Some (code @ lit '': '' @ message)\<rparr>,
             m_detail := (m_detail p)\<lparr>v_error := Some \<lparr>error_code = code, error_message = message\<rparr>\<rparr>\<rparr>) in
      case startup of
        Some (InitFailed status) \<Rightarrow>
          fail (lit ''shell_init_file_failed'') (lit ''Shell init file failed with exit status ''
            @ dec_int (case status of Some s \<Rightarrow> s | None \<Rightarrow> (case x_code x of Some s \<Rightarrow> s | None \<Rightarrow> 1)))
      | Some StartupFailed \<Rightarrow> fail (lit ''shell_startup_failed'') (lit ''Shell failed before the requested command started'')
      | Some StartupReady \<Rightarrow> p\<lparr>m_info := i\<lparr>i_state := by_status\<rparr>\<rparr>
      | None \<Rightarrow> p\<lparr>m_info := i\<lparr>i_state := (if i_kind i = Command then Completed else by_status)\<rparr>\<rparr>)"

definition end_cancelled :: "process_runtime \<Rightarrow> managed_process \<Rightarrow> managed_process" where
  "end_cancelled u p =
     (let i = m_info p in
      p\<lparr>m_info := i\<lparr>i_state := Cancelled, i_reason := Some (lit ''cancelled''), i_cancel_requested := True,
        i_cancel_outcome := Some (case i_cancel_outcome i of Some c \<Rightarrow> c | None \<Rightarrow> lit ''cancelled''),
        i_evidence := Some (case u_cancel_evidence u of Some e \<Rightarrow> e | None \<Rightarrow> lit ''process_group_exit_after_cancel'')\<rparr>\<rparr>)"

definition end_exited :: "world \<Rightarrow> exit_status \<Rightarrow> process_runtime \<Rightarrow> bool \<Rightarrow> managed_process \<Rightarrow> managed_process" where
  "end_exited w x u group_stopped p =
     (let q = p\<lparr>m_info := (m_info p)\<lparr>i_exit := x_code x\<rparr>\<rparr> in
      if m_cancel p \<and> \<not> group_stopped
      then q\<lparr>m_info := (m_info q)\<lparr>i_state := CancelRequested, i_updated := w_now w\<rparr>, m_runtime := ProcessRuntime u\<rparr>
      else let startup = (if u_startup_reader u then Some (w_startup w (i_id (m_info p))) else None);
               e = (if m_cancel p then end_cancelled u q else end_with_startup x startup q) in
        e\<lparr>m_info := (m_info e)\<lparr>i_updated := w_now w, i_finished := Some (w_now w)\<rparr>,
          m_runtime := ProcessRuntime (u\<lparr>u_startup_reader := False, u_lease := False\<rparr>)\<rparr>)"

definition poll_exit :: "world \<Rightarrow> rstr \<Rightarrow> process_runtime \<Rightarrow> process_runtime" where
  "poll_exit w pid u =
     (if u_exit u = None \<and> u_child u
      then case w_exit w pid of Some x \<Rightarrow> u\<lparr>u_exit := Some x, u_child := False\<rparr> | None \<Rightarrow> u
      else u)"

definition refresh_exit :: "world \<Rightarrow> managed_process \<Rightarrow> managed_process" where
  "refresh_exit w p =
     (case m_runtime p of
        McpRuntime _ \<Rightarrow> p
      | ProcessRuntime u0 \<Rightarrow>
          let u = poll_exit w (i_id (m_info p)) u0 in
          case u_exit u of
            None \<Rightarrow> p\<lparr>m_runtime := ProcessRuntime u\<rparr>
          | Some x \<Rightarrow>
              (case observe_group w u of (alive, u1) \<Rightarrow>
                 if is_terminal (i_state (m_info p)) then p\<lparr>m_runtime := ProcessRuntime u1\<rparr>
                 else end_exited w x u1 (\<not> alive) p))"

definition refresh_rings :: "world \<Rightarrow> managed_process \<Rightarrow> managed_process" where
  "refresh_rings w p =
     (case m_runtime p of
        McpRuntime _ \<Rightarrow> p
      | ProcessRuntime _ \<Rightarrow> if w_locked w (i_id (m_info p)) then p else refresh_capture_status p)"

definition refresh_process :: "world \<Rightarrow> managed_process \<times> services \<Rightarrow> managed_process \<times> services" where
  "refresh_process w pv =
     (let p = refresh_rings w (refresh_exit w (fst pv)) in
      if is_terminal (i_state (m_info p)) then finalize_process w (p, snd pv) else (p, snd pv))"

end
