(* ===== verification/Process_Handlers.thy ===== *)
theory Process_Handlers
  imports Process_Table
begin

text \<open>
  The operations on the table of processes (\<^verbatim>\<open>process/managed.rs\<close>): looking at all of
  them, pruning, admission of commands, skills, batches and MCP calls, the steps of a worker,
  the results of an MCP call, cancellation in its two parts around the signals or the
  notification, and the tasks that read the output.
\<close>

subsection \<open>The table\<close>

definition lookup_process :: "rstr \<Rightarrow> agent \<Rightarrow> managed_process option" where
  "lookup_process pid a = map_of (a_table a) pid"

definition put_process :: "rstr \<Rightarrow> managed_process \<Rightarrow> (rstr \<times> managed_process) list \<Rightarrow> (rstr \<times> managed_process) list" where
  "put_process pid p t = map (\<lambda>(k, q). if k = pid then (k, p) else (k, q)) t"

text \<open>\<^verbatim>\<open>get_mut\<close>: change a process and the services, when it is there.\<close>

definition with_process ::
    "rstr \<Rightarrow> (managed_process \<times> services \<Rightarrow> managed_process \<times> services) \<Rightarrow> agent \<Rightarrow> agent" where
  "with_process pid f a =
     (case lookup_process pid a of
        None \<Rightarrow> a
      | Some p \<Rightarrow> (case f (p, a_services a) of (p', v') \<Rightarrow> \<lparr>a_table = put_process pid p' (a_table a), a_services = v'\<rparr>))"

definition change_process :: "rstr \<Rightarrow> (managed_process \<Rightarrow> managed_process) \<Rightarrow> agent \<Rightarrow> agent" where
  "change_process pid f = with_process pid (\<lambda>(p, v). (f p, v))"

definition refresh_processes :: "world \<Rightarrow> agent \<Rightarrow> agent" where
  "refresh_processes w a = fold (\<lambda>pid. with_process pid (refresh_process w)) (map fst (a_table a)) a"

definition process_id_generation :: "rstr \<Rightarrow> rstr option" where
  "process_id_generation pid =
     (case strip_prefix (lit ''process_'') pid of
        None \<Rightarrow> None
      | Some v \<Rightarrow> if 95 \<in> set v then Some (takeWhile (\<lambda>c. c \<noteq> 95) v) else None)"

definition missing_process_reason :: "world \<Rightarrow> rstr \<Rightarrow> rstr" where
  "missing_process_reason w pid =
     (case process_id_generation pid of
        Some g \<Rightarrow> if g \<noteq> w_boot_generation w then lit ''process_lost_after_restart'' else lit ''process_not_found''
      | None \<Rightarrow> lit ''process_not_found'')"

subsection \<open>Pruning\<close>

definition observe_terminal :: "world \<Rightarrow> history \<Rightarrow> managed_process \<Rightarrow> managed_process" where
  "observe_terminal w h p =
     (let p1 = (if is_terminal (i_state (m_info p))
                then case m_runtime p of
                    ProcessRuntime u \<Rightarrow> p\<lparr>m_runtime := ProcessRuntime (snd (observe_group w u))\<rparr>
                  | McpRuntime _ \<Rightarrow> p
                else p);
          pid = i_id (m_info p1) in
      if is_terminal (i_state (m_info p1)) \<and> m_snapshot p1 = None \<and> \<not> terminal_pending h pid \<and>
        terminal_snapshot_matches (w_match_fault w pid) pid (i_updated (m_info p1)) h
      then p1\<lparr>m_snapshot := Some (i_updated (m_info p1))\<rparr> else p1)"

definition prunable :: "history \<Rightarrow> managed_process \<Rightarrow> bool" where
  "prunable h p \<longleftrightarrow>
     is_terminal (i_state (m_info p)) \<and> i_state (m_info p) \<noteq> UnknownAfterRestart \<and> m_snapshot p \<noteq> None \<and>
     i_capture (m_info p) \<noteq> StatusCapturing \<and>
     (case m_runtime p of
        ProcessRuntime u \<Rightarrow> (case u_waiters u of Some n \<Rightarrow> n = 0 | None \<Rightarrow> True) \<and> u_group u = None
      | McpRuntime _ \<Rightarrow> True) \<and>
     \<not> terminal_pending h (i_id (m_info p))"

definition ended_at :: "managed_process \<Rightarrow> int" where
  "ended_at p = (case i_finished (m_info p) of Some t \<Rightarrow> t | None \<Rightarrow> i_updated (m_info p))"

text \<open>Newest first; what is beyond the limit or older than the cutoff goes.\<close>

definition prune_victims :: "world \<Rightarrow> history \<Rightarrow> (rstr \<times> managed_process) list \<Rightarrow> rstr list" where
  "prune_victims w h t =
     (let cutoff = w_now w - terminal_hot_cache;
          terminal = sort_key (\<lambda>(_, at). - at) (map (\<lambda>(pid, p). (pid, ended_at p)) (filter (\<lambda>(_, p). prunable h p) t)) in
      map (fst \<circ> snd) (filter (\<lambda>(index, _, at). index \<ge> max_terminal_processes \<or> at < cutoff) (enumerate 0 terminal)))"

definition prune_terminal_processes :: "world \<Rightarrow> agent \<Rightarrow> agent" where
  "prune_terminal_processes w a =
     (let h = v_history (a_services a);
          t = map (\<lambda>(pid, p). (pid, observe_terminal w h p)) (a_table a);
          victims = prune_victims w h t in
      a\<lparr>a_table := filter (\<lambda>(pid, _). pid \<notin> set victims) t\<rparr>)"

definition get_process_now :: "world \<Rightarrow> rstr \<Rightarrow> agent \<Rightarrow> process_info option \<times> agent" where
  "get_process_now w pid a =
     (if lookup_process pid a = None then (None, a)
      else let a1 = with_process pid (refresh_process w) a in
        (map_option m_info (lookup_process pid a1), prune_terminal_processes w a1))"

subsection \<open>Admission\<close>

definition process_uses_capacity :: "world \<Rightarrow> managed_process \<Rightarrow> bool \<times> managed_process" where
  "process_uses_capacity w p =
     (if is_active (i_state (m_info p)) then (True, p)
      else case m_runtime p of
          ProcessRuntime u \<Rightarrow> (case observe_group w u of (alive, u') \<Rightarrow> (alive, p\<lparr>m_runtime := ProcessRuntime u'\<rparr>))
        | McpRuntime _ \<Rightarrow> (False, p))"

definition count_active :: "world \<Rightarrow> agent \<Rightarrow> nat \<times> agent" where
  "count_active w a =
     (length (filter (\<lambda>(_, p). fst (process_uses_capacity w p)) (a_table a)),
      a\<lparr>a_table := map (\<lambda>(pid, p). (pid, snd (process_uses_capacity w p))) (a_table a)\<rparr>)"

definition capacity_rejection :: "nat \<Rightarrow> nat \<Rightarrow> nat \<Rightarrow> rstr" where
  "capacity_rejection active requested limit =
     lit ''max_active_processes_reached; active='' @ dec_nat active @ lit ''; requested='' @ dec_nat requested
       @ lit ''; limit='' @ dec_nat limit"

datatype rejection = CapacityRejected rstr | AdmissionFailed rstr

text \<open>
  The common part of all registrations: refresh, count, ask the event store for each, write the
  admission, enter them. \<open>refused\<close> is a reason found before (arguments the kernel does
  not take), which comes after the capacity. What the event store is asked and told to forget
  changes nothing here.
\<close>

definition admit :: "world \<Rightarrow> nat \<Rightarrow> rstr option \<Rightarrow> (rstr \<times> managed_process) list \<Rightarrow> agent \<Rightarrow> (rejection + unit) \<times> agent" where
  "admit w limit refused new a =
     (case count_active w (refresh_processes w a) of (active, a1) \<Rightarrow>
        if active + length new > limit then (Inl (CapacityRejected (capacity_rejection active (length new) limit)), a1)
        else case refused of
          Some reason \<Rightarrow> (Inl (AdmissionFailed reason), a1)
        | None \<Rightarrow>
            case find (\<lambda>(pid, _). w_registration_fault w pid \<noteq> None) new of
              Some (pid, _) \<Rightarrow>
                (Inl (AdmissionFailed (lit ''internal_event_registration_failed: '' @ the (w_registration_fault w pid))), a1)
            | None \<Rightarrow>
                (case insert_admissions (w_sizes w) (w_admission_fault w) True (map (m_info \<circ> snd) new) (v_history (a_services a1)) of
                   (out, h) \<Rightarrow>
                   let a2 = a1\<lparr>a_services := (a_services a1)\<lparr>v_history := h\<rparr>\<rparr> in
                   if \<not> is_persisted out
                   then (Inl (AdmissionFailed (lit ''history_admission_failed: '' @
                     (case outcome_error out of Some e \<Rightarrow> e | None \<Rightarrow> lit ''history admission persistence failed''))), a2)
                   else (Inr (), a2\<lparr>a_table := a_table a2 @ new\<rparr>)))"

definition no_detail :: managed_detail where
  "no_detail = \<lparr>v_result = None, v_error = None, v_result_available = False, v_result_bytes = None,
     v_result_sha256 = None, v_result_preview = None\<rparr>"

definition process_info_of :: "rstr \<Rightarrow> process_subject \<Rightarrow> process_kind \<Rightarrow> process_state \<Rightarrow> int \<Rightarrow> process_info" where
  "process_info_of pid subject k s now =
     \<lparr>i_id = pid, i_subject = subject, i_kind = k, i_state = s, i_created = now, i_started = None, i_updated = now,
      i_finished = None, i_exit = None, i_reason = None, i_cancel_requested = False, i_cancel_outcome = None,
      i_evidence = None, i_capture = (if k = Mcp then StatusNotApplicable else StatusNotStarted), i_capture_error = None\<rparr>"

definition process_runtime :: "bool \<Rightarrow> process_runtime" where
  "process_runtime lease =
     \<lparr>u_child = False, u_group = None, u_exit = None, u_cancel_evidence = None, u_startup_reader = False,
      u_stdout = new_ring, u_stderr = new_ring, u_stdout_reader = False, u_stderr_reader = False,
      u_waiters = None, u_lease = lease\<rparr>"

definition managed :: "process_info \<Rightarrow> process_runtime_kind \<Rightarrow> audit_context \<Rightarrow> managed_process" where
  "managed info runtime audit =
     \<lparr>m_info = info, m_detail = no_detail, m_runtime = runtime, m_cancel = False, m_audit = Some audit,
      m_snapshot = None, m_event_recorded = False\<rparr>"

definition terminal_without_admission :: "int \<Rightarrow> process_info \<Rightarrow> process_state \<Rightarrow> rstr \<Rightarrow> process_info" where
  "terminal_without_admission now i s reason =
     i\<lparr>i_state := s, i_updated := now, i_finished := Some now, i_reason := Some reason, i_evidence := Some (lit ''not_started'')\<rparr>"

subsection \<open>Steps of a worker\<close>

definition set_audit :: "(audit_context \<Rightarrow> audit_context) \<Rightarrow> managed_process \<Rightarrow> managed_process" where
  "set_audit f p = p\<lparr>m_audit := map_option f (m_audit p)\<rparr>"

definition set_policy_decision :: "rstr \<Rightarrow> rstr \<Rightarrow> agent \<Rightarrow> agent" where
  "set_policy_decision pid decision = change_process pid (set_audit (\<lambda>c. c\<lparr>au_policy_decision := decision\<rparr>))"

definition set_confirmation_result :: "rstr \<Rightarrow> rstr \<Rightarrow> agent \<Rightarrow> agent" where
  "set_confirmation_result pid result = change_process pid (set_audit (\<lambda>c. c\<lparr>au_confirmation := Some result\<rparr>))"

definition set_mcp_preflight_rejection :: "rstr \<Rightarrow> agent \<Rightarrow> agent" where
  "set_mcp_preflight_rejection pid =
     change_process pid (set_audit (\<lambda>c. c\<lparr>au_policy_decision := lit ''Rejected'', au_confirmation := None\<rparr>))"

definition set_mcp_authorization :: "rstr \<Rightarrow> rstr \<Rightarrow> agent \<Rightarrow> agent" where
  "set_mcp_authorization pid decision =
     change_process pid (set_audit (\<lambda>c. c\<lparr>au_policy_decision :=
         (if decision \<in> {lit ''allow_once'', lit ''allow_mcp_server_15m'', lit ''allow_mcp_server_30m'', lit ''temporary_mcp_allow''}
          then lit ''Allow'' else lit ''Confirm''), au_confirmation := Some decision\<rparr>))"

definition set_process_state :: "world \<Rightarrow> rstr \<Rightarrow> process_state \<Rightarrow> agent \<Rightarrow> agent" where
  "set_process_state w pid s =
     change_process pid (\<lambda>p. if is_active (i_state (m_info p))
       then p\<lparr>m_info := (m_info p)\<lparr>i_state := s, i_updated := w_now w\<rparr>\<rparr> else p)"

definition mark_capture_failure :: "rstr \<Rightarrow> rstr \<Rightarrow> agent \<Rightarrow> agent" where
  "mark_capture_failure pid err =
     change_process pid (\<lambda>p. case m_runtime p of
         McpRuntime _ \<Rightarrow> p
       | ProcessRuntime u \<Rightarrow> p\<lparr>m_runtime := ProcessRuntime (u\<lparr>u_stdout := abort_ring err (u_stdout u), u_stderr := abort_ring err (u_stderr u)\<rparr>),
           m_info := (m_info p)\<lparr>i_capture := StatusIncomplete, i_capture_error := Some (bounded_error_message err)\<rparr>\<rparr>)"

definition finish_unstarted_rings :: "process_runtime \<Rightarrow> process_runtime" where
  "finish_unstarted_rings u =
     (let u1 = u\<lparr>u_lease := False\<rparr> in
      if \<not> u_child u \<and> \<not> u_stdout_reader u \<and> \<not> u_stderr_reader u \<and>
        capture_not_started (u_stdout u) \<and> capture_not_started (u_stderr u)
      then u1\<lparr>u_stdout := finish_ring ReaderEof (u_stdout u), u_stderr := finish_ring ReaderEof (u_stderr u)\<rparr>
      else u1)"

definition finish_active :: "world \<Rightarrow> process_state \<Rightarrow> rstr \<Rightarrow> managed_process \<Rightarrow> managed_process" where
  "finish_active w terminal reason p =
     (let i = m_info p;
          i1 = i\<lparr>i_state := terminal, i_reason := (if reason = [] then None else Some reason), i_updated := w_now w,
            i_finished := Some (w_now w), i_cancel_requested := (terminal = Cancelled)\<rparr>;
          i2 = (if terminal = Cancelled
            then i1\<lparr>i_cancel_outcome := Some (lit ''cancelled''), i_evidence := Some (lit ''local_process'')\<rparr> else i1) in
      p\<lparr>m_info := i2, m_runtime := (case m_runtime p of
          ProcessRuntime u \<Rightarrow> ProcessRuntime (finish_unstarted_rings u) | McpRuntime m \<Rightarrow> McpRuntime m)\<rparr>)"

definition finish_process :: "world \<Rightarrow> rstr \<Rightarrow> process_state \<Rightarrow> rstr \<Rightarrow> agent \<Rightarrow> agent" where
  "finish_process w pid terminal reason a =
     prune_terminal_processes w
       (with_process pid (\<lambda>(p, v). finalize_process w
          (refresh_capture_status (if is_active (i_state (m_info p)) then finish_active w terminal reason p else p), v)) a)"

text \<open>The start is recorded before the program is spawned; a worker that is cancelled does not start.\<close>

datatype start_result = StartGone | StartCancelled | StartFailed rstr | Started

definition begin_running :: "world \<Rightarrow> rstr \<Rightarrow> agent \<Rightarrow> start_result \<times> agent" where
  "begin_running w pid a =
     (case lookup_process pid a of
        None \<Rightarrow> (StartGone, a)
      | Some p \<Rightarrow>
          if m_cancel p \<or> \<not> is_active (i_state (m_info p)) then (StartCancelled, a)
          else let i = (m_info p)\<lparr>i_state := Running, i_started := Some (w_now w), i_updated := w_now w\<rparr>;
                   v = a_services a in
            case mark_started_row (w_sizes w) (w_start_fault w pid) i (v_history v) of (out, h) \<Rightarrow>
              ((if is_persisted out then Started
                else StartFailed (lit ''history_start_failed: '' @
                  (case outcome_error out of Some e \<Rightarrow> e | None \<Rightarrow> lit ''history start persistence failed''))),
               \<lparr>a_table = put_process pid (p\<lparr>m_info := i\<rparr>) (a_table a), a_services = v\<lparr>v_history := h\<rparr>\<rparr>))"

text \<open>The pipes of a spawned program: the readers start, or the pipe was not there.\<close>

definition start_capture :: "rstr \<Rightarrow> bool \<Rightarrow> bool \<Rightarrow> agent \<Rightarrow> agent" where
  "start_capture pid out_pipe err_pipe =
     change_process pid (\<lambda>p. case m_runtime p of
         McpRuntime _ \<Rightarrow> p
       | ProcessRuntime u \<Rightarrow> p\<lparr>m_runtime := ProcessRuntime (u\<lparr>
           u_stdout := (if out_pipe then mark_started (u_stdout u)
             else finish_ring (ReaderFailed (lit ''stdout_pipe_unavailable'')) (u_stdout u)),
           u_stderr := (if err_pipe then mark_started (u_stderr u)
             else finish_ring (ReaderFailed (lit ''stderr_pipe_unavailable'')) (u_stderr u))\<rparr>)\<rparr>)"

text \<open>
  What was spawned is entered; the answer says whether it is to be cancelled at once. When its
  entry is gone, the worker terminates what it spawned itself, which concerns neither the table
  nor the history.
\<close>

definition install_spawned :: "rstr \<Rightarrow> int option \<Rightarrow> bool \<Rightarrow> bool \<Rightarrow> bool \<Rightarrow> agent \<Rightarrow> bool \<times> agent" where
  "install_spawned pid spawned_group startup out_pipe err_pipe a =
     (case lookup_process pid a of
        None \<Rightarrow> (False, a)
      | Some p \<Rightarrow>
          (case m_runtime p of
             McpRuntime _ \<Rightarrow> (False, a)
           | ProcessRuntime u \<Rightarrow>
               (m_cancel p \<or> \<not> is_active (i_state (m_info p)),
                a\<lparr>a_table := put_process pid (p\<lparr>m_runtime := ProcessRuntime (u\<lparr>u_child := True, u_group := spawned_group,
                    u_startup_reader := startup, u_stdout_reader := out_pipe, u_stderr_reader := err_pipe\<rparr>),
                  m_info := (m_info p)\<lparr>i_capture := StatusCapturing\<rparr>\<rparr>) (a_table a)\<rparr>)))"

text \<open>The worker from the start on, and what it does when it may not or cannot start.\<close>

definition run_async_process :: "world \<Rightarrow> rstr \<Rightarrow> agent \<Rightarrow> bool \<times> agent" where
  "run_async_process w pid a =
     (case begin_running w pid a of
        (StartGone, a1) \<Rightarrow> (False, a1)
      | (StartCancelled, a1) \<Rightarrow> (False, finish_process w pid Cancelled (lit ''cancelled'') a1)
      | (StartFailed reason, a1) \<Rightarrow> (False, finish_process w pid Failed reason a1)
      | (Started, a1) \<Rightarrow> (True, a1))"

definition spawn_failed :: "world \<Rightarrow> rstr \<Rightarrow> rstr \<Rightarrow> agent \<Rightarrow> agent" where
  "spawn_failed w pid err a =
     (let reason = lit ''spawn_failed: '' @ err in finish_process w pid Failed reason (mark_capture_failure pid reason a))"

text \<open>The reader tasks.\<close>

datatype stream = Stdout | Stderr

definition change_ring :: "rstr \<Rightarrow> stream \<Rightarrow> (output_ring \<Rightarrow> output_ring) \<Rightarrow> agent \<Rightarrow> agent" where
  "change_ring pid s f =
     change_process pid (\<lambda>p. case m_runtime p of
         McpRuntime _ \<Rightarrow> p
       | ProcessRuntime u \<Rightarrow> p\<lparr>m_runtime := ProcessRuntime (case s of
           Stdout \<Rightarrow> u\<lparr>u_stdout := f (u_stdout u)\<rparr> | Stderr \<Rightarrow> u\<lparr>u_stderr := f (u_stderr u)\<rparr>)\<rparr>)"

definition take_readers :: "rstr \<Rightarrow> agent \<Rightarrow> agent" where
  "take_readers pid =
     change_process pid (\<lambda>p. case m_runtime p of
         McpRuntime _ \<Rightarrow> p
       | ProcessRuntime u \<Rightarrow> p\<lparr>m_runtime := ProcessRuntime (u\<lparr>u_stdout_reader := False, u_stderr_reader := False\<rparr>)\<rparr>)"

definition finish_monitor :: "world \<Rightarrow> rstr \<Rightarrow> agent \<Rightarrow> agent" where
  "finish_monitor w pid a =
     prune_terminal_processes w (with_process pid (\<lambda>pv. finalize_process w (refresh_process w pv)) a)"

subsection \<open>Results of an MCP call\<close>

definition attach_mcp_request :: "world \<Rightarrow> rstr \<Rightarrow> rstr \<Rightarrow> rstr \<Rightarrow> agent \<Rightarrow> (rstr + unit) \<times> agent" where
  "attach_mcp_request w pid peer request a =
     (case lookup_process pid a of
        None \<Rightarrow> (Inl (missing_process_reason w pid), a)
      | Some p \<Rightarrow>
          (case m_runtime p of
             ProcessRuntime _ \<Rightarrow> (Inl (lit ''process_kind_mismatch''), a)
           | McpRuntime m \<Rightarrow>
               if \<not> is_active (i_state (m_info p)) then (Inl (lit ''process_not_active''), a)
               else let i = (m_info p)\<lparr>i_state := Running, i_started := Some (w_now w), i_updated := w_now w\<rparr>;
                        p1 = p\<lparr>m_info := i, m_runtime := McpRuntime \<lparr>mcp_peer = Some peer, mcp_request = Some request\<rparr>\<rparr>;
                        v = a_services a in
                 case mark_started_row (w_sizes w) (w_start_fault w pid) i (v_history v) of (out, h) \<Rightarrow>
                   if is_persisted out
                   then (Inr (), \<lparr>a_table = put_process pid p1 (a_table a), a_services = v\<lparr>v_history := h\<rparr>\<rparr>)
                   else let reason = lit ''history_start_failed: '' @
                          (case outcome_error out of Some e \<Rightarrow> e | None \<Rightarrow> lit ''history start persistence failed'');
                        p2 = p1\<lparr>m_info := i\<lparr>i_state := Failed, i_finished := Some (w_now w), i_reason := Some reason,
                          i_evidence := Some (lit ''history_start_failed'')\<rparr>\<rparr> in
                     case finalize_process w (p2, v\<lparr>v_history := h\<rparr>) of (p3, v') \<Rightarrow>
                       (Inl reason, \<lparr>a_table = put_process pid p3 (a_table a), a_services = v'\<rparr>)))"

definition max_mcp_result_bytes :: nat where "max_mcp_result_bytes = 512 * 1024"
definition max_mcp_result_preview_bytes :: nat where "max_mcp_result_preview_bytes = 8 * 1024"

text \<open>The digest and the lossy decoding of the result are arguments.\<close>

definition completed_mcp ::
    "world \<Rightarrow> rstr \<Rightarrow> rstr \<Rightarrow> int list \<Rightarrow> bool \<Rightarrow> (rstr \<times> rstr) option \<Rightarrow> managed_process \<Rightarrow> managed_process" where
  "completed_mcp w digest lossy bytes downstream_error cancel_outcome p =
     (let unavailable = length bytes > max_mcp_result_bytes;
          d = (m_detail p)\<lparr>v_result := (if unavailable then None else Some bytes), v_result_available := \<not> unavailable,
            v_result_bytes := Some (length bytes), v_result_sha256 := Some (lit ''sha256:'' @ digest),
            v_result_preview := (if unavailable then Some (utf8_prefix lossy max_mcp_result_preview_bytes) else None)\<rparr>;
          d1 = (if downstream_error then d\<lparr>v_error := Some \<lparr>error_code = lit ''mcp_tool_error'',
            error_message = lit ''Downstream MCP tool returned isError=true''\<rparr>\<rparr> else d);
          i = (m_info p)\<lparr>i_capture := StatusNotApplicable, i_capture_error := None,
            i_state := (if downstream_error then Failed else Completed), i_updated := w_now w, i_finished := Some (w_now w)\<rparr> in
      p\<lparr>m_detail := d1, m_info := (case cancel_outcome of
          Some (outcome, evidence) \<Rightarrow> i\<lparr>i_cancel_requested := True, i_cancel_outcome := Some outcome, i_evidence := Some evidence\<rparr>
        | None \<Rightarrow> i\<lparr>i_evidence := Some (lit ''remote_response'')\<rparr>)\<rparr>)"

definition complete_mcp_result ::
    "world \<Rightarrow> rstr \<Rightarrow> rstr \<Rightarrow> rstr \<Rightarrow> int list \<Rightarrow> bool \<Rightarrow> (rstr \<times> rstr) option \<Rightarrow> agent \<Rightarrow> agent" where
  "complete_mcp_result w pid digest lossy bytes downstream_error cancel_outcome a =
     (case lookup_process pid a of
        None \<Rightarrow> a
      | Some p \<Rightarrow> if is_terminal (i_state (m_info p)) then a
          else prune_terminal_processes w (with_process pid (\<lambda>(p, v). finalize_process w
            (completed_mcp w digest lossy bytes downstream_error cancel_outcome p, v)) a))"

definition failed_mcp ::
    "world \<Rightarrow> process_state \<Rightarrow> rstr \<Rightarrow> rstr \<Rightarrow> rstr option \<Rightarrow> rstr option \<Rightarrow> managed_process \<Rightarrow> managed_process" where
  "failed_mcp w terminal code message cancel_outcome evidence p =
     (let i = (m_info p)\<lparr>i_state := terminal, i_updated := w_now w, i_finished := Some (w_now w), i_reason := Some code,
            i_capture := StatusNotApplicable, i_capture_error := None\<rparr>;
          i1 = (case cancel_outcome of Some c \<Rightarrow> i\<lparr>i_cancel_requested := True, i_cancel_outcome := Some c\<rparr> | None \<Rightarrow> i);
          i2 = (case evidence of Some e \<Rightarrow> i1\<lparr>i_evidence := Some e\<rparr> | None \<Rightarrow> i1) in
      p\<lparr>m_info := i2, m_detail := (m_detail p)\<lparr>v_error := Some \<lparr>error_code = code, error_message = bounded_error_message message\<rparr>\<rparr>\<rparr>)"

definition finish_mcp_error ::
    "world \<Rightarrow> rstr \<Rightarrow> process_state \<Rightarrow> rstr \<Rightarrow> rstr \<Rightarrow> rstr option \<Rightarrow> rstr option \<Rightarrow> agent \<Rightarrow> agent" where
  "finish_mcp_error w pid terminal code message cancel_outcome evidence a =
     (case lookup_process pid a of
        None \<Rightarrow> a
      | Some p \<Rightarrow> if is_terminal (i_state (m_info p)) then a
          else prune_terminal_processes w (with_process pid (\<lambda>(p, v). finalize_process w
            (failed_mcp w terminal code message cancel_outcome evidence p, v)) a))"

subsection \<open>Cancellation\<close>

text \<open>
  \<^verbatim>\<open>terminate_process_group\<close> on Unix with a group: whether the first signal was sent, whether
  the group was alive then, whether it was gone within half a second, whether the second signal
  was sent, and whether the group was gone two seconds later.
\<close>

record signal_answers =
  g_term_sent :: bool
  g_live :: bool
  g_gone_after_term :: bool
  g_kill_sent :: bool
  g_gone_after_kill :: bool
  g_exit :: "exit_status option"

record group_termination =
  group_stopped :: bool
  termination_evidence :: rstr
  termination_exit :: "exit_status option"

definition terminate_process_group :: "signal_answers \<Rightarrow> exit_status option \<Rightarrow> group_termination" where
  "terminate_process_group g known =
     (let seen = (case known of Some x \<Rightarrow> Some x | None \<Rightarrow> g_exit g) in
      if \<not> g_term_sent g \<and> \<not> g_live g
      then \<lparr>group_stopped = True, termination_evidence = lit ''process_group_already_gone'', termination_exit = known\<rparr>
      else if g_gone_after_term g
      then \<lparr>group_stopped = True, termination_evidence = (if g_term_sent g then lit ''process_group_sigterm_observed''
          else lit ''process_group_already_gone''), termination_exit = seen\<rparr>
      else if g_gone_after_kill g
      then \<lparr>group_stopped = True, termination_evidence = (if g_kill_sent g then lit ''process_group_sigkill_observed''
          else lit ''process_group_already_gone''), termination_exit = seen\<rparr>
      else \<lparr>group_stopped = False, termination_evidence = lit ''process_group_termination_unverified'', termination_exit = seen\<rparr>)"

text \<open>The first part ends the request, or says what is to be terminated.\<close>

datatype cancel_start = CancelAnswered process_detail | CancelFailed rstr | Terminate bool "exit_status option"

definition cancel_runtime :: "world \<Rightarrow> managed_process \<Rightarrow> process_runtime \<Rightarrow> managed_process" where
  "cancel_runtime w p u =
     (let i = (m_info p)\<lparr>i_cancel_requested := True\<rparr>;
          i1 = (if is_terminal (i_state i) then i else i\<lparr>i_state := CancelRequested, i_updated := w_now w\<rparr>) in
      if \<not> u_child u \<and> u_group u = None
      then p\<lparr>m_cancel := True, m_info := i1\<lparr>i_cancel_outcome := Some (lit ''cancel_requested''),
             i_evidence := Some (lit ''cancel_flag_before_process_start'')\<rparr>,
           m_runtime := ProcessRuntime (u\<lparr>u_lease := False\<rparr>)\<rparr>
      else p\<lparr>m_cancel := True, m_info := i1, m_runtime := ProcessRuntime (u\<lparr>u_child := False,
             u_waiters := Some (Suc (case u_waiters u of Some n \<Rightarrow> n | None \<Rightarrow> 0))\<rparr>)\<rparr>)"

definition cancel_command_begin :: "world \<Rightarrow> rstr \<Rightarrow> agent \<Rightarrow> cancel_start \<times> agent" where
  "cancel_command_begin w pid a =
     (case lookup_process pid (with_process pid (refresh_process w) a) of
        None \<Rightarrow> (CancelFailed (missing_process_reason w pid), a)
      | Some p \<Rightarrow>
          let a1 = with_process pid (refresh_process w) a in
          (case m_runtime p of
             McpRuntime _ \<Rightarrow> (CancelFailed (lit ''process_kind_mismatch''), a1)
           | ProcessRuntime u0 \<Rightarrow>
               (case observe_group w u0 of (alive, u) \<Rightarrow>
                  if is_terminal (i_state (m_info p)) \<and> \<not> alive
                  then let p1 = p\<lparr>m_runtime := ProcessRuntime u\<rparr> in
                    (CancelAnswered (process_detail_of p1), prune_terminal_processes w (change_process pid (\<lambda>_. p1) a1))
                  else let p1 = cancel_runtime w p u; a2 = change_process pid (\<lambda>_. p1) a1 in
                    if \<not> u_child u \<and> u_group u = None
                    then (CancelAnswered (process_detail_of p1), prune_terminal_processes w a2)
                    else (Terminate (u_group u \<noteq> None) (u_exit u), a2))))"

definition mark_cancelled :: "int \<Rightarrow> rstr \<Rightarrow> rstr \<Rightarrow> process_info \<Rightarrow> process_info" where
  "mark_cancelled now outcome evidence i =
     i\<lparr>i_state := Cancelled, i_updated := now, i_finished := Some now, i_reason := Some (lit ''cancelled''),
       i_cancel_requested := True, i_cancel_outcome := Some outcome, i_evidence := Some evidence\<rparr>"

text \<open>\<^verbatim>\<open>release\<close> of the pin that keeps the process in the table meanwhile.\<close>

definition release_pin :: "process_runtime \<Rightarrow> process_runtime" where
  "release_pin u = u\<lparr>u_waiters := map_option (\<lambda>n. n - 1) (u_waiters u)\<rparr>"

definition terminated_process :: "world \<Rightarrow> group_termination \<Rightarrow> bool \<Rightarrow> managed_process \<Rightarrow> process_runtime \<Rightarrow> managed_process" where
  "terminated_process w t child p u =
     (let u1 = u\<lparr>u_exit := (case termination_exit t of Some x \<Rightarrow> Some x | None \<Rightarrow> u_exit u)\<rparr>; i = m_info p in
      if group_stopped t
      then let i1 = i\<lparr>i_exit := Option.bind (u_exit u1) x_code\<rparr> in
        p\<lparr>m_info := (if is_terminal (i_state i)
             then i1\<lparr>i_cancel_requested := True, i_cancel_outcome := Some (lit ''cancelled''),
               i_evidence := Some (termination_evidence t), i_updated := w_now w\<rparr>
             else mark_cancelled (w_now w) (lit ''cancelled'') (termination_evidence t) i1),
          m_runtime := ProcessRuntime (u1\<lparr>u_child := False, u_group := None,
             u_cancel_evidence := Some (termination_evidence t), u_lease := False\<rparr>)\<rparr>
      else p\<lparr>m_info := i\<lparr>i_state := (if is_terminal (i_state i) then i_state i else CancelRequested), i_updated := w_now w,
             i_cancel_outcome := Some (lit ''cancel_failed''), i_evidence := Some (termination_evidence t)\<rparr>,
           m_detail := (m_detail p)\<lparr>v_error := Some \<lparr>error_code = lit ''process_group_termination_unverified'',
             error_message = lit ''Process-group termination could not be verified after SIGTERM and SIGKILL''\<rparr>\<rparr>,
           m_runtime := ProcessRuntime (release_pin u1\<lparr>u_child := child\<rparr>)\<rparr>)"

definition cancel_command_end :: "world \<Rightarrow> rstr \<Rightarrow> group_termination \<Rightarrow> bool \<Rightarrow> agent \<Rightarrow> (rstr + process_detail) \<times> agent" where
  "cancel_command_end w pid t child a =
     (case lookup_process pid a of
        None \<Rightarrow> (Inl (lit ''process_not_found''), a)
      | Some p \<Rightarrow>
          (case m_runtime p of
             McpRuntime _ \<Rightarrow> (Inl (lit ''process_kind_changed''), a)
           | ProcessRuntime u \<Rightarrow>
               (case finalize_process w (terminated_process w t child p u, a_services a) of (p1, v) \<Rightarrow>
                  (Inr (process_detail_of p1),
                   prune_terminal_processes w \<lparr>a_table = put_process pid p1 (a_table a), a_services = v\<rparr>))))"

text \<open>One look while waiting for the output after a cancellation; the last one releases the pin.\<close>

definition wait_for_process_capture :: "world \<Rightarrow> rstr \<Rightarrow> bool \<Rightarrow> agent \<Rightarrow> bool \<times> agent" where
  "wait_for_process_capture w pid expired a =
     (let a1 = with_process pid (refresh_process w) a in
      case lookup_process pid a1 of
        None \<Rightarrow> (True, a1)
      | Some p \<Rightarrow>
          if i_capture (m_info p) \<noteq> StatusCapturing \<or> expired
          then (True, prune_terminal_processes w (change_process pid (\<lambda>p. case m_runtime p of
              ProcessRuntime u \<Rightarrow> p\<lparr>m_runtime := ProcessRuntime (release_pin u)\<rparr> | McpRuntime _ \<Rightarrow> p) a1))
          else (False, a1))"

text \<open>The first part of the cancellation of an MCP call: true when the peer is to be notified.\<close>

definition cancelled_before_request :: "world \<Rightarrow> managed_process \<Rightarrow> managed_process" where
  "cancelled_before_request w p =
     p\<lparr>m_cancel := True, m_info := (m_info p)\<lparr>i_cancel_requested := True, i_state := Cancelled, i_updated := w_now w,
         i_finished := Some (w_now w), i_reason := Some (lit ''mcp_cancelled''),
         i_cancel_outcome := Some (lit ''cancelled_before_request''),
         i_evidence := Some (lit ''local_cancel_before_downstream_request'')\<rparr>,
       m_detail := (m_detail p)\<lparr>v_error := Some \<lparr>error_code = lit ''mcp_cancelled'',
         error_message = lit ''MCP Process was cancelled before the downstream request started''\<rparr>\<rparr>\<rparr>"

definition cancel_mcp_begin :: "world \<Rightarrow> rstr \<Rightarrow> agent \<Rightarrow> bool \<times> agent" where
  "cancel_mcp_begin w pid a =
     (case lookup_process pid a of
        None \<Rightarrow> (False, a)
      | Some p \<Rightarrow>
          if is_terminal (i_state (m_info p)) then (False, prune_terminal_processes w a)
          else case m_runtime p of
            ProcessRuntime _ \<Rightarrow>
              (False, change_process pid (\<lambda>p. p\<lparr>m_cancel := True, m_info := (m_info p)\<lparr>i_cancel_requested := True\<rparr>\<rparr>) a)
          | McpRuntime m \<Rightarrow>
              if mcp_peer m = None \<or> mcp_request m = None
              then (False, prune_terminal_processes w
                (with_process pid (\<lambda>(p, v). finalize_process w (cancelled_before_request w p, v)) a))
              else (True, change_process pid (\<lambda>p. p\<lparr>m_cancel := True, m_info := (m_info p)\<lparr>i_cancel_requested := True,
                i_state := CancelRequested, i_updated := w_now w\<rparr>\<rparr>) a))"

datatype notification = NotificationSent | NotificationFailed rstr | NotificationTimedOut

definition detached_process :: "world \<Rightarrow> rstr \<Rightarrow> rstr \<Rightarrow> rstr \<Rightarrow> rstr \<Rightarrow> managed_process \<Rightarrow> managed_process" where
  "detached_process w code outcome evidence message p =
     p\<lparr>m_info := (m_info p)\<lparr>i_state := Detached, i_updated := w_now w, i_finished := Some (w_now w), i_reason := Some code,
         i_cancel_outcome := Some outcome, i_evidence := Some evidence\<rparr>,
       m_detail := (m_detail p)\<lparr>v_error := Some \<lparr>error_code = code, error_message = message\<rparr>\<rparr>\<rparr>"

definition notified_process :: "world \<Rightarrow> notification \<Rightarrow> managed_process \<Rightarrow> managed_process" where
  "notified_process w n p =
     (case n of
        NotificationSent \<Rightarrow> p\<lparr>m_info := (m_info p)\<lparr>i_state := CancelRequested,
          i_cancel_outcome := Some (lit ''notification_sent''), i_evidence := Some (lit ''mcp_cancel_notification_sent'')\<rparr>\<rparr>
      | NotificationFailed e \<Rightarrow> detached_process w (lit ''mcp_cancel_notification_failed'') (lit ''notification_failed'')
          (lit ''mcp_cancel_notification_delivery_failed'') (bounded_error_message e) p
      | NotificationTimedOut \<Rightarrow> detached_process w (lit ''mcp_cancel_notification_timeout'') (lit ''notification_timeout'')
          (lit ''mcp_cancel_notification_delivery_timeout'') (lit ''MCP cancellation notification delivery exceeded 2 seconds'') p)"

definition cancel_mcp_end :: "world \<Rightarrow> rstr \<Rightarrow> notification \<Rightarrow> agent \<Rightarrow> agent" where
  "cancel_mcp_end w pid n a =
     (case lookup_process pid a of
        None \<Rightarrow> a
      | Some p \<Rightarrow> if is_terminal (i_state (m_info p)) then a
          else prune_terminal_processes w
            (case n of
               NotificationSent \<Rightarrow> change_process pid (notified_process w n) a
             | _ \<Rightarrow> with_process pid (\<lambda>(p, v). finalize_process w (notified_process w n p, v)) a))"

subsection \<open>Looking a process up\<close>

text \<open>What \<^verbatim>\<open>get_process\<close> answers without waiting: the table, else a finished record of the history.\<close>

definition get_process :: "world \<Rightarrow> rstr \<Rightarrow> agent \<Rightarrow> process_info option \<times> agent" where
  "get_process w pid a =
     (case get_process_now w pid a of
        (Some i, a') \<Rightarrow> (Some i, a')
      | (None, a') \<Rightarrow> (case get_record pid (v_history (a_services a')) of
            Some (i, _) \<Rightarrow> (if is_terminal (i_state i) then Some i else None, a')
          | None \<Rightarrow> (None, a')))"

end
