(* ===== verification/Process_Outcomes.thy ===== *)
theory Process_Outcomes
  imports Process_Handlers
begin

text \<open>
  What every operation on the table of processes keeps: the outcome of a process that has
  ended, its agreement with the history, and what is told of it, first for what happens to one
  process, then for the table with its pruning.
\<close>

subsection \<open>One process and the history\<close>

definition outcome_of :: "process_info \<Rightarrow> process_state \<times> int option \<times> rstr option" where
  "outcome_of i = (i_state i, i_finished i, i_reason i)"

text \<open>A stored row tells the outcome; reasons are stored up to 8 KiB.\<close>

definition row_matches :: "history_row \<Rightarrow> process_info \<Rightarrow> bool" where
  "row_matches r i \<longleftrightarrow> i_state (r_info r) = i_state i \<and> i_finished (r_info r) = i_finished i \<and>
     i_reason (r_info r) = bounded_error_text (i_reason i)"

definition tracked_ok :: "history \<Rightarrow> managed_process \<Rightarrow> bool" where
  "tracked_ok h p \<longleftrightarrow> id_fits (i_id (m_info p)) \<and>
     (\<forall>r. row_of (i_id (m_info p)) h = Some r \<longrightarrow> \<not> is_active (r_state r) \<longrightarrow>
        \<not> is_active (i_state (m_info p)) \<and> row_matches r (m_info p)) \<and>
     (m_snapshot p \<noteq> None \<longrightarrow> \<not> is_active (i_state (m_info p)) \<and>
        (\<forall>r. row_of (i_id (m_info p)) h = Some r \<longrightarrow> \<not> is_active (r_state r)))"

definition kept :: "managed_process \<Rightarrow> managed_process \<Rightarrow> bool" where
  "kept p p' \<longleftrightarrow> i_id (m_info p') = i_id (m_info p) \<and>
     (\<not> is_active (i_state (m_info p)) \<longrightarrow> outcome_of (m_info p') = outcome_of (m_info p)) \<and> (m_cancel p \<longrightarrow> m_cancel p')"

definition others_frame :: "rstr \<Rightarrow> history \<Rightarrow> history \<Rightarrow> bool" where
  "others_frame pid h h' \<longleftrightarrow> (\<forall>q. q \<noteq> pid \<longrightarrow> row_of q h' \<in> {row_of q h, None})"

text \<open>
  What a process may tell: a report when it had an audit context, which it then has no more, and
  completions, each with the state the process has ended in.
\<close>

definition tells :: "managed_process \<times> services \<Rightarrow> managed_process \<times> services \<Rightarrow> process_report list \<Rightarrow> (rstr \<times> completion_details) list \<Rightarrow> bool" where
  "tells pv pv' xs ds \<longleftrightarrow>
     (case (pv, pv') of ((p, v), (p', v')) \<Rightarrow>
        v_reports v' = v_reports v @ xs \<and> v_delivered v' = v_delivered v @ ds \<and>
        (if xs = [] then m_audit p' = None \<longleftrightarrow> m_audit p = None
         else m_audit p \<noteq> None \<and> m_audit p' = None \<and> (\<exists>x. xs = [x] \<and> i_id (rep_info x) = i_id (m_info p') \<and>
           i_state (rep_info x) = i_state (m_info p') \<and> \<not> is_active (i_state (m_info p')))) \<and>
        (\<forall>(k, d) \<in> set ds. k = i_id (m_info p') \<and> \<not> is_active (i_state (m_info p')) \<and>
           process_event_type (i_state (m_info p')) = Some (c_type d)))"

definition advance :: "managed_process \<times> services \<Rightarrow> managed_process \<times> services \<Rightarrow> bool" where
  "advance pv pv' \<longleftrightarrow>
     (case (pv, pv') of ((p, v), (p', v')) \<Rightarrow>
        kept p p' \<and> (\<exists>xs ds. tells pv pv' xs ds) \<and>
        (history_ok (v_history v) \<longrightarrow> tracked_ok (v_history v) p \<longrightarrow>
           history_ok (v_history v') \<and> tracked_ok (v_history v') p' \<and>
           others_frame (i_id (m_info p)) (v_history v) (v_history v')))"

lemma advanceI:
  assumes "kept p p'" and "tells (p, v) (p', v') xs ds"
    and "history_ok (v_history v) \<Longrightarrow> tracked_ok (v_history v) p \<Longrightarrow>
      history_ok (v_history v') \<and> tracked_ok (v_history v') p' \<and>
      others_frame (i_id (m_info p)) (v_history v) (v_history v')"
  shows "advance (p, v) (p', v')"
  using assms by (auto simp: advance_def)

lemma tells_nothing:
  assumes "v_reports v' = v_reports v" and "v_delivered v' = v_delivered v" and "m_audit p' = None \<longleftrightarrow> m_audit p = None"
  shows "tells (p, v) (p', v') [] []"
  using assms by (simp add: tells_def)

lemma kept_refl [simp]: "kept p p"
  by (simp add: kept_def)

lemma kept_trans: "kept p q \<Longrightarrow> kept q r \<Longrightarrow> kept p r"
  by (auto simp: kept_def outcome_of_def)

lemma kept_active: "kept p q \<Longrightarrow> is_active (i_state (m_info q)) \<Longrightarrow> is_active (i_state (m_info p))"
  by (auto simp: kept_def outcome_of_def)

lemma others_frame_refl [simp]: "others_frame pid h h"
  by (simp add: others_frame_def)

lemma others_frame_trans: "others_frame pid h g \<Longrightarrow> others_frame pid g k \<Longrightarrow> others_frame pid h k"
  unfolding others_frame_def by (metis empty_iff insert_iff)

lemma advance_refl [simp]: "advance pv pv"
  by (cases pv) (auto simp: tells_def intro: advanceI [where xs = "[]" and ds = "[]"])

lemma kept_ended:
  assumes "kept p q" and "\<not> is_active (i_state (m_info p))"
  shows "i_state (m_info q) = i_state (m_info p)" "i_id (m_info q) = i_id (m_info p)"
  using assms by (auto simp: kept_def outcome_of_def)

lemma tells_trans:
  assumes "tells (p, v) (q, w) xs ds" and "tells (q, w) (r, u) ys es" and "kept q r"
  shows "tells (p, v) (r, u) (xs @ ys) (ds @ es)"
proof -
  have id: "i_id (m_info r) = i_id (m_info q)" using assms(3) by (simp add: kept_def)
  have st: "\<not> is_active (i_state (m_info q)) \<Longrightarrow> i_state (m_info r) = i_state (m_info q)"
    by (rule kept_ended(1) [OF assms(3)])
  show ?thesis using assms(1,2) id st unfolding tells_def by (cases "xs = []"; cases "ys = []") auto
qed

lemma advance_trans:
  assumes "advance pv pw" and "advance pw pu"
  shows "advance pv pu"
proof -
  obtain p v q w r u where eq: "pv = (p, v)" "pw = (q, w)" "pu = (r, u)" by (cases pv; cases pw; cases pu)
  from assms(1) obtain xs ds where 1: "kept p q" "tells (p, v) (q, w) xs ds" by (auto simp: advance_def eq)
  from assms(2) obtain ys es where 2: "kept q r" "tells (q, w) (r, u) ys es" by (auto simp: advance_def eq)
  have id: "i_id (m_info q) = i_id (m_info p)" using 1(1) by (simp add: kept_def)
  show ?thesis unfolding eq
  proof (rule advanceI [OF kept_trans [OF 1(1) 2(1)] tells_trans [OF 1(2) 2(2,1)]])
    assume "history_ok (v_history v)" "tracked_ok (v_history v) p"
    with assms id show "history_ok (v_history u) \<and> tracked_ok (v_history u) r \<and>
        others_frame (i_id (m_info p)) (v_history v) (v_history u)"
      by (auto simp: advance_def eq intro: others_frame_trans)
  qed
qed

text \<open>A change that leaves the services and a known outcome alone.\<close>

lemma advance_update:
  assumes "m_snapshot p' = m_snapshot p" and "kept p p'" and "m_audit p' = None \<longleftrightarrow> m_audit p = None"
  shows "advance (p, v) (p', v)"
proof (rule advanceI [OF assms(2) tells_nothing])
  assume "history_ok (v_history v)" "tracked_ok (v_history v) p"
  moreover from this(2) assms have "tracked_ok (v_history v) p'"
    by (auto simp: tracked_ok_def kept_def outcome_of_def row_matches_def)
  ultimately show "history_ok (v_history v) \<and> tracked_ok (v_history v) p' \<and>
      others_frame (i_id (m_info p)) (v_history v) (v_history v)"
    using assms by simp
qed (use assms in simp_all)

text \<open>A write to the history that concerns no row.\<close>

lemma advance_rows_same:
  assumes "m_snapshot p' = m_snapshot p" and "m_info p' = m_info p" and "tells (p, v) (p', v') xs ds" and "m_cancel p' = m_cancel p"
    and "history_ok (v_history v) \<Longrightarrow> history_ok (v_history v') \<and> (\<forall>q. row_of q (v_history v') = row_of q (v_history v))"
  shows "advance (p, v) (p', v')"
proof (rule advanceI [OF _ assms(3)])
  show "kept p p'" using assms(2,4) by (simp add: kept_def)
  assume a: "history_ok (v_history v)" "tracked_ok (v_history v) p"
  with assms(5) have "history_ok (v_history v')" "\<And>q. row_of q (v_history v') = row_of q (v_history v)" by auto
  moreover from a(2) this assms(1,2) have "tracked_ok (v_history v') p'" by (simp add: tracked_ok_def)
  ultimately show "history_ok (v_history v') \<and> tracked_ok (v_history v') p' \<and>
      others_frame (i_id (m_info p)) (v_history v) (v_history v')"
    by (simp add: others_frame_def)
qed

subsection \<open>The end of a process\<close>

lemma capture_status_fields [simp]:
  "m_snapshot (refresh_capture_status p) = m_snapshot p" "m_audit (refresh_capture_status p) = m_audit p"
  "m_event_recorded (refresh_capture_status p) = m_event_recorded p" "m_cancel (refresh_capture_status p) = m_cancel p"
  "i_state (m_info (refresh_capture_status p)) = i_state (m_info p)" "i_id (m_info (refresh_capture_status p)) = i_id (m_info p)"
  "i_finished (m_info (refresh_capture_status p)) = i_finished (m_info p)"
  "i_reason (m_info (refresh_capture_status p)) = i_reason (m_info p)"
  "i_updated (m_info (refresh_capture_status p)) = i_updated (m_info p)"
  "m_detail (refresh_capture_status p) = m_detail p" "m_runtime (refresh_capture_status p) = m_runtime p"
  by (simp_all add: refresh_capture_status_def split: process_runtime_kind.split prod.split)

lemma kept_capture [simp]: "kept p (refresh_capture_status p)"
  by (simp add: kept_def outcome_of_def)

lemma completion_rows:
  assumes "history_ok (v_history v)" and "persist_and_deliver_completion w i v = (ok, v')"
  shows "history_ok (v_history v') \<and> (\<forall>q. row_of q (v_history v') = row_of q (v_history v))"
proof -
  obtain out h where r: "record_terminal_event (w_event_fault w (i_id i)) i (v_history v) = (out, h)" by fastforce
  note e = event_rows(1,2) [where fault = "w_event_fault w (i_id i)" and i = i, OF assms(1), unfolded r snd_conv]
  show ?thesis
  proof (cases "is_persisted out")
    case False
    then show ?thesis using assms(2) r e by (auto simp: persist_and_deliver_completion_def)
  next
    case True
    note k = event_rows(3,4) [where fault' = "w_acknowledge_fault w (i_id i)" and pid = "i_id i", OF e(1)]
    show ?thesis using assms(2) r e True k
      by (auto simp: persist_and_deliver_completion_def record_process_completion_def split: option.splits prod.splits)
  qed
qed

lemma completion_delivered:
  assumes "persist_and_deliver_completion w i v = (ok, v')"
  obtains ds where "v_reports v' = v_reports v" "v_delivered v' = v_delivered v @ ds"
    "\<forall>(k, d) \<in> set ds. k = i_id i \<and> \<not> is_active (i_state i) \<and> process_event_type (i_state i) = Some (c_type d)"
proof -
  have "v_reports v' = v_reports v \<and> (v_delivered v' = v_delivered v \<or>
      (\<exists>d. v_delivered v' = v_delivered v @ [(i_id i, d)] \<and> process_completion_details i = Some d))"
    using assms by (auto simp: persist_and_deliver_completion_def record_process_completion_def split: if_splits option.splits prod.splits)
  then show thesis
  proof (elim conjE disjE exE)
    assume "v_reports v' = v_reports v" "v_delivered v' = v_delivered v"
    then show thesis by (intro that [of "[]"]) simp_all
  next
    fix d assume "v_reports v' = v_reports v" "v_delivered v' = v_delivered v @ [(i_id i, d)]"
      and "process_completion_details i = Some d"
    then show thesis by (intro that [of "[(i_id i, d)]"]) (simp_all add: completion_names_state)
  qed
qed

lemma record_once_info:
  assumes "record_completion_once w p v = (p', v')"
  shows "m_info p' = m_info p" "m_snapshot p' = m_snapshot p" "m_audit p' = m_audit p" "advance (p, v) (p', v')"
proof -
  have c: "m_cancel p' = m_cancel p" using assms by (auto simp: record_completion_once_def split: if_splits prod.splits)
  show i: "m_info p' = m_info p" and s: "m_snapshot p' = m_snapshot p" and au: "m_audit p' = m_audit p"
    using assms by (auto simp: record_completion_once_def split: if_splits prod.splits)
  show "advance (p, v) (p', v')"
  proof (cases "m_event_recorded p")
    case True
    with assms show ?thesis by (simp add: record_completion_once_def)
  next
    case False
    obtain ok v1 where d: "persist_and_deliver_completion w (m_info p) v = (ok, v1)" by fastforce
    with assms False have v': "v' = v1" by (auto simp: record_completion_once_def)
    obtain ds where ds: "v_reports v1 = v_reports v" "v_delivered v1 = v_delivered v @ ds"
      "\<forall>(k, d) \<in> set ds. k = i_id (m_info p) \<and> \<not> is_active (i_state (m_info p)) \<and>
        process_event_type (i_state (m_info p)) = Some (c_type d)"
      by (rule completion_delivered [OF d])
    have "tells (p, v) (p', v') [] ds" using ds i au by (simp add: tells_def v')
    then show ?thesis by (rule advance_rows_same [OF s i _ c]) (use completion_rows [OF _ d] v' in simp)
  qed
qed

lemma process_detail_info [simp]: "d_process (process_detail_of p) = m_info p"
  by (simp add: process_detail_of_def)

lemma persist_advance:
  assumes "\<not> is_active (i_state (m_info p))" and "persist_snapshot w p v = (p', v')"
  shows "m_info p' = m_info p" "m_audit p' = m_audit p" "advance (p, v) (p', v')"
proof -
  let ?id = "i_id (m_info p)"
  obtain out h' where u: "upsert_terminal (w_sizes w) (w_upsert_fault w ?id) (w_cleanup_fault w ?id) (w_now w)
    (process_detail_of p) (process_output_snapshot p) (v_history v) = (out, h')" by fastforce
  have p': "p' = p\<lparr>m_snapshot := (if is_persisted out then Some (i_updated (m_info p)) else None)\<rparr>"
    and v': "v' = v\<lparr>v_history := h'\<rparr>"
    using assms(2) u by (auto simp: persist_snapshot_def Let_def)
  show "m_info p' = m_info p" "m_audit p' = m_audit p" by (simp_all add: p')
  show "advance (p, v) (p', v')"
  proof (rule advanceI [OF _ tells_nothing])
    show "kept p p'" by (simp add: p' kept_def)
    show "v_reports v' = v_reports v" "v_delivered v' = v_delivered v" "(m_audit p' = None) = (m_audit p = None)"
      by (simp_all add: v' p')
    assume ok: "history_ok (v_history v)" and t: "tracked_ok (v_history v) p"
    have fits: "id_fits ?id" using t by (simp add: tracked_ok_def)
    note rows = upsert_terminal_rows [OF ok _ _ u, unfolded process_detail_info, OF assms(1) fits]
    have own: "\<not> is_active (r_state r) \<and> row_matches r (m_info p)"
      if r: "row_of ?id h' = Some r" and "is_persisted out" for r
      using rows(3) [OF that(2) r] t by (auto simp: tracked_ok_def row_matches_def)
    have "tracked_ok h' p'"
      using fits own rows(2) t assms(1) by (auto simp: tracked_ok_def p')
    with rows(1) show "history_ok (v_history v') \<and> tracked_ok (v_history v') p' \<and>
        others_frame ?id (v_history v) (v_history v')"
      by (auto simp: v' p' rows_frame_def others_frame_def)
  qed
qed

lemma report_advance:
  assumes "\<not> is_active (i_state (m_info p))"
  shows "advance (p, v) (report_finished p v)"
proof (cases "m_audit p")
  case None
  then show ?thesis by (simp add: report_finished_def)
next
  case (Some c)
  let ?x = "\<lparr>rep_context = c, rep_info = m_info p, rep_truncated = output_truncated p\<rparr>"
  let ?p = "p\<lparr>m_audit := None\<rparr>"
  let ?v = "v\<lparr>v_reports := v_reports v @ [?x]\<rparr>"
  have "tells (p, v) (?p, ?v) [?x] []" using Some assms by (simp add: tells_def)
  then have "advance (p, v) (?p, ?v)" by (rule advance_rows_same [rotated 2]) simp_all
  with Some show ?thesis by (simp add: report_finished_def)
qed

lemma finalize_advance: "advance pv (finalize_process w pv)"
proof (cases "is_active (i_state (m_info (fst pv)))")
  case True
  then show ?thesis by (simp add: finalize_process_def)
next
  case False
  obtain p0 v0 where pv: "pv = (p0, v0)" by (cases pv)
  obtain p v where r: "record_completion_once w p0 v0 = (p, v)" by fastforce
  let ?p1 = "refresh_capture_status p"
  define persist where "persist \<longleftrightarrow> i_capture (m_info ?p1) \<notin> {StatusNotStarted, StatusCapturing} \<and>
    m_snapshot ?p1 \<noteq> Some (i_updated (m_info ?p1))"
  have 1: "advance (p0, v0) (?p1, v)"
    by (rule advance_trans [OF record_once_info(4) [OF r]]) (simp add: advance_update)
  have ended: "\<not> is_active (i_state (m_info ?p1))" using False record_once_info(1) [OF r] pv by simp
  have fin: "finalize_process w pv = (if \<not> persist \<and> m_audit ?p1 = None then (?p1, v)
      else case (if persist then persist_snapshot w ?p1 v else (?p1, v)) of (p2, v2) \<Rightarrow> report_finished p2 v2)"
    using False r by (simp add: finalize_process_def pv persist_def Let_def)
  obtain p2 v2 where p2: "(if persist then persist_snapshot w ?p1 v else (?p1, v)) = (p2, v2)" by fastforce
  have 2: "advance (?p1, v) (p2, v2)"
    using p2 persist_advance(3) [OF ended] by (cases persist) auto
  have "m_info p2 = m_info ?p1" using p2 persist_advance(1) [OF ended] by (cases persist) auto
  with ended have 3: "advance (p2, v2) (report_finished p2 v2)" by (simp add: report_advance)
  show ?thesis using advance_trans [OF 1 advance_trans [OF 2 3]] 1 unfolding fin p2 by (simp add: pv)
qed

lemma end_with_startup_fields [simp]:
  "i_id (m_info (end_with_startup x s p)) = i_id (m_info p)" "m_snapshot (end_with_startup x s p) = m_snapshot p"
  "m_audit (end_with_startup x s p) = m_audit p" "m_event_recorded (end_with_startup x s p) = m_event_recorded p"
  "m_cancel (end_with_startup x s p) = m_cancel p"
  by (simp_all add: end_with_startup_def Let_def split: option.split startup_status.split)

lemma end_cancelled_fields [simp]:
  "i_id (m_info (end_cancelled u p)) = i_id (m_info p)" "m_snapshot (end_cancelled u p) = m_snapshot p"
  "m_audit (end_cancelled u p) = m_audit p" "m_event_recorded (end_cancelled u p) = m_event_recorded p"
  "m_cancel (end_cancelled u p) = m_cancel p"
  by (simp_all add: end_cancelled_def Let_def)

lemma end_exited_fields [simp]:
  "i_id (m_info (end_exited w x u g p)) = i_id (m_info p)" "m_snapshot (end_exited w x u g p) = m_snapshot p"
  "m_audit (end_exited w x u g p) = m_audit p" "m_event_recorded (end_exited w x u g p) = m_event_recorded p"
  "m_cancel (end_exited w x u g p) = m_cancel p"
  by (simp_all add: end_exited_def Let_def)

lemma refresh_exit_fields:
  "kept p (refresh_exit w p)" "m_snapshot (refresh_exit w p) = m_snapshot p" "m_audit (refresh_exit w p) = m_audit p"
  "m_event_recorded (refresh_exit w p) = m_event_recorded p"
  by (auto simp: refresh_exit_def Let_def kept_def split: process_runtime_kind.split option.split prod.split)

lemma refresh_rings_fields:
  "kept p (refresh_rings w p)" "m_snapshot (refresh_rings w p) = m_snapshot p" "m_audit (refresh_rings w p) = m_audit p"
  "m_event_recorded (refresh_rings w p) = m_event_recorded p"
  by (auto simp: refresh_rings_def split: process_runtime_kind.split)

lemma refresh_advance: "advance pv (refresh_process w pv)"
proof -
  obtain p v where pv: "pv = (p, v)" by (cases pv)
  let ?q = "refresh_rings w (refresh_exit w p)"
  have "advance (p, v) (?q, v)"
    by (rule advance_update) (simp_all add: refresh_rings_fields(2-) refresh_exit_fields(2-)
      kept_trans [OF refresh_exit_fields(1) refresh_rings_fields(1)])
  then show ?thesis using advance_trans [OF _ finalize_advance] by (auto simp: refresh_process_def pv Let_def)
qed

text \<open>
  A process that has ended has been reported: whatever ends a process goes on to
  \<^verbatim>\<open>finalize_process\<close>, which takes the audit context.
\<close>

definition settled :: "managed_process \<Rightarrow> bool" where
  "settled p \<longleftrightarrow> is_active (i_state (m_info p)) \<or> m_audit p = None"

definition advances :: "managed_process \<times> services \<Rightarrow> managed_process \<times> services \<Rightarrow> bool" where
  "advances pv pv' \<longleftrightarrow> advance pv pv' \<and> (settled (fst pv) \<longrightarrow> settled (fst pv'))"

lemma advances_trans: "advances p q \<Longrightarrow> advances q r \<Longrightarrow> advances p r"
  by (auto simp: advances_def intro: advance_trans)

lemma finalize_settled: "settled (fst (finalize_process w pv))"
  by (auto simp: finalize_process_def settled_def report_finished_def Let_def split: prod.splits option.splits)

lemma finalize_advances: "advances pv (finalize_process w pv)"
  by (simp add: advances_def finalize_advance finalize_settled)

lemma refresh_advances: "advances pv (refresh_process w pv)"
  using refresh_advance [of pv w] finalize_settled
  by (auto simp: advances_def refresh_process_def settled_def Let_def split: if_splits)

lemma advances_update:
  assumes "m_snapshot p' = m_snapshot p" and "kept p p'" and "m_audit p' = None \<longleftrightarrow> m_audit p = None"
    and "is_active (i_state (m_info p)) \<Longrightarrow> is_active (i_state (m_info p'))"
  shows "advances (p, v) (p', v)"
  using advance_update [OF assms(1-3)] assms(3,4) by (auto simp: advances_def settled_def)

subsection \<open>The table\<close>

definition history_of :: "agent \<Rightarrow> history" where
  "history_of a = v_history (a_services a)"

definition agent_good :: "agent \<Rightarrow> bool" where
  "agent_good a \<longleftrightarrow> history_ok (history_of a) \<and> distinct (map fst (a_table a)) \<and>
     (\<forall>(k, p) \<in> set (a_table a). k = i_id (m_info p) \<and> tracked_ok (history_of a) p \<and> settled p)"

text \<open>
  What became of a process: it is there with the same outcome if it had one, or it has ended and
  the history tells how, unless the retention deleted the row.
\<close>

definition dropped_well :: "history \<Rightarrow> rstr \<Rightarrow> managed_process \<Rightarrow> bool" where
  "dropped_well h k p \<longleftrightarrow> (\<exists>i. \<not> is_active (i_state i) \<and>
     (\<not> is_active (i_state (m_info p)) \<longrightarrow> outcome_of i = outcome_of (m_info p)) \<and>
     (\<forall>r. row_of k h = Some r \<longrightarrow> \<not> is_active (r_state r) \<and> row_matches r i))"

definition became :: "agent \<Rightarrow> rstr \<Rightarrow> managed_process \<Rightarrow> bool" where
  "became a k p \<longleftrightarrow> (case lookup_process k a of Some p' \<Rightarrow> kept p p' | None \<Rightarrow> dropped_well (history_of a) k p)"

text \<open>
  What was told since: a report of a process takes its audit context, and names the state it has
  ended in, as every completion does. Only the processes \<open>K\<close> get an audit context.
\<close>

definition audited :: "agent \<Rightarrow> rstr \<Rightarrow> bool" where
  "audited a k \<longleftrightarrow> (case lookup_process k a of Some p \<Rightarrow> m_audit p \<noteq> None | None \<Rightarrow> False)"

definition ended_as :: "agent \<Rightarrow> rstr \<Rightarrow> process_state \<Rightarrow> bool" where
  "ended_as a k s \<longleftrightarrow> \<not> is_active s \<and>
     (case lookup_process k a of
        Some p \<Rightarrow> i_state (m_info p) = s
      | None \<Rightarrow> (\<forall>r. row_of k (history_of a) = Some r \<longrightarrow> i_state (r_info r) = s))"

definition reported_id :: "process_report \<Rightarrow> rstr" where
  "reported_id x = i_id (rep_info x)"

definition told :: "rstr set \<Rightarrow> agent \<Rightarrow> agent \<Rightarrow> process_report list \<Rightarrow> (rstr \<times> completion_details) list \<Rightarrow> bool" where
  "told K a a' xs ds \<longleftrightarrow>
     v_reports (a_services a') = v_reports (a_services a) @ xs \<and> v_delivered (a_services a') = v_delivered (a_services a) @ ds \<and>
     (\<forall>x \<in> set xs. audited a (reported_id x) \<and> \<not> audited a' (reported_id x) \<and> ended_as a' (reported_id x) (i_state (rep_info x))) \<and>
     distinct (map reported_id xs) \<and>
     (\<forall>(k, d) \<in> set ds. lookup_process k a \<noteq> None \<and> (\<exists>s. process_event_type s = Some (c_type d) \<and> ended_as a' k s)) \<and>
     (\<forall>k. audited a' k \<longrightarrow> audited a k \<or> k \<in> K) \<and>
     (\<forall>k. audited a k \<longrightarrow> audited a' k \<or> k \<in> reported_id ` set xs)"

definition moves :: "agent \<Rightarrow> agent \<Rightarrow> bool" where
  "moves a a' \<longleftrightarrow> (agent_good a \<longrightarrow> agent_good a' \<and> (\<exists>xs ds. told {} a a' xs ds) \<and>
     (\<forall>k. lookup_process k a = None \<longrightarrow> lookup_process k a' = None \<and> row_of k (history_of a') \<in> {row_of k (history_of a), None}) \<and>
     (\<forall>k p. lookup_process k a = Some p \<longrightarrow> became a' k p))"

lemma movesI:
  assumes "agent_good a \<Longrightarrow> agent_good a'"
    and "\<And>k. agent_good a \<Longrightarrow> lookup_process k a = None \<Longrightarrow>
      lookup_process k a' = None \<and> row_of k (history_of a') \<in> {row_of k (history_of a), None}"
    and "\<And>k p. agent_good a \<Longrightarrow> lookup_process k a = Some p \<Longrightarrow> became a' k p"
    and "agent_good a \<Longrightarrow> \<exists>xs ds. told {} a a' xs ds"
  shows "moves a a'"
  using assms unfolding moves_def by blast

lemma movesD:
  assumes "moves a a'" and "agent_good a"
  shows "agent_good a'"
    and "lookup_process k a = None \<Longrightarrow> lookup_process k a' = None \<and> row_of k (history_of a') \<in> {row_of k (history_of a), None}"
    and "lookup_process k a = Some p \<Longrightarrow> became a' k p"
    and "\<exists>xs ds. told {} a a' xs ds"
  using assms unfolding moves_def by blast+

lemma told_nothing:
  assumes "a_services a' = a_services a" and "\<And>k. audited a' k \<longleftrightarrow> audited a k"
  shows "told {} a a' [] []"
  using assms by (simp add: told_def)

lemma became_same: "lookup_process k a = Some p \<Longrightarrow> became a k p"
  by (simp add: became_def)

lemma moves_refl [simp]: "moves a a"
  by (rule movesI) (auto simp: became_same intro: exI [of _ "[]"] told_nothing)

lemma dropped_well_row:
  "dropped_well h k p \<Longrightarrow> row_of k h' \<in> {row_of k h, None} \<Longrightarrow> dropped_well h' k p"
  unfolding dropped_well_def by (metis empty_iff insert_iff option.distinct(1))

lemma dropped_well_kept: "kept p q \<Longrightarrow> dropped_well h k q \<Longrightarrow> dropped_well h k p"
  unfolding dropped_well_def kept_def outcome_of_def by (metis prod.inject)

text \<open>What later changes leave of it.\<close>

lemma became_later:
  assumes "became a k p" and "\<And>q. lookup_process k a = Some q \<Longrightarrow> became a' k q"
    and "lookup_process k a = None \<Longrightarrow> lookup_process k a' = None \<and> row_of k (history_of a') \<in> {row_of k (history_of a), None}"
  shows "became a' k p"
proof (cases "lookup_process k a")
  case None
  with assms(1) have "dropped_well (history_of a) k p" by (simp add: became_def)
  with assms(3) [OF None] show ?thesis by (auto simp: became_def intro: dropped_well_row)
next
  case (Some q)
  with assms(1) have pq: "kept p q" by (simp add: became_def)
  from assms(2) [OF Some] pq show ?thesis
    by (auto simp: became_def split: option.splits intro: kept_trans dropped_well_kept)
qed

lemma ended_as_later:
  assumes "ended_as a k s" and "\<And>q. lookup_process k a = Some q \<Longrightarrow> became a' k q"
    and "lookup_process k a = None \<Longrightarrow> lookup_process k a' = None \<and> row_of k (history_of a') \<in> {row_of k (history_of a), None}"
  shows "ended_as a' k s"
proof (cases "lookup_process k a")
  case None
  with assms(1) assms(3) [OF None] show ?thesis by (auto simp: ended_as_def)
next
  case (Some p)
  with assms(1) have s: "i_state (m_info p) = s" "\<not> is_active s" by (simp_all add: ended_as_def)
  from assms(2) [OF Some] s show ?thesis
    by (auto simp: ended_as_def became_def kept_def dropped_well_def outcome_of_def row_matches_def split: option.splits)
qed

lemma became_moves: "agent_good a \<Longrightarrow> became a k p \<Longrightarrow> moves a a' \<Longrightarrow> became a' k p"
  by (rule became_later) (auto dest: movesD)

lemma ended_as_moves: "agent_good a \<Longrightarrow> ended_as a k s \<Longrightarrow> moves a a' \<Longrightarrow> ended_as a' k s"
  by (rule ended_as_later) (auto dest: movesD)

lemma told_trans:
  assumes "agent_good a" and "moves a b" and "moves b c" and "told {} a b xs ds" and "told {} b c ys es"
  shows "told {} a c (xs @ ys) (ds @ es)"
proof -
  have "agent_good b" by (rule movesD(1) [OF assms(2,1)])
  then have later: "ended_as c k s" if "ended_as b k s" for k s using that assms(3) by (rule ended_as_moves)
  have there: "lookup_process k a \<noteq> None" if "lookup_process k b \<noteq> None" for k
    using movesD(2) [OF assms(2,1), of k] that by auto
  have "distinct (map reported_id (xs @ ys))" using assms(4,5) by (fastforce simp: told_def)
  moreover have "audited a (reported_id x) \<and> \<not> audited c (reported_id x) \<and> ended_as c (reported_id x) (i_state (rep_info x))"
    if "x \<in> set (xs @ ys)" for x
    using assms(4,5) that later by (auto simp: told_def)
  moreover have "lookup_process k a \<noteq> None \<and> (\<exists>s. process_event_type s = Some (c_type d) \<and> ended_as c k s)"
    if "(k, d) \<in> set (ds @ es)" for k d
    using assms(4,5) that later [of k] there [of k] unfolding told_def by fastforce
  moreover have "v_reports (a_services c) = v_reports (a_services a) @ xs @ ys" "v_delivered (a_services c) = v_delivered (a_services a) @ ds @ es"
      "\<And>k. audited c k \<Longrightarrow> audited a k"
    using assms(4,5) by (auto simp: told_def)
  moreover have "audited c k \<or> k \<in> reported_id ` set (xs @ ys)" if "audited a k" for k
    using assms(4,5) that unfolding told_def set_append image_Un by blast
  ultimately show ?thesis unfolding told_def append_assoc by blast
qed

lemma moves_trans: "moves a b \<Longrightarrow> moves b c \<Longrightarrow> moves a c"
proof (rule movesI)
  assume ab: "moves a b" and bc: "moves b c" and good: "agent_good a"
  note b = movesD [OF ab good]
  note c = movesD [OF bc b(1)]
  show "agent_good c" by (rule c(1))
  show "lookup_process k c = None \<and> row_of k (history_of c) \<in> {row_of k (history_of a), None}"
    if "lookup_process k a = None" for k
    using b(2) [OF that] c(2) [of k] by auto
  show "became c k p" if "lookup_process k a = Some p" for k p
    by (rule became_moves [OF b(1) b(3) [OF that] bc])
  show "\<exists>xs ds. told {} a c xs ds"
    using b(4) c(4) told_trans [OF good ab bc] by blast
qed

lemma moves_fold:
  assumes "\<And>x a. moves a (f x a)"
  shows "moves a (fold f xs a)"
  using assms by (induction xs arbitrary: a) (auto intro: moves_trans)

lemma lookup_put:
  "map_of (put_process k p t) q = (if q = k then map_option (\<lambda>_. p) (map_of t k) else map_of t q)"
  by (induction t) (auto simp: put_process_def)

lemma keys_put [simp]: "map fst (put_process k p t) = map fst t"
  by (induction t) (auto simp: put_process_def)

lemma lookup_process_in: "lookup_process k a = Some p \<Longrightarrow> (k, p) \<in> set (a_table a)"
  by (simp add: lookup_process_def map_of_SomeD)

lemma good_lookup:
  assumes "agent_good a" and "lookup_process k a = Some p"
  shows "i_id (m_info p) = k" and "tracked_ok (history_of a) p" and "history_ok (history_of a)" and "settled p"
  using assms lookup_process_in [OF assms(2)] by (auto simp: agent_good_def)

lemma tracked_ok_frame:
  assumes "tracked_ok h p" and "row_of (i_id (m_info p)) h' \<in> {row_of (i_id (m_info p)) h, None}"
  shows "tracked_ok h' p"
  using assms by (auto simp: tracked_ok_def)

text \<open>An advance of one process is a move of the table.\<close>

lemma moves_put:
  assumes p: "lookup_process k a = Some p" and adv: "advances (p, a_services a) (p', v')"
  shows "moves a \<lparr>a_table = put_process k p' (a_table a), a_services = v'\<rparr>" (is "moves a ?a'")
proof (rule movesI)
  have look: "lookup_process q ?a' = (if q = k then Some p' else lookup_process q a)" for q
    using p by (auto simp: lookup_process_def lookup_put)
  assume good: "agent_good a"
  note g = good_lookup [OF good p]
  have st: "history_ok (v_history v')" "tracked_ok (v_history v') p'" "kept p p'"
      "others_frame k (v_history (a_services a)) (v_history v')"
    using adv g by (auto simp: advances_def advance_def history_of_def)
  have settled: "settled p'" using adv g(4) by (simp add: advances_def)
  have others: "row_of q (history_of ?a') \<in> {row_of q (history_of a), None}" if "q \<noteq> k" for q
    using st(4) that by (simp add: others_frame_def history_of_def)
  show "agent_good ?a'"
  proof -
    have "q = i_id (m_info x) \<and> tracked_ok (history_of ?a') x \<and> settled x" if x: "(q, x) \<in> set (a_table ?a')" for q x
    proof (cases "q = k")
      case True
      then have "x = p'" using x by (auto simp: put_process_def split: if_splits)
      with True st g(1) settled show ?thesis by (simp add: history_of_def kept_def)
    next
      case False
      then have "(q, x) \<in> set (a_table a)" using x by (auto simp: put_process_def split: if_splits)
      with good have "q = i_id (m_info x)" "tracked_ok (history_of a) x" "settled x" by (auto simp: agent_good_def)
      with others [OF False] show ?thesis by (auto intro: tracked_ok_frame)
    qed
    with good st(1) show ?thesis by (auto simp: agent_good_def history_of_def)
  qed
  show "lookup_process q ?a' = None \<and> row_of q (history_of ?a') \<in> {row_of q (history_of a), None}"
    if "lookup_process q a = None" for q
    using that p others [of q] by (auto simp: look)
  show "became ?a' q x" if "lookup_process q a = Some x" for q x
    using that p st(3) by (auto simp: became_def look)
  obtain xs ds where t: "tells (p, a_services a) (p', v') xs ds" using adv by (auto simp: advances_def advance_def)
  have id: "i_id (m_info p') = k" using st(3) g(1) by (simp add: kept_def)
  have "told {} a ?a' xs ds"
    using t p id unfolding told_def tells_def audited_def ended_as_def reported_id_def look
    by (cases "xs = []") (auto simp: look split: option.splits)
  then show "\<exists>xs ds. told {} a ?a' xs ds" by blast
qed

lemma moves_with:
  assumes "\<And>p. lookup_process k a = Some p \<Longrightarrow> advances (p, a_services a) (f (p, a_services a))"
  shows "moves a (with_process k f a)"
proof (cases "lookup_process k a")
  case None
  then show ?thesis by (simp add: with_process_def)
next
  case (Some p)
  obtain p' v' where f: "f (p, a_services a) = (p', v')" by fastforce
  show ?thesis using moves_put [OF Some] assms [OF Some] by (simp add: with_process_def Some f)
qed

lemma moves_change:
  assumes "\<And>p. lookup_process k a = Some p \<Longrightarrow> m_snapshot (f p) = m_snapshot p \<and> kept p (f p) \<and> (m_audit (f p) = None \<longleftrightarrow> m_audit p = None) \<and>
    (is_active (i_state (m_info p)) \<longrightarrow> is_active (i_state (m_info (f p))))"
  shows "moves a (change_process k f a)"
  unfolding change_process_def
  by (rule moves_with) (use assms in \<open>auto intro: advances_update\<close>)

lemma moves_refresh_all: "moves a (refresh_processes w a)"
  unfolding refresh_processes_def by (intro moves_fold moves_with) (rule refresh_advances)

text \<open>A change of every process that leaves the history alone.\<close>

lemma moves_map:
  assumes "\<And>k p. (k, p) \<in> set (a_table a) \<Longrightarrow> agent_good a \<Longrightarrow> kept p (f p) \<and> tracked_ok (history_of a) (f p)"
    and audit: "\<And>p. m_audit (f p) = m_audit p" and info: "\<And>p. m_info (f p) = m_info p"
  shows "moves a (a\<lparr>a_table := map (\<lambda>(k, p). (k, f p)) (a_table a)\<rparr>)" (is "moves a ?a'")
proof (rule movesI)
  have look: "lookup_process k ?a' = map_option f (lookup_process k a)" for k
    by (simp add: lookup_process_def map_of_map)
  have h: "history_of ?a' = history_of a" by (simp add: history_of_def)
  assume good: "agent_good a"
  have keys: "map fst (a_table ?a') = map fst (a_table a)" by (induction "a_table a") auto
  show "agent_good ?a'"
    using good assms(1) [OF _ good] unfolding agent_good_def keys h by (fastforce simp: kept_def settled_def audit info)
  show "lookup_process k ?a' = None \<and> row_of k (history_of ?a') \<in> {row_of k (history_of a), None}"
    if "lookup_process k a = None" for k
    using that by (simp add: look h)
  show "became ?a' k p" if "lookup_process k a = Some p" for k p
    using that assms(1) [OF lookup_process_in [OF that] good] by (simp add: became_def look)
  have "told {} a ?a' [] []" by (rule told_nothing) (auto simp: audited_def look audit split: option.splits)
  then show "\<exists>xs ds. told {} a ?a' xs ds" by blast
qed

lemma moves_count: "moves a (snd (count_active w a))"
  unfolding count_active_def snd_conv
proof (rule moves_map)
  fix k p assume "(k, p) \<in> set (a_table a)" "agent_good a"
  then have "tracked_ok (history_of a) p" by (auto simp: agent_good_def)
  moreover have "m_info (snd (process_uses_capacity w p)) = m_info p" "m_snapshot (snd (process_uses_capacity w p)) = m_snapshot p"
      "m_cancel (snd (process_uses_capacity w p)) = m_cancel p"
    by (auto simp: process_uses_capacity_def split: process_runtime_kind.split prod.split)
  ultimately show "kept p (snd (process_uses_capacity w p)) \<and> tracked_ok (history_of a) (snd (process_uses_capacity w p))"
    by (simp add: kept_def tracked_ok_def)
qed (auto simp: process_uses_capacity_def split: process_runtime_kind.split prod.split)

lemma observe_terminal_ok:
  assumes "history_ok h" and "tracked_ok h p"
  shows "kept p (observe_terminal w h p)" "tracked_ok h (observe_terminal w h p)"
    "m_info (observe_terminal w h p) = m_info p"
proof -
  show i: "m_info (observe_terminal w h p) = m_info p"
    by (auto simp: observe_terminal_def Let_def split: process_runtime_kind.split)
  moreover have "m_cancel (observe_terminal w h p) = m_cancel p"
    by (auto simp: observe_terminal_def Let_def split: process_runtime_kind.split)
  ultimately show "kept p (observe_terminal w h p)" by (simp add: kept_def)
  have s: "m_snapshot (observe_terminal w h p) = m_snapshot p \<or>
      (\<not> is_active (i_state (m_info p)) \<and> terminal_snapshot_matches (w_match_fault w (i_id (m_info p))) (i_id (m_info p)) (i_updated (m_info p)) h)"
    by (auto simp: observe_terminal_def Let_def split: process_runtime_kind.splits if_splits)
  have "\<not> is_active (r_state r)"
    if "terminal_snapshot_matches fault k u h" "row_of k h = Some r" for fault k u r
    using that row_of_ok [OF assms(1) that(2)] by (auto simp: terminal_snapshot_matches_def row_ok_def)
  with s assms(2) i show "tracked_ok h (observe_terminal w h p)" unfolding tracked_ok_def i by metis
qed

lemma moves_filter:
  assumes "\<And>k p. (k, p) \<in> set (a_table a) \<Longrightarrow> k \<in> V \<Longrightarrow> agent_good a \<Longrightarrow> dropped_well (history_of a) k p \<and> m_audit p = None"
  shows "moves a (a\<lparr>a_table := filter (\<lambda>(k, _). k \<notin> V) (a_table a)\<rparr>)" (is "moves a ?a'")
proof (rule movesI)
  have "map_of (filter (\<lambda>(k, _). k \<notin> V) t) k = (if k \<in> V then None else map_of t k)" for k and t :: "(rstr \<times> managed_process) list"
    by (induction t) auto
  then have look: "lookup_process k ?a' = (if k \<in> V then None else lookup_process k a)" for k by (simp add: lookup_process_def)
  have h: "history_of ?a' = history_of a" by (simp add: history_of_def)
  assume good: "agent_good a"
  then show "agent_good ?a'" by (auto simp: agent_good_def h distinct_map_filter)
  show "lookup_process k ?a' = None \<and> row_of k (history_of ?a') \<in> {row_of k (history_of a), None}"
    if "lookup_process k a = None" for k
    using that by (simp add: look h)
  show "became ?a' k p" if "lookup_process k a = Some p" for k p
    using that assms [OF lookup_process_in [OF that] _ good] by (auto simp: became_def look h)
  have "m_audit p = None" if "lookup_process k a = Some p" "k \<in> V" for k p
    using assms [OF lookup_process_in [OF that(1)] that(2) good] by simp
  then have "told {} a ?a' [] []" by (intro told_nothing) (auto simp: audited_def look split: option.splits if_splits)
  then show "\<exists>xs ds. told {} a ?a' xs ds" by blast
qed

lemma victims_prunable:
  assumes "k \<in> set (prune_victims w h t)"
  shows "\<exists>p. (k, p) \<in> set t \<and> prunable h p"
proof -
  let ?s = "sort_key (\<lambda>(_, at). - at) (map (\<lambda>(pid, p). (pid, ended_at p)) (filter (\<lambda>(_, p). prunable h p) t))"
  obtain n at where "(n, k, at) \<in> set (enumerate 0 ?s)"
    using assms by (auto simp: prune_victims_def Let_def)
  moreover have "x \<in> set xs" if "(n, x) \<in> set (enumerate 0 xs)" for n x and xs :: "(rstr \<times> int) list"
    using that by (auto simp: in_set_enumerate_eq)
  ultimately have "(k, at) \<in> set ?s" by blast
  then show ?thesis by auto
qed

lemma prunable_dropped:
  assumes "agent_good a" and "(k, p) \<in> set (a_table a)" and "prunable (history_of a) p"
  shows "dropped_well (history_of a) k p \<and> m_audit p = None"
proof -
  have "k = i_id (m_info p)" "tracked_ok (history_of a) p" "settled p" using assms(1,2) by (auto simp: agent_good_def)
  with assms(3) show ?thesis unfolding dropped_well_def prunable_def tracked_ok_def settled_def by auto
qed

lemma moves_prune: "moves a (prune_terminal_processes w a)"
proof -
  let ?h = "v_history (a_services a)"
  let ?b = "a\<lparr>a_table := map (\<lambda>(k, p). (k, observe_terminal w ?h p)) (a_table a)\<rparr>"
  have 1: "moves a ?b"
  proof (rule moves_map)
    fix k p assume "(k, p) \<in> set (a_table a)" "agent_good a"
    then have "history_ok ?h" "tracked_ok ?h p" by (auto simp: agent_good_def history_of_def)
    then show "kept p (observe_terminal w ?h p) \<and> tracked_ok (history_of a) (observe_terminal w ?h p)"
      by (simp add: observe_terminal_ok history_of_def)
  qed (auto simp: observe_terminal_def Let_def split: process_runtime_kind.split)
  let ?V = "set (prune_victims w ?h (a_table ?b))"
  have 2: "moves ?b (?b\<lparr>a_table := filter (\<lambda>(k, _). k \<notin> ?V) (a_table ?b)\<rparr>)"
  proof (rule moves_filter)
    fix k p assume p: "(k, p) \<in> set (a_table ?b)" and v: "k \<in> ?V" and good: "agent_good ?b"
    obtain q where q: "(k, q) \<in> set (a_table ?b)" "prunable ?h q" using victims_prunable [OF v] by blast
    have "distinct (map fst (a_table ?b))" using good by (simp add: agent_good_def)
    with p q(1) have "q = p" by (metis map_of_is_SomeI option.inject)
    with q(2) prunable_dropped [OF good p] show "dropped_well (history_of ?b) k p \<and> m_audit p = None" by (simp add: history_of_def)
  qed
  have "prune_terminal_processes w a = ?b\<lparr>a_table := filter (\<lambda>(k, _). k \<notin> ?V) (a_table ?b)\<rparr>"
    by (simp add: prune_terminal_processes_def Let_def)
  with moves_trans [OF 1 2] show ?thesis by (simp only:)
qed

end
