(* ===== verification/Process_Moves.thy ===== *)
theory Process_Moves
  imports Process_Outcomes
begin

text \<open>
  Every operation on the table of processes is a move: the steps of a worker, the results of an
  MCP call, cancellation, looking; an admission is a move that may also enter processes.
\<close>

subsection \<open>The operations\<close>

named_theorems process_moves \<open>the operations on the table are moves\<close>

declare moves_prune [process_moves] moves_refresh_all [process_moves] moves_count [process_moves]

lemma active_update:
  assumes "is_active (i_state (m_info p))" and "i_id (m_info q) = i_id (m_info p)" and "m_cancel p \<Longrightarrow> m_cancel q"
  shows "kept p q"
  using assms by (simp add: kept_def)

lemma advance_end:
  assumes "m_snapshot q = m_snapshot p" and "kept p q" and "m_audit q = None \<longleftrightarrow> m_audit p = None"
  shows "advances (p, v) (finalize_process w (q, v))"
  using advance_trans [OF advance_update [OF assms] finalize_advance] finalize_settled by (simp add: advances_def)

lemma moves_get_now [process_moves]: "moves a (snd (get_process_now w pid a))"
proof -
  have "moves a (prune_terminal_processes w (with_process pid (refresh_process w) a))"
    by (rule moves_trans [OF moves_with moves_prune]) (rule refresh_advances)
  then show ?thesis by (simp add: get_process_now_def Let_def)
qed

lemma moves_audit [process_moves]:
  "moves a (set_policy_decision pid d a)" "moves a (set_confirmation_result pid d a)"
  "moves a (set_mcp_preflight_rejection pid a)" "moves a (set_mcp_authorization pid d a)"
  by (auto simp: set_policy_decision_def set_confirmation_result_def set_mcp_preflight_rejection_def
      set_mcp_authorization_def set_audit_def kept_def intro!: moves_change)

lemma moves_set_state [process_moves]: "is_active s \<Longrightarrow> moves a (set_process_state w pid s a)"
  unfolding set_process_state_def by (rule moves_change) (simp add: active_update)

lemma moves_rings [process_moves]:
  "moves a (mark_capture_failure pid e a)" "moves a (start_capture pid o1 o2 a)" "moves a (change_ring pid s f a)"
  "moves a (take_readers pid a)"
  by (auto simp: mark_capture_failure_def start_capture_def change_ring_def take_readers_def kept_def outcome_of_def
      split: process_runtime_kind.splits intro!: moves_change)

lemma moves_finish [process_moves]: "moves a (finish_process w pid s reason a)"
  unfolding finish_process_def
proof (rule moves_trans [OF moves_with moves_prune], unfold prod.case, rule advance_end)
  fix p
  let ?q = "if is_active (i_state (m_info p)) then finish_active w s reason p else p"
  show "m_snapshot (refresh_capture_status ?q) = m_snapshot p" "(m_audit (refresh_capture_status ?q) = None) = (m_audit p = None)"
    by (simp_all add: finish_active_def Let_def)
  have "kept p ?q" by (simp add: kept_def finish_active_def Let_def)
  then show "kept p (refresh_capture_status ?q)" by (rule kept_trans) simp
qed

lemma moves_finish_monitor [process_moves]: "moves a (finish_monitor w pid a)"
  unfolding finish_monitor_def
  by (rule moves_trans [OF moves_with moves_prune]) (rule advances_trans [OF refresh_advances finalize_advances])

text \<open>The record of a start leaves terminal rows alone.\<close>

lemma advance_started:
  assumes active: "is_active (i_state (m_info p))" "is_active (i_state i)" and id: "i_id i = i_id (m_info p)"
    and q: "m_info q = i" "m_snapshot q = m_snapshot p" "m_audit q = m_audit p" "m_cancel q = m_cancel p"
    and m: "mark_started_row sz fault i (v_history v) = (outcome, h)"
  shows "advances (p, v) (q, v\<lparr>v_history := h\<rparr>)"
proof -
  have "advance (p, v) (q, v\<lparr>v_history := h\<rparr>)"
  proof (rule advanceI [OF _ tells_nothing])
    show "kept p q" by (rule active_update [OF active(1)]) (simp_all add: q(1,4) id)
    assume ok: "history_ok (v_history v)" and t: "tracked_ok (v_history v) p"
    have fits: "id_fits (i_id i)" using t id by (simp add: tracked_ok_def)
    note rows = mark_started_rows [OF ok active(2) fits m]
    have "tracked_ok h q"
      using t active rows(3) fits unfolding tracked_ok_def q id by metis
    moreover have "others_frame (i_id (m_info p)) (v_history v) h"
      unfolding others_frame_def
    proof (intro allI impI)
      fix k assume k: "k \<noteq> i_id (m_info p)"
      show "row_of k h \<in> {row_of k (v_history v), None}" using mark_started_others [OF m] k id fits by simp
    qed
    ultimately show "history_ok (v_history (v\<lparr>v_history := h\<rparr>)) \<and> tracked_ok (v_history (v\<lparr>v_history := h\<rparr>)) q \<and>
        others_frame (i_id (m_info p)) (v_history v) (v_history (v\<lparr>v_history := h\<rparr>))"
      using rows(1) by simp
  qed (simp_all add: q(3))
  then show ?thesis by (simp add: advances_def settled_def q(1) active(2))
qed

lemma moves_begin [process_moves]: "moves a (snd (begin_running w pid a))"
proof (cases "lookup_process pid a")
  case None
  then show ?thesis by (simp add: begin_running_def)
next
  case (Some p)
  show ?thesis
  proof (cases "m_cancel p \<or> \<not> is_active (i_state (m_info p))")
    case True
    with Some show ?thesis by (simp add: begin_running_def)
  next
    case False
    let ?i = "(m_info p)\<lparr>i_state := Running, i_started := Some (w_now w), i_updated := w_now w\<rparr>"
    obtain out h where m: "mark_started_row (w_sizes w) (w_start_fault w pid) ?i (v_history (a_services a)) = (out, h)" by fastforce
    have "moves a \<lparr>a_table = put_process pid (p\<lparr>m_info := ?i\<rparr>) (a_table a), a_services = (a_services a)\<lparr>v_history := h\<rparr>\<rparr>"
      by (rule moves_put [OF Some], rule advance_started [OF _ _ _ _ _ _ _ m]) (use False in simp_all)
    with False Some m show ?thesis by (simp add: begin_running_def Let_def)
  qed
qed

lemma moves_run [process_moves]: "moves a (snd (run_async_process w pid a))"
  using moves_begin [of a w pid] moves_finish
  by (auto simp: run_async_process_def split: prod.split start_result.split intro: moves_trans)

lemma moves_spawn_failed [process_moves]: "moves a (spawn_failed w pid e a)"
  by (auto simp: spawn_failed_def Let_def intro: moves_trans moves_rings moves_finish)

lemma moves_put_update:
  assumes "lookup_process k a = Some p" and "m_snapshot q = m_snapshot p" and "kept p q" and "m_audit q = m_audit p"
    and "is_active (i_state (m_info p)) \<Longrightarrow> is_active (i_state (m_info q))"
  shows "moves a (a\<lparr>a_table := put_process k q (a_table a)\<rparr>)"
proof -
  have "advances (p, a_services a) (q, a_services a)" by (rule advances_update [OF assms(2,3)]) (simp_all add: assms(4,5))
  from moves_put [OF assms(1) this] show ?thesis by (cases a) simp
qed

lemma moves_install [process_moves]: "moves a (snd (install_spawned pid g st o1 o2 a))"
  by (auto simp: install_spawned_def kept_def outcome_of_def intro!: moves_put_update split: option.split process_runtime_kind.split)

lemma moves_attach [process_moves]: "moves a (snd (attach_mcp_request w pid peer request a))"
proof (cases "lookup_process pid a")
  case None
  then show ?thesis by (simp add: attach_mcp_request_def)
next
  case (Some p)
  show ?thesis
  proof (cases "m_runtime p")
    case (ProcessRuntime u)
    with Some show ?thesis by (simp add: attach_mcp_request_def)
  next
    case (McpRuntime m)
    show ?thesis
    proof (cases "is_active (i_state (m_info p))")
      case False
      with Some McpRuntime show ?thesis by (simp add: attach_mcp_request_def)
    next
      case True
      let ?i = "(m_info p)\<lparr>i_state := Running, i_started := Some (w_now w), i_updated := w_now w\<rparr>"
      let ?p = "p\<lparr>m_info := ?i, m_runtime := McpRuntime \<lparr>mcp_peer = Some peer, mcp_request = Some request\<rparr>\<rparr>"
      obtain out h where s: "mark_started_row (w_sizes w) (w_start_fault w pid) ?i (v_history (a_services a)) = (out, h)" by fastforce
      let ?v = "(a_services a)\<lparr>v_history := h\<rparr>"
      have adv: "advances (p, a_services a) (?p, ?v)" by (rule advance_started [OF _ _ _ _ _ _ _ s]) (use True in simp_all)
      define reason where "reason = lit ''history_start_failed: '' @
        (case outcome_error out of Some e \<Rightarrow> e | None \<Rightarrow> lit ''history start persistence failed'')"
      let ?q = "?p\<lparr>m_info := ?i\<lparr>i_state := Failed, i_finished := Some (w_now w), i_reason := Some reason,
        i_evidence := Some (lit ''history_start_failed'')\<rparr>\<rparr>"
      have adv2: "advances (?p, ?v) (finalize_process w (?q, ?v))" by (rule advance_end) (simp_all add: kept_def)
      obtain q v where f: "finalize_process w (?q, ?v) = (q, v)" by fastforce
      have eq: "snd (attach_mcp_request w pid peer request a) =
          (if is_persisted out then \<lparr>a_table = put_process pid ?p (a_table a), a_services = ?v\<rparr>
           else \<lparr>a_table = put_process pid q (a_table a), a_services = v\<rparr>)"
        using Some McpRuntime True s f by (simp add: attach_mcp_request_def Let_def reason_def)
      show ?thesis unfolding eq
        using moves_put [OF Some adv] moves_put [OF Some advances_trans [OF adv adv2, unfolded f]] by simp
    qed
  qed
qed

lemma moves_complete_mcp [process_moves]: "moves a (complete_mcp_result w pid digest lossy bytes err c a)"
  by (auto simp: complete_mcp_result_def completed_mcp_def Let_def active_update split: option.split
      intro!: moves_trans [OF moves_with moves_prune] advance_end)

lemma moves_finish_mcp [process_moves]: "moves a (finish_mcp_error w pid s code message c e a)"
  by (auto simp: finish_mcp_error_def failed_mcp_def Let_def active_update split: option.split
      intro!: moves_trans [OF moves_with moves_prune] advance_end)

lemma kept_runtime [simp]: "kept p (p\<lparr>m_runtime := u\<rparr>)"
  by (simp add: kept_def)

lemma cancel_runtime_fields:
  "kept p (cancel_runtime w p u)" "m_snapshot (cancel_runtime w p u) = m_snapshot p" "m_audit (cancel_runtime w p u) = m_audit p"
  "is_active (i_state (m_info p)) \<Longrightarrow> is_active (i_state (m_info (cancel_runtime w p u)))"
  by (auto simp: cancel_runtime_def Let_def kept_def outcome_of_def is_active_def)

lemma moves_cancel_begin [process_moves]: "moves a (snd (cancel_command_begin w pid a))"
proof -
  let ?a = "with_process pid (refresh_process w) a"
  have 1: "moves a ?a" by (rule moves_with) (rule refresh_advances)
  show ?thesis
  proof (cases "lookup_process pid ?a")
    case None
    then show ?thesis by (simp add: cancel_command_begin_def)
  next
    case (Some p)
    show ?thesis
    proof (cases "m_runtime p")
      case (McpRuntime m)
      with 1 Some show ?thesis by (simp add: cancel_command_begin_def Let_def)
    next
      case (ProcessRuntime u0)
      obtain alive u where o: "observe_group w u0 = (alive, u)" by fastforce
      have 2: "moves ?a (change_process pid (\<lambda>_. q) ?a)" if "m_snapshot q = m_snapshot p" "kept p q" "m_audit q = m_audit p"
          "is_active (i_state (m_info p)) \<Longrightarrow> is_active (i_state (m_info q))" for q
        by (rule moves_change) (use Some that in auto)
      have "snd (cancel_command_begin w pid a) \<in>
          {prune_terminal_processes w (change_process pid (\<lambda>_. p\<lparr>m_runtime := ProcessRuntime u\<rparr>) ?a),
           prune_terminal_processes w (change_process pid (\<lambda>_. cancel_runtime w p u) ?a),
           change_process pid (\<lambda>_. cancel_runtime w p u) ?a}"
        using Some ProcessRuntime o by (simp add: cancel_command_begin_def Let_def)
      moreover have "moves a (change_process pid (\<lambda>_. p\<lparr>m_runtime := ProcessRuntime u\<rparr>) ?a)"
        by (rule moves_trans [OF 1 2]) simp_all
      moreover have "moves a (change_process pid (\<lambda>_. cancel_runtime w p u) ?a)"
        by (rule moves_trans [OF 1 2]) (rule cancel_runtime_fields)+
      ultimately show ?thesis using moves_trans [OF _ moves_prune] by (elim insertE emptyE) simp_all
    qed
  qed
qed

lemma terminated_fields:
  "kept p (terminated_process w t child p u)" "m_snapshot (terminated_process w t child p u) = m_snapshot p"
  "m_audit (terminated_process w t child p u) = m_audit p"
  by (auto simp: terminated_process_def mark_cancelled_def Let_def kept_def outcome_of_def)

lemma moves_cancel_end [process_moves]: "moves a (snd (cancel_command_end w pid t child a))"
proof (cases "lookup_process pid a")
  case None
  then show ?thesis by (simp add: cancel_command_end_def)
next
  case (Some p)
  show ?thesis
  proof (cases "m_runtime p")
    case (McpRuntime m)
    with Some show ?thesis by (simp add: cancel_command_end_def)
  next
    case (ProcessRuntime u)
    obtain q v where f: "finalize_process w (terminated_process w t child p u, a_services a) = (q, v)" by fastforce
    have "advances (p, a_services a) (q, v)"
      unfolding f [symmetric] by (rule advance_end) (simp_all add: terminated_fields)
    from moves_trans [OF moves_put [OF Some this] moves_prune] Some ProcessRuntime f show ?thesis
      by (simp add: cancel_command_end_def)
  qed
qed

lemma moves_wait_capture [process_moves]: "moves a (snd (wait_for_process_capture w pid expired a))"
proof -
  let ?a = "with_process pid (refresh_process w) a"
  let ?f = "\<lambda>p. case m_runtime p of ProcessRuntime u \<Rightarrow> p\<lparr>m_runtime := ProcessRuntime (release_pin u)\<rparr> | McpRuntime _ \<Rightarrow> p"
  have 1: "moves a ?a" by (rule moves_with) (rule refresh_advances)
  have 2: "moves ?a (change_process pid ?f ?a)"
    by (rule moves_change) (auto split: process_runtime_kind.split)
  have "snd (wait_for_process_capture w pid expired a) \<in> {?a, prune_terminal_processes w (change_process pid ?f ?a)}"
    by (simp add: wait_for_process_capture_def Let_def split: option.split)
  with 1 moves_trans [OF 1 moves_trans [OF 2 moves_prune]] show ?thesis by auto
qed

lemma moves_cancel_mcp_begin [process_moves]: "moves a (snd (cancel_mcp_begin w pid a))"
proof (cases "lookup_process pid a")
  case None
  then show ?thesis by (simp add: cancel_mcp_begin_def)
next
  case (Some p)
  show ?thesis
  proof (cases "is_active (i_state (m_info p))")
    case False
    with Some show ?thesis by (simp add: cancel_mcp_begin_def moves_prune)
  next
    case True
    have 1: "moves a (change_process pid f a)"
      if "m_snapshot (f p) = m_snapshot p" "i_id (m_info (f p)) = i_id (m_info p)" "m_audit (f p) = m_audit p" "m_cancel (f p)"
        "is_active (i_state (m_info (f p)))" for f
      by (rule moves_change) (use Some True that in \<open>simp add: active_update\<close>)
    have 2: "moves a (prune_terminal_processes w (with_process pid (\<lambda>(p, v). finalize_process w (cancelled_before_request w p, v)) a))"
      by (rule moves_trans [OF moves_with moves_prune])
        (use Some True in \<open>auto simp: cancelled_before_request_def active_update intro!: advance_end\<close>)
    show ?thesis
      using Some True 2 by (auto simp: cancel_mcp_begin_def intro!: 1 split: process_runtime_kind.split)
  qed
qed

lemma notified_fields:
  "i_id (m_info (notified_process w n p)) = i_id (m_info p)" "m_snapshot (notified_process w n p) = m_snapshot p"
  "m_audit (notified_process w n p) = m_audit p" "m_cancel (notified_process w n p) = m_cancel p"
  by (simp_all add: notified_process_def detached_process_def split: notification.split)

lemma moves_cancel_mcp_end [process_moves]: "moves a (cancel_mcp_end w pid n a)"
proof (cases "lookup_process pid a")
  case None
  then show ?thesis by (simp add: cancel_mcp_end_def)
next
  case (Some p)
  have active: "is_active (i_state (m_info p))" if "\<not> is_terminal (i_state (m_info p))" using that by (simp add: is_terminal_def)
  have ended: "moves a (with_process pid (\<lambda>(p, v). finalize_process w (notified_process w n p, v)) a)"
    if "\<not> is_terminal (i_state (m_info p))"
    by (rule moves_with) (use Some active [OF that] in \<open>simp add: advance_end notified_fields active_update\<close>)
  have sent: "moves a (change_process pid (notified_process w NotificationSent) a)" if "\<not> is_terminal (i_state (m_info p))"
    by (rule moves_change) (use Some active [OF that] in
      \<open>simp add: notified_fields active_update\<close>, simp add: notified_process_def is_active_def)
  show ?thesis
    using Some ended sent moves_trans [OF _ moves_prune] by (cases n) (simp_all add: cancel_mcp_end_def)
qed

subsection \<open>Admission\<close>

text \<open>What the registrations enter: a process that has not started, under a name that can be stored.\<close>

definition fresh_process :: "rstr \<times> managed_process \<Rightarrow> bool" where
  "fresh_process kp \<longleftrightarrow> (case kp of (k, p) \<Rightarrow> k = i_id (m_info p) \<and> id_fits k \<and> is_active (i_state (m_info p)) \<and>
     i_finished (m_info p) = None \<and> m_snapshot p = None \<and> m_audit p \<noteq> None \<and> \<not> m_event_recorded p)"

lemma fresh_managed:
  assumes "is_active s" and "id_fits pid"
  shows "fresh_process (pid, managed (process_info_of pid subject k s now) runtime audit)"
  using assms by (simp add: fresh_process_def managed_def process_info_of_def)

text \<open>An admission is a move that may enter the new processes, all of them or none.\<close>

lemma admit_cases:
  assumes fresh: "list_all fresh_process new" and a: "admit w limit refused new a = (result, a')"
  obtains b where "moves a b" "b = snd (count_active w (refresh_processes w a))" "agent_good a \<Longrightarrow> agent_good b"
    "agent_good b \<Longrightarrow> history_ok (history_of a')"
    "\<And>q r. agent_good b \<Longrightarrow> row_of q (history_of b) = Some r \<Longrightarrow> row_of q (history_of a') = Some r"
    "\<And>q r. agent_good b \<Longrightarrow> row_of q (history_of a') = Some r \<Longrightarrow> \<not> is_active (r_state r) \<Longrightarrow> row_of q (history_of b) = Some r"
    "\<And>q. agent_good b \<Longrightarrow> q \<notin> set (map fst new) \<Longrightarrow> row_of q (history_of a') = row_of q (history_of b)"
    "v_reports (a_services a') = v_reports (a_services b)" "v_delivered (a_services a') = v_delivered (a_services b)"
    "a_table a' = a_table b \<or> (result = Inr () \<and> fst (count_active w (refresh_processes w a)) + length new \<le> limit \<and>
       a_table a' = a_table b @ new \<and> (agent_good b \<longrightarrow> (\<forall>k \<in> set (map fst new). row_of k (history_of a') \<noteq> None)))"
proof -
  obtain active b where c: "count_active w (refresh_processes w a) = (active, b)" by fastforce
  have "moves a (snd (count_active w (refresh_processes w a)))" by (rule moves_trans [OF moves_refresh_all moves_count])
  with c have mv: "moves a b" by simp
  have good: "agent_good a \<Longrightarrow> agent_good b" by (rule movesD(1) [OF mv])
  obtain out h where i: "insert_admissions (w_sizes w) (w_admission_fault w) True (map (m_info \<circ> snd) new)
    (v_history (a_services b)) = (out, h)" by fastforce
  have infos': "is_active (i_state x) \<and> i_finished x = None \<and> id_fits (i_id x) \<and> i_id x \<in> set (map fst new)"
    if x: "x \<in> set (map (m_info \<circ> snd) new)" for x
  proof -
    obtain k p where kp: "(k, p) \<in> set new" "x = m_info p" using x by auto
    with fresh have "fresh_process (k, p)" by (auto simp: list_all_iff)
    with kp show ?thesis by (force simp: fresh_process_def)
  qed
  then have infos: "is_active (i_state x) \<and> i_finished x = None \<and> id_fits (i_id x)"
    if "x \<in> set (map (m_info \<circ> snd) new)" for x
    using that by blast
  have ok: "agent_good b \<Longrightarrow> history_ok (history_of b)" by (simp add: agent_good_def)
  note ins = i [folded history_of_def]
  note rows = insert_admissions_rows [OF ok infos ins]
  have ids: "\<exists>x \<in> set (map (m_info \<circ> snd) new). i_id x = k" if "k \<in> set (map fst new)" for k
  proof -
    from that obtain p where kp: "(k, p) \<in> set new" by auto
    with fresh have "fresh_process (k, p)" by (auto simp: list_all_iff)
    with kp show ?thesis by (force simp: fresh_process_def)
  qed
  have others: "row_of q h = row_of q (history_of b)" if "agent_good b" "q \<notin> set (map fst new)" for q
  proof (rule insert_admissions_others [OF ins])
    fix x assume x: "x \<in> set (map (m_info \<circ> snd) new)"
    from that(2) infos' [OF x] show "id_fits (i_id x) \<and> i_id x \<noteq> q" by auto
  qed
  have same: "v_reports (a_services a') = v_reports (a_services b)" "v_delivered (a_services a') = v_delivered (a_services b)"
    using a c i unfolding admit_def by (auto simp: Let_def history_of_def split: if_splits option.splits)
  consider "a' = b" | "a_table a' = a_table b" "history_of a' = h"
    | "a_table a' = a_table b @ new" "history_of a' = h" "is_persisted out" "active + length new \<le> limit" "result = Inr ()"
    using a c i unfolding admit_def by (auto simp: Let_def history_of_def split: if_splits option.splits)
  then show thesis
  proof cases
    case 1
    show thesis by (rule that [OF mv _ good]) (auto simp: 1 c agent_good_def)
  next
    case 2
    show thesis
      by (rule that [OF mv _ good]) (auto simp: 2 c others same dest: rows)
  next
    case 3
    have "row_of k h \<noteq> None" if "agent_good b" "k \<in> set (map fst new)" for k
      using ids [OF that(2)] rows(4) [OF that(1) _ 3(3)] by auto
    then show thesis
      by (intro that [OF mv _ good]) (auto simp: 3 c others same dest: rows(1-3))
  qed
qed

end
