(* ===== verification/Process_Runs.thy ===== *)
theory Process_Runs
  imports Process_Moves State_Machine
begin

text \<open>
  All interleavings of the operations on the table of processes since the agent started, with
  arbitrary answers of the outside, and what holds in every one of them: the outcome of a
  process is final and is not forgotten, and admission keeps the limit.
\<close>

subsection \<open>Operations\<close>

text \<open>
  One operation, with the identifiers it tries to admit. Workers set active states only and end
  processes in terminal ones. Admissions go by a limit of at most \<open>L\<close>.
\<close>

inductive agent_op :: "nat \<Rightarrow> agent \<Rightarrow> rstr list \<Rightarrow> agent \<Rightarrow> bool" for L where
  op_admit: "limit \<le> L \<Longrightarrow> list_all fresh_process new \<Longrightarrow> distinct (map fst new) \<Longrightarrow>
    agent_op L a (map fst new) (snd (admit w limit refused new a))"
| op_refresh: "agent_op L a [] (snd (get_process_now w pid a))"
| op_refresh_all: "agent_op L a [] (prune_terminal_processes w (refresh_processes w a))"
| op_audit: "a' \<in> {set_policy_decision pid d a, set_confirmation_result pid d a, set_mcp_preflight_rejection pid a,
    set_mcp_authorization pid d a} \<Longrightarrow> agent_op L a [] a'"
| op_state: "is_active s \<Longrightarrow> agent_op L a [] (set_process_state w pid s a)"
| op_finish: "\<not> is_active s \<Longrightarrow> agent_op L a [] (finish_process w pid s reason a)"
| op_begin: "agent_op L a [] (snd (begin_running w pid a))"
| op_spawn: "a' \<in> {start_capture pid out_pipe err_pipe a, snd (install_spawned pid g startup out_pipe err_pipe a),
    mark_capture_failure pid e a} \<Longrightarrow> agent_op L a [] a'"
| op_reader: "a' \<in> {change_ring pid s (\<lambda>r. snd (push_bytes bytes r)) a, change_ring pid s (finish_ring outcome) a,
    change_ring pid s (settle_reader reader) a, take_readers pid a} \<Longrightarrow> agent_op L a [] a'"
| op_monitor: "agent_op L a [] (finish_monitor w pid a)"
| op_attach: "agent_op L a [] (snd (attach_mcp_request w pid peer request a))"
| op_mcp_result: "agent_op L a [] (complete_mcp_result w pid digest lossy bytes err c a)"
| op_mcp_error: "\<not> is_active s \<Longrightarrow> agent_op L a [] (finish_mcp_error w pid s code message c e a)"
| op_cancel: "a' \<in> {snd (cancel_command_begin w pid a), snd (cancel_command_end w pid t child a),
    snd (wait_for_process_capture w pid expired a)} \<Longrightarrow> agent_op L a [] a'"
| op_cancel_mcp: "a' \<in> {snd (cancel_mcp_begin w pid a), cancel_mcp_end w pid n a} \<Longrightarrow> agent_op L a [] a'"

text \<open>
  A run remembers which identifiers were used and which rows the retention deleted. Identifiers
  are random and are not used twice.
\<close>

record process_run =
  run_agent :: agent
  run_used :: "rstr set"
  run_removed :: "rstr set"

definition removed_rows :: "agent \<Rightarrow> agent \<Rightarrow> rstr set" where
  "removed_rows a a' = {k. row_of k (history_of a) \<noteq> None \<and> row_of k (history_of a') = None}"

inductive run_step :: "nat \<Rightarrow> process_run \<Rightarrow> process_run \<Rightarrow> bool" for L where
  run_step: "agent_op L a ids a' \<Longrightarrow> set ids \<inter> used = {} \<Longrightarrow>
    run_step L \<lparr>run_agent = a, run_used = used, run_removed = removed\<rparr>
      \<lparr>run_agent = a', run_used = used \<union> set ids, run_removed = removed \<union> removed_rows a a'\<rparr>"

inductive_cases run_stepE: "run_step L r r'"
inductive_cases admit_opE: "agent_op L a (k # ks) a'"

text \<open>At the start the table is empty; the history may hold the processes of earlier runs.\<close>

definition fresh_run :: "process_run \<Rightarrow> bool" where
  "fresh_run r \<longleftrightarrow> a_table (run_agent r) = [] \<and> v_reports (a_services (run_agent r)) = [] \<and>
     v_delivered (a_services (run_agent r)) = [] \<and> history_ok (history_of (run_agent r)) \<and> run_removed r = {} \<and>
     run_used r = r_id ` set (h_rows (history_of (run_agent r)))"

subsection \<open>What an operation does\<close>

definition unused :: "agent \<Rightarrow> rstr list \<Rightarrow> bool" where
  "unused a ids \<longleftrightarrow> (\<forall>k \<in> set ids. lookup_process k a = None \<and> row_of k (history_of a) = None)"

text \<open>A move that may also enter processes under the given identifiers, with their rows.\<close>

definition op_effect :: "agent \<Rightarrow> rstr list \<Rightarrow> agent \<Rightarrow> bool" where
  "op_effect a ids a' \<longleftrightarrow> agent_good a' \<and>
     (\<forall>k. lookup_process k a = None \<longrightarrow> k \<notin> set ids \<longrightarrow>
        lookup_process k a' = None \<and> row_of k (history_of a') \<in> {row_of k (history_of a), None}) \<and>
     (\<forall>k p. lookup_process k a = Some p \<longrightarrow> became a' k p) \<and>
     (\<forall>k \<in> set ids. lookup_process k a' \<noteq> None \<longrightarrow> row_of k (history_of a') \<noteq> None) \<and>
     (\<exists>xs ds. told (set ids) a a' xs ds) \<and>
     (\<forall>k \<in> set ids. lookup_process k a' \<noteq> None \<longrightarrow> audited a' k)"

lemma op_effectD:
  assumes "op_effect a ids a'"
  shows "agent_good a'"
    and "lookup_process k a = None \<Longrightarrow> k \<notin> set ids \<Longrightarrow>
      lookup_process k a' = None \<and> row_of k (history_of a') \<in> {row_of k (history_of a), None}"
    and "lookup_process k a = Some p \<Longrightarrow> became a' k p"
    and "k \<in> set ids \<Longrightarrow> lookup_process k a' \<noteq> None \<Longrightarrow> row_of k (history_of a') \<noteq> None"
    and "\<exists>xs ds. told (set ids) a a' xs ds"
    and "k \<in> set ids \<Longrightarrow> lookup_process k a' \<noteq> None \<Longrightarrow> audited a' k"
  using assms unfolding op_effect_def by blast+

lemma moves_effect:
  assumes "moves a a'" and "agent_good a"
  shows "op_effect a [] a'"
  using movesD [OF assms] by (simp add: op_effect_def)

lemma lookup_extended:
  assumes "a_table a' = a_table b @ new"
  shows "lookup_process k a' = (case lookup_process k b of Some p \<Rightarrow> Some p | None \<Rightarrow> map_of new k)"
  using assms by (auto simp: lookup_process_def map_add_def split: option.split)

lemma fresh_entry:
  assumes "list_all fresh_process new" and "(k, p) \<in> set new"
  shows "k = i_id (m_info p)" "id_fits k" "is_active (i_state (m_info p))" "m_snapshot p = None" "m_audit p \<noteq> None"
  using assms by (auto simp: list_all_iff fresh_process_def)

text \<open>Processes entered under unused names leave what was told true.\<close>

lemma told_extended:
  assumes t: "told {} a b xs ds" and unused: "unused a ids"
    and same: "v_reports (a_services a') = v_reports (a_services b)" "v_delivered (a_services a') = v_delivered (a_services b)"
    and look: "\<And>k. k \<notin> set ids \<Longrightarrow> lookup_process k a' = lookup_process k b"
    and rows: "\<And>k. k \<notin> set ids \<Longrightarrow> row_of k (history_of a') = row_of k (history_of b)"
  shows "told (set ids) a a' xs ds"
proof -
  have before: "k \<notin> set ids" if "lookup_process k a \<noteq> None" for k
    using unused that by (auto simp: unused_def)
  have was: "k \<notin> set ids" if "audited a k" for k
    using before that by (auto simp: audited_def split: option.splits)
  have audited: "audited a' k \<longleftrightarrow> audited b k" if "k \<notin> set ids" for k
    using look [OF that] by (simp add: audited_def)
  have ended: "ended_as a' k s \<longleftrightarrow> ended_as b k s" if "k \<notin> set ids" for k s
    using look [OF that] rows [OF that] by (simp add: ended_as_def split: option.split)
  have "audited a (reported_id x) \<and> \<not> audited a' (reported_id x) \<and> ended_as a' (reported_id x) (i_state (rep_info x))"
    if "x \<in> set xs" for x
  proof -
    from t that have x: "audited a (reported_id x)" "\<not> audited b (reported_id x)" "ended_as b (reported_id x) (i_state (rep_info x))"
      by (simp_all add: told_def)
    from audited [OF was [OF x(1)]] ended [OF was [OF x(1)]] x show ?thesis by simp
  qed
  moreover have "lookup_process k a \<noteq> None \<and> (\<exists>s. process_event_type s = Some (c_type d) \<and> ended_as a' k s)"
    if "(k, d) \<in> set ds" for k d
  proof -
    from t that have kd: "lookup_process k a \<noteq> None" "\<exists>s. process_event_type s = Some (c_type d) \<and> ended_as b k s"
      by (auto simp: told_def)
    from ended [OF before [OF kd(1)]] kd show ?thesis by simp
  qed
  moreover have "audited a k \<or> k \<in> set ids" if "audited a' k" for k
    using that audited [of k] t by (cases "k \<in> set ids") (auto simp: told_def)
  moreover have "audited a' k \<or> k \<in> reported_id ` set xs" if "audited a k" for k
    using that audited [OF was [OF that]] t by (auto simp: told_def)
  moreover have "v_reports (a_services a') = v_reports (a_services a) @ xs"
      "v_delivered (a_services a') = v_delivered (a_services a) @ ds" "distinct (map reported_id xs)"
    using t same by (simp_all add: told_def)
  ultimately show ?thesis unfolding told_def by blast
qed

lemma admit_effect:
  assumes fresh: "list_all fresh_process new" and distinct: "distinct (map fst new)"
    and good: "agent_good a" and unused: "unused a (map fst new)" and admit: "admit w limit refused new a = (result, a')"
  shows "op_effect a (map fst new) a'"
proof -
  obtain b where b: "moves a b" "agent_good b" and rows: "history_ok (history_of a')"
    "\<And>q r. row_of q (history_of a') = Some r \<Longrightarrow> \<not> is_active (r_state r) \<Longrightarrow> row_of q (history_of b) = Some r"
    "\<And>q. q \<notin> set (map fst new) \<Longrightarrow> row_of q (history_of a') = row_of q (history_of b)"
    and same: "v_reports (a_services a') = v_reports (a_services b)" "v_delivered (a_services a') = v_delivered (a_services b)"
    and tab: "a_table a' = a_table b \<or> (a_table a' = a_table b @ new \<and> (\<forall>k \<in> set (map fst new). row_of k (history_of a') \<noteq> None))"
    by (rule admit_cases [OF fresh admit]) (use good in blast)
  note mv = movesD [OF b(1) good]
  have new_b: "lookup_process k b = None" "row_of k (history_of b) = None" if "k \<in> set (map fst new)" for k
    using mv(2) [of k] unused that by (auto simp: unused_def)
  have old: "k \<notin> set (map fst new)" if "(k, p) \<in> set (a_table b)" for k p
  proof
    assume "k \<in> set (map fst new)"
    from new_b(1) [OF this] have "k \<notin> fst ` set (a_table b)" by (simp add: lookup_process_def map_of_eq_None_iff)
    with that show False by force
  qed
  have tracked_old: "k = i_id (m_info p) \<and> tracked_ok (history_of a') p \<and> settled p" if p: "(k, p) \<in> set (a_table b)" for k p
  proof -
    have "k = i_id (m_info p)" "tracked_ok (history_of b) p" "settled p" using b(2) p by (auto simp: agent_good_def)
    with rows(3) [OF old [OF p]] show ?thesis by (auto intro: tracked_ok_frame)
  qed
  have tracked_new: "k = i_id (m_info p) \<and> tracked_ok (history_of a') p \<and> settled p" if p: "(k, p) \<in> set new" for k p
  proof -
    note f = fresh_entry [OF fresh p]
    have "k \<in> set (map fst new)" using p by force
    from new_b(2) [OF this] have "is_active (r_state r)" if "row_of k (history_of a') = Some r" for r
      using rows(2) [OF that] by auto
    with f show ?thesis by (auto simp: tracked_ok_def settled_def)
  qed
  have good': "agent_good a'"
    unfolding agent_good_def
  proof (intro conjI)
    show "history_ok (history_of a')" by (rule rows(1))
    have "distinct (map fst (a_table b))" using b(2) by (simp add: agent_good_def)
    moreover have "set (map fst (a_table b)) \<inter> set (map fst new) = {}" using old by fastforce
    ultimately show "distinct (map fst (a_table a'))" using tab distinct by auto
    show "\<forall>(k, p) \<in> set (a_table a'). k = i_id (m_info p) \<and> tracked_ok (history_of a') p \<and> settled p"
      using tab tracked_old tracked_new by auto
  qed
  have look: "lookup_process k a' = lookup_process k b" if "k \<notin> set (map fst new)" for k
  proof -
    have "map_of new k = None" using that by (simp add: map_of_eq_None_iff)
    with tab show ?thesis by (auto simp: lookup_process_def map_add_def split: option.split)
  qed
  have told: "\<exists>xs ds. told (set (map fst new)) a a' xs ds"
    using mv(4) told_extended [OF _ unused same look rows(3)] by blast
  show ?thesis unfolding op_effect_def
  proof (intro conjI allI impI ballI)
    show "agent_good a'" by (rule good')
    show "\<exists>xs ds. told (set (map fst new)) a a' xs ds" by (rule told)
    fix k assume k: "lookup_process k a = None" "k \<notin> set (map fst new)"
    with mv(2) look rows(3) show "lookup_process k a' = None" "row_of k (history_of a') \<in> {row_of k (history_of a), None}" by simp_all
  next
    fix k p assume k: "lookup_process k a = Some p"
    then have old: "k \<notin> set (map fst new)" using unused by (auto simp: unused_def)
    from mv(3) [OF k] show "became a' k p" unfolding became_def look [OF old] dropped_well_def rows(3) [OF old] .
  next
    fix k assume "k \<in> set (map fst new)" "lookup_process k a' \<noteq> None"
    with tab new_b(1) [of k] show "row_of k (history_of a') \<noteq> None" by (auto simp: lookup_process_def)
  next
    fix k assume k: "k \<in> set (map fst new)" "lookup_process k a' \<noteq> None"
    then obtain p where p: "lookup_process k a' = Some p" by blast
    then have "(k, p) \<in> set new" using lookup_process_in [OF p] tab old [of k p] k(1) by auto
    with p fresh_entry(5) [OF fresh] show "audited a' k" by (auto simp: audited_def)
  qed
qed

lemma op_effect:
  assumes "agent_op L a ids a'" and "agent_good a" and "unused a ids"
  shows "op_effect a ids a'"
  using assms
proof (cases rule: agent_op.cases)
  case (op_admit limit new w refused)
  obtain result b where b: "admit w limit refused new a = (result, b)" by fastforce
  show ?thesis using admit_effect [OF op_admit(4,5) assms(2) _ b] op_admit(1,2) assms(3) b by simp
qed (auto intro!: moves_effect intro: process_moves moves_trans)

subsection \<open>What later operations leave\<close>

lemma became_effect: "became a k p \<Longrightarrow> op_effect a ids a' \<Longrightarrow> k \<notin> set ids \<Longrightarrow> became a' k p"
  by (rule became_later) (auto dest: op_effectD)

lemma ended_as_effect: "ended_as a k s \<Longrightarrow> op_effect a ids a' \<Longrightarrow> k \<notin> set ids \<Longrightarrow> ended_as a' k s"
  by (rule ended_as_later) (auto dest: op_effectD)

text \<open>The names of the active processes; only an admission adds to them.\<close>

definition active_ids :: "agent \<Rightarrow> rstr list" where
  "active_ids a = map fst (filter (\<lambda>(_, p). is_active (i_state (m_info p))) (a_table a))"

lemma active_ids_iff:
  assumes "agent_good a"
  shows "k \<in> set (active_ids a) \<longleftrightarrow> (\<exists>p. lookup_process k a = Some p \<and> is_active (i_state (m_info p)))"
proof -
  have d: "distinct (map fst (a_table a))" using assms by (simp add: agent_good_def)
  show ?thesis by (force simp: active_ids_def lookup_process_def map_of_eq_Some_iff [OF d])
qed

lemma active_ids_distinct: "agent_good a \<Longrightarrow> distinct (active_ids a)"
  by (simp add: active_ids_def agent_good_def distinct_map_filter)

lemma active_shrinks:
  assumes "agent_good a" and "op_effect a [] a'"
  shows "length (active_ids a') \<le> length (active_ids a)"
proof -
  note good' = op_effectD(1) [OF assms(2)]
  have "k \<in> set (active_ids a)" if k: "k \<in> set (active_ids a')" for k
  proof -
    obtain p' where p': "lookup_process k a' = Some p'" "is_active (i_state (m_info p'))"
      using k by (auto simp: active_ids_iff [OF good'])
    then obtain p where p: "lookup_process k a = Some p" using op_effectD(2) [OF assms(2), of k] by fastforce
    have "kept p p'" using op_effectD(3) [OF assms(2) p] p' by (simp add: became_def)
    with p p' show ?thesis by (auto simp: active_ids_iff [OF assms(1)] dest: kept_active)
  qed
  then have "set (active_ids a') \<subseteq> set (active_ids a)" by blast
  then show ?thesis
    using active_ids_distinct [OF assms(1)] active_ids_distinct [OF good'] by (metis List.finite_set card_mono distinct_card)
qed

lemma active_counted:
  assumes "count_active w a = (n, b)"
  shows "length (active_ids b) \<le> n"
proof -
  have b: "a_table b = map (\<lambda>(k, p). (k, snd (process_uses_capacity w p))) (a_table a)"
    and n: "n = length (filter (\<lambda>(_, p). fst (process_uses_capacity w p)) (a_table a))"
    using assms by (auto simp: count_active_def)
  have *: "is_active (i_state (m_info (snd (process_uses_capacity w p)))) \<Longrightarrow> fst (process_uses_capacity w p)" for p
    by (auto simp: process_uses_capacity_def split: process_runtime_kind.splits prod.splits if_splits)
  have "length (filter (\<lambda>(_, p). is_active (i_state (m_info p))) (map (\<lambda>(k, p). (k, snd (process_uses_capacity w p))) t))
      \<le> length (filter (\<lambda>(_, p). fst (process_uses_capacity w p)) t)" for t :: "(rstr \<times> managed_process) list"
    by (induction t) (auto dest: *)
  then show ?thesis by (simp add: active_ids_def b n)
qed

subsection \<open>Runs\<close>

definition run_ok :: "process_run \<Rightarrow> bool" where
  "run_ok r \<longleftrightarrow> agent_good (run_agent r) \<and>
     (\<forall>k. lookup_process k (run_agent r) \<noteq> None \<or> row_of k (history_of (run_agent r)) \<noteq> None \<longrightarrow> k \<in> run_used r) \<and>
     (\<forall>k. lookup_process k (run_agent r) \<noteq> None \<longrightarrow> row_of k (history_of (run_agent r)) = None \<longrightarrow> k \<in> run_removed r)"

text \<open>A process that is neither there nor stored has been deleted by the retention.\<close>

definition accounted :: "process_run \<Rightarrow> rstr \<Rightarrow> bool" where
  "accounted r k \<longleftrightarrow> (lookup_process k (run_agent r) = None \<longrightarrow> row_of k (history_of (run_agent r)) = None \<longrightarrow> k \<in> run_removed r)"

lemma run_ok_fresh: "fresh_run r \<Longrightarrow> run_ok r"
  by (auto simp: run_ok_def fresh_run_def agent_good_def lookup_process_def row_of_None_iff)

lemma run_ok_unused: "run_ok r \<Longrightarrow> set ids \<inter> run_used r = {} \<Longrightarrow> unused (run_agent r) ids"
  unfolding run_ok_def unused_def by blast

lemma step_facts:
  assumes "run_step L r r'" and "run_ok r"
  obtains ids where "op_effect (run_agent r) ids (run_agent r')" "set ids \<inter> run_used r = {}" "run_used r' = run_used r \<union> set ids"
    "run_removed r' = run_removed r \<union> removed_rows (run_agent r) (run_agent r')"
  using assms(1)
proof (cases rule: run_step.cases)
  case (run_step a ids a' used removed)
  have "unused a ids" using run_ok_unused [OF assms(2), of ids] run_step by simp
  with op_effect [OF run_step(3)] assms(2) have "op_effect a ids a'" by (simp add: run_ok_def run_step)
  with run_step show ?thesis by (intro that [of ids]) simp_all
qed

lemma run_ok_step:
  assumes step: "run_step L r r'" and ok: "run_ok r"
  shows "run_ok r'" and "k \<in> run_used r \<Longrightarrow> k \<in> run_used r'" and "accounted r k \<Longrightarrow> k \<in> run_used r \<Longrightarrow> accounted r' k"
proof -
  obtain ids where e: "op_effect (run_agent r) ids (run_agent r')" and used: "run_used r' = run_used r \<union> set ids"
    and unused: "set ids \<inter> run_used r = {}"
    and removed: "run_removed r' = run_removed r \<union> removed_rows (run_agent r) (run_agent r')"
    by (rule step_facts [OF assms])
  note eff = op_effectD [OF e]
  have was: "k \<in> run_used r" if "lookup_process k (run_agent r) \<noteq> None \<or> row_of k (history_of (run_agent r)) \<noteq> None" for k
    using ok that unfolding run_ok_def by blast
  have gone: "k \<in> run_removed r'"
    if "lookup_process k (run_agent r) \<noteq> None \<or> row_of k (history_of (run_agent r)) \<noteq> None \<or> k \<in> run_removed r"
      "row_of k (history_of (run_agent r')) = None" for k
    using ok that unfolding run_ok_def removed removed_rows_def by blast
  show "run_ok r'" unfolding run_ok_def
  proof (intro conjI allI impI)
    show "agent_good (run_agent r')" by (rule eff(1))
    show "k \<in> run_used r'" if "lookup_process k (run_agent r') \<noteq> None \<or> row_of k (history_of (run_agent r')) \<noteq> None" for k
    proof (rule ccontr)
      assume "k \<notin> run_used r'"
      then have "k \<notin> set ids" "lookup_process k (run_agent r) = None" "row_of k (history_of (run_agent r)) = None"
        using was [of k] used by blast+
      with eff(2) [of k] that show False by auto
    qed
    show "k \<in> run_removed r'" if "lookup_process k (run_agent r') \<noteq> None" "row_of k (history_of (run_agent r')) = None" for k
    proof -
      have "k \<notin> set ids" using eff(4) [of k] that by auto
      with eff(2) [of k] that(1) have "lookup_process k (run_agent r) \<noteq> None" by auto
      with that(2) gone show ?thesis by blast
    qed
  qed
  show "k \<in> run_used r \<Longrightarrow> k \<in> run_used r'" by (simp add: used)
  show "accounted r' k" if "accounted r k" "k \<in> run_used r"
    using that(1) gone [of k] by (auto simp: accounted_def)
qed

subsection \<open>What a run has told\<close>

text \<open>The state a process has ended in, as the run knows it.\<close>

definition known_end :: "process_run \<Rightarrow> rstr \<Rightarrow> process_state \<Rightarrow> bool" where
  "known_end r k s \<longleftrightarrow> \<not> is_active s \<and>
     (case lookup_process k (run_agent r) of
        Some p \<Rightarrow> i_state (m_info p) = s
      | None \<Rightarrow> (case row_of k (history_of (run_agent r)) of Some row \<Rightarrow> i_state (r_info row) = s | None \<Rightarrow> k \<in> run_removed r))"

lemma known_end_iff: "known_end r k s \<longleftrightarrow> ended_as (run_agent r) k s \<and> accounted r k"
  by (auto simp: known_end_def ended_as_def accounted_def split: option.splits)

definition report_known :: "process_run \<Rightarrow> process_report \<Rightarrow> bool" where
  "report_known r x \<longleftrightarrow> reported_id x \<in> run_used r \<and> \<not> audited (run_agent r) (reported_id x) \<and>
     known_end r (reported_id x) (i_state (rep_info x))"

definition delivery_known :: "process_run \<Rightarrow> rstr \<times> completion_details \<Rightarrow> bool" where
  "delivery_known r kd \<longleftrightarrow> fst kd \<in> run_used r \<and>
     (\<exists>s. process_event_type s = Some (c_type (snd kd)) \<and> known_end r (fst kd) s)"

definition run_told :: "process_run \<Rightarrow> bool" where
  "run_told r \<longleftrightarrow> distinct (map reported_id (v_reports (a_services (run_agent r)))) \<and>
     (\<forall>x \<in> set (v_reports (a_services (run_agent r))). report_known r x) \<and>
     (\<forall>kd \<in> set (v_delivered (a_services (run_agent r))). delivery_known r kd) \<and>
     (\<forall>k. lookup_process k (run_agent r) \<noteq> None \<longrightarrow> audited (run_agent r) k \<or>
        k \<in> reported_id ` set (v_reports (a_services (run_agent r))))"

lemma run_told_fresh: "fresh_run r \<Longrightarrow> run_told r"
  by (simp add: run_told_def fresh_run_def lookup_process_def)

lemma known_end_step:
  assumes "run_step L r r'" and "run_ok r" and "known_end r k s" and "k \<in> run_used r"
  shows "known_end r' k s"
proof -
  obtain ids where e: "op_effect (run_agent r) ids (run_agent r')" and "set ids \<inter> run_used r = {}"
    by (rule step_facts [OF assms(1,2)])
  with assms(3,4) ended_as_effect [OF _ e] run_ok_step(3) [OF assms(1,2)] show ?thesis unfolding known_end_iff by blast
qed

lemma known_end_new:
  assumes "run_step L r r'" and "run_ok r" and "lookup_process k (run_agent r) \<noteq> None" and "ended_as (run_agent r') k s"
  shows "k \<in> run_used r'" and "known_end r' k s"
proof -
  have "k \<in> run_used r" "accounted r k" using assms(2,3) unfolding run_ok_def accounted_def by blast+
  with run_ok_step(2,3) [OF assms(1,2)] assms(4) show "k \<in> run_used r'" "known_end r' k s"
    unfolding known_end_iff by blast+
qed

lemma step_tells:
  assumes step: "run_step L r r'" and ok: "run_ok r"
  obtains xs ds where "v_reports (a_services (run_agent r')) = v_reports (a_services (run_agent r)) @ xs"
    "v_delivered (a_services (run_agent r')) = v_delivered (a_services (run_agent r)) @ ds"
    "distinct (map reported_id xs)" "\<And>x. x \<in> set xs \<Longrightarrow> audited (run_agent r) (reported_id x)"
    "\<And>x. x \<in> set xs \<Longrightarrow> report_known r' x" "\<And>kd. kd \<in> set ds \<Longrightarrow> delivery_known r' kd"
    "\<And>k. audited (run_agent r') k \<Longrightarrow> k \<in> run_used r \<Longrightarrow> audited (run_agent r) k"
    "\<And>k. lookup_process k (run_agent r') \<noteq> None \<Longrightarrow> \<not> audited (run_agent r') k \<Longrightarrow>
      lookup_process k (run_agent r) \<noteq> None \<and> (audited (run_agent r) k \<longrightarrow> k \<in> reported_id ` set xs)"
proof -
  obtain ids where e: "op_effect (run_agent r) ids (run_agent r')" and unused: "set ids \<inter> run_used r = {}"
    by (rule step_facts [OF step ok])
  obtain xs ds where n: "told (set ids) (run_agent r) (run_agent r') xs ds" using op_effectD(5) [OF e] by blast
  note new = known_end_new [OF step ok]
  have there: "lookup_process k (run_agent r) \<noteq> None" if "audited (run_agent r) k" for k
    using that by (auto simp: audited_def split: option.splits)
  have x: "audited (run_agent r) (reported_id x) \<and> \<not> audited (run_agent r') (reported_id x) \<and>
      ended_as (run_agent r') (reported_id x) (i_state (rep_info x))" if "x \<in> set xs" for x
    using n that unfolding told_def by blast
  have d: "lookup_process (fst kd) (run_agent r) \<noteq> None \<and>
      (\<exists>s. process_event_type s = Some (c_type (snd kd)) \<and> ended_as (run_agent r') (fst kd) s)" if "kd \<in> set ds" for kd
    using n that unfolding told_def by (cases kd) fastforce
  show thesis
  proof (rule that [of xs ds])
    show "report_known r' x" if "x \<in> set xs" for x
      using x [OF that] there new unfolding report_known_def by blast
    show "delivery_known r' kd" if "kd \<in> set ds" for kd
      using d [OF that] new unfolding delivery_known_def by blast
    show "audited (run_agent r) k" if "audited (run_agent r') k" "k \<in> run_used r" for k
      using n that unused unfolding told_def by blast
    show "lookup_process k (run_agent r) \<noteq> None \<and> (audited (run_agent r) k \<longrightarrow> k \<in> reported_id ` set xs)"
      if "lookup_process k (run_agent r') \<noteq> None" "\<not> audited (run_agent r') k" for k
    proof -
      have new: "k \<notin> set ids" using that op_effectD(6) [OF e] by blast
      have "lookup_process k (run_agent r) \<noteq> None"
      proof
        assume "lookup_process k (run_agent r) = None"
        from op_effectD(2) [OF e this new] that(1) show False by simp
      qed
      moreover have "k \<in> reported_id ` set xs" if "audited (run_agent r) k"
        using that n \<open>\<not> audited (run_agent r') k\<close> unfolding told_def by blast
      ultimately show ?thesis by blast
    qed
  qed (use n x in \<open>simp_all add: told_def\<close>)
qed

lemma run_told_step:
  assumes step: "run_step L r r'" and ok: "run_ok r" and t: "run_told r"
  shows "run_told r'"
proof -
  obtain xs ds where n: "v_reports (a_services (run_agent r')) = v_reports (a_services (run_agent r)) @ xs"
    "v_delivered (a_services (run_agent r')) = v_delivered (a_services (run_agent r)) @ ds"
    "distinct (map reported_id xs)" "\<And>x. x \<in> set xs \<Longrightarrow> audited (run_agent r) (reported_id x)"
    "\<And>x. x \<in> set xs \<Longrightarrow> report_known r' x" "\<And>kd. kd \<in> set ds \<Longrightarrow> delivery_known r' kd"
    "\<And>k. audited (run_agent r') k \<Longrightarrow> k \<in> run_used r \<Longrightarrow> audited (run_agent r) k"
    "\<And>k. lookup_process k (run_agent r') \<noteq> None \<Longrightarrow> \<not> audited (run_agent r') k \<Longrightarrow>
      lookup_process k (run_agent r) \<noteq> None \<and> (audited (run_agent r) k \<longrightarrow> k \<in> reported_id ` set xs)"
    by (rule step_tells [OF step ok]) (rule that; assumption)
  have old: "report_known r' x" if "report_known r x" for x
    using that n(7) known_end_step [OF step ok] run_ok_step(2) [OF step ok] unfolding report_known_def by blast
  have sent: "delivery_known r' kd" if "delivery_known r kd" for kd
    using that known_end_step [OF step ok] run_ok_step(2) [OF step ok] unfolding delivery_known_def by blast
  have "reported_id x \<noteq> reported_id y" if "x \<in> set (v_reports (a_services (run_agent r)))" "y \<in> set xs" for x y
    using t n(4) [OF that(2)] that(1) unfolding run_told_def report_known_def by metis
  with t n(3) have distinct: "distinct (map reported_id (v_reports (a_services (run_agent r)) @ xs))"
    by (auto simp: run_told_def)
  have ended: "audited (run_agent r') k \<or> k \<in> reported_id ` set (v_reports (a_services (run_agent r)) @ xs)"
    if "lookup_process k (run_agent r') \<noteq> None" for k
    using t n(8) [OF that] unfolding run_told_def set_append image_Un by blast
  show ?thesis unfolding run_told_def n(1,2)
  proof (intro conjI ballI allI impI)
    show "report_known r' x" if "x \<in> set (v_reports (a_services (run_agent r)) @ xs)" for x
      using t old n(5) that by (auto simp: run_told_def)
    show "delivery_known r' kd" if "kd \<in> set (v_delivered (a_services (run_agent r)) @ ds)" for kd
      using t sent n(6) that unfolding run_told_def set_append by blast
  qed (use distinct ended in blast)+
qed

subsection \<open>The invariant of runs\<close>

lemma run_limit_step:
  assumes "run_step L r r'" and "run_ok r" and "length (active_ids (run_agent r)) \<le> L"
  shows "length (active_ids (run_agent r')) \<le> L"
  using assms(1)
proof (cases rule: run_step.cases)
  case (run_step a ids a' used removed)
  have good: "agent_good a" and un: "unused a ids" and le: "length (active_ids a) \<le> L"
    using assms(2,3) run_ok_unused [OF assms(2), of ids] run_step by (simp_all add: run_ok_def)
  have "length (active_ids a') \<le> L"
  proof (cases "ids = []")
    case True
    then show ?thesis using active_shrinks [OF good] op_effect [OF run_step(3) good un] le by fastforce
  next
    case False
    with run_step(3) show ?thesis
    proof (cases rule: agent_op.cases)
      case (op_admit limit new w refused)
      obtain result b0 where adm: "admit w limit refused new a = (result, b0)" by fastforce
      obtain n b where c: "count_active w (refresh_processes w a) = (n, b)" by fastforce
      have a': "a' = b0" using op_admit adm by simp
      have "a_table a' = a_table b \<or> (n + length new \<le> limit \<and> a_table a' = a_table b @ new)" and mv: "moves a b"
        using admit_cases [OF op_admit(4) adm] c a' by (metis fst_conv snd_conv)+
      moreover have "length (active_ids b) \<le> L"
        using active_shrinks [OF good moves_effect [OF mv good]] le by simp
      moreover have "length (active_ids b) \<le> n" by (rule active_counted [OF c])
      moreover have "length (active_ids a') \<le> length (active_ids b) + length new" if "a_table a' = a_table b @ new"
        using that by (simp add: active_ids_def)
      moreover have "length (active_ids a') = length (active_ids b)" if "a_table a' = a_table b"
        using that by (simp add: active_ids_def)
      ultimately show ?thesis using op_admit(3) by fastforce
    qed (use False in simp_all)
  qed
  then show ?thesis by (simp add: run_step)
qed

definition run_inv :: "nat \<Rightarrow> process_run \<Rightarrow> bool" where
  "run_inv L r \<longleftrightarrow> run_ok r \<and> run_told r \<and> length (active_ids (run_agent r)) \<le> L"

interpretation process_runs: transition_system fresh_run "run_step L" "run_inv L" for L
proof unfold_locales
  show "run_inv L r" if "fresh_run r" for r
    using run_ok_fresh [OF that] run_told_fresh [OF that] that by (simp add: run_inv_def fresh_run_def active_ids_def)
  show "run_inv L r'" if "run_inv L r" "run_step L r r'" for r r'
    using that run_ok_step(1) run_told_step run_limit_step unfolding run_inv_def by blast
qed

lemma remembered:
  assumes "(run_step L)\<^sup>*\<^sup>* r r'" and "run_ok r" and "lookup_process k (run_agent r) = Some p"
  shows "run_ok r' \<and> k \<in> run_used r' \<and> accounted r' k \<and> became (run_agent r') k p"
  using assms(1)
proof (induction rule: rtranclp_induct)
  case base
  show ?case using assms(2,3) by (auto simp: run_ok_def accounted_def became_same)
next
  case (step y z)
  obtain ids where e: "op_effect (run_agent y) ids (run_agent z)" and unused: "set ids \<inter> run_used y = {}"
    by (rule step_facts [OF step(2)]) (use step in simp)
  with step have "became (run_agent z) k p" by (auto intro: became_effect [OF _ e])
  with step run_ok_step [OF step(2)] show ?case by blast
qed

end
