(* ===== verification/Process_Guarantees.thy ===== *)
theory Process_Guarantees
  imports Process_Runs
begin

text \<open>
  The properties of the table of processes and its history, over all runs: outcomes are final and
  accounted for, the limit on active processes holds, a process is reported at most once and as
  it ended, and the rows are well formed; then what pruning, cancellation and the recovery after
  a restart do.
\<close>

subsection \<open>Lemmas\<close>

lemma dropped_well_matches:
  assumes "dropped_well h k p" and "row_of k h = Some r" and "\<not> is_active (i_state (m_info p))"
  shows "row_matches r (m_info p)"
  using assms by (auto simp: dropped_well_def row_matches_def outcome_of_def)

lemma prune_lookup:
  assumes "lookup_process k a = Some p" and "\<not> prunable (v_history (a_services a)) (observe_terminal w (v_history (a_services a)) p)"
    and "distinct (map fst (a_table a))"
  shows "lookup_process k (prune_terminal_processes w a) = Some (observe_terminal w (v_history (a_services a)) p)"
proof -
  let ?h = "v_history (a_services a)"
  let ?t = "map (\<lambda>(k, p). (k, observe_terminal w ?h p)) (a_table a)"
  have keys: "map fst ?t = map fst (a_table a)" by (induction "a_table a") auto
  have look: "map_of ?t k = Some (observe_terminal w ?h p)" using assms(1) by (simp add: lookup_process_def map_of_map)
  have "k \<notin> set (prune_victims w ?h ?t)"
  proof
    assume "k \<in> set (prune_victims w ?h ?t)"
    then obtain q where "(k, q) \<in> set ?t" "prunable ?h q" using victims_prunable by blast
    moreover from this(1) have "map_of ?t k = Some q" by (rule map_of_is_SomeI [rotated]) (simp only: keys assms(3))
    ultimately show False using look assms(2) by simp
  qed
  then have "map_of (filter (\<lambda>(k, _). k \<notin> set (prune_victims w ?h ?t)) ?t) k = Some (observe_terminal w ?h p)"
    by (rule map_of_filter_in [OF look])
  then show ?thesis by (simp add: prune_terminal_processes_def Let_def lookup_process_def)
qed

lemma observe_terminal_cancel: "m_cancel (observe_terminal w h p) = m_cancel p"
  by (auto simp: observe_terminal_def Let_def split: process_runtime_kind.split)

lemma active_stays:
  assumes "lookup_process k a = Some p" and "is_active (i_state (m_info p))" and "distinct (map fst (a_table a))"
  shows "\<exists>q. lookup_process k (prune_terminal_processes w a) = Some q \<and> m_info q = m_info p \<and> m_cancel q = m_cancel p"
proof -
  let ?q = "observe_terminal w (v_history (a_services a)) p"
  have i: "m_info ?q = m_info p" by (auto simp: observe_terminal_def Let_def split: process_runtime_kind.split)
  then have "\<not> prunable (v_history (a_services a)) ?q" using assms(2) by (simp add: prunable_def)
  from prune_lookup [OF assms(1) this assms(3)] i observe_terminal_cancel show ?thesis by blast
qed

text \<open>Of the processes that may go, at most a hundred stay.\<close>

lemma prune_keeps_few:
  assumes "distinct (map fst (a_table a))"
  shows "length (filter (\<lambda>(_, p). prunable (v_history (a_services a)) p) (a_table (prune_terminal_processes w a))) \<le> max_terminal_processes"
proof -
  let ?h = "v_history (a_services a)"
  define t where "t = map (\<lambda>(k, p). (k, observe_terminal w ?h p)) (a_table a)"
  define V where "V = set (prune_victims w ?h t)"
  define s where "s = sort_key (\<lambda>(_, at). - at) (map (\<lambda>(k, p). (k, ended_at p)) (filter (\<lambda>(_, p). prunable ?h p) t))"
  define left where "left = filter (\<lambda>(_, p). prunable ?h p) (filter (\<lambda>(k, _). k \<notin> V) t)"
  have tab: "a_table (prune_terminal_processes w a) = filter (\<lambda>(k, _). k \<notin> V) t"
    by (simp add: prune_terminal_processes_def Let_def t_def V_def)
  have keys: "map fst t = map fst (a_table a)" unfolding t_def by (induction "a_table a") auto
  then have d: "distinct (map fst left)" using assms by (simp add: left_def distinct_map_filter)
  have sub: "set (map fst left) \<subseteq> set (map fst (take max_terminal_processes s))"
  proof
    fix k assume "k \<in> set (map fst left)"
    then obtain p where p: "(k, p) \<in> set t" "prunable ?h p" "k \<notin> V" by (auto simp: left_def)
    then have "(k, ended_at p) \<in> set s" by (force simp: s_def)
    then obtain i where i: "i < length s" "s ! i = (k, ended_at p)" by (auto simp: in_set_conv_nth)
    have "i < max_terminal_processes"
    proof (rule ccontr)
      assume "\<not> i < max_terminal_processes"
      moreover have "(i, s ! i) \<in> set (enumerate 0 s)" using i(1) by (auto simp: in_set_enumerate_eq)
      ultimately have "k \<in> V" using i(2) by (force simp: V_def prune_victims_def Let_def s_def [symmetric])
      with p(3) show False by simp
    qed
    with i have "(k, ended_at p) \<in> set (take max_terminal_processes s)" by (auto simp: in_set_conv_nth intro!: exI [of _ i])
    then show "k \<in> set (map fst (take max_terminal_processes s))" by force
  qed
  have "length left = card (set (map fst left))" using distinct_card [OF d] by simp
  also have "\<dots> \<le> card (set (map fst (take max_terminal_processes s)))" by (rule card_mono [OF _ sub]) simp
  also have "\<dots> \<le> max_terminal_processes" by (rule order_trans [OF card_length]) simp
  finally show ?thesis by (simp add: tab left_def)
qed

subsection \<open>A failed start, a cancellation\<close>

lemma attach_failed:
  assumes p: "lookup_process pid a = Some p" "m_runtime p = McpRuntime m" "is_active (i_state (m_info p))"
    and fault: "\<And>i h. \<not> is_persisted (fst (mark_started_row (w_sizes w) (w_start_fault w pid) i h))"
  shows "\<exists>q. lookup_process pid (snd (attach_mcp_request w pid peer request a)) = Some q \<and>
    i_state (m_info q) = Failed \<and> i_finished (m_info q) = Some (w_now w)"
proof -
  let ?i = "(m_info p)\<lparr>i_state := Running, i_started := Some (w_now w), i_updated := w_now w\<rparr>"
  obtain out h where m: "mark_started_row (w_sizes w) (w_start_fault w pid) ?i (v_history (a_services a)) = (out, h)" by fastforce
  with fault [of ?i "v_history (a_services a)"] have out: "\<not> is_persisted out" by simp
  define p2 where "p2 = p\<lparr>m_info := ?i, m_runtime := McpRuntime \<lparr>mcp_peer = Some peer, mcp_request = Some request\<rparr>\<rparr>
    \<lparr>m_info := ?i\<lparr>i_state := Failed, i_finished := Some (w_now w), i_reason := Some (lit ''history_start_failed: '' @
      (case outcome_error out of Some e \<Rightarrow> e | None \<Rightarrow> lit ''history start persistence failed'')),
      i_evidence := Some (lit ''history_start_failed'')\<rparr>\<rparr>"
  obtain q v where f: "finalize_process w (p2, (a_services a)\<lparr>v_history := h\<rparr>) = (q, v)" by fastforce
  have "kept p2 q" using finalize_advance [of "(p2, (a_services a)\<lparr>v_history := h\<rparr>)" w] f by (simp add: advance_def)
  then have "i_state (m_info q) = Failed" "i_finished (m_info q) = Some (w_now w)"
    by (auto simp: kept_def outcome_of_def p2_def is_active_def)
  moreover have "snd (attach_mcp_request w pid peer request a) = \<lparr>a_table = put_process pid q (a_table a), a_services = v\<rparr>"
    using p m out f by (simp add: attach_mcp_request_def Let_def p2_def)
  ultimately show ?thesis using p(1) by (simp add: lookup_process_def lookup_put)
qed

lemma cancel_flags:
  assumes p: "lookup_process pid (with_process pid (refresh_process w) a) = Some p" and "m_runtime p = ProcessRuntime u"
    and "is_active (i_state (m_info p))" and d: "distinct (map fst (a_table (with_process pid (refresh_process w) a)))"
  shows "\<exists>q. lookup_process pid (snd (cancel_command_begin w pid a)) = Some q \<and> m_cancel q"
proof -
  let ?a = "with_process pid (refresh_process w) a"
  obtain alive u' where o: "observe_group w u = (alive, u')" by fastforce
  let ?p = "cancel_runtime w p u'"
  let ?b = "change_process pid (\<lambda>_. ?p) ?a"
  have b: "lookup_process pid ?b = Some ?p" using p by (simp add: change_process_def with_process_def lookup_process_def lookup_put)
  have active: "is_active (i_state (m_info ?p))" and cancel: "m_cancel ?p"
    using assms(3) by (auto simp: cancel_runtime_def Let_def is_active_def)
  have "distinct (map fst (a_table ?b))" using d p by (simp add: change_process_def with_process_def)
  from active_stays [OF b active this] cancel
  have "\<exists>q. lookup_process pid (prune_terminal_processes w ?b) = Some q \<and> m_cancel q" by blast
  then show ?thesis using p assms(2,3) o b cancel by (simp add: cancel_command_begin_def Let_def is_terminal_def)
qed

subsection \<open>Recovery\<close>

lemma find_key: "distinct (map f xs) \<Longrightarrow> x \<in> set xs \<Longrightarrow> List.find (\<lambda>y. f y = f x) xs = Some x"
  by (induction xs) (auto simp: image_iff)

lemma recover_all:
  assumes "distinct (map i_id infos)" and "row_of k h = Some r"
  shows "row_of k (h\<lparr>h_rows := fold (recover_row now) infos (h_rows h)\<rparr>) = Some (case find (\<lambda>i. i_id i = k) infos of
      Some i \<Rightarrow> r\<lparr>r_state := i_state i, r_updated := now, r_finished := Some now, r_info := i,
        r_detail := Some (recovered_detail i), r_capture := StatusIncomplete\<rparr>
    | None \<Rightarrow> r)"
  using assms
proof (induction infos arbitrary: h r)
  case (Cons i infos)
  let ?f = "\<lambda>r. r\<lparr>r_state := i_state i, r_updated := now, r_finished := Some now, r_info := i,
    r_detail := Some (recovered_detail i), r_capture := StatusIncomplete\<rparr>"
  let ?h = "h\<lparr>h_rows := recover_row now i (h_rows h)\<rparr>"
  have "row_of k ?h = map_option (\<lambda>r. if i_id i = k then ?f r else r) (row_of k h)"
    unfolding recover_row_def by (rule row_of_update) simp
  then have row: "row_of k ?h = Some (if i_id i = k then ?f r else r)" using Cons.prems(2) by simp
  show ?case
  proof (cases "i_id i = k")
    case True
    have "i_id x \<noteq> k" if "x \<in> set infos" for x using Cons.prems(1) True imageI [OF that, of i_id] by auto
    then have "find (\<lambda>i. i_id i = k) infos = None" by (auto simp: find_None_iff)
    with Cons.IH [OF _ row] Cons.prems(1) True show ?thesis by simp
  next
    case False
    with Cons.IH [OF _ row] Cons.prems(1) show ?thesis by simp
  qed
qed simp

lemma recover_ids: "map r_id (fold (recover_row now) infos rs) = map r_id rs"
proof (induction infos arbitrary: rs)
  case (Cons i infos)
  have "map r_id (recover_row now i rs) = map r_id rs" by (auto simp: recover_row_def update_row_def)
  with Cons show ?case by simp
qed simp

text \<open>What the recovery makes of a row.\<close>

definition recovered_row :: "int \<Rightarrow> history_row \<Rightarrow> history_row" where
  "recovered_row now r =
     (if is_active (r_state r)
      then r\<lparr>r_state := UnknownAfterRestart, r_updated := now, r_finished := Some now, r_info := recovered_info now (r_info r),
        r_detail := Some (recovered_detail (recovered_info now (r_info r))), r_capture := StatusIncomplete\<rparr>
      else r)"

lemma recover_rows:
  assumes ok: "history_ok h" and rec: "recover_active None now h = (Inr n, h')" and r: "r \<in> set (h_rows h)"
  shows "row_of (r_id r) h' = Some (recovered_row now r)"
proof -
  define infos where "infos = map (\<lambda>r. recovered_info now (r_info r)) (filter (\<lambda>r. is_active (r_state r)) (h_rows h))"
  have h': "row_of k h' = row_of k (h\<lparr>h_rows := fold (recover_row now) infos (h_rows h)\<rparr>)" for k
    using rec by (auto simp: recover_active_def Let_def infos_def row_of_def)
  have ids: "i_id (recovered_info now (r_info x)) = r_id x" if "x \<in> set (h_rows h)" for x
    using ok that by (auto simp: recovered_info_def Let_def history_ok_def list_all_iff row_ok_def)
  have "map i_id infos = map r_id (filter (\<lambda>r. is_active (r_state r)) (h_rows h))" using ids by (auto simp: infos_def)
  then have d: "distinct (map i_id infos)" using ok by (simp add: history_ok_def distinct_map_filter)
  have row: "row_of (r_id r) h = Some r" using ok r by (simp add: history_ok_def row_of_SomeI)
  have "find (\<lambda>i. i_id i = r_id r) infos = (if is_active (r_state r) then Some (recovered_info now (r_info r)) else None)"
  proof (cases "is_active (r_state r)")
    case True
    then have "recovered_info now (r_info r) \<in> set infos" using r by (simp add: infos_def)
    from find_key [OF d this] ids [OF r] True show ?thesis by simp
  next
    case False
    have "r_id x \<noteq> r_id r" if "x \<in> set (h_rows h)" "is_active (r_state x)" for x
      using ok False that row row_of_SomeI [of h x] by (auto simp: history_ok_def)
    then show ?thesis using False ids by (auto simp: find_None_iff infos_def)
  qed
  with recover_all [OF d row] show ?thesis by (simp add: h' recovered_row_def recovered_info_def Let_def)
qed

subsection \<open>Properties\<close>


text \<open>C19.
  No more processes are ever active than the limit admissions go by, whatever is admitted alone,
  in batches or for MCP calls.
\<close>

theorem active_processes_within_limit:
  assumes "reachable fresh_run (run_step L) r"
  shows "length (filter (\<lambda>(_, p). is_active (i_state (m_info p))) (a_table (run_agent r))) \<le> L"
  using process_runs.reachable_inv [OF assms] by (simp add: run_inv_def active_ids_def)

text \<open>C17.
  A process in the table that has ended has been reported (audit record, hub, hook), no process is
  reported twice, and every report and every completion given to the event store names the state
  the process has ended in and keeps.
\<close>

theorem process_reported_once_as_ended:
  assumes "reachable fresh_run (run_step L) r"
  shows "distinct (map reported_id (v_reports (a_services (run_agent r)))) \<and>
    (\<forall>x \<in> set (v_reports (a_services (run_agent r))). known_end r (reported_id x) (i_state (rep_info x))) \<and>
    (\<forall>(k, d) \<in> set (v_delivered (a_services (run_agent r))). \<exists>s. process_event_type s = Some (c_type d) \<and> known_end r k s) \<and>
    (\<forall>(k, p) \<in> set (a_table (run_agent r)). is_active (i_state (m_info p)) \<or>
      k \<in> reported_id ` set (v_reports (a_services (run_agent r))))"
proof -
  have told: "run_told r" and good: "agent_good (run_agent r)"
    using process_runs.reachable_inv [OF assms] by (simp_all add: run_inv_def run_ok_def)
  have "k \<in> reported_id ` set (v_reports (a_services (run_agent r)))"
    if p: "(k, p) \<in> set (a_table (run_agent r))" and "\<not> is_active (i_state (m_info p))" for k p
  proof -
    have "lookup_process k (run_agent r) = Some p" "m_audit p = None"
      using good p that(2) by (auto simp: agent_good_def lookup_process_def settled_def)
    with told show ?thesis by (auto simp: run_told_def audited_def)
  qed
  with told show ?thesis
    by (fastforce simp: run_told_def report_known_def delivery_known_def)
qed

text \<open>C18.
  A request to cancel is not forgotten: a worker that has not started its program by then never
  starts it, and one that has spawned it meanwhile is told to stop it.
\<close>

theorem cancelled_process_never_starts:
  assumes "reachable fresh_run (run_step L) r" and "lookup_process k (run_agent r) = Some p" and "m_cancel p"
    and "(run_step L)\<^sup>*\<^sup>* r r'"
  shows "fst (begin_running w k (run_agent r')) \<in> {StartGone, StartCancelled} \<and>
    (\<forall>p' u. lookup_process k (run_agent r') = Some p' \<longrightarrow> m_runtime p' = ProcessRuntime u \<longrightarrow>
      fst (install_spawned k g startup out_pipe err_pipe (run_agent r')))"
proof -
  have "run_ok r" using process_runs.reachable_inv [OF assms(1)] by (simp add: run_inv_def)
  from remembered [OF assms(4) this assms(2)] have "became (run_agent r') k p" by simp
  then have "m_cancel p'" if "lookup_process k (run_agent r') = Some p'" for p'
    using that assms(3) by (simp add: became_def kept_def)
  then show ?thesis by (auto simp: begin_running_def install_spawned_def split: option.split)
qed

text \<open>C36.
  The columns of every stored row are those of the process it describes, only what has ended has
  an end, and identifiers are unique in the history and in the table, which is kept under the
  identifiers of its processes.
\<close>

theorem process_rows_well_formed:
  assumes "reachable fresh_run (run_step L) r"
  shows "distinct (map r_id (h_rows (history_of (run_agent r)))) \<and>
    (\<forall>row \<in> set (h_rows (history_of (run_agent r))). r_id row = i_id (r_info row) \<and> r_state row = i_state (r_info row) \<and>
      (r_finished row = None \<or> is_terminal (r_state row))) \<and>
    distinct (map fst (a_table (run_agent r))) \<and> (\<forall>(k, p) \<in> set (a_table (run_agent r)). k = i_id (m_info p))"
proof -
  have "agent_good (run_agent r)" using process_runs.reachable_inv [OF assms] by (simp add: run_inv_def run_ok_def)
  then show ?thesis by (auto simp: agent_good_def history_ok_def list_all_iff row_ok_def is_terminal_def)
qed

text \<open>C27.
  The recovery after a restart leaves every row that was terminal as it was, and makes every
  other one unknown after restart, ended now, keeping its identifier, subject and times; the
  answer counts them. Afterwards no row is active.
\<close>

theorem recovery_settles_every_process:
  assumes "history_ok h" and "recover_active None now h = (Inr n, h')"
  shows "map r_id (h_rows h') = map r_id (h_rows h) \<and> n = length (filter (\<lambda>r. is_active (r_state r)) (h_rows h)) \<and>
    (\<forall>r \<in> set (h_rows h). row_of (r_id r) h' = Some (recovered_row now r)) \<and> list_all (\<lambda>r. \<not> is_active (r_state r)) (h_rows h')"
proof (intro conjI)
  show ids: "map r_id (h_rows h') = map r_id (h_rows h)" and "n = length (filter (\<lambda>r. is_active (r_state r)) (h_rows h))"
    using assms(2) by (auto simp: recover_active_def Let_def recover_ids)
  note rows = recover_rows [OF assms]
  then show "\<forall>r \<in> set (h_rows h). row_of (r_id r) h' = Some (recovered_row now r)" by blast
  have "\<not> is_active (r_state x)" if x: "x \<in> set (h_rows h')" for x
  proof -
    have "r_id x \<in> set (map r_id (h_rows h))" using x unfolding ids [symmetric] by simp
    then obtain r where r: "r \<in> set (h_rows h)" "r_id r = r_id x" by auto
    have "distinct (map r_id (h_rows h'))" using assms(1) by (simp add: ids history_ok_def)
    from row_of_SomeI [OF this x] rows [OF r(1)] r(2) have "x = recovered_row now r" by simp
    then show ?thesis by (simp add: recovered_row_def)
  qed
  then show "list_all (\<lambda>r. \<not> is_active (r_state r)) (h_rows h')" by (simp add: list_all_iff)
qed

subsection \<open>A run\<close>

text \<open>
  An MCP call is admitted and fails as its start cannot be recorded; a command is admitted and
  cancelled before its program is started.
\<close>

definition quiet_world :: "int \<Rightarrow> rstr option \<Rightarrow> world" where
  "quiet_world now fault = \<lparr>w_now = now, w_boot_generation = lit ''g'', w_exists = (\<lambda>_. False), w_exit = (\<lambda>_. None),
     w_startup = (\<lambda>_. StartupReady), w_locked = (\<lambda>_. False), w_sizes = \<lparr>info_size = (\<lambda>_. 0), detail_size = (\<lambda>_. 0), info_length = (\<lambda>_. 0), detail_length = (\<lambda>_. 0)\<rparr>,
     w_admission_fault = fault, w_registration_fault = (\<lambda>_. fault), w_start_fault = (\<lambda>_. fault), w_event_fault = (\<lambda>_. fault),
     w_delivery_fault = (\<lambda>_. fault), w_acknowledge_fault = (\<lambda>_. fault), w_upsert_fault = (\<lambda>_. fault),
     w_cleanup_fault = (\<lambda>_. None), w_match_fault = (\<lambda>_. fault)\<rparr>"

definition sample_id :: rstr where "sample_id = lit ''p''"

definition sample_info :: "process_kind \<Rightarrow> process_info" where
  "sample_info kind = process_info_of sample_id \<lparr>sub_group = None, sub_batch_id = None, sub_batch_call_id = None,
     sub_batch_index = None, sub_program = None, sub_args = [], sub_directory = None, sub_preview = None, sub_skill_id = None,
     sub_skill_path = None, sub_digest = None, sub_server = None, sub_tool = None\<rparr> kind Queued 1"

definition sample_process :: "process_kind \<Rightarrow> managed_process" where
  "sample_process kind = managed (sample_info kind)
     (if kind = Mcp then McpRuntime \<lparr>mcp_peer = None, mcp_request = None\<rparr> else ProcessRuntime (process_runtime False))
     \<lparr>au_source = [], au_need_confirm = False, au_policy_decision = [], au_confirmation = None, au_hook = False\<rparr>"

definition empty_history :: history where
  "empty_history = \<lparr>h_rows = [], h_completions = [], h_degraded = False, h_error = None, h_last_cleanup = None\<rparr>"

definition empty_agent :: agent where
  "empty_agent = \<lparr>a_table = [], a_services = \<lparr>v_history = empty_history, v_delivered = [], v_reports = []\<rparr>\<rparr>"

definition admitted_history :: "process_kind \<Rightarrow> history" where
  "admitted_history kind = empty_history\<lparr>h_rows := [new_row (bounded_info (sample_info kind)) None no_output], h_completions := [(sample_id, None)]\<rparr>"

definition admitted_agent :: "process_kind \<Rightarrow> agent" where
  "admitted_agent kind = \<lparr>a_table = [(sample_id, sample_process kind)],
     a_services = \<lparr>v_history = admitted_history kind, v_delivered = [], v_reports = []\<rparr>\<rparr>"

definition run_of :: "agent \<Rightarrow> process_run" where
  "run_of a = \<lparr>run_agent = a, run_used = {sample_id}, run_removed = {}\<rparr>"

definition start_run :: process_run where
  "start_run = \<lparr>run_agent = empty_agent, run_used = {}, run_removed = {}\<rparr>"

lemma sample_fits: "id_fits sample_id"
  by (simp add: id_fits_def sample_id_def lit_def char_utf8_len_def)

lemma sample_info_simps [simp]: "i_id (sample_info kind) = sample_id" "i_state (sample_info kind) = Queued" "i_kind (sample_info kind) = kind"
  "i_finished (sample_info kind) = None"
  by (simp_all add: sample_info_def process_info_of_def)

lemma sample_processes_fresh: "fresh_process (sample_id, sample_process kind)"
  unfolding sample_process_def sample_info_def by (rule fresh_managed [OF _ sample_fits]) (simp add: is_active_def)

lemma sample_admitted: "admit (quiet_world 1 None) 1 None [(sample_id, sample_process kind)] empty_agent = (Inr (), admitted_agent kind)"
  by (simp add: admit_def count_active_def refresh_processes_def empty_agent_def quiet_world_def insert_admissions_def Let_def
      insert_or_ignore_def track_def healthy_def is_persisted_def admitted_agent_def sample_process_def managed_def
      admitted_history_def empty_history_def sample_fits)

lemma admitted_reachable: "reachable fresh_run (run_step 1) (run_of (admitted_agent kind))"
proof -
  have start: "fresh_run start_run"
    by (simp add: fresh_run_def start_run_def empty_agent_def history_of_def empty_history_def history_ok_def)
  have "agent_op 1 empty_agent [sample_id] (admitted_agent kind)"
    using op_admit [of 1 1 "[(sample_id, sample_process kind)]" empty_agent "quiet_world 1 None" None] sample_processes_fresh [of kind] sample_admitted [of kind] by simp
  from run_step [OF this, of "{}" "{}"]
  have "run_step 1 start_run (run_of (admitted_agent kind))"
    by (simp add: start_run_def run_of_def removed_rows_def empty_agent_def history_of_def empty_history_def row_of_def)
  with start show ?thesis by (meson reachable.intros)
qed

lemma sample_next:
  assumes "agent_op 1 a [] a'" and "\<And>k. row_of k (history_of a) \<noteq> None \<Longrightarrow> row_of k (history_of a') \<noteq> None"
  shows "run_step 1 (run_of a) (run_of a')"
proof -
  have none: "removed_rows a a' = {}" using assms(2) unfolding removed_rows_def by blast
  from run_step [OF assms(1), of "{sample_id}" "{}"] show ?thesis by (simp only: run_of_def none) simp
qed

definition failed_agent :: agent where
  "failed_agent = snd (attach_mcp_request (quiet_world 2 (Some [])) sample_id [] [] (admitted_agent Mcp))"

definition cancelled_agent :: agent where
  "cancelled_agent = snd (cancel_command_begin (quiet_world 2 None) sample_id (admitted_agent Command))"

definition failed_run :: process_run where
  "failed_run = \<lparr>run_agent = failed_agent, run_used = {sample_id}, run_removed = removed_rows (admitted_agent Mcp) failed_agent\<rparr>"

lemma sample_lookup: "lookup_process sample_id (admitted_agent kind) = Some (sample_process kind)"
  by (simp add: lookup_process_def admitted_agent_def)

lemma failed_lookup:
  "\<exists>q. lookup_process sample_id failed_agent = Some q \<and> i_state (m_info q) = Failed \<and> i_finished (m_info q) = Some 2"
proof -
  have "m_runtime (sample_process Mcp) = McpRuntime \<lparr>mcp_peer = None, mcp_request = None\<rparr>"
    "is_active (i_state (m_info (sample_process Mcp)))"
    by (simp_all add: sample_process_def managed_def is_active_def)
  moreover have "\<not> is_persisted (fst (mark_started_row (w_sizes (quiet_world 2 (Some []))) (w_start_fault (quiet_world 2 (Some [])) k) i h))" for k i h
    by (simp add: mark_started_row_def quiet_world_def failed_def is_persisted_def Let_def)
  moreover have "w_now (quiet_world 2 (Some [])) = 2" by (simp add: quiet_world_def)
  ultimately show ?thesis using attach_failed [OF sample_lookup] unfolding failed_agent_def by metis
qed

lemma failed_reachable: "reachable fresh_run (run_step 1) failed_run"
proof -
  have "agent_op 1 (admitted_agent Mcp) [] failed_agent" unfolding failed_agent_def by (rule op_attach)
  from run_step [OF this, of "{sample_id}" "{}"] have "run_step 1 (run_of (admitted_agent Mcp)) failed_run"
    by (simp add: run_of_def failed_run_def)
  with admitted_reachable show ?thesis by (rule reachable_next)
qed

definition later_run :: process_run where
  "later_run = (let w = quiet_world 1000000000000 None; a = prune_terminal_processes w (refresh_processes w failed_agent) in
     \<lparr>run_agent = a, run_used = {sample_id}, run_removed = run_removed failed_run \<union> removed_rows failed_agent a\<rparr>)"

lemma later_step: "run_step 1 failed_run later_run"
proof -
  let ?w = "quiet_world 1000000000000 None"
  have "agent_op 1 failed_agent [] (prune_terminal_processes ?w (refresh_processes ?w failed_agent))" by (rule op_refresh_all)
  from run_step [OF this, of "{sample_id}"] show ?thesis by (simp add: later_run_def failed_run_def Let_def)
qed

definition cancelled_run :: process_run where
  "cancelled_run = \<lparr>run_agent = cancelled_agent, run_used = {sample_id}, run_removed = removed_rows (admitted_agent Command) cancelled_agent\<rparr>"

lemma cancelled_lookup: "\<exists>q. lookup_process sample_id cancelled_agent = Some q \<and> m_cancel q"
proof -
  let ?w = "quiet_world 2 None"
  let ?p = "fst (refresh_process ?w (sample_process Command, a_services (admitted_agent Command)))"
  have r: "m_runtime (sample_process Command) = ProcessRuntime (process_runtime False)" "is_active (i_state (m_info (sample_process Command)))"
    by (simp_all add: sample_process_def managed_def is_active_def)
  have "lookup_process sample_id (with_process sample_id (refresh_process ?w) (admitted_agent Command)) = Some ?p"
    using sample_lookup [of Command] by (simp add: with_process_def lookup_process_def lookup_put split: prod.split)
  moreover have "m_runtime ?p = ProcessRuntime (process_runtime False)" "is_active (i_state (m_info ?p))"
    using r by (simp_all add: refresh_process_def refresh_exit_def poll_exit_def refresh_rings_def process_runtime_def Let_def quiet_world_def)
  moreover have "distinct (map fst (a_table (with_process sample_id (refresh_process ?w) (admitted_agent Command))))"
    using sample_lookup [of Command] by (simp add: with_process_def admitted_agent_def split: prod.split)
  ultimately show ?thesis unfolding cancelled_agent_def by (rule cancel_flags)
qed

lemma cancelled_reachable: "reachable fresh_run (run_step 1) cancelled_run"
proof -
  have "agent_op 1 (admitted_agent Command) [] cancelled_agent" unfolding cancelled_agent_def by (rule op_cancel) (rule insertI1)
  from run_step [OF this, of "{sample_id}" "{}"] have "run_step 1 (run_of (admitted_agent Command)) cancelled_run"
    by (simp add: run_of_def cancelled_run_def)
  with admitted_reachable show ?thesis by (rule reachable_next)
qed

subsection \<open>Witnesses\<close>


lemma active_processes_within_limit_witness:
  "length (filter (\<lambda>(_, p). is_active (i_state (m_info p))) (a_table (admitted_agent Command))) \<le> 1 \<and>
   a_table (admitted_agent Command) = [(sample_id, sample_process Command)]"
  using active_processes_within_limit [OF admitted_reachable [of Command]] by (simp add: run_of_def admitted_agent_def)

lemma process_reported_once_as_ended_witness:
  "sample_id \<in> reported_id ` set (v_reports (a_services failed_agent))"
proof -
  obtain q where q: "lookup_process sample_id failed_agent = Some q" "i_state (m_info q) = Failed" using failed_lookup by blast
  then have "(sample_id, q) \<in> set (a_table (run_agent failed_run))" "\<not> is_active (i_state (m_info q))"
    by (simp_all add: failed_run_def lookup_process_in is_active_def)
  with process_reported_once_as_ended [OF failed_reachable] show ?thesis by (auto simp: failed_run_def)
qed

lemma cancelled_process_never_starts_witness:
  "fst (begin_running (quiet_world 3 None) sample_id cancelled_agent) \<in> {StartGone, StartCancelled}"
proof -
  obtain q where q: "lookup_process sample_id (run_agent cancelled_run) = Some q" "m_cancel q"
    using cancelled_lookup by (auto simp: cancelled_run_def)
  show ?thesis
    using cancelled_process_never_starts [OF cancelled_reachable q rtranclp.rtrancl_refl, of "quiet_world 3 None" None False False False]
    by (simp add: cancelled_run_def)
qed

lemma process_rows_well_formed_witness:
  "list_all (\<lambda>(k, p). k = i_id (m_info p)) (a_table failed_agent)"
  using process_rows_well_formed [OF failed_reachable] unfolding failed_run_def list_all_iff by simp

lemma recovery_settles_every_process_witness:
  "list_all (\<lambda>r. \<not> is_active (r_state r)) (h_rows (snd (recover_active None 9 (admitted_history Command)))) \<and>
   \<not> list_all (\<lambda>r. \<not> is_active (r_state r)) (h_rows (admitted_history Command))"
proof -
  have rows: "h_rows (admitted_history Command) = [new_row (bounded_info (sample_info Command)) None no_output]"
    by (simp add: admitted_history_def)
  have "row_ok (new_row (bounded_info (sample_info Command)) None no_output)"
    by (rule new_row_ok) (simp add: is_active_def)
  then have "history_ok (admitted_history Command)" by (simp add: history_ok_def rows)
  moreover obtain n h' where h': "recover_active None 9 (admitted_history Command) = (Inr n, h')"
    by (simp add: recover_active_def Let_def)
  ultimately have "list_all (\<lambda>r. \<not> is_active (r_state r)) (h_rows h')"
    using recovery_settles_every_process by blast
  with h' show ?thesis by (simp add: rows new_row_def is_active_def)
qed

end
