(* ===== verification/Process_Start.thy ===== *)
theory Process_Start
  imports Process_Guarantees Path_Policy
begin

text \<open>
  How processes are registered and started (\<^verbatim>\<open>process/managed.rs\<close>): a command or a skill, a
  batch of commands, an MCP call and a batch of them. What these do to the table are steps of
  its runs, and a batch is entered as a whole or not at all.
\<close>

subsection \<open>Requests\<close>

text \<open>Of the wish for a confirmation only \<^verbatim>\<open>effective_acquire(false)\<close> is used.\<close>

record process_request =
  q_group :: "rstr option"
  q_execution :: execution_spec
  q_acquire :: bool
  q_cwd :: "rstr option"

record process_options =
  o_source :: rstr
  o_skill_id :: "rstr option"
  o_skill_path :: "rstr option"
  o_digest :: "rstr option"
  o_hook :: bool

text \<open>The debug form of a string, with quotes and escapes, is an argument.\<close>

fun joined :: "rstr list \<Rightarrow> rstr" where
  "joined [] = []"
| "joined [s] = s"
| "joined (s # t # ss) = s @ lit '' '' @ joined (t # ss)"

definition command_preview :: "(rstr \<Rightarrow> rstr) \<Rightarrow> rstr \<Rightarrow> rstr list \<Rightarrow> rstr" where
  "command_preview quoted prog argv =
     joined (map (\<lambda>part. if list_ex is_whitespace part then quoted part else part) (prog # argv))"

definition group_of :: "rstr option \<Rightarrow> rstr option" where
  "group_of g = (case validated_group g of Inr v \<Rightarrow> v | Inl _ \<Rightarrow> None)"

definition group_fault :: "rstr option \<Rightarrow> rstr option" where
  "group_fault g = (case validated_group g of Inl e \<Rightarrow> Some e | Inr _ \<Rightarrow> None)"

definition process_info_for ::
    "(rstr \<Rightarrow> rstr) \<Rightarrow> process_request \<Rightarrow> rstr \<Rightarrow> process_kind \<Rightarrow> process_state \<Rightarrow> int \<Rightarrow> process_options option \<Rightarrow> process_info" where
  "process_info_for quoted q pid kind s now options =
     (case (case q_execution q of
          Shell command \<Rightarrow> (Some (lit ''/usr/bin/bash''), [lit ''-c'', command], command)
        | Argv prog argv \<Rightarrow> (Some prog, argv, command_preview quoted prog argv)) of (prog, argv, preview) \<Rightarrow>
       process_info_of pid \<lparr>sub_group = group_of (q_group q), sub_batch_id = None, sub_batch_call_id = None, sub_batch_index = None,
         sub_program = prog, sub_args = argv, sub_directory = q_cwd q, sub_preview = Some preview,
         sub_skill_id = Option.bind options o_skill_id, sub_skill_path = Option.bind options o_skill_path,
         sub_digest = Option.bind options o_digest, sub_server = None, sub_tool = None\<rparr> kind s now)"

fun decision_text :: "policy_decision \<Rightarrow> rstr" where
  "decision_text Allow = lit ''Allow''"
| "decision_text Confirm = lit ''Confirm''"
| "decision_text Deny = lit ''Deny''"

fun rejection_text :: "rejection \<Rightarrow> rstr" where
  "rejection_text (CapacityRejected reason) = reason"
| "rejection_text (AdmissionFailed reason) = reason"

subsection \<open>One command or skill\<close>

text \<open>
  \<open>kernel_error\<close> is what \<^verbatim>\<open>kernel_argument_limit_error\<close> says of the arguments, \<open>denied\<close> whether the
  policy denies them; \<open>prepared\<close> is a decision made before.
\<close>

definition started_process ::
    "(rstr \<Rightarrow> rstr) \<Rightarrow> rstr \<Rightarrow> process_request \<Rightarrow> process_options \<Rightarrow> policy_decision option \<Rightarrow> bool \<Rightarrow> int \<Rightarrow> managed_process" where
  "started_process quoted pid q opts prepared lease now =
     managed (process_info_for quoted q pid (if o_skill_id opts \<noteq> None then Skill else Command)
         (if prepared = Some Confirm then WaitingConfirmation else Starting) now (Some opts))
       (ProcessRuntime (process_runtime lease))
       \<lparr>au_source = o_source opts, au_need_confirm = q_acquire q,
         au_policy_decision = (case prepared of Some d \<Rightarrow> decision_text d | None \<Rightarrow> lit ''undetermined''),
         au_confirmation = None, au_hook = o_hook opts\<rparr>"

definition start_managed_process_inner ::
    "(rstr \<Rightarrow> rstr) \<Rightarrow> world \<Rightarrow> nat \<Rightarrow> rstr \<Rightarrow> process_request \<Rightarrow> process_options \<Rightarrow> policy_decision option \<Rightarrow> rstr option \<Rightarrow> bool \<Rightarrow>
     bool \<Rightarrow> (process_state \<times> rstr) option \<Rightarrow> agent \<Rightarrow> process_info \<times> agent" where
  "start_managed_process_inner quoted w limit pid q opts prepared kernel_error denied lease initial_terminal a =
     (let p = started_process quoted pid q opts prepared lease (w_now w); info = m_info p;
          group_error = group_fault (q_group q);
          refuse = (group_error = None \<and> initial_terminal = None \<and>
            (\<not> (case prepared of Some d \<Rightarrow> d = Deny | None \<Rightarrow> denied) \<or> q_acquire q));
          ended = (\<lambda>s reason a. case get_process_now w pid (finish_process w pid s reason a) of
             (latest, a') \<Rightarrow> (case latest of Some i \<Rightarrow> i | None \<Rightarrow> info, a')) in
      case admit w limit (if refuse then kernel_error else None) [(pid, p)] a of
        (Inl (CapacityRejected reason), a1) \<Rightarrow> (terminal_without_admission (w_now w) info Rejected reason, a1)
      | (Inl (AdmissionFailed reason), a1) \<Rightarrow> (terminal_without_admission (w_now w) info Failed reason, a1)
      | (Inr _, a1) \<Rightarrow>
          (case group_error of
             Some reason \<Rightarrow> ended Rejected reason a1
           | None \<Rightarrow> (case initial_terminal of Some (s, reason) \<Rightarrow> ended s reason a1 | None \<Rightarrow> (info, a1))))"

definition start_skill_process ::
    "(rstr \<Rightarrow> rstr) \<Rightarrow> world \<Rightarrow> nat \<Rightarrow> rstr \<Rightarrow> process_request \<Rightarrow> rstr \<Rightarrow> rstr \<Rightarrow> rstr option \<Rightarrow> rstr \<Rightarrow> bool \<Rightarrow> rstr option \<Rightarrow> bool \<Rightarrow>
     bool \<Rightarrow> agent \<Rightarrow> process_info \<times> agent" where
  "start_skill_process quoted w limit pid q skill_id skill_path digest src hook kernel_error denied lease a =
     start_managed_process_inner quoted w limit pid q \<lparr>o_source = src, o_skill_id = Some skill_id, o_skill_path = Some skill_path,
         o_digest = digest, o_hook = hook\<rparr> None kernel_error denied lease
       (if lease then None else Some (Rejected, lit ''skill_update_pending'')) a"

subsection \<open>A batch of commands\<close>

record batch_element =
  b_request :: process_request
  b_kernel_error :: "rstr option"
  b_batch_id :: "rstr option"
  b_index :: "nat option"
  b_decision :: policy_decision
  b_confirmation :: "rstr option"
  b_source :: rstr
  b_hook :: bool

text \<open>The first element that cannot be run stops a batch before the table is looked at.\<close>

fun element_error :: "nat \<Rightarrow> batch_element list \<Rightarrow> rstr option" where
  "element_error index [] = None"
| "element_error index (b # bs) =
     (case group_fault (q_group (b_request b)) of
        Some e \<Rightarrow> Some e
      | None \<Rightarrow> (case b_kernel_error b of
          Some reason \<Rightarrow> Some (lit ''process_batch_element_rejected; index='' @ dec_nat index @ lit ''; reason='' @ reason)
        | None \<Rightarrow> element_error (Suc index) bs))"

definition batch_process :: "(rstr \<Rightarrow> rstr) \<Rightarrow> int \<Rightarrow> rstr \<times> batch_element \<Rightarrow> rstr \<times> managed_process" where
  "batch_process quoted now pb =
     (case pb of (pid, b) \<Rightarrow>
        let i = process_info_for quoted (b_request b) pid Command Queued now None in
        (pid, managed (i\<lparr>i_subject := (i_subject i)\<lparr>sub_batch_id := b_batch_id b, sub_batch_index := b_index b\<rparr>\<rparr>)
          (ProcessRuntime (process_runtime False))
          \<lparr>au_source = b_source b, au_need_confirm = q_acquire (b_request b), au_policy_decision = decision_text (b_decision b),
            au_confirmation = b_confirmation b, au_hook = b_hook b\<rparr>))"

definition start_prepared_managed_batch ::
    "(rstr \<Rightarrow> rstr) \<Rightarrow> world \<Rightarrow> nat \<Rightarrow> (rstr \<times> batch_element) list \<Rightarrow> agent \<Rightarrow> (rstr + process_info list) \<times> agent" where
  "start_prepared_managed_batch quoted w limit specs a =
     (if specs = [] then (Inr [], a)
      else case element_error 0 (map snd specs) of
        Some e \<Rightarrow> (Inl e, a)
      | None \<Rightarrow>
          let new = map (batch_process quoted (w_now w)) specs in
          (case admit w limit None new a of
             (Inl r, a') \<Rightarrow> (Inl (rejection_text r), a')
           | (Inr _, a') \<Rightarrow> (Inr (map (m_info \<circ> snd) new), a')))"

subsection \<open>MCP calls\<close>

record mcp_spec =
  ms_group :: "rstr option"
  ms_batch_id :: "rstr option"
  ms_call_id :: "rstr option"
  ms_index :: "nat option"
  ms_server :: rstr
  ms_tool :: rstr
  ms_source :: rstr
  ms_hook :: bool

definition mcp_process :: "int \<Rightarrow> rstr \<times> mcp_spec \<Rightarrow> rstr \<times> managed_process" where
  "mcp_process now ps =
     (case ps of (pid, m) \<Rightarrow>
        (pid, managed (process_info_of pid \<lparr>sub_group = group_of (ms_group m), sub_batch_id = ms_batch_id m,
            sub_batch_call_id = ms_call_id m, sub_batch_index = ms_index m, sub_program = None, sub_args = [], sub_directory = None,
            sub_preview = None, sub_skill_id = None, sub_skill_path = None, sub_digest = None, sub_server = Some (ms_server m),
            sub_tool = Some (ms_tool m)\<rparr> Mcp WaitingConfirmation now)
          (McpRuntime \<lparr>mcp_peer = None, mcp_request = None\<rparr>)
          \<lparr>au_source = ms_source m, au_need_confirm = True, au_policy_decision = lit ''pending'', au_confirmation = None,
            au_hook = ms_hook m\<rparr>))"

definition register_mcp_process :: "world \<Rightarrow> nat \<Rightarrow> rstr \<times> mcp_spec \<Rightarrow> agent \<Rightarrow> (rstr + process_info) \<times> agent" where
  "register_mcp_process w limit ps a =
     (case group_fault (ms_group (snd ps)) of
        Some e \<Rightarrow> (Inl e, a)
      | None \<Rightarrow>
          let new = mcp_process (w_now w) ps in
          (case admit w limit None [new] a of
             (Inl r, a') \<Rightarrow> (Inl (rejection_text r), a')
           | (Inr _, a') \<Rightarrow> (Inr (m_info (snd new)), a')))"

fun first_group_fault :: "mcp_spec list \<Rightarrow> rstr option" where
  "first_group_fault [] = None"
| "first_group_fault (m # ms) = (case group_fault (ms_group m) of Some e \<Rightarrow> Some e | None \<Rightarrow> first_group_fault ms)"

definition register_mcp_batch :: "world \<Rightarrow> nat \<Rightarrow> (rstr \<times> mcp_spec) list \<Rightarrow> agent \<Rightarrow> (rstr + process_info list) \<times> agent" where
  "register_mcp_batch w limit specs a =
     (if specs = [] then (Inr [], a)
      else case first_group_fault (map snd specs) of
        Some e \<Rightarrow> (Inl e, a)
      | None \<Rightarrow>
          let new = map (mcp_process (w_now w)) specs in
          (case admit w limit None new a of
             (Inl r, a') \<Rightarrow> (Inl (rejection_text r), a')
           | (Inr _, a') \<Rightarrow> (Inr (map (m_info \<circ> snd) new), a')))"

subsection \<open>Registrations are runs\<close>

lemma info_for_fields [simp]:
  "i_id (process_info_for quoted q pid kind s now options) = pid" "i_state (process_info_for quoted q pid kind s now options) = s"
  "i_finished (process_info_for quoted q pid kind s now options) = None"
  by (simp_all add: process_info_for_def process_info_of_def split: execution_spec.split)

lemma started_fresh: "id_fits pid \<Longrightarrow> fresh_process (pid, started_process quoted pid q opts prepared lease now)"
  by (simp add: fresh_process_def started_process_def managed_def is_active_def)

lemma batch_fresh: "id_fits (fst pb) \<Longrightarrow> fresh_process (batch_process quoted now pb)"
  by (cases pb) (simp add: fresh_process_def batch_process_def managed_def is_active_def Let_def)

lemma mcp_fresh: "id_fits (fst ps) \<Longrightarrow> fresh_process (mcp_process now ps)"
  by (cases ps) (simp add: mcp_process_def fresh_managed is_active_def)

lemma registered_ids [simp]:
  "fst (batch_process quoted now pb) = fst pb" "fst (mcp_process now ps) = fst ps"
  by (simp_all add: batch_process_def mcp_process_def Let_def split: prod.split)

text \<open>What the handlers do to the table is a sequence of operations.\<close>

definition agent_run :: "nat \<Rightarrow> agent \<Rightarrow> agent \<Rightarrow> bool" where
  "agent_run L = (\<lambda>a a'. \<exists>ids. agent_op L a ids a')\<^sup>*\<^sup>*"

lemma agent_run_op: "agent_op L a ids a' \<Longrightarrow> agent_run L a a'"
  by (auto simp: agent_run_def)

lemma agent_run_then: "agent_run L a b \<Longrightarrow> agent_op L b ids c \<Longrightarrow> agent_run L a c"
  unfolding agent_run_def by (erule rtranclp.rtrancl_into_rtrancl) (rule exI)

lemma start_process_is_run:
  assumes "limit \<le> L" and "id_fits pid" and "\<forall>s reason. initial_terminal = Some (s, reason) \<longrightarrow> \<not> is_active s"
  shows "agent_run L a (snd (start_managed_process_inner quoted w limit pid q opts prepared kernel_error denied lease initial_terminal a))"
proof -
  let ?p = "started_process quoted pid q opts prepared lease (w_now w)"
  have admit: "agent_run L a (snd (admit w limit refused [(pid, ?p)] a))" for refused
    using op_admit [OF assms(1), of "[(pid, ?p)]" a w refused] started_fresh [OF assms(2)] by (auto intro: agent_run_op)
  have ended: "agent_run L a (snd (get_process_now w pid (finish_process w pid s reason b)))"
    if "agent_run L a b" "\<not> is_active s" for s reason b
    using agent_run_then [OF agent_run_then [OF that(1) op_finish [OF that(2)]] op_refresh] .
  obtain refused where refused: "refused = (if group_fault (q_group q) = None \<and> initial_terminal = None \<and>
      (\<not> (case prepared of Some d \<Rightarrow> d = Deny | None \<Rightarrow> denied) \<or> q_acquire q) then kernel_error else None)" by blast
  obtain result b where b: "admit w limit refused [(pid, ?p)] a = (result, b)" by fastforce
  with admit have run: "agent_run L a b" by (metis snd_conv)
  let ?inner = "start_managed_process_inner quoted w limit pid q opts prepared kernel_error denied lease initial_terminal a"
  have b': "admit w limit (if group_fault (q_group q) = None \<and> initial_terminal = None \<and>
      (\<not> (case prepared of Some d \<Rightarrow> d = Deny | None \<Rightarrow> denied) \<or> q_acquire q) then kernel_error else None) [(pid, ?p)] a = (result, b)"
    using b unfolding refused .
  show ?thesis
  proof (cases result)
    case (Inl r)
    then have "snd ?inner = b" using b' unfolding start_managed_process_inner_def Let_def by (cases r) simp_all
    with run show ?thesis by simp
  next
    case (Inr u)
    show ?thesis
    proof (cases "group_fault (q_group q)")
      case (Some reason)
      then have "snd ?inner = snd (get_process_now w pid (finish_process w pid Rejected reason b))"
        using b' Inr unfolding start_managed_process_inner_def Let_def by (simp split: prod.split)
      with ended [OF run, of Rejected reason] show ?thesis by (simp add: is_active_def)
    next
      case None
      show ?thesis
      proof (cases initial_terminal)
        case None
        then have "snd ?inner = b" using b' Inr \<open>group_fault (q_group q) = None\<close>
          unfolding start_managed_process_inner_def Let_def by simp
        with run show ?thesis by simp
      next
        case (Some sr)
        obtain s reason where sr: "sr = (s, reason)" by (cases sr)
        then have "snd ?inner = snd (get_process_now w pid (finish_process w pid s reason b))"
          using b' Inr Some None unfolding start_managed_process_inner_def Let_def by (simp split: prod.split)
        with ended [OF run, of s reason] assms(3) Some sr show ?thesis by simp
      qed
    qed
  qed
qed

lemma batch_is_run:
  assumes "limit \<le> L" and "\<And>k. k \<in> fst ` set specs \<Longrightarrow> id_fits k" and "distinct (map fst specs)"
  shows "agent_run L a (snd (start_prepared_managed_batch quoted w limit specs a))"
proof -
  let ?new = "map (batch_process quoted (w_now w)) specs"
  have "list_all fresh_process ?new" using assms(2) by (auto simp: list_all_iff batch_fresh)
  moreover have "distinct (map fst ?new)" using assms(3) by (simp add: comp_def)
  ultimately have "agent_run L a (snd (admit w limit None ?new a))" using agent_run_op op_admit [OF assms(1)] by blast
  moreover have "agent_run L a a" by (simp add: agent_run_def)
  moreover have "snd (start_prepared_managed_batch quoted w limit specs a) \<in> {a, snd (admit w limit None ?new a)}"
  proof (cases "specs = [] \<or> element_error 0 (map snd specs) \<noteq> None")
    case True
    then show ?thesis by (elim disjE) (auto simp: start_prepared_managed_batch_def)
  next
    case False
    obtain result b where b: "admit w limit None ?new a = (result, b)" by fastforce
    show ?thesis using False b by (cases result) (simp_all add: start_prepared_managed_batch_def Let_def)
  qed
  ultimately show ?thesis by (elim insertE emptyE) simp_all
qed

lemma mcp_batch_is_run:
  assumes "limit \<le> L" and "\<And>k. k \<in> fst ` set specs \<Longrightarrow> id_fits k" and "distinct (map fst specs)"
  shows "agent_run L a (snd (register_mcp_batch w limit specs a))"
proof -
  let ?new = "map (mcp_process (w_now w)) specs"
  have "list_all fresh_process ?new" using assms(2) by (auto simp: list_all_iff mcp_fresh)
  moreover have "distinct (map fst ?new)" using assms(3) by (simp add: comp_def)
  ultimately have "agent_run L a (snd (admit w limit None ?new a))" using agent_run_op op_admit [OF assms(1)] by blast
  moreover have "agent_run L a a" by (simp add: agent_run_def)
  moreover have "snd (register_mcp_batch w limit specs a) \<in> {a, snd (admit w limit None ?new a)}"
  proof (cases "specs = [] \<or> first_group_fault (map snd specs) \<noteq> None")
    case True
    then show ?thesis by (elim disjE) (auto simp: register_mcp_batch_def)
  next
    case False
    obtain result b where b: "admit w limit None ?new a = (result, b)" by fastforce
    show ?thesis using False b by (cases result) (simp_all add: register_mcp_batch_def Let_def)
  qed
  ultimately show ?thesis by (elim insertE emptyE) simp_all
qed

subsection \<open>All or nothing\<close>

lemma insert_failed_rows:
  "insert_admissions sz fault tracked infos h = (out, h') \<Longrightarrow> \<not> is_persisted out \<Longrightarrow> row_of q h' = row_of q h"
  by (auto simp: insert_admissions_def Let_def is_persisted_def failed_def row_of_def split: if_splits option.splits)

lemma admit_result:
  assumes a: "admit w limit refused new a = (result, a')" and b: "b = snd (count_active w (refresh_processes w a))"
  shows "result = Inr () \<Longrightarrow> a_table a' = a_table b @ new"
    and "result = Inl r \<Longrightarrow> a_table a' = a_table b \<and> row_of q (history_of a') = row_of q (history_of b)"
proof -
  obtain n where c: "count_active w (refresh_processes w a) = (n, b)" using b by (metis prod.collapse)
  obtain out h where i: "insert_admissions (w_sizes w) (w_admission_fault w) True (map (m_info \<circ> snd) new)
    (v_history (a_services b)) = (out, h)" by fastforce
  note a = a [unfolded admit_def c prod.case i Let_def]
  consider "result \<noteq> Inr ()" "a' = b"
    | "result \<noteq> Inr ()" "\<not> is_persisted out" "a' = b\<lparr>a_services := (a_services b)\<lparr>v_history := h\<rparr>\<rparr>"
    | "result = Inr ()" "a_table a' = a_table b @ new"
    using a by (auto split: if_splits option.splits)
  then have "(result = Inr () \<longrightarrow> a_table a' = a_table b @ new) \<and>
      (result \<noteq> Inr () \<longrightarrow> a_table a' = a_table b \<and> row_of q (history_of a') = row_of q (history_of b))"
    by cases (simp_all add: history_of_def insert_failed_rows [OF i])
  then show "result = Inr () \<Longrightarrow> a_table a' = a_table b @ new"
    and "result = Inl r \<Longrightarrow> a_table a' = a_table b \<and> row_of q (history_of a') = row_of q (history_of b)" by auto
qed

lemma admit_whole:
  assumes fresh: "list_all fresh_process new" and good: "agent_good a" and unused: "unused a (map fst new)"
    and admit: "admit w limit refused new a = (result, a')" and distinct: "distinct (map fst new)" and kp: "(k, p) \<in> set new"
  shows "result = Inl r \<Longrightarrow> lookup_process k a' = None \<and> row_of k (history_of a') = None"
    and "result = Inr () \<Longrightarrow> lookup_process k a' = Some p \<and> row_of k (history_of a') \<noteq> None"
proof -
  obtain b where b: "moves a b" "agent_good b" "b = snd (count_active w (refresh_processes w a))"
    and tab: "a_table a' = a_table b \<or> (a_table a' = a_table b @ new \<and> (\<forall>k \<in> set (map fst new). row_of k (history_of a') \<noteq> None))"
    by (rule admit_cases [OF fresh admit]) (use good in blast)
  have k: "k \<in> set (map fst new)" using kp by force
  then have "lookup_process k a = None" "row_of k (history_of a) = None" using unused unfolding unused_def by blast+
  with movesD(2) [OF b(1) good, of k] have none: "lookup_process k b = None" "row_of k (history_of b) = None" by auto
  note res = admit_result [OF admit b(3)]
  show "lookup_process k a' = None \<and> row_of k (history_of a') = None" if "result = Inl r"
    using res(2) [OF that, of k] none by (simp add: lookup_process_def)
  assume "result = Inr ()"
  note t = res(1) [OF this]
  then have "row_of k (history_of a') \<noteq> None" using tab k kp by auto
  moreover have "lookup_process k a' = map_of new k" using lookup_extended [OF t, of k] none(1) by simp
  moreover have "map_of new k = Some p" using distinct kp by simp
  ultimately show "lookup_process k a' = Some p \<and> row_of k (history_of a') \<noteq> None" by simp
qed

text \<open>C26.
  A batch of commands is admitted as a whole or not at all: after an error no process of it is in
  the table and no row of it in the history; otherwise each is in the table, queued, as it was
  answered, and its row is stored.
\<close>

theorem batch_admitted_whole_or_not:
  assumes "reachable fresh_run (run_step L) r" and "distinct (map fst specs)" and "fst ` set specs \<inter> run_used r = {}"
    and "\<And>k. k \<in> fst ` set specs \<Longrightarrow> id_fits k"
    and "start_prepared_managed_batch quoted w limit specs (run_agent r) = (answer, a')"
  shows "case answer of
      Inl e \<Rightarrow> (\<forall>k \<in> fst ` set specs. lookup_process k a' = None \<and> row_of k (history_of a') = None)
    | Inr infos \<Rightarrow> map i_id infos = map fst specs \<and> (\<forall>i \<in> set infos. i_state i = Queued \<and> row_of (i_id i) (history_of a') \<noteq> None \<and>
        (\<exists>p. lookup_process (i_id i) a' = Some p \<and> m_info p = i))"
proof -
  have ok: "run_ok r" using process_runs.reachable_inv [OF assms(1)] by (simp add: run_inv_def)
  let ?new = "map (batch_process quoted (w_now w)) specs"
  have ids: "map fst ?new = map fst specs" by simp
  have unused: "unused (run_agent r) (map fst ?new)" using run_ok_unused [OF ok] assms(3) ids by simp
  have fresh: "list_all fresh_process ?new" using assms(4) by (auto simp: list_all_iff batch_fresh)
  have good: "agent_good (run_agent r)" using ok by (simp add: run_ok_def)
  show ?thesis
  proof (cases "specs = [] \<or> element_error 0 (map snd specs) \<noteq> None")
    case True
    then have "(answer = Inr [] \<and> specs = []) \<or> (a' = run_agent r \<and> (\<exists>e. answer = Inl e))"
      using assms(5) by (auto simp: start_prepared_managed_batch_def split: if_splits)
    with unused show ?thesis by (auto simp: unused_def)
  next
    case False
    obtain result b where b: "admit w limit None ?new (run_agent r) = (result, b)" by fastforce
    note whole = admit_whole [OF fresh good unused b, unfolded ids, OF assms(2)]
    show ?thesis
    proof (cases result)
      case (Inl e)
      then have "answer = Inl (rejection_text e)" "a' = b"
        using assms(5) False b by (auto simp: start_prepared_managed_batch_def Let_def)
      moreover have "lookup_process k b = None \<and> row_of k (history_of b) = None" if "k \<in> fst ` set specs" for k
      proof -
        have "k \<in> fst ` set ?new" using that by (simp only: set_map [symmetric] ids)
        then obtain p where "(k, p) \<in> set ?new" by (metis imageE prod.collapse)
        from whole(1) [OF this Inl] show ?thesis .
      qed
      ultimately show ?thesis by simp
    next
      case (Inr u)
      then have a: "answer = Inr (map (m_info \<circ> snd) ?new)" "a' = b"
        using assms(5) False b by (auto simp: start_prepared_managed_batch_def Let_def)
      have each: "lookup_process (fst x) b = Some (snd (batch_process quoted (w_now w) x)) \<and> row_of (fst x) (history_of b) \<noteq> None"
        if x: "x \<in> set specs" for x
      proof -
        have "(fst x, snd (batch_process quoted (w_now w) x)) \<in> set ?new"
          using x by (metis image_eqI list.set_map prod.collapse registered_ids(1))
        from whole(2) [OF this] Inr show ?thesis by simp
      qed
      have info: "i_id (m_info (snd (batch_process quoted (w_now w) x))) = fst x"
        "i_state (m_info (snd (batch_process quoted (w_now w) x))) = Queued" for x
        by (simp_all add: batch_process_def Let_def managed_def split: prod.split)
      show ?thesis using each by (auto simp: a info comp_def)
    qed
  qed
qed

definition sample_batch :: "(rstr \<times> batch_element) list" where
  "sample_batch = [(sample_id, \<lparr>b_request = \<lparr>q_group = None, q_execution = Shell (lit ''true''), q_acquire = False, q_cwd = None\<rparr>,
     b_kernel_error = None, b_batch_id = None, b_index = Some 0, b_decision = Allow, b_confirmation = None, b_source = [], b_hook = False\<rparr>)]"

lemma batch_admitted_whole_or_not_witness:
  "case fst (start_prepared_managed_batch (\<lambda>s. s) (quiet_world 1 None) 1 sample_batch empty_agent) of
      Inl e \<Rightarrow> lookup_process sample_id (snd (start_prepared_managed_batch (\<lambda>s. s) (quiet_world 1 None) 1 sample_batch empty_agent)) = None
    | Inr infos \<Rightarrow> map i_id infos = [sample_id]"
proof -
  have start: "reachable fresh_run (run_step 1) start_run"
    by (rule reachable_start) (simp add: fresh_run_def start_run_def empty_agent_def history_of_def empty_history_def history_ok_def)
  obtain answer a' where b: "start_prepared_managed_batch (\<lambda>s. s) (quiet_world 1 None) 1 sample_batch (run_agent start_run) = (answer, a')"
    by fastforce
  have "distinct (map fst sample_batch)" "fst ` set sample_batch \<inter> run_used start_run = {}"
    "\<And>k. k \<in> fst ` set sample_batch \<Longrightarrow> id_fits k"
    by (simp_all add: sample_batch_def start_run_def sample_fits)
  from batch_admitted_whole_or_not [OF start this b] b show ?thesis
    by (cases answer) (simp_all add: sample_batch_def start_run_def)
qed

end
