(* ===== verification/Spec2Isabelle.thy ===== *)
theory Spec2Isabelle
  imports Patch_Document File_Update Authorization Process_Output File_Guarantees Event_Queries Command_Starts Hub_Replay
    Process_Start
begin

text \<open>
  A model of the core of AgenticGPT: an agent (\<^verbatim>\<open>crates/agentic-gpt\<close>) that edits files, runs
  programs and calls tools for a remote model, the hub (\<^verbatim>\<open>crates/agentic-gpt-hub\<close>) that sends
  it commands, and the patch engine (\<^verbatim>\<open>crates/agentic-apply-patch\<close>) that both the file tool and
  its tests use. This theory imports the whole development and holds the property that spans the
  parser and the updater of patches.

  \<^bold>\<open>How the parts interact.\<close> The hub stores every command it sends in its run table and sends it
  again until the agent has acknowledged it. The agent enters a delivered command in its ledger
  before it starts it, records the start and the result there, and after a restart starts what was
  accepted only. A command edits files, runs programs or calls a tool; each of these is first
  judged by the policy and, where the policy says so, by the user. A file edit parses a patch,
  plans it against the disk, and commits it as a transaction. A program becomes a managed process:
  an entry of a table in memory, a row of the history in SQLite, two rings of output, and an
  event source whose completion reaches the model as part of a response or as an event.

  \<^bold>\<open>The theories.\<close>

  Shared: \<open>Prelude\<close> (Rust strings as lists of scalar values, results as sums, lemmas on lists),
  \<open>State_Machine\<close> (the contracts \<open>transition_system\<close>, \<open>latch\<close> and \<open>once\<close> as locales,
  interpreted on the event store, the ledger, the run table and the table of processes),
  \<open>Utf8\<close> (encoding and decoding as in the standard library).

  Patches (\<^verbatim>\<open>agentic-apply-patch/src\<close>): \<open>Patch_Types\<close> (\<^verbatim>\<open>lib.rs\<close>), \<open>Patch_Parser\<close>
  (\<^verbatim>\<open>parser.rs\<close>, \<^verbatim>\<open>streaming_parser.rs\<close>: one function per handler of a line, the mode as a
  datatype), \<open>Seek_Sequence\<close> (\<^verbatim>\<open>seek_sequence.rs\<close>; the locale \<open>coarsening\<close> orders its passes),
  \<open>Text_File\<close> (\<^verbatim>\<open>text_file.rs\<close>), \<open>File_Update\<close> (\<^verbatim>\<open>file_update.rs\<close>; a slice out of range is
  the error value \<open>Panicked\<close>), \<open>Patch_Document\<close> (the language of patches as a specification:
  \<open>render\<close> writes a document, \<open>denote\<close> says what it means, and the parser inverts the one to the
  other).

  Policy (\<^verbatim>\<open>agentic-gpt/src/operations\<close>, \<^verbatim>\<open>agentic-gpt/src/process\<close>): \<open>Policy_Patterns\<close>
  (\<^verbatim>\<open>policy_patterns.rs\<close>), \<open>Shell_Parser\<close> (\<^verbatim>\<open>shell_parser.rs\<close>; the syntax tree comes from the
  tree-sitter library and is an argument), \<open>Shell_Literal\<close> (what it means for a command and its
  arguments to be literal, as inductive relations beside the parser), \<open>Policy\<close> (\<^verbatim>\<open>policy.rs\<close>; the locale
  \<open>rule_matching\<close> is shared by the command rules and the global rule), \<open>Path_Policy\<close>
  (\<^verbatim>\<open>exec.rs\<close>, \<^verbatim>\<open>path_authorization.rs\<close>), \<open>Authorization\<close> (\<^verbatim>\<open>confirmation.rs\<close>).

  File edits (\<^verbatim>\<open>agentic-gpt/src/files/file_ops.rs\<close>, \<^verbatim>\<open>file_authorization.rs\<close>): \<open>Disk\<close> (a tree
  with links, and the calls of \<^verbatim>\<open>std::fs\<close>), \<open>File_Edit\<close> (the plan), \<open>File_Transaction\<close> (the
  transaction); \<open>File_Atomic\<close>, \<open>File_Commit\<close>, \<open>File_Errors\<close> and \<open>File_Report\<close> build the
  lemmas about its stages, \<open>File_Guarantees\<close> states what an edit promises as a whole.

  Events (\<^verbatim>\<open>agentic-gpt/src/storage/event_store.rs\<close>): \<open>Event_Store\<close> (the two tables and every
  transaction), \<open>Event_Delivery\<close> (what the transactions keep), \<open>Event_Queries\<close> (the readers).

  Commands between hub and agent: \<open>Transport_Ledger\<close> (\<^verbatim>\<open>storage/transport_ledger.rs\<close> and the
  handler of deliveries in \<^verbatim>\<open>ingress/hub.rs\<close>), \<open>Ledger_Refinement\<close> (the file implements a map
  from runs to records), \<open>Ledger_Runs\<close> (runs over all interleavings), \<open>Legacy_Commands\<close>,
  \<open>Reconciliation\<close> (after a restart), \<open>Command_Starts\<close> (the handler of deliveries and
  reconciliations interleaved: the runs of the agent that count what is started, which simulate
  the steps of \<open>Ledger_Runs\<close>), \<open>Hub_Runs\<close> (\<^verbatim>\<open>agentic-gpt-hub/src/storage/runs.rs\<close>),
  \<open>Hub_Run_States\<close>, \<open>Hub_Replay\<close> (\<^verbatim>\<open>agents/dispatch.rs\<close>: what is sent to an agent that
  connects, and what is held back).

  Processes (\<^verbatim>\<open>agentic-gpt/src/process/managed.rs\<close>, \<^verbatim>\<open>process/model.rs\<close>,
  \<^verbatim>\<open>storage/process_history.rs\<close>, \<^verbatim>\<open>operations/event_notifications.rs\<close>): \<open>Process_Output\<close> (the
  ring of a stream, its reader, the pages of a read), \<open>Process_Types\<close>, \<open>Process_History\<close> (rows,
  outbox, faults of a write, recovery), \<open>Process_Table\<close> (what is kept of a process, and what
  one operation does to it), \<open>Process_Handlers\<close> (the operations on the table as they run under
  its lock), \<open>Process_Start\<close> (registration of commands, skills, batches and MCP calls). The
  proofs are layered: \<open>Process_Outcomes\<close> has what happens to one process and the relation
  \<open>moves\<close> between tables, \<open>Process_Moves\<close> shows that every operation is such a move,
  \<open>Process_Runs\<close> has all interleavings as the step relation \<open>agent_op\<close> with their invariant,
  \<open>Process_Guarantees\<close> and \<open>Process_Start\<close> state the properties.

  \<^bold>\<open>State.\<close> A mutable structure is a record that an operation returns updated; what runs under
  one lock or in one transaction is one definition. A database table is a list of rows in the
  order of insertion, with the constraints of the schema written into the statements. Code that
  interleaves is a step relation, and the properties speak of all reachable states. What the
  outside answers (clock, operating system, SQLite, a digest, JSON text, random identifiers) is
  an argument: the record \<open>world\<close> for processes, the record of an operating system for paths, a
  disk and a script of what others do to it for files, a key or digest function for the ledger and
  the run table. A failure of the outside is a branch.

  \<^bold>\<open>What the lemmas show.\<close> Patches: the parser inverts the printer, its hunks are complete, the
  updater is a splice and never panics on them. Policy: an allow covers every statement of a
  script, a deny wins, a path is allowed inside of a granting root only, and an operation runs by
  policy or by an answer of the user. File edits: an error changes nothing, the answer is true, no
  stale contents are overwritten, nothing outside of policy is touched. Events: a completion is
  reported at most once, and is reported unless the response carried it. Commands: a command is
  started at most once, a result is final, a torn ledger starts nothing. Processes: an outcome is
  never lost or changed, is reported once, a requested cancellation is not forgotten, the limit
  on active processes holds, a reader with cursors misses nothing.

  \<^bold>\<open>Bounds and fuel.\<close> Resolution of a path follows 40 links, as Linux does, and its recursion
  ends by the measure of links and components left. The ring of a stream has 65536 bytes, as the
  code has it. Reading all pages of a listing takes fuel above the number of rows left, and all
  pages of an output fuel above the number of bytes left; the theorems about them say that this
  much is enough. Offsets and counters of Rust are natural numbers where the code saturates or
  cannot reach the width, and words where the width matters (sequence numbers and cursors of
  events). The limit of admissions is the argument \<open>L\<close> of the runs.

  \<^bold>\<open>Not modelled.\<close> Libraries and the runtime: tree-sitter, SQLite itself, the async runtime,
  serialisation, HTTP and MCP framing, OAuth. Code that is a front end of something else: the
  browser and its host, the terminal screens and forms, the Android console, tmux, skill packages,
  the desktop prompt, audit lines, texts shown to the user. Of the modelled parts: of the files
  tool the reads, searches and diffs; of the path policy the command line of the sandbox; of the
  ledger the file modes and the lock file; of processes the waiting of a read for new output, the
  shaping of answers, the wake-ups of waiters, and the \<^verbatim>\<open>Result\<close> of small setters whose callers
  ignore it.
\<close>

section \<open>The patch tool\<close>

text \<open>C8.
  The chunks of any update hunk of any patch that parses can be applied to any file text, in
  either update mode, without a panic: the parser establishes what the updater relies on.
\<close>

theorem parsed_patch_never_panics:
  assumes "parse_patch patch = Inr parsed" and "UpdateFile src dest chunks \<in> set (args_hunks parsed)"
  shows "apply_update contents path chunks mode \<noteq> Inl Panicked"
proof (rule apply_update_total)
  have "list_all hunk_complete (args_hunks parsed)"
    using assms(1) by (auto simp: parse_patch_def intro: parse_patch_text_hunks)
  with assms(2) have "hunk_complete (UpdateFile src dest chunks)"
    by (simp add: list_all_iff del: hunk_complete.simps)
  then show "\<forall>c \<in> set chunks. chunk_ok c" by (simp add: list_all_iff)
qed

lemma parsed_patch_never_panics_witness:
  "apply_update (lit ''x'') (lit ''a'')
     [\<lparr>change_context = None, old_lines = [lit ''x''], new_lines = [lit ''y''],
       context_line_indices = [], is_end_of_file = False\<rparr>] PreserveLineEndings \<noteq> Inl Panicked"
proof -
  let ?text = "join [10] [lit ''*** Begin Patch'', lit ''*** Update File: a'',
    lit ''-x'', lit ''+y'', lit ''*** End Patch'']"
  let ?c = "\<lparr>change_context = None, old_lines = [lit ''x''], new_lines = [lit ''y''],
       context_line_indices = [], is_end_of_file = False\<rparr>"
  have "parse_patch ?text = Inr \<lparr>args_patch = ?text, args_hunks = [UpdateFile (lit ''a'') None [?c]],
    args_workdir = None, args_environment_id = None\<rparr>" by code_simp
  from parsed_patch_never_panics [OF this] show ?thesis by simp
qed

end
